(* ===== verification/PM_Prelude.thy ===== *)
theory PM_Prelude
  imports Main "HOL-Library.Word" "HOL-Library.Sublist"
begin

text \<open>
  Shared vocabulary of the development.  Go's \<open>string\<close> is a byte string: here it is HOL's
  \<open>string\<close> (8-bit characters).  The helpers of package \<open>strings\<close> that consult Unicode tables
  (\<open>TrimSpace\<close>, \<open>ToLower\<close>, \<open>ToUpper\<close>, \<open>EqualFold\<close>) are modelled on their ASCII range, which is
  the range of every keyword the program compares with; bytes from \<open>0x80\<close> are left alone.
  Go's \<open>int64\<close> is \<open>64 word\<close> where arithmetic may wrap, and \<open>int\<close> where a value is only
  compared and copied.  An operation that returns \<open>(T, error)\<close> returns \<open>error + T\<close>.
  The theory also holds the reachability predicate of step relations and the locale that
  turns a one-step invariant into one of all reachable states, and the one of relations whose runs
  are finite.
\<close>

named_theorems go_string "evaluation rules of the string helpers"
named_theorems step_elims "case analysis rules of step relations"

type_synonym byte = "8 word"
type_synonym i64 = "64 word"
type_synonym u64 = "64 word"

section \<open>Strings\<close>

definition is_go_space :: "char \<Rightarrow> bool" where
  "is_go_space c \<longleftrightarrow> c \<in> {CHR 0x09, CHR 0x0A, CHR 0x0B, CHR 0x0C, CHR 0x0D, CHR '' ''}"

definition trim_left :: "(char \<Rightarrow> bool) \<Rightarrow> string \<Rightarrow> string" where
  "trim_left p s = dropWhile p s"

definition trim_right :: "(char \<Rightarrow> bool) \<Rightarrow> string \<Rightarrow> string" where
  "trim_right p s = rev (dropWhile p (rev s))"

definition trim_both :: "(char \<Rightarrow> bool) \<Rightarrow> string \<Rightarrow> string" where
  "trim_both p s = trim_right p (trim_left p s)"

definition TrimSpace :: "string \<Rightarrow> string" where
  "TrimSpace s = trim_both is_go_space s"

definition lower_char :: "char \<Rightarrow> char" where
  "lower_char c = (let n = of_char c :: nat in if 65 \<le> n \<and> n \<le> 90 then char_of (n + 32) else c)"

definition upper_char :: "char \<Rightarrow> char" where
  "upper_char c = (let n = of_char c :: nat in if 97 \<le> n \<and> n \<le> 122 then char_of (n - 32) else c)"

definition ToLower :: "string \<Rightarrow> string" where
  "ToLower s = map lower_char s"

definition ToUpper :: "string \<Rightarrow> string" where
  "ToUpper s = map upper_char s"

definition EqualFold :: "string \<Rightarrow> string \<Rightarrow> bool" where
  "EqualFold s t \<longleftrightarrow> ToLower s = ToLower t"

text \<open>Index of the first and of the last occurrence of a byte.\<close>

fun IndexByte :: "char \<Rightarrow> string \<Rightarrow> nat option" where
  "IndexByte c [] = None"
| "IndexByte c (x # xs) = (if x = c then Some 0 else map_option Suc (IndexByte c xs))"

fun LastIndexByte :: "char \<Rightarrow> string \<Rightarrow> nat option" where
  "LastIndexByte c [] = None"
| "LastIndexByte c (x # xs) =
     (case LastIndexByte c xs of Some i \<Rightarrow> Some (Suc i) | None \<Rightarrow> if x = c then Some 0 else None)"

text \<open>\<open>strings.Split\<close> with a one-byte separator, and \<open>strings.Join\<close>.\<close>

fun SplitByte :: "char \<Rightarrow> string \<Rightarrow> string list" where
  "SplitByte c [] = [[]]"
| "SplitByte c (x # xs) =
     (if x = c then [] # SplitByte c xs
      else (case SplitByte c xs of [] \<Rightarrow> [[x]] | w # ws \<Rightarrow> (x # w) # ws))"

fun Join :: "string list \<Rightarrow> string \<Rightarrow> string" where
  "Join [] sep = []"
| "Join [w] sep = w"
| "Join (w # ws) sep = w @ sep @ Join ws sep"

text \<open>Decimal printing (\<open>strconv.Itoa\<close>, the verb \<open>%d\<close>).\<close>

definition digit_char :: "nat \<Rightarrow> char" where
  "digit_char d = char_of (48 + d)"

fun show_nat :: "nat \<Rightarrow> string" where
  "show_nat n = (if n < 10 then [digit_char n] else show_nat (n div 10) @ [digit_char (n mod 10)])"

declare show_nat.simps [simp del]

definition Itoa :: "int \<Rightarrow> string" where
  "Itoa i = (if i < 0 then ''-'' @ show_nat (nat (- i)) else show_nat (nat i))"

text \<open>\<open>net.JoinHostPort\<close>: a host that contains a colon is bracketed.\<close>

definition JoinHostPort :: "string \<Rightarrow> string \<Rightarrow> string" where
  "JoinHostPort host port =
     (if CHR '':'' \<in> set host then ''['' @ host @ '']:'' @ port else host @ '':'' @ port)"

datatype addr_error = MissingPort | TooManyColons | MissingBracket | UnexpectedOpen | UnexpectedClose

text \<open>\<open>net.SplitHostPort\<close>, with the order of its checks.\<close>

definition SplitHostPort :: "string \<Rightarrow> addr_error + (string \<times> string)" where
  "SplitHostPort hp =
     (case LastIndexByte CHR '':'' hp of
        None \<Rightarrow> Inl MissingPort
      | Some i \<Rightarrow>
          (let finish = (\<lambda>host j k.
             if CHR ''['' \<in> set (drop j hp) then Inl UnexpectedOpen
             else if CHR '']'' \<in> set (drop k hp) then Inl UnexpectedClose
             else Inr (host, drop (Suc i) hp))
           in if take 1 hp = ''[''
              then (case IndexByte CHR '']'' hp of
                      None \<Rightarrow> Inl MissingBracket
                    | Some e \<Rightarrow>
                        if Suc e = length hp then Inl MissingPort
                        else if Suc e = i then finish (drop 1 (take e hp)) 1 (Suc e)
                        else if hp ! Suc e = CHR '':'' then Inl TooManyColons
                        else Inl MissingPort)
              else if CHR '':'' \<in> set (take i hp) then Inl TooManyColons
              else finish (take i hp) 0 0))"

subsection \<open>Facts about the string helpers\<close>

lemma dropWhile_idem [simp]: "dropWhile p (dropWhile p s) = dropWhile p s"
  by (induction s) auto

lemma dropWhile_id: "s = [] \<or> \<not> p (hd s) \<Longrightarrow> dropWhile p s = s"
  by (cases s) auto

lemma trim_right_Cons: "\<not> p x \<Longrightarrow> \<exists>ys. trim_right p (x # xs) = x # ys"
proof (cases "\<exists>y\<in>set xs. \<not> p y")
  case True
  then have "trim_right p (x # xs) = x # rev (dropWhile p (rev xs))"
    by (auto simp: trim_right_def dropWhile_append)
  then show ?thesis by blast
next
  case False
  then have "dropWhile p (rev xs) = []" by simp
  then show "\<not> p x \<Longrightarrow> ?thesis" by (simp add: trim_right_def dropWhile_append)
qed

lemma trim_both_idem: "trim_both p (trim_both p s) = trim_both p s"
proof (cases "dropWhile p s")
  case Nil
  then show ?thesis by (simp only: trim_both_def trim_left_def trim_right_def) simp
next
  case (Cons x xs)
  then have x: "\<not> p x" by (metis dropWhile_eq_Cons_conv)
  obtain ys where ys: "trim_right p (x # xs) = x # ys" using trim_right_Cons [where p = p and x = x and xs = xs] x by blast
  have "trim_right p (trim_right p (x # xs)) = trim_right p (x # xs)"
    by (simp add: trim_right_def)
  with Cons ys x show ?thesis by (simp add: trim_both_def trim_left_def)
qed

lemma TrimSpace_idem [simp]: "TrimSpace (TrimSpace s) = TrimSpace s"
  by (simp add: TrimSpace_def trim_both_idem)

lemma TrimSpace_Nil [simp]: "TrimSpace [] = []"
  by (simp add: TrimSpace_def trim_both_def trim_left_def trim_right_def)

lemma lower_char_idem [simp]: "lower_char (lower_char c) = lower_char c"
  by (auto simp: lower_char_def Let_def of_char_of)

lemma ToLower_idem [simp]: "ToLower (ToLower s) = ToLower s"
  by (simp add: ToLower_def)

lemma EqualFold_refl [simp]: "EqualFold s s"
  by (simp add: EqualFold_def)

lemma EqualFold_sym: "EqualFold s t \<longleftrightarrow> EqualFold t s"
  by (auto simp: EqualFold_def)

lemma IndexByte_None [simp]: "c \<notin> set s \<Longrightarrow> IndexByte c s = None"
  by (induction s) auto

lemma LastIndexByte_None [simp]: "c \<notin> set s \<Longrightarrow> LastIndexByte c s = None"
  by (induction s) auto

lemma IndexByte_append: "c \<notin> set xs \<Longrightarrow> IndexByte c (xs @ c # ys) = Some (length xs)"
  by (induction xs) auto

lemma LastIndexByte_append: "c \<notin> set ys \<Longrightarrow> LastIndexByte c (xs @ c # ys) = Some (length xs)"
  by (induction xs) auto

lemma SplitByte_ne [simp]: "SplitByte c s \<noteq> []"
  by (cases s) (auto split: list.splits)

lemma digits_show_nat: "set (show_nat n) \<subseteq> digit_char ` {..<10}"
proof (induction n rule: show_nat.induct)
  case (1 n)
  then show ?case by (subst show_nat.simps) auto
qed

lemma of_digit_char: "d < 10 \<Longrightarrow> (of_char (digit_char d) :: nat) = 48 + d"
  by (simp add: digit_char_def of_char_of)

lemma digit_char_not: "d < 10 \<Longrightarrow> digit_char d \<noteq> c" if "(of_char c :: nat) < 48 \<or> 57 < (of_char c :: nat)"
  using that of_digit_char [of d] by auto

lemmas digit_char_no_delim [simp] =
  digit_char_not [of "CHR '':''", simplified] digit_char_not [of "CHR ''[''", simplified]
  digit_char_not [of "CHR '']''", simplified]

lemma show_nat_not_in: "(\<And>d. d < 10 \<Longrightarrow> digit_char d \<noteq> c) \<Longrightarrow> c \<notin> set (show_nat n)"
  using digits_show_nat [of n] by blast

lemma show_nat_no_delims [simp]:
  "CHR '':'' \<notin> set (show_nat n)" "CHR ''['' \<notin> set (show_nat n)" "CHR '']'' \<notin> set (show_nat n)"
  by (rule show_nat_not_in, rule digit_char_no_delim, assumption)+

text \<open>What \<open>JoinHostPort\<close> builds, \<open>SplitHostPort\<close> takes apart again.\<close>

lemma SplitHostPort_JoinHostPort:
  assumes "CHR ''['' \<notin> set host" "CHR '']'' \<notin> set host"
    and "CHR '':'' \<notin> set port" "CHR ''['' \<notin> set port" "CHR '']'' \<notin> set port"
  shows "SplitHostPort (JoinHostPort host port) = Inr (host, port)"
proof (cases "CHR '':'' \<in> set host")
  case True
  have i: "LastIndexByte CHR '':'' (CHR ''['' # host @ CHR '']'' # CHR '':'' # port) = Some (length host + 2)"
    using LastIndexByte_append [of "CHR '':''" port "CHR ''['' # host @ [CHR '']'']"] assms by simp
  have e: "IndexByte CHR '']'' (CHR ''['' # host @ CHR '']'' # CHR '':'' # port) = Some (length host + 1)"
    using IndexByte_append [of "CHR '']''" "CHR ''['' # host" "CHR '':'' # port"] assms by simp
  show ?thesis
    using True assms i e
    by (simp add: SplitHostPort_def JoinHostPort_def Let_def)
next
  case False
  have i: "LastIndexByte CHR '':'' (host @ CHR '':'' # port) = Some (length host)"
    using LastIndexByte_append assms by simp
  have "take 1 (host @ CHR '':'' # port) \<noteq> ''[''"
    using assms by (cases host) auto
  then show ?thesis
    using False assms i
    by (simp add: SplitHostPort_def JoinHostPort_def Let_def)
qed

section \<open>Lists that are updated at one place\<close>

abbreviation cnt :: "('a \<Rightarrow> bool) \<Rightarrow> 'a list \<Rightarrow> nat" where
  "cnt p xs \<equiv> length (filter p xs)"

lemma cnt_update:
  "i < length xs \<Longrightarrow> cnt p (xs[i := y]) + (if p (xs ! i) then 1 else 0) = cnt p xs + (if p y then 1 else 0)"
proof (induction xs arbitrary: i)
  case (Cons a xs)
  then show ?case by (cases i) auto
qed simp

lemma cnt_pos: "i < length xs \<Longrightarrow> p (xs ! i) \<Longrightarrow> 0 < cnt p xs"
  by (auto simp: filter_empty_conv)

lemma sum_list_map_update:
  fixes f :: "'a \<Rightarrow> 'b :: comm_monoid_add"
  shows "i < length xs \<Longrightarrow> sum_list (map f (xs[i := y])) + f (xs ! i) = sum_list (map f xs) + f y"
proof (induction xs arbitrary: i)
  case (Cons a xs)
  show ?case
  proof (cases i)
    case (Suc k)
    then have "sum_list (map f (xs[k := y])) + f (xs ! k) = sum_list (map f xs) + f y" using Cons by simp
    then show ?thesis using Suc by (simp add: add.assoc)
  qed (simp add: ac_simps)
qed simp

section \<open>64-bit integers\<close>

lemma sint_i64_range: "- (2 ^ 63) \<le> sint (x :: i64)" "sint (x :: i64) < 2 ^ 63"
  using sint_range_size [of x] by (simp_all add: word_size)

lemma sint_of_int_i64: "- (2 ^ 63) \<le> k \<Longrightarrow> k < 2 ^ 63 \<Longrightarrow> sint (word_of_int k :: i64) = k"
  unfolding sint_sbintrunc' by (intro signed_take_bit_int_eq_self) simp_all

section \<open>Step relations\<close>

inductive reach :: "('s \<Rightarrow> bool) \<Rightarrow> ('s \<Rightarrow> 's \<Rightarrow> bool) \<Rightarrow> 's \<Rightarrow> bool"
  for init step where
  reach_init: "init s \<Longrightarrow> reach init step s"
| reach_step: "reach init step s \<Longrightarrow> step s t \<Longrightarrow> reach init step t"

text \<open>The contract every state machine of the development discharges: an initial condition and
  a predicate that each step keeps.\<close>

locale invariant_system =
  fixes init :: "'s \<Rightarrow> bool"
    and step :: "'s \<Rightarrow> 's \<Rightarrow> bool"
    and inv :: "'s \<Rightarrow> bool"
  assumes inv_init: "init s \<Longrightarrow> inv s"
    and inv_step: "inv s \<Longrightarrow> step s t \<Longrightarrow> inv t"
begin

lemma inv_reach: "reach init step s \<Longrightarrow> inv s"
  by (induction rule: reach.induct) (auto intro: inv_init inv_step)

lemma inv_steps: "inv s \<Longrightarrow> step\<^sup>*\<^sup>* s t \<Longrightarrow> inv t"
  by (rotate_tac, induction rule: rtranclp_induct) (auto intro: inv_step)

end

text \<open>The contract of a relation whose runs are finite: a rank that every step lowers, and a step
  from every state that is not final.\<close>

locale ranked_system =
  fixes step :: "'s \<Rightarrow> 's \<Rightarrow> bool"
    and inv :: "'s \<Rightarrow> bool"
    and rank :: "'s \<Rightarrow> nat"
    and fin :: "'s \<Rightarrow> bool"
  assumes keep: "inv s \<Longrightarrow> step s t \<Longrightarrow> inv t"
    and rank_less: "inv s \<Longrightarrow> step s t \<Longrightarrow> rank t < rank s"
    and progress: "inv s \<Longrightarrow> \<not> fin s \<Longrightarrow> \<exists>t. step s t"
begin

lemma run_bound: "(step ^^ n) s t \<Longrightarrow> inv s \<Longrightarrow> inv t \<and> n + rank t \<le> rank s"
proof (induction n arbitrary: t)
  case (Suc n)
  obtain u where u: "(step ^^ n) s u" "step u t" using Suc.prems(1) by auto
  have "inv u \<and> n + rank u \<le> rank s" using Suc u by blast
  then show ?case using keep [of u t] rank_less [of u t] u(2) by fastforce
qed simp

lemma can_finish: "inv s \<Longrightarrow> \<exists>t. step\<^sup>*\<^sup>* s t \<and> fin t"
proof (induction "rank s" arbitrary: s rule: less_induct)
  case less
  show ?case
  proof (cases "fin s")
    case False
    then obtain u where u: "step s u" using progress less.prems by blast
    then obtain t where "step\<^sup>*\<^sup>* u t \<and> fin t"
      using less.hyps [of u] rank_less [OF less.prems u] keep [OF less.prems u] by blast
    then show ?thesis using u by (meson converse_rtranclp_into_rtranclp)
  qed blast
qed

end

end
