(* ===== verification/Net_IP.thy ===== *)
theory Net_IP
  imports PM_Prelude
begin

text \<open>
  The part of Go's package \<open>net\<close> the program relies on: \<open>net.IP\<close> as a slice of 4 or 16 bytes
  (an empty slice is nil), its predicates, \<open>net.ParseIP\<close>, \<open>IP.String\<close>, and the environment the
  program asks for names and local interface addresses.  The loopback test of the two HTTP
  endpoints (\<open>isLoopbackHost\<close> of internal/stats/http.go and internal/web/web.go) and the local
  address test shared by internal/forward/selftarget.go and internal/proxy/server.go stand here
  because every guard of the program rests on them.
\<close>

unbundle bit_operations_syntax

type_synonym netip = "byte list"

section \<open>Predicates of net.IP\<close>

definition IPv4 :: "byte \<Rightarrow> byte \<Rightarrow> byte \<Rightarrow> byte \<Rightarrow> netip" where
  "IPv4 a b c d = replicate 10 0 @ [255, 255, a, b, c, d]"

definition IPv6loopback :: netip where
  "IPv6loopback = replicate 15 0 @ [1]"

definition IPv6unspecified :: netip where
  "IPv6unspecified = replicate 16 0"

definition To4 :: "netip \<Rightarrow> netip option" where
  "To4 ip =
     (if length ip = 4 then Some ip
      else if length ip = 16 \<and> take 10 ip = replicate 10 0 \<and> ip ! 10 = 255 \<and> ip ! 11 = 255
      then Some (drop 12 ip) else None)"

definition ip_Equal :: "netip \<Rightarrow> netip \<Rightarrow> bool" where
  "ip_Equal a b =
     (if length a = length b then a = b
      else if length a = 4 \<and> length b = 16 then take 12 b = replicate 10 0 @ [255, 255] \<and> a = drop 12 b
      else if length a = 16 \<and> length b = 4 then take 12 a = replicate 10 0 @ [255, 255] \<and> drop 12 a = b
      else False)"

definition IsUnspecified :: "netip \<Rightarrow> bool" where
  "IsUnspecified ip \<longleftrightarrow> ip_Equal ip (IPv4 0 0 0 0) \<or> ip_Equal ip IPv6unspecified"

definition IsLoopback :: "netip \<Rightarrow> bool" where
  "IsLoopback ip = (case To4 ip of Some v4 \<Rightarrow> v4 ! 0 = 127 | None \<Rightarrow> ip_Equal ip IPv6loopback)"

definition IsLinkLocalUnicast :: "netip \<Rightarrow> bool" where
  "IsLinkLocalUnicast ip =
     (case To4 ip of Some v4 \<Rightarrow> v4 ! 0 = 169 \<and> v4 ! 1 = 254
      | None \<Rightarrow> length ip = 16 \<and> ip ! 0 = 0xfe \<and> (ip ! 1) AND 0xc0 = 0x80)"

definition IsLinkLocalMulticast :: "netip \<Rightarrow> bool" where
  "IsLinkLocalMulticast ip =
     (case To4 ip of Some v4 \<Rightarrow> v4 ! 0 = 224 \<and> v4 ! 1 = 0 \<and> v4 ! 2 = 0
      | None \<Rightarrow> length ip = 16 \<and> ip ! 0 = 0xff \<and> (ip ! 1) AND 0x0f = 0x02)"

section \<open>Parsing and printing\<close>

definition digit_val :: "char \<Rightarrow> nat option" where
  "digit_val c = (let n = of_char c :: nat in if 48 \<le> n \<and> n \<le> 57 then Some (n - 48) else None)"

definition hex_val :: "char \<Rightarrow> nat option" where
  "hex_val c = (let n = of_char c :: nat in
     if 48 \<le> n \<and> n \<le> 57 then Some (n - 48)
     else if 97 \<le> n \<and> n \<le> 102 then Some (n - 87)
     else if 65 \<le> n \<and> n \<le> 70 then Some (n - 55) else None)"

text \<open>One decimal field: no empty field, no leading zero, at most 255.\<close>

fun octet_digits :: "nat \<Rightarrow> nat \<Rightarrow> string \<Rightarrow> nat option" where
  "octet_digits len val [] = (if len = 0 then None else Some val)"
| "octet_digits len val (c # cs) =
     (case digit_val c of
        None \<Rightarrow> None
      | Some d \<Rightarrow>
          if len = 1 \<and> val = 0 then None
          else if val * 10 + d > 255 then None
          else octet_digits (Suc len) (val * 10 + d) cs)"

definition parse_octet :: "string \<Rightarrow> nat option" where
  "parse_octet s = octet_digits 0 0 s"

definition parse_v4_fields :: "string \<Rightarrow> byte list option" where
  "parse_v4_fields s =
     (case map parse_octet (SplitByte CHR ''.'' s) of
        [Some a, Some b, Some c, Some d] \<Rightarrow> Some [of_nat a, of_nat b, of_nat c, of_nat d]
      | _ \<Rightarrow> None)"

text \<open>The hex groups of an IPv6 literal: the bytes so far, where an ellipsis stands, and the
  text left.  Each round consumes at least one digit.\<close>

fun hex_run :: "nat \<Rightarrow> string \<Rightarrow> nat \<times> nat \<times> string" where
  "hex_run acc [] = (0, acc, [])"
| "hex_run acc (c # cs) =
     (case hex_val c of
        None \<Rightarrow> (0, acc, c # cs)
      | Some d \<Rightarrow> (case hex_run (acc * 16 + d) cs of (n, v, rest) \<Rightarrow> (Suc n, v, rest)))"

lemma hex_run_length: "hex_run acc s = (n, v, rest) \<Longrightarrow> length rest + n = length s"
  by (induction acc s arbitrary: n v rest rule: hex_run.induct)
    (auto split: option.splits prod.splits)

function v6_groups :: "byte list \<Rightarrow> nat option \<Rightarrow> string \<Rightarrow> (byte list \<times> nat option) option" where
  "v6_groups bs ell s =
     (if length bs \<ge> 16 then (if s = [] then Some (bs, ell) else None)
      else (case hex_run 0 s of (n, v, rest) \<Rightarrow>
        if n = 0 \<or> n > 4 then None
        else if rest \<noteq> [] \<and> hd rest = CHR ''.'' then
          (if ell = None \<and> length bs \<noteq> 12 \<or> length bs + 4 > 16 then None
           else (case parse_v4_fields s of None \<Rightarrow> None | Some f \<Rightarrow> Some (bs @ f, ell)))
        else (let bs' = bs @ [of_nat (v div 256), of_nat (v mod 256)] in
          case rest of
            [] \<Rightarrow> Some (bs', ell)
          | c # cs \<Rightarrow>
              if c \<noteq> CHR '':'' \<or> cs = [] then None
              else if hd cs = CHR '':'' then
                (if ell \<noteq> None then None
                 else if tl cs = [] then Some (bs', Some (length bs'))
                 else v6_groups bs' (Some (length bs')) (tl cs))
              else v6_groups bs' ell cs)))"
  by pat_completeness auto
termination
  by (relation "measure (\<lambda>(bs, ell, s). length s)") (auto dest!: hex_run_length [OF sym])

declare v6_groups.simps [simp del]

definition v6_expand :: "byte list \<times> nat option \<Rightarrow> netip option" where
  "v6_expand r =
     (case r of (bs, ell) \<Rightarrow>
        if length bs < 16 then
          (case ell of None \<Rightarrow> None
           | Some e \<Rightarrow> Some (take e bs @ replicate (16 - length bs) 0 @ drop e bs))
        else if ell \<noteq> None then None else Some bs)"

definition parse_v6 :: "string \<Rightarrow> netip option" where
  "parse_v6 s =
     (if take 2 s = ''::'' then
        (if drop 2 s = [] then Some IPv6unspecified
         else Option.bind (v6_groups [] (Some 0) (drop 2 s)) v6_expand)
      else Option.bind (v6_groups [] None s) v6_expand)"

text \<open>\<open>net.ParseIP\<close> answers with the 16-byte form; a zone is an error.\<close>

definition ParseIP :: "string \<Rightarrow> netip option" where
  "ParseIP s =
     (case dropWhile (\<lambda>c. c \<notin> {CHR ''.'', CHR '':'', CHR ''%''}) s of
        [] \<Rightarrow> None
      | c # _ \<Rightarrow>
          if c = CHR ''.'' then map_option (\<lambda>f. replicate 10 0 @ [255, 255] @ f) (parse_v4_fields s)
          else if c = CHR ''%'' \<or> CHR ''%'' \<in> set s then None
          else parse_v6 s)"

definition hex_digit :: "nat \<Rightarrow> char" where
  "hex_digit n = char_of (if n < 10 then 48 + n else 87 + n)"

fun show_hex :: "nat \<Rightarrow> string" where
  "show_hex n = (if n < 16 then [hex_digit n] else show_hex (n div 16) @ [hex_digit (n mod 16)])"

declare show_hex.simps [simp del]

fun groups_of :: "netip \<Rightarrow> nat list" where
  "groups_of (a # b # bs) = (unat a * 256 + unat b) # groups_of bs"
| "groups_of _ = []"

definition zero_run :: "nat list \<Rightarrow> nat" where
  "zero_run gs = length (takeWhile (\<lambda>g. g = 0) gs)"

text \<open>The first longest run of at least two zero groups is elided.\<close>

fun best_run :: "nat \<Rightarrow> nat list \<Rightarrow> nat \<times> nat" where
  "best_run i [] = (0, 0)"
| "best_run i (g # gs) =
     (case best_run (Suc i) gs of (j, n) \<Rightarrow>
        if zero_run (g # gs) \<ge> n \<and> zero_run (g # gs) \<ge> 2 then (i, zero_run (g # gs)) else (j, n))"

definition show_v6 :: "netip \<Rightarrow> string" where
  "show_v6 ip =
     (let gs = groups_of ip in
      case best_run 0 gs of (i, n) \<Rightarrow>
        if n < 2 then Join (map show_hex gs) '':''
        else Join (map show_hex (take i gs)) '':'' @ ''::'' @ Join (map show_hex (drop (i + n) gs)) '':'')"

definition show_v4 :: "netip \<Rightarrow> string" where
  "show_v4 ip = Join (map (\<lambda>b. show_nat (unat b)) ip) ''.''"

definition ip_String :: "netip \<Rightarrow> string" where
  "ip_String ip =
     (if ip = [] then ''<nil>'' else case To4 ip of Some v4 \<Rightarrow> show_v4 v4 | None \<Rightarrow> show_v6 ip)"

section \<open>The environment and the program's address tests\<close>

text \<open>Answers of the resolver and of the operating system.  \<open>LookupIP\<close> and \<open>InterfaceAddrs\<close>
  may fail (\<open>None\<close>); an interface address whose text does not parse is \<open>None\<close> in the list.\<close>

record net_env =
  LookupIP :: "string \<Rightarrow> netip list option"
  LookupPort :: "string \<Rightarrow> string \<Rightarrow> int option"
  InterfaceAddrs :: "netip option list option"
  InterfaceByName :: "string \<Rightarrow> int option"

definition isLocalIP :: "net_env \<Rightarrow> netip \<Rightarrow> bool" where
  "isLocalIP env target =
     (if IsLoopback target then True
      else (case InterfaceAddrs env of
              None \<Rightarrow> False
            | Some addrs \<Rightarrow>
                list_ex (\<lambda>a. case a of None \<Rightarrow> False | Some ip \<Rightarrow> ip_Equal ip target) addrs))"

definition isLoopbackHost :: "net_env \<Rightarrow> string \<Rightarrow> bool" where
  "isLoopbackHost env addr =
     (case SplitHostPort addr of
        Inl _ \<Rightarrow> False
      | Inr (host, _) \<Rightarrow>
          if host = [] then False
          else (case ParseIP host of
                  None \<Rightarrow>
                    (case LookupIP env host of
                       None \<Rightarrow> False
                     | Some ips \<Rightarrow> if ips = [] then False else list_all IsLoopback ips)
                | Some ip \<Rightarrow> IsLoopback ip))"

text \<open>An environment in which nothing resolves, for concrete runs.\<close>

definition quiet_env :: net_env where
  "quiet_env = \<lparr>LookupIP = (\<lambda>_. None), LookupPort = (\<lambda>_ _. None), InterfaceAddrs = None,
     InterfaceByName = (\<lambda>_. None)\<rparr>"

section \<open>Facts\<close>

lemma To4_IPv4 [simp]: "To4 (IPv4 a b c d) = Some [a, b, c, d]"
  by (simp add: To4_def IPv4_def numeral_eq_Suc)

lemma To4_4 [simp]: "length ip = 4 \<Longrightarrow> To4 ip = Some ip"
  by (simp add: To4_def)

lemma ip_Equal_refl [simp]: "ip_Equal a a"
  by (simp add: ip_Equal_def)

lemma ip_Equal_sym: "ip_Equal a b = ip_Equal b a"
  by (auto simp: ip_Equal_def)

lemma ip_Equal_v4: "ip_Equal [a, b, c, d] (IPv4 a b c d)"
  by (simp add: ip_Equal_def IPv4_def numeral_eq_Suc)

lemma digit_val_digit_char [simp]: "d < 10 \<Longrightarrow> digit_val (digit_char d) = Some d"
  by (simp add: digit_val_def of_digit_char Let_def)

text \<open>A printed octet parses to itself.\<close>

lemma parse_octet_show_nat:
  assumes "n < 256"
  shows "parse_octet (show_nat n) = Some n"
proof -
  consider "n < 10" | "10 \<le> n" "n < 100" | "100 \<le> n" by linarith
  then show ?thesis
  proof cases
    case 1
    then show ?thesis by (simp add: parse_octet_def show_nat.simps)
  next
    case 2
    define a b where "a = n div 10" and "b = n mod 10"
    have ab: "a < 10" "0 < a" "b < 10" "a * 10 + b = n"
      using 2 by (auto simp: a_def b_def)
    have "show_nat n = [digit_char a, digit_char b]"
      using 2 ab by (simp add: show_nat.simps [of n] show_nat.simps [of "n div 10"] a_def b_def)
    then show ?thesis using ab assms by (simp add: parse_octet_def)
  next
    case 3
    define a b c where "a = n div 10 div 10" and "b = n div 10 mod 10" and "c = n mod 10"
    have abc: "a < 10" "0 < a" "b < 10" "c < 10" "(a * 10 + b) * 10 + c = n" "a * 10 + b \<le> 25"
      using 3 assms by (auto simp: a_def b_def c_def)
    have "show_nat n = [digit_char a, digit_char b, digit_char c]"
      using 3 abc by (simp add: show_nat.simps [of n] show_nat.simps [of "n div 10"]
          show_nat.simps [of "n div 10 div 10"] a_def b_def c_def)
    then show ?thesis using abc assms by (simp add: parse_octet_def)
  qed
qed

lemma dot_notin_show_nat [simp]: "CHR ''.'' \<notin> set (show_nat n)" "CHR ''%'' \<notin> set (show_nat n)"
  by (rule show_nat_not_in, rule digit_char_not, simp_all)+

lemma SplitByte_append: "c \<notin> set w \<Longrightarrow> SplitByte c (w @ c # s) = w # SplitByte c s"
  by (induction w) auto

lemma SplitByte_single: "c \<notin> set w \<Longrightarrow> SplitByte c w = [w]"
  by (induction w) auto

lemma dropWhile_to_dot:
  "CHR ''.'' \<notin> set w \<Longrightarrow> CHR '':'' \<notin> set w \<Longrightarrow> CHR ''%'' \<notin> set w \<Longrightarrow>
   dropWhile (\<lambda>c. c \<notin> {CHR ''.'', CHR '':'', CHR ''%''}) (w @ CHR ''.'' # s) = CHR ''.'' # s"
  by (induction w) auto

text \<open>The textual form of an IPv4 address parses back to that address.\<close>

lemma ParseIP_show_v4:
  "ParseIP (show_v4 [a, b, c, d]) = Some (IPv4 a b c d)"
proof -
  have lt: "unat (x :: byte) < 256" for x using unsigned_less [of x] by simp
  have split: "SplitByte CHR ''.'' (show_v4 [a, b, c, d]) = map (\<lambda>b. show_nat (unat b)) [a, b, c, d]"
    by (simp add: show_v4_def SplitByte_append SplitByte_single)
  then have fields: "parse_v4_fields (show_v4 [a, b, c, d]) = Some [a, b, c, d]"
    by (simp add: parse_v4_fields_def parse_octet_show_nat lt)
  have "dropWhile (\<lambda>c. c \<notin> {CHR ''.'', CHR '':'', CHR ''%''}) (show_v4 [a, b, c, d])
      = CHR ''.'' # Join (map (\<lambda>b. show_nat (unat b)) [b, c, d]) ''.''"
    using dropWhile_to_dot [of "show_nat (unat a)"] by (simp add: show_v4_def)
  with fields show ?thesis by (simp add: ParseIP_def IPv4_def)
qed

lemma show_v4_no_brackets:
  "CHR ''['' \<notin> set (show_v4 [a, b, c, d])" "CHR '']'' \<notin> set (show_v4 [a, b, c, d])"
  "CHR '':'' \<notin> set (show_v4 [a, b, c, d])"
  by (simp_all add: show_v4_def)

lemma IsLoopback_4: "IsLoopback [a, b, c, d] \<longleftrightarrow> a = 127"
  by (simp add: IsLoopback_def To4_def)

end
