(* ===== verification/Stats_Model.thy ===== *)
theory Stats_Model
  imports Net_IP "HOL-Library.Multiset"
begin

text \<open>
  Package internal/stats: the atomic counters of one service instance (stats.go), the bounded
  event log (events.go), and the aggregation and text rendering of the HTTP endpoint (http.go).
  Counters are Go's \<open>int64\<close>, so they are 64-bit words that wrap.  Two interfaces are stated as
  locales: a log that keeps its newest entries, and an aggregation of snapshots.
\<close>

section \<open>Counters (stats.go)\<close>

record Counters =
  activeConns :: i64
  totalConns :: i64
  rejectedConns :: i64
  dialErrors :: i64
  upBytes :: i64
  downBytes :: i64
  startTime :: int

record Snapshot =
  ActiveConns :: i64
  TotalConns :: i64
  RejectedConns :: i64
  DialErrors :: i64
  UpBytes :: i64
  DownBytes :: i64
  Uptime :: int

definition stats_New :: "int \<Rightarrow> Counters" where
  "stats_New now = \<lparr>activeConns = 0, totalConns = 0, rejectedConns = 0, dialErrors = 0,
     upBytes = 0, downBytes = 0, startTime = now\<rparr>"

text \<open>\<open>nextConnID\<close> is one counter of the whole process: it is threaded beside the instance.\<close>

definition ConnOpened :: "Counters \<Rightarrow> i64 \<Rightarrow> Counters \<times> i64 \<times> i64" where
  "ConnOpened c nextConnID =
     (c\<lparr>activeConns := activeConns c + 1, totalConns := totalConns c + 1\<rparr>,
      nextConnID + 1, nextConnID + 1)"

definition ConnClosed :: "Counters \<Rightarrow> Counters" where
  "ConnClosed c = c\<lparr>activeConns := activeConns c - 1\<rparr>"

definition AddUp :: "Counters \<Rightarrow> i64 \<Rightarrow> Counters" where
  "AddUp c n = (if n \<noteq> 0 then c\<lparr>upBytes := upBytes c + n\<rparr> else c)"

definition AddDown :: "Counters \<Rightarrow> i64 \<Rightarrow> Counters" where
  "AddDown c n = (if n \<noteq> 0 then c\<lparr>downBytes := downBytes c + n\<rparr> else c)"

definition Reject :: "Counters \<Rightarrow> Counters" where
  "Reject c = c\<lparr>rejectedConns := rejectedConns c + 1\<rparr>"

definition DialError :: "Counters \<Rightarrow> Counters" where
  "DialError c = c\<lparr>dialErrors := dialErrors c + 1\<rparr>"

definition Counters_Snapshot :: "int \<Rightarrow> Counters \<Rightarrow> Snapshot" where
  "Counters_Snapshot now c = \<lparr>ActiveConns = activeConns c, TotalConns = totalConns c,
     RejectedConns = rejectedConns c, DialErrors = dialErrors c, UpBytes = upBytes c,
     DownBytes = downBytes c, Uptime = now - startTime c\<rparr>"

definition Snapshot_Add :: "Snapshot \<Rightarrow> Snapshot \<Rightarrow> Snapshot" where
  "Snapshot_Add s o' = s\<lparr>ActiveConns := ActiveConns s + ActiveConns o',
     TotalConns := TotalConns s + TotalConns o',
     RejectedConns := RejectedConns s + RejectedConns o',
     DialErrors := DialErrors s + DialErrors o',
     UpBytes := UpBytes s + UpBytes o',
     DownBytes := DownBytes s + DownBytes o',
     Uptime := (if Uptime o' > Uptime s then Uptime o' else Uptime s)\<rparr>"

text \<open>The zero value \<open>var agg Snapshot\<close>, and the loop that skips nil providers.\<close>

definition zeroSnapshot :: Snapshot where
  "zeroSnapshot = \<lparr>ActiveConns = 0, TotalConns = 0, RejectedConns = 0, DialErrors = 0,
     UpBytes = 0, DownBytes = 0, Uptime = 0\<rparr>"

fun Aggregate_from :: "Snapshot \<Rightarrow> Snapshot option list \<Rightarrow> Snapshot" where
  "Aggregate_from agg [] = agg"
| "Aggregate_from agg (None # ps) = Aggregate_from agg ps"
| "Aggregate_from agg (Some p # ps) = Aggregate_from (Snapshot_Add agg p) ps"

definition Aggregate :: "Snapshot option list \<Rightarrow> Snapshot" where
  "Aggregate providers = Aggregate_from zeroSnapshot providers"

subsection \<open>The counters of a process as a run of operations\<close>

datatype stats_op = Opened | Closed | Up i64 | Down i64 | Rejected | DialFailed

text \<open>The state of a run: the instances, the process-wide counter, the ids handed out (newest
  first).  An operation names the instance it is applied to.\<close>

type_synonym stats_state = "(nat \<Rightarrow> Counters) \<times> i64 \<times> i64 list"

fun stats_step :: "stats_state \<Rightarrow> nat \<times> stats_op \<Rightarrow> stats_state" where
  "stats_step (cs, nid, ids) (i, Opened) =
     (case ConnOpened (cs i) nid of (c, nid', connID) \<Rightarrow> (cs(i := c), nid', connID # ids))"
| "stats_step (cs, nid, ids) (i, Closed) = (cs(i := ConnClosed (cs i)), nid, ids)"
| "stats_step (cs, nid, ids) (i, Up n) = (cs(i := AddUp (cs i) n), nid, ids)"
| "stats_step (cs, nid, ids) (i, Down n) = (cs(i := AddDown (cs i) n), nid, ids)"
| "stats_step (cs, nid, ids) (i, Rejected) = (cs(i := Reject (cs i)), nid, ids)"
| "stats_step (cs, nid, ids) (i, DialFailed) = (cs(i := DialError (cs i)), nid, ids)"

definition stats_run :: "stats_state \<Rightarrow> (nat \<times> stats_op) list \<Rightarrow> stats_state" where
  "stats_run s ops = foldl stats_step s ops"

definition is_open :: "nat \<times> stats_op \<Rightarrow> bool" where
  "is_open x \<longleftrightarrow> snd x = Opened"

section \<open>Event log (events.go)\<close>

record Event =
  evTime :: string
  evKind :: string
  evProto :: string
  evClient :: string
  evTarget :: string
  evUpBytes :: i64
  evDownBytes :: i64
  evDurationMs :: int
  evConnID :: i64

record EventLog =
  log_entries :: "Event list"
  log_max :: nat

definition NewEventLog :: "int \<Rightarrow> EventLog" where
  "NewEventLog max' = \<lparr>log_entries = [], log_max = (if max' \<le> 0 then 1000 else nat max')\<rparr>"

text \<open>\<open>Append\<close> on a non-nil log, and through the pointer, where nil is a no-op.\<close>

definition EventLog_Append :: "EventLog \<Rightarrow> Event \<Rightarrow> EventLog" where
  "EventLog_Append l e =
     (let es = log_entries l @ [e] in
      if length es > log_max l then l\<lparr>log_entries := drop (length es - log_max l) es\<rparr>
      else l\<lparr>log_entries := es\<rparr>)"

definition Append :: "EventLog option \<Rightarrow> Event \<Rightarrow> EventLog option" where
  "Append l e = (case l of None \<Rightarrow> None | Some l' \<Rightarrow> Some (EventLog_Append l' e))"

text \<open>\<open>EventLog.Snapshot\<close> copies the entries; it has no nil guard (\<open>None\<close> is the nil
  dereference), so its caller \<open>web.handleLogs\<close> tests first.\<close>

definition EventLog_Snapshot :: "EventLog option \<Rightarrow> Event list option" where
  "EventLog_Snapshot l = (case l of None \<Rightarrow> None | Some l' \<Rightarrow> Some (log_entries l'))"

section \<open>Text of the metrics endpoint (http.go)\<close>

definition writeMetric :: "string \<Rightarrow> string \<Rightarrow> string \<Rightarrow> int \<Rightarrow> string" where
  "writeMetric name help typ val =
     ''# HELP '' @ name @ '' '' @ help @ [CHR 0x0A] @ ''# TYPE '' @ name @ '' '' @ typ @ [CHR 0x0A] @
     name @ '' '' @ Itoa val @ [CHR 0x0A]"

text \<open>Durations are nanoseconds; the endpoint prints whole seconds, rounded towards zero.\<close>

definition trunc_seconds :: "int \<Rightarrow> int" where
  "trunc_seconds ns = sgn ns * (\<bar>ns\<bar> div 1000000000)"

definition handleMetrics :: "Snapshot option list \<Rightarrow> string" where
  "handleMetrics providers =
     (let snap = Aggregate providers in
      writeMetric ''portmap_active_connections'' ''Currently active connections.'' ''gauge'' (sint (ActiveConns snap)) @
      writeMetric ''portmap_total_connections'' ''Total connections handled.'' ''counter'' (sint (TotalConns snap)) @
      writeMetric ''portmap_rejected_connections'' ''Connections rejected due to the connection limit.'' ''counter'' (sint (RejectedConns snap)) @
      writeMetric ''portmap_dial_errors'' ''Outbound dial errors.'' ''counter'' (sint (DialErrors snap)) @
      writeMetric ''portmap_up_bytes'' ''Bytes transferred from clients to targets (upstream).'' ''counter'' (sint (UpBytes snap)) @
      writeMetric ''portmap_down_bytes'' ''Bytes transferred from targets to clients (downstream).'' ''counter'' (sint (DownBytes snap)) @
      writeMetric ''portmap_uptime_seconds'' ''Process uptime in seconds.'' ''gauge'' (trunc_seconds (Uptime snap)))"

text \<open>What \<open>ListenAndServe\<close> of the two HTTP endpoints (internal/stats/http.go and
  internal/web/web.go) returns.  The outcomes of \<open>net.Listen\<close> and of \<open>srv.Serve\<close> are inputs.\<close>

datatype serve_outcome = ErrServerClosed | ServeOtherError string | ServeNil

datatype endpoint_result =
    EndpointOff | EndpointPublic string | EndpointListenError string | EndpointServeError string
  | EndpointStopped | EndpointNil

definition endpoint_ListenAndServe ::
    "net_env \<Rightarrow> string \<Rightarrow> bool \<Rightarrow> (string + unit) \<Rightarrow> serve_outcome \<Rightarrow> endpoint_result" where
  "endpoint_ListenAndServe env Addr AllowPublic listen serve =
     (if Addr = [] then EndpointOff
      else if \<not> AllowPublic \<and> \<not> isLoopbackHost env Addr then EndpointPublic Addr
      else (case listen of
              Inl err \<Rightarrow> EndpointListenError err
            | Inr _ \<Rightarrow> (case serve of
                  ErrServerClosed \<Rightarrow> EndpointStopped
                | ServeOtherError err \<Rightarrow> EndpointServeError err
                | ServeNil \<Rightarrow> EndpointNil)))"

section \<open>Interfaces\<close>

text \<open>A log of bounded capacity: what it holds after an append is the suffix of the history.\<close>

locale bounded_log =
  fixes append_ev :: "'l \<Rightarrow> 'e \<Rightarrow> 'l"
    and entries :: "'l \<Rightarrow> 'e list"
    and cap :: "'l \<Rightarrow> nat"
  assumes entries_append:
      "entries (append_ev l e) = drop (Suc (length (entries l)) - cap l) (entries l @ [e])"
    and cap_append: "cap (append_ev l e) = cap l"
begin

lemma cap_run [simp]: "cap (foldl append_ev l es) = cap l"
  by (induction es arbitrary: l) (auto simp: cap_append)

lemma entries_run:
  "length (entries l) \<le> cap l \<Longrightarrow>
   entries (foldl append_ev l es) =
     drop (length (entries l) + length es - cap l) (entries l @ es)"
proof (induction es rule: rev_induct)
  case Nil
  then show ?case by simp
next
  case (snoc e es)
  let ?h = "entries l @ es" and ?k = "length (entries l) + length es - cap l"
  from snoc have IH: "entries (foldl append_ev l es) = drop ?k ?h" by simp
  have len: "length (drop ?k ?h) = length ?h - ?k" by simp
  have "entries (foldl append_ev l (es @ [e])) = drop (Suc (length (drop ?k ?h)) - cap l) (drop ?k ?h @ [e])"
    by (simp only: foldl_append foldl_Cons foldl_Nil entries_append IH cap_run)
  also have "drop ?k ?h @ [e] = drop ?k (?h @ [e])" by simp
  also have "drop (Suc (length (drop ?k ?h)) - cap l) (drop ?k (?h @ [e])) =
      drop (Suc (length ?h) - cap l) (?h @ [e])"
    unfolding drop_drop len by (rule arg_cong2 [where f = drop]) auto
  finally show ?case by simp
qed

lemma entries_bounded:
  "length (entries l) \<le> cap l \<Longrightarrow> length (entries (foldl append_ev l es)) \<le> cap l"
  by (simp add: entries_run)

end

text \<open>An aggregation whose result does not depend on the order of its sources.\<close>

locale aggregation =
  fixes add :: "'s \<Rightarrow> 's \<Rightarrow> 's"
  assumes add_left_comm: "add (add s a) b = add (add s b) a"
begin

lemma fold_perm: "mset xs = mset ys \<Longrightarrow> foldl add s xs = foldl add s ys"
proof -
  assume "mset xs = mset ys"
  then have "fold (\<lambda>x s. add s x) xs s = fold (\<lambda>x s. add s x) ys s"
    by (intro fold_permuted_eq [where P = "\<lambda>_. True"]) (auto simp: add_left_comm)
  then show ?thesis by (simp add: foldl_conv_fold)
qed

end

interpretation evlog: bounded_log EventLog_Append log_entries log_max
  by unfold_locales (auto simp: EventLog_Append_def Let_def)

interpretation snapagg: aggregation Snapshot_Add
  by unfold_locales (auto simp: Snapshot_Add_def algebra_simps)

section \<open>Lemmas of the counters\<close>

lemmas counter_defs = ConnOpened_def ConnClosed_def AddUp_def AddDown_def Reject_def DialError_def

lemma Aggregate_from_foldl: "Aggregate_from agg ps = foldl Snapshot_Add agg (map the (filter (\<lambda>p. p \<noteq> None) ps))"
  by (induction agg ps rule: Aggregate_from.induct) auto

lemma Append_foldl: "foldl Append (Some l) es = Some (foldl EventLog_Append l es)"
  by (induction es arbitrary: l) (auto simp: Append_def)

lemma Append_foldl_None: "foldl Append None es = None"
  by (induction es) (auto simp: Append_def)

lemma stats_run_snoc: "stats_run s (ops @ [x]) = stats_step (stats_run s ops) x"
  by (simp add: stats_run_def)

lemma stats_run_Nil: "stats_run s [] = s"
  by (simp add: stats_run_def)

text \<open>The ids handed out are consecutive, whatever the interleaving of the instances.\<close>

lemma stats_run_ids:
  "stats_run (cs, 0, []) ops = (cs', nid, ids) \<Longrightarrow>
   nid = of_nat (length (filter is_open ops)) \<and>
   ids = rev (map of_nat [1..<Suc (length (filter is_open ops))])"
proof (induction ops arbitrary: cs' nid ids rule: rev_induct)
  case Nil
  then show ?case by (simp add: stats_run_def)
next
  case (snoc x ops)
  obtain cs1 nid1 ids1 where r: "stats_run (cs, 0, []) ops = (cs1, nid1, ids1)" by (cases "stats_run (cs, 0, []) ops") auto
  from snoc.IH [OF r] snoc.prems r show ?case
    by (cases x; cases "snd x") (auto simp: stats_run_snoc is_open_def ConnOpened_def algebra_simps)
qed

text \<open>What one instance's counters hold after a run, as a function of the operations on it.\<close>

definition count_op :: "(stats_op \<Rightarrow> bool) \<Rightarrow> nat \<Rightarrow> (nat \<times> stats_op) list \<Rightarrow> nat" where
  "count_op p i ops = length (filter (\<lambda>x. fst x = i \<and> p (snd x)) ops)"

fun up_amount :: "stats_op \<Rightarrow> i64" where
  "up_amount (Up n) = n"
| "up_amount _ = 0"

fun down_amount :: "stats_op \<Rightarrow> i64" where
  "down_amount (Down n) = n"
| "down_amount _ = 0"

definition amount :: "(stats_op \<Rightarrow> i64) \<Rightarrow> nat \<Rightarrow> (nat \<times> stats_op) list \<Rightarrow> i64" where
  "amount f i ops = sum_list (map (\<lambda>x. f (snd x)) (filter (\<lambda>x. fst x = i) ops))"

definition abs_counters :: "int \<Rightarrow> nat \<Rightarrow> (nat \<times> stats_op) list \<Rightarrow> Counters" where
  "abs_counters start i ops =
     \<lparr>activeConns = of_nat (count_op (\<lambda>x. x = Opened) i ops) - of_nat (count_op (\<lambda>x. x = Closed) i ops),
      totalConns = of_nat (count_op (\<lambda>x. x = Opened) i ops),
      rejectedConns = of_nat (count_op (\<lambda>x. x = Rejected) i ops),
      dialErrors = of_nat (count_op (\<lambda>x. x = DialFailed) i ops),
      upBytes = amount up_amount i ops, downBytes = amount down_amount i ops, startTime = start\<rparr>"

lemma abs_counters_snoc:
  "abs_counters start i (ops @ [(j, x)]) =
     (if i = j then
        (case x of
           Opened \<Rightarrow> fst (ConnOpened (abs_counters start i ops) 0)
         | Closed \<Rightarrow> ConnClosed (abs_counters start i ops)
         | Up n \<Rightarrow> AddUp (abs_counters start i ops) n
         | Down n \<Rightarrow> AddDown (abs_counters start i ops) n
         | Rejected \<Rightarrow> Reject (abs_counters start i ops)
         | DialFailed \<Rightarrow> DialError (abs_counters start i ops))
      else abs_counters start i ops)"
  by (cases x) (auto simp: abs_counters_def count_op_def amount_def counter_defs)

lemma stats_run_counters:
  "fst (stats_run (\<lambda>_. stats_New start, 0, []) ops) i = abs_counters start i ops"
proof (induction ops arbitrary: i rule: rev_induct)
  case Nil
  show ?case by (simp add: stats_run_def stats_New_def abs_counters_def count_op_def amount_def)
next
  case (snoc x ops)
  obtain j y where x: "x = (j, y)" by (cases x)
  obtain cs nid ids where r: "stats_run (\<lambda>_. stats_New start, 0, []) ops = (cs, nid, ids)"
    by (cases "stats_run (\<lambda>_. stats_New start, 0, []) ops") auto
  with snoc have cs: "cs k = abs_counters start k ops" for k by (metis fst_conv)
  show ?case
    by (cases y) (auto simp: x stats_run_snoc r abs_counters_snoc cs ConnOpened_def)
qed

lemma count_op_le: "count_op p i ops \<le> length ops"
  by (simp add: count_op_def)

lemma Snapshot_Add_sel:
  "ActiveConns (foldl Snapshot_Add s ss) = ActiveConns s + sum_list (map ActiveConns ss)"
  "TotalConns (foldl Snapshot_Add s ss) = TotalConns s + sum_list (map TotalConns ss)"
  "RejectedConns (foldl Snapshot_Add s ss) = RejectedConns s + sum_list (map RejectedConns ss)"
  "DialErrors (foldl Snapshot_Add s ss) = DialErrors s + sum_list (map DialErrors ss)"
  "UpBytes (foldl Snapshot_Add s ss) = UpBytes s + sum_list (map UpBytes ss)"
  "DownBytes (foldl Snapshot_Add s ss) = DownBytes s + sum_list (map DownBytes ss)"
  "Uptime (foldl Snapshot_Add s ss) = fold max (map Uptime ss) (Uptime s)"
  by (induction ss arbitrary: s) (auto simp: Snapshot_Add_def max_def algebra_simps)

section \<open>Properties\<close>

text \<open>The event log of a web panel opened with \<open>-web-log-max m\<close> holds, after any number of
  appends, exactly the newest \<open>m\<close> events in order (1000 of them when \<open>m\<close> is not positive).\<close>

theorem eventlog_keeps_newest:
  "EventLog_Snapshot (foldl Append (Some (NewEventLog m)) es) =
     Some (drop (length es - (if m \<le> 0 then 1000 else nat m)) es)"
  using evlog.entries_run [of "NewEventLog m" es]
  by (simp add: Append_foldl EventLog_Snapshot_def NewEventLog_def)

text \<open>Connection ids are unique in the process: in any interleaving of operations on any
  number of instances that opens fewer than 2^64 connections, no id is handed out twice and no id
  is 0 (the value the proxy logs for a connection it rejected).\<close>

theorem conn_ids_unique:
  assumes "stats_run (cs, 0, []) ops = (cs', nid, ids)" and "length ops < 2 ^ 64"
  shows "distinct ids \<and> 0 \<notin> set ids"
proof -
  let ?n = "length (filter is_open ops)"
  have n: "?n < 2 ^ 64" using assms(2) length_filter_le [of is_open ops] by linarith
  have ids: "ids = rev (map of_nat [1..<Suc ?n])" using stats_run_ids [OF assms(1)] by blast
  have u: "unat (of_nat k :: i64) = k" if "k \<le> ?n" for k
    using that n by (simp add: unat_of_nat)
  have "inj_on (of_nat :: nat \<Rightarrow> i64) (set [1..<Suc ?n])"
    by (rule inj_on_inverseI [where g = unat]) (auto simp: u)
  moreover have "(0 :: i64) \<notin> of_nat ` set [1..<Suc ?n]"
  proof
    assume "(0 :: i64) \<in> of_nat ` set [1..<Suc ?n]"
    then obtain k where "1 \<le> k" "k \<le> ?n" "(of_nat k :: i64) = 0" by force
    with u [of k] show False by simp
  qed
  ultimately show ?thesis unfolding ids by (simp add: distinct_map)
qed

theorem conn_ids_unique_witness:
  "distinct [3, 2, 1 :: i64] \<and> (0 :: i64) \<notin> set [3, 2, 1]"
  using conn_ids_unique [of "\<lambda>_. stats_New 0" "[(0, Opened), (1, Opened), (0, Closed), (0, Opened)]"
      "fst (stats_run (\<lambda>_. stats_New 0, 0, []) [(0, Opened), (1, Opened), (0, Closed), (0, Opened)])"
      3 "[3, 2, 1]"]
  by (simp add: stats_run_def ConnOpened_def)

text \<open>The active-connection gauge of an instance is the number of connections it opened minus
  the number it closed, as a signed number, for any interleaving with other instances and as long
  as fewer than 2^63 operations happened; so a caller that closes each opened connection at most
  once never sees it negative, and sees 0 when all are closed.\<close>

theorem active_gauge_is_opened_minus_closed:
  assumes "length ops < 2 ^ 63"
  shows "sint (activeConns (fst (stats_run (\<lambda>_. stats_New start, 0, []) ops) i)) =
     int (count_op (\<lambda>x. x = Opened) i ops) - int (count_op (\<lambda>x. x = Closed) i ops)"
proof -
  let ?o = "count_op (\<lambda>x. x = Opened) i ops" and ?c = "count_op (\<lambda>x. x = Closed) i ops"
  have b: "?o < 2 ^ 63" "?c < 2 ^ 63"
    using assms count_op_le [of _ i ops] by (meson le_less_trans)+
  have "activeConns (fst (stats_run (\<lambda>_. stats_New start, 0, []) ops) i) = word_of_int (int ?o - int ?c)"
    by (simp add: stats_run_counters abs_counters_def)
  also have "sint (word_of_int (int ?o - int ?c) :: i64) = int ?o - int ?c"
    unfolding sint_sbintrunc' using b by (intro signed_take_bit_int_eq_self) simp_all
  finally show ?thesis .
qed

theorem active_gauge_is_opened_minus_closed_witness:
  "sint (activeConns (fst (stats_run (\<lambda>_. stats_New 0, 0, []) [(0, Opened), (1, Opened), (0, Closed)]) 0)) = 0"
  by (subst active_gauge_is_opened_minus_closed) (simp_all add: count_op_def)

text \<open>Aggregation of the providers' snapshots does not depend on their order, skips nil
  providers, sums every counter and takes the longest uptime.\<close>

theorem aggregate_sums_in_any_order:
  assumes "mset ps = mset qs"
  shows "Aggregate ps = Aggregate qs \<and>
    (let ss = map the (filter (\<lambda>p. p \<noteq> None) ps) in
      ActiveConns (Aggregate ps) = sum_list (map ActiveConns ss) \<and>
      UpBytes (Aggregate ps) = sum_list (map UpBytes ss) \<and>
      DownBytes (Aggregate ps) = sum_list (map DownBytes ss) \<and>
      Uptime (Aggregate ps) = Max (insert 0 (Uptime ` set ss)))"
proof -
  have "mset (map the (filter (\<lambda>p. p \<noteq> None) ps)) = mset (map the (filter (\<lambda>p. p \<noteq> None) qs))"
    using assms by simp
  from snapagg.fold_perm [OF this] have perm: "Aggregate ps = Aggregate qs"
    by (simp add: Aggregate_def Aggregate_from_foldl)
  have mx: "fold max xs (0 :: int) = Max (insert 0 (set xs))" for xs
    using Max.set_eq_fold [of 0 xs] by simp
  show ?thesis
    unfolding perm [symmetric]
    unfolding Aggregate_def Aggregate_from_foldl Snapshot_Add_sel Let_def zeroSnapshot_def mx
    by (simp add: image_image mx)
qed

theorem aggregate_sums_in_any_order_witness:
  "Aggregate [Some (zeroSnapshot\<lparr>UpBytes := 1, Uptime := 7\<rparr>), None, Some zeroSnapshot] =
   Aggregate [None, Some zeroSnapshot, Some (zeroSnapshot\<lparr>UpBytes := 1, Uptime := 7\<rparr>)]"
  using aggregate_sums_in_any_order
    [of "[Some (zeroSnapshot\<lparr>UpBytes := 1, Uptime := 7\<rparr>), None, Some zeroSnapshot]"
        "[None, Some zeroSnapshot, Some (zeroSnapshot\<lparr>UpBytes := 1, Uptime := 7\<rparr>)]"]
  by simp

text \<open>Without \<open>AllowPublic\<close> the statistics endpoint and the web panel reach the listen call
  only for an address whose host is a loopback literal, or a name all of whose resolved addresses
  are loopback; for any other non-empty address they fail with the \"public\" error and bind
  nothing.\<close>

theorem endpoint_loopback_only:
  assumes "endpoint_ListenAndServe env Addr False listen serve \<noteq> EndpointPublic Addr"
    and "Addr \<noteq> []"
  shows "\<exists>host port. SplitHostPort Addr = Inr (host, port) \<and> host \<noteq> [] \<and>
    (case ParseIP host of
       Some ip \<Rightarrow> IsLoopback ip
     | None \<Rightarrow> (\<exists>ips. LookupIP env host = Some ips \<and> ips \<noteq> [] \<and> (\<forall>ip \<in> set ips. IsLoopback ip)))"
proof -
  have "isLoopbackHost env Addr"
    using assms by (auto simp: endpoint_ListenAndServe_def split: if_splits)
  then show ?thesis
    by (auto simp: isLoopbackHost_def list_all_iff split: sum.splits prod.splits if_splits option.splits)
qed

theorem endpoint_loopback_only_witness:
  "\<exists>host port. SplitHostPort ''127.0.0.1:9090'' = Inr (host, port) \<and> host \<noteq> [] \<and>
    (case ParseIP host of
       Some ip \<Rightarrow> IsLoopback ip
     | None \<Rightarrow> (\<exists>ips. LookupIP quiet_env host = Some ips \<and> ips \<noteq> [] \<and> (\<forall>ip \<in> set ips. IsLoopback ip)))"
proof -
  have "isLoopbackHost quiet_env ''127.0.0.1:9090''" by code_simp
  then show ?thesis
    by (intro endpoint_loopback_only [of quiet_env "''127.0.0.1:9090''" "Inr ()" ErrServerClosed])
      (auto simp: endpoint_ListenAndServe_def)
qed

end
