(* ===== verification/Self_Target.thy ===== *)
theory Self_Target
  imports Net_IP
begin

text \<open>
  The guards against forwarding to oneself: internal/forward/selftarget.go (before the dial on the
  configured target, and after the dial on the connected peer) and the two checks of
  internal/proxy/server.go (\<open>isSelfTarget\<close>, \<open>isSelfConn\<close>).  Addresses are \<open>net.Addr\<close> values;
  the resolver and the interfaces are the environment of Net_IP.
\<close>

section \<open>Addresses\<close>

datatype net_addr =
    TCPAddr netip int string
  | UDPAddr netip int string
  | OtherAddr string

fun addr_Network :: "net_addr \<Rightarrow> string" where
  "addr_Network (TCPAddr _ _ _) = ''tcp''"
| "addr_Network (UDPAddr _ _ _) = ''udp''"
| "addr_Network (OtherAddr n) = n"

fun networkAddress :: "net_addr \<Rightarrow> (netip \<times> int \<times> string) option" where
  "networkAddress (TCPAddr ip port zone) = Some (ip, port, zone)"
| "networkAddress (UDPAddr ip port zone) = Some (ip, port, zone)"
| "networkAddress (OtherAddr _) = None"

section \<open>Numbers in text\<close>

fun digits_val :: "nat \<Rightarrow> string \<Rightarrow> nat option" where
  "digits_val acc [] = Some acc"
| "digits_val acc (c # cs) =
     (case digit_val c of None \<Rightarrow> None | Some d \<Rightarrow> digits_val (acc * 10 + d) cs)"

text \<open>\<open>strconv.ParseUint(s, 10, 16)\<close> and \<open>strconv.Atoi\<close> on a 64-bit platform.\<close>

definition ParseUint16 :: "string \<Rightarrow> nat option" where
  "ParseUint16 s =
     (if s = [] then None
      else case digits_val 0 s of None \<Rightarrow> None | Some n \<Rightarrow> if n < 2 ^ 16 then Some n else None)"

definition Atoi :: "string \<Rightarrow> int option" where
  "Atoi s =
     (let neg = (take 1 s = ''-''); t = (if take 1 s = ''-'' \<or> take 1 s = ''+'' then drop 1 s else s) in
      if t = [] then None
      else (case digits_val 0 t of
              None \<Rightarrow> None
            | Some n \<Rightarrow>
                if neg then (if n \<le> 2 ^ 63 then Some (- int n) else None)
                else (if n < 2 ^ 63 then Some (int n) else None)))"

definition TrimSuffixByte :: "char \<Rightarrow> string \<Rightarrow> string" where
  "TrimSuffixByte c s = (if s \<noteq> [] \<and> last s = c then butlast s else s)"

definition trim_brackets :: "string \<Rightarrow> string" where
  "trim_brackets s = trim_both (\<lambda>c. c = CHR ''['' \<or> c = CHR '']'') s"

section \<open>internal/forward/selftarget.go\<close>

definition parseIPZone :: "string \<Rightarrow> netip option \<times> string" where
  "parseIPZone host =
     (case LastIndexByte CHR ''%'' host of
        Some percent \<Rightarrow> (ParseIP (take percent host), drop (Suc percent) host)
      | None \<Rightarrow> (ParseIP host, []))"

definition resolvePort :: "net_env \<Rightarrow> string \<Rightarrow> string \<Rightarrow> int option" where
  "resolvePort env network port =
     (case ParseUint16 port of
        Some n \<Rightarrow> Some (int n)
      | None \<Rightarrow> LookupPort env (TrimSuffixByte CHR ''6'' (TrimSuffixByte CHR ''4'' network)) port)"

definition zoneMatters :: "netip \<Rightarrow> bool" where
  "zoneMatters ip \<longleftrightarrow> IsLinkLocalUnicast ip \<or> IsLinkLocalMulticast ip"

definition zoneIndex :: "net_env \<Rightarrow> string \<Rightarrow> int option" where
  "zoneIndex env zone =
     (if zone = [] then None
      else (case Atoi zone of Some index \<Rightarrow> Some index | None \<Rightarrow> InterfaceByName env zone))"

definition zonesEqual :: "net_env \<Rightarrow> string \<Rightarrow> string \<Rightarrow> bool" where
  "zonesEqual env a b =
     (if a = b then True
      else (case (zoneIndex env a, zoneIndex env b) of
              (Some i, Some j) \<Rightarrow> i = j
            | _ \<Rightarrow> False))"

definition sameIPFamily :: "netip \<Rightarrow> netip \<Rightarrow> bool" where
  "sameIPFamily a b \<longleftrightarrow> (To4 a \<noteq> None) = (To4 b \<noteq> None)"

text \<open>The first block of \<open>listenerContainsIP\<close>: dialling the unspecified address reaches the
  loopback address of its family.\<close>

definition dial_target :: "netip \<Rightarrow> netip" where
  "dial_target targetIP =
     (if targetIP = [] \<or> IsUnspecified targetIP then
        (if targetIP = [] \<or> To4 targetIP \<noteq> None then IPv4 127 0 0 1 else IPv6loopback)
      else targetIP)"

definition listenerContainsIP :: "net_env \<Rightarrow> netip \<Rightarrow> netip \<Rightarrow> string \<Rightarrow> string \<Rightarrow> bool \<Rightarrow> bool" where
  "listenerContainsIP env listenIP targetIP0 listenZone targetZone dualStack =
     (let targetIP = dial_target targetIP0 in
      if IsUnspecified listenIP then
        (if zoneMatters targetIP \<and> listenZone \<noteq> [] \<and> \<not> zonesEqual env listenZone targetZone then False
         else (sameIPFamily listenIP targetIP \<or> (dualStack \<and> To4 listenIP = None \<and> To4 targetIP \<noteq> None))
              \<and> isLocalIP env targetIP)
      else if \<not> ip_Equal listenIP targetIP then False
      else \<not> zoneMatters targetIP \<or> zonesEqual env listenZone targetZone)"

definition addressMatchesListener :: "net_env \<Rightarrow> net_addr \<Rightarrow> net_addr \<Rightarrow> bool \<Rightarrow> bool" where
  "addressMatchesListener env target listener dualStack =
     (case networkAddress target of
        None \<Rightarrow> False
      | Some (remoteIP, remotePort, remoteZone) \<Rightarrow>
          (case networkAddress listener of
             None \<Rightarrow> False
           | Some (listenIP, listenPort, listenZone) \<Rightarrow>
               remotePort = listenPort \<and>
               listenerContainsIP env listenIP remoteIP listenZone remoteZone dualStack))"

definition connMatchesListener :: "net_env \<Rightarrow> net_addr \<Rightarrow> net_addr \<Rightarrow> bool \<Rightarrow> bool" where
  "connMatchesListener env connRemoteAddr listener dualStack =
     addressMatchesListener env connRemoteAddr listener dualStack"

definition targetMatchesListener :: "net_env \<Rightarrow> string \<Rightarrow> net_addr \<Rightarrow> bool \<Rightarrow> bool" where
  "targetMatchesListener env target listener dualStack =
     (case SplitHostPort target of
        Inl _ \<Rightarrow> False
      | Inr (host0, port) \<Rightarrow>
          (case networkAddress listener of
             None \<Rightarrow> False
           | Some (listenIP, listenPort, listenZone) \<Rightarrow>
               (case resolvePort env (addr_Network listener) port of
                  None \<Rightarrow> False
                | Some targetPort \<Rightarrow>
                    if targetPort \<noteq> listenPort then False
                    else
                      (let host1 = trim_brackets host0;
                           host = (if host1 = [] then ip_String (IPv4 127 0 0 1) else host1) in
                       case parseIPZone host of
                         (Some ip, zone) \<Rightarrow> listenerContainsIP env listenIP ip listenZone zone dualStack
                       | (None, _) \<Rightarrow>
                           (case LookupIP env host of
                              None \<Rightarrow> False
                            | Some resolved \<Rightarrow>
                                list_ex (\<lambda>addr. listenerContainsIP env listenIP addr listenZone [] dualStack)
                                  resolved)))))"

section \<open>internal/proxy/server.go\<close>

text \<open>The proxy has no zones; its listener is nil before \<open>ListenAndServe\<close> stored one.\<close>

definition isSelfTarget :: "net_env \<Rightarrow> net_addr option \<Rightarrow> string \<Rightarrow> bool" where
  "isSelfTarget env listener target =
     (case SplitHostPort target of
        Inl _ \<Rightarrow> False
      | Inr (host0, port) \<Rightarrow>
          (case listener of
             Some (TCPAddr listenIP listenPort _) \<Rightarrow>
               if port \<noteq> Itoa listenPort then False
               else
                 (let host = trim_brackets host0;
                      ips = (case ParseIP host of Some ip \<Rightarrow> Some [ip] | None \<Rightarrow> LookupIP env host) in
                  case ips of
                    None \<Rightarrow> False
                  | Some l \<Rightarrow>
                      list_ex (\<lambda>ip. if IsUnspecified listenIP then isLocalIP env ip
                                    else ip_Equal listenIP ip) l)
           | _ \<Rightarrow> False))"

definition isSelfConn :: "net_env \<Rightarrow> net_addr option \<Rightarrow> net_addr \<Rightarrow> bool" where
  "isSelfConn env listener remote =
     (case remote of
        TCPAddr remoteIP remotePort _ \<Rightarrow>
          (case listener of
             Some (TCPAddr listenIP listenPort _) \<Rightarrow>
               if listenPort \<noteq> remotePort then False
               else if IsUnspecified listenIP then isLocalIP env remoteIP
               else ip_Equal listenIP remoteIP
           | _ \<Rightarrow> False)
      | _ \<Rightarrow> False)"

definition isLoopbackListener :: "net_addr \<Rightarrow> bool" where
  "isLoopbackListener addr = (case addr of TCPAddr ip _ _ \<Rightarrow> IsLoopback ip | _ \<Rightarrow> False)"

section \<open>The four byte and the sixteen byte form of an IPv4 address\<close>

definition same_ip :: "netip \<Rightarrow> netip \<Rightarrow> bool" where
  "same_ip x y \<longleftrightarrow> (\<exists>a b c d. x = [a, b, c, d] \<and> y = IPv4 a b c d)"

lemma same_ip_To4: "same_ip x y \<Longrightarrow> To4 x = To4 y \<and> To4 x \<noteq> None"
  by (auto simp: same_ip_def)

lemma IPv4_parts: "IPv4 a b c d = (replicate 10 0 @ [255, 255]) @ [a, b, c, d]"
  by (simp add: IPv4_def)

lemma length_IPv4 [simp]: "length (IPv4 a b c d) = 16"
  by (simp add: IPv4_def)

lemma IPv4_take_drop: "length l = 16 \<Longrightarrow>
  l = IPv4 a b c d \<longleftrightarrow> take 12 l = replicate 10 0 @ [255, 255] \<and> drop 12 l = [a, b, c, d]"
proof
  assume "l = IPv4 a b c d"
  then show "take 12 l = replicate 10 0 @ [255, 255] \<and> drop 12 l = [a, b, c, d]" by (simp add: IPv4_def)
next
  assume "take 12 l = replicate 10 0 @ [255, 255] \<and> drop 12 l = [a, b, c, d]"
  with append_take_drop_id [of 12 l] show "l = IPv4 a b c d" unfolding IPv4_parts by metis
qed

lemma same_ip_Equal: "same_ip x y \<Longrightarrow> ip_Equal l x = ip_Equal l y"
proof -
  assume "same_ip x y"
  then obtain a b c d where x: "x = [a, b, c, d]" and y: "y = IPv4 a b c d" by (auto simp: same_ip_def)
  have len: "length x = 4" "length y = 16" by (simp_all add: x y)
  have "take 12 y = replicate 10 0 @ [255, 255]" "drop 12 y = x"
    by (simp_all add: x y IPv4_def)
  then show ?thesis
    unfolding ip_Equal_def len using IPv4_take_drop [of l a b c d]
    by (auto simp: x y [symmetric])
qed

lemma same_ip_preds:
  assumes "same_ip x y"
  shows "IsLoopback x = IsLoopback y" "IsUnspecified x = IsUnspecified y"
    "zoneMatters x = zoneMatters y" "sameIPFamily l x = sameIPFamily l y"
    "isLocalIP env x = isLocalIP env y"
proof -
  note t = same_ip_To4 [OF assms]
  show lb: "IsLoopback x = IsLoopback y"
    using t by (auto simp: IsLoopback_def split: option.splits)
  show "IsUnspecified x = IsUnspecified y"
    using same_ip_Equal [OF assms] by (simp add: IsUnspecified_def ip_Equal_sym [of x] ip_Equal_sym [of y])
  show "zoneMatters x = zoneMatters y"
    using t by (auto simp: zoneMatters_def IsLinkLocalUnicast_def IsLinkLocalMulticast_def split: option.splits)
  show "sameIPFamily l x = sameIPFamily l y"
    using t by (simp add: sameIPFamily_def)
  show "isLocalIP env x = isLocalIP env y"
    unfolding isLocalIP_def lb same_ip_Equal [OF assms] ..
qed

lemma same_ip_dial_target:
  "same_ip x y \<Longrightarrow> dial_target x = dial_target y \<or> (dial_target x = x \<and> dial_target y = y)"
  using same_ip_preds(2) [of x y] same_ip_To4 [of x y]
  by (auto simp: dial_target_def same_ip_def IPv4_def)

lemma same_ip_listenerContains:
  assumes "same_ip x y"
  shows "listenerContainsIP env l x lz tz ds = listenerContainsIP env l y lz tz ds"
  using same_ip_dial_target [OF assms]
proof
  assume "dial_target x = dial_target y"
  then show ?thesis by (simp only: listenerContainsIP_def)
next
  assume d: "dial_target x = x \<and> dial_target y = y"
  have t: "(To4 x \<noteq> None) = (To4 y \<noteq> None)" using same_ip_To4 [OF assms] by simp
  show ?thesis
    unfolding listenerContainsIP_def Let_def d [THEN conjunct1] d [THEN conjunct2] same_ip_preds [OF assms]
      same_ip_Equal [OF assms] t ..
qed

section \<open>Ports and hosts in text\<close>

lemma digits_val_append: "digits_val acc (xs @ ys) = Option.bind (digits_val acc xs) (\<lambda>n. digits_val n ys)"
  by (induction acc xs rule: digits_val.induct) (auto split: option.splits)

lemma digits_val_show_nat: "digits_val 0 (show_nat n) = Some n"
proof (induction n rule: show_nat.induct)
  case (1 n)
  show ?case
  proof (cases "n < 10")
    case True
    then show ?thesis by (simp add: show_nat.simps)
  next
    case False
    with 1 show ?thesis by (simp add: show_nat.simps [of n] digits_val_append)
  qed
qed

lemma show_nat_ne [simp]: "show_nat n \<noteq> []"
  by (subst show_nat.simps) simp

lemma ParseUint16_show_nat: "n < 2 ^ 16 \<Longrightarrow> ParseUint16 (show_nat n) = Some n"
  by (simp add: ParseUint16_def digits_val_show_nat)

lemma Itoa_port: "0 \<le> p \<Longrightarrow> Itoa p = show_nat (nat p)"
  by (simp add: Itoa_def)

lemma resolvePort_Itoa: "0 \<le> p \<Longrightarrow> p < 2 ^ 16 \<Longrightarrow> resolvePort env net (Itoa p) = Some p"
  by (simp add: resolvePort_def Itoa_port ParseUint16_show_nat nat_less_iff)

lemma trim_both_id: "(\<And>c. c \<in> set s \<Longrightarrow> \<not> p c) \<Longrightarrow> trim_both p s = s"
proof -
  assume p: "\<And>c. c \<in> set s \<Longrightarrow> \<not> p c"
  have "dropWhile p t = t" if "set t \<subseteq> set s" for t
    using that p by (cases t) auto
  then show ?thesis by (simp add: trim_both_def trim_left_def trim_right_def)
qed

lemma percent_notin_show_v4: "CHR ''%'' \<notin> set (show_v4 [a, b, c, d])"
  by (simp add: show_v4_def)

lemma show_v4_ne: "show_v4 [a, b, c, d] \<noteq> []"
  by (simp add: show_v4_def)

lemmas show_v4_chars = show_v4_no_brackets percent_notin_show_v4

lemma split_v4_target:
  "0 \<le> p \<Longrightarrow> SplitHostPort (JoinHostPort (show_v4 [a, b, c, d]) (Itoa p)) = Inr (show_v4 [a, b, c, d], Itoa p)"
  by (rule SplitHostPort_JoinHostPort) (simp_all add: show_v4_chars Itoa_port)

lemma trim_brackets_v4: "trim_brackets (show_v4 [a, b, c, d]) = show_v4 [a, b, c, d]"
  unfolding trim_brackets_def using show_v4_chars(1,2) by (intro trim_both_id) metis

lemma parseIPZone_v4: "parseIPZone (show_v4 [a, b, c, d]) = (Some (IPv4 a b c d), [])"
  by (simp add: parseIPZone_def percent_notin_show_v4 ParseIP_show_v4)

lemma own_wildcard:
  assumes "IsUnspecified lip" "\<not> IsUnspecified [a, b, c, d]"
    and "ip_Equal lip [a, b, c, d] \<or>
      (IsUnspecified lip \<and> (To4 lip \<noteq> None \<or> dual) \<and> isLocalIP env [a, b, c, d])"
  shows "(To4 lip \<noteq> None \<or> dual) \<and> isLocalIP env [a, b, c, d]"
proof -
  have "\<not> ip_Equal lip [a, b, c, d]"
  proof
    assume e: "ip_Equal lip [a, b, c, d]"
    then have "lip = [a, b, c, d] \<or> same_ip [a, b, c, d] lip"
      using IPv4_take_drop [of lip a b c d]
      by (auto simp: ip_Equal_def same_ip_def split: if_splits)
    with assms(1,2) same_ip_preds(2) show False by blast
  qed
  with assms(3) show ?thesis by blast
qed

section \<open>Properties\<close>

text \<open>For an IPv4 target written as host:port, the check before the dial (on the text of the
  configuration) and the check after the dial (on the peer's address, 4 bytes long) agree, for
  every listener, zone and dual-stack setting; so the second cannot miss what the first rejects.\<close>

theorem predial_and_postdial_agree:
  assumes "0 \<le> port" and "port < 2 ^ 16"
  shows "targetMatchesListener env (JoinHostPort (ip_String [a, b, c, d]) (Itoa port)) (TCPAddr lip lport lzone) dual =
    connMatchesListener env (TCPAddr [a, b, c, d] port []) (TCPAddr lip lport lzone) dual"
proof -
  have "same_ip [a, b, c, d] (IPv4 a b c d)" by (simp add: same_ip_def)
  from same_ip_listenerContains [OF this, of env lip lzone "[]" dual] show ?thesis
    using assms
    by (simp add: targetMatchesListener_def connMatchesListener_def addressMatchesListener_def
        ip_String_def split_v4_target resolvePort_Itoa trim_brackets_v4 parseIPZone_v4 show_v4_ne Let_def)
qed

theorem predial_and_postdial_agree_witness:
  "targetMatchesListener quiet_env (JoinHostPort (ip_String [127, 0, 0, 1]) (Itoa 22)) (TCPAddr [0, 0, 0, 0] 22 []) False"
  by (subst predial_and_postdial_agree) (simp_all, code_simp)

text \<open>A forwarder whose IPv4 target is its own listener is always caught before the dial: the
  target names the address the listener is bound to (in either of its two forms), or the listener
  is bound to the wildcard address of a family that accepts IPv4 and the target is a local address.\<close>

theorem forward_to_own_address_detected:
  assumes "0 \<le> port" and "port < 2 ^ 16" and "\<not> IsUnspecified [a, b, c, d]"
    and own: "ip_Equal lip [a, b, c, d] \<or>
      (IsUnspecified lip \<and> (To4 lip \<noteq> None \<or> dual) \<and> isLocalIP env [a, b, c, d])"
  shows "targetMatchesListener env (JoinHostPort (ip_String [a, b, c, d]) (Itoa port))
     (TCPAddr lip port []) dual"
proof -
  let ?x = "[a, b, c, d]"
  have s: "same_ip ?x (IPv4 a b c d)" by (simp add: same_ip_def)
  have d: "dial_target ?x = ?x" using assms(3) by (simp add: dial_target_def)
  have "listenerContainsIP env lip ?x [] [] dual"
  proof (cases "IsUnspecified lip")
    case True
    from own_wildcard [OF True assms(3) own] True d show ?thesis
      by (auto simp: listenerContainsIP_def sameIPFamily_def)
  next
    case False
    with own have "ip_Equal lip ?x" by blast
    with False d show ?thesis by (simp add: listenerContainsIP_def zonesEqual_def)
  qed
  then have "listenerContainsIP env lip (IPv4 a b c d) [] [] dual"
    by (simp only: same_ip_listenerContains [OF s])
  then show ?thesis
    using assms(1,2)
    by (simp add: targetMatchesListener_def ip_String_def split_v4_target resolvePort_Itoa
        trim_brackets_v4 parseIPZone_v4 show_v4_ne Let_def)
qed

theorem forward_to_own_address_detected_witness:
  "targetMatchesListener quiet_env (JoinHostPort (ip_String [127, 0, 0, 2]) (Itoa 2222))
     (TCPAddr IPv6unspecified 2222 []) True"
  by (rule forward_to_own_address_detected) code_simp+

end
