(* ===== verification/Idle_Model.thy ===== *)
theory Idle_Model
  imports PM_Prelude
begin

text \<open>
  Idle timeouts of a tunnel, package internal/netutil.  tcp_idle.go: the shared activity clock of
  a native TCP tunnel (\<open>tcpIdleState\<close>), the lazily installed socket deadlines (\<open>arm\<close>, \<open>retry\<close>) and
  the \<open>Read\<close> and \<open>Write\<close> loops over them.  netutil.go: the generic wrapper \<open>IdleConn\<close> with its
  shared group.  Clock readings are nanoseconds since \<open>start\<close>, Go's \<open>int64\<close>, hence 64-bit words
  read as signed.  A socket call's outcome is an input of the model: a script with one entry per
  round of the loop, so an exhausted script (\<open>None\<close>) is a call still blocked in the kernel.
\<close>

datatype io_err = NoErr | TimeoutErr | OtherErr

section \<open>The shared activity clock (tcp_idle.go)\<close>

record tcpIdleState =
  idle_timeout :: i64
  idle_last :: i64

definition maxDeadline :: i64 where
  "maxDeadline = 2 ^ 63 - 1"

text \<open>The compare-and-swap loop of \<open>touch\<close>.  The list holds what other goroutines left in \<open>last\<close>
  by the time of each swap of this one.\<close>

fun touch_loop :: "i64 \<Rightarrow> i64 list \<Rightarrow> i64 \<Rightarrow> i64" where
  "touch_loop now [] old = (if sint now > sint old then now else old)"
| "touch_loop now (v # vs) old =
     (if sint now > sint old then (if v = old then now else touch_loop now vs v) else old)"

definition touch :: "i64 \<Rightarrow> tcpIdleState \<Rightarrow> tcpIdleState" where
  "touch now g = g\<lparr>idle_last := touch_loop now [] (idle_last g)\<rparr>"

definition deadline :: "tcpIdleState \<Rightarrow> i64" where
  "deadline g =
     (if sint (idle_last g) > sint (maxDeadline - idle_timeout g) then maxDeadline
      else idle_last g + idle_timeout g)"

text \<open>\<open>arm\<close> reads \<open>last\<close> once on the fast path (\<open>lastF\<close>) and once more under the lock (in \<open>g\<close>).
  The answer: whether the socket call succeeded, and the installed deadline afterwards.\<close>

definition arm :: "i64 \<Rightarrow> tcpIdleState \<Rightarrow> i64 \<Rightarrow> bool \<Rightarrow> bool \<Rightarrow> bool \<times> i64" where
  "arm lastF g d expired set_ok =
     (if \<not> expired \<and> sint d > sint lastF then (True, d)
      else (let due = deadline g in
        if \<not> expired \<and> sint d > sint (idle_last g) then (True, d)
        else if sint d \<ge> sint due then (True, d)
        else if \<not> set_ok then (False, d)
        else (True, due)))"

definition retry :: "tcpIdleState \<Rightarrow> io_err \<Rightarrow> i64 \<Rightarrow> i64 \<Rightarrow> bool" where
  "retry g err d now =
     (if err \<noteq> TimeoutErr then False
      else sint now \<ge> sint d \<and> sint now < sint (deadline g))"

section \<open>The read and write loops\<close>

text \<open>One round as the environment sees it: whether setting the deadline works, how many bytes the
  socket call moved and with which error, the clock readings at the \<open>touch\<close> and at the \<open>retry\<close>,
  and the activity of the other goroutines of the tunnel before the lock and before the return.\<close>

record io_round =
  set_ok :: bool
  io_n :: nat
  io_e :: io_err
  touch_now :: i64
  retry_now :: i64
  other_lock :: i64
  other_io :: i64

datatype read_result = ArmFailed | ReadDone nat io_err

definition Read_round :: "tcpIdleState \<Rightarrow> i64 \<Rightarrow> bool \<Rightarrow> io_round \<Rightarrow>
    (read_result \<times> tcpIdleState \<times> i64 \<times> i64) + (tcpIdleState \<times> i64)" where
  "Read_round g d expired x =
     (let g1 = touch (other_lock x) g in
      case arm (idle_last g) g1 d expired (set_ok x) of (armed, d') \<Rightarrow>
        if \<not> armed then Inl (ArmFailed, g1, d', retry_now x)
        else
          (let g2 = touch (other_io x) g1;
               g3 = (if io_n x > 0 then touch (touch_now x) g2 else g2) in
           if io_n x \<noteq> 0 \<or> \<not> retry g3 (io_e x) d' (retry_now x)
           then Inl (ReadDone (io_n x) (io_e x), g3, d', retry_now x)
           else Inr (g3, d')))"

fun Read_loop :: "tcpIdleState \<Rightarrow> i64 \<Rightarrow> bool \<Rightarrow> io_round list \<Rightarrow>
    (read_result \<times> tcpIdleState \<times> i64 \<times> i64) option" where
  "Read_loop g d expired [] = None"
| "Read_loop g d expired (x # xs) =
     (case Read_round g d expired x of
        Inl r \<Rightarrow> Some r
      | Inr (g', d') \<Rightarrow> Read_loop g' d' True xs)"

definition tcp_Read :: "tcpIdleState \<Rightarrow> i64 \<Rightarrow> i64 \<Rightarrow> io_round list \<Rightarrow>
    (read_result \<times> tcpIdleState \<times> i64 \<times> i64) option" where
  "tcp_Read g d now rounds = Read_loop (touch now g) d False rounds"

text \<open>\<open>Write\<close> keeps the unwritten suffix; \<open>wire\<close> collects the bytes the socket accepted.  The
  retry decision is taken before the activity of the partial write is recorded.\<close>

datatype 'b write_result = WriteResult (w_total: nat) (w_err: "io_err option") (w_wire: "'b list")

definition Write_round :: "tcpIdleState \<Rightarrow> i64 \<Rightarrow> bool \<Rightarrow> nat \<Rightarrow> 'b list \<Rightarrow> 'b list \<Rightarrow> io_round \<Rightarrow>
    ('b write_result \<times> tcpIdleState \<times> i64) + (tcpIdleState \<times> i64 \<times> nat \<times> 'b list \<times> 'b list)" where
  "Write_round g d expired tot wire p x =
     (let g1 = touch (other_lock x) g in
      case arm (idle_last g) g1 d expired (set_ok x) of (armed, d') \<Rightarrow>
        if \<not> armed then Inl (WriteResult tot None wire, g1, d')
        else
          (let g2 = touch (other_io x) g1;
               tot' = tot + io_n x;
               wire' = wire @ take (io_n x) p;
               again = retry g2 (io_e x) d' (retry_now x);
               g3 = (if io_n x > 0 then touch (touch_now x) g2 else g2) in
           if \<not> again then Inl (WriteResult tot' (Some (io_e x)) wire', g3, d')
           else (let p' = drop (io_n x) p in
             if p' = [] then Inl (WriteResult tot' (Some NoErr) wire', g3, d')
             else Inr (g3, d', tot', wire', p'))))"

fun Write_loop :: "tcpIdleState \<Rightarrow> i64 \<Rightarrow> bool \<Rightarrow> nat \<Rightarrow> 'b list \<Rightarrow> 'b list \<Rightarrow> io_round list \<Rightarrow>
    ('b write_result \<times> tcpIdleState \<times> i64) option" where
  "Write_loop g d expired tot wire p [] = None"
| "Write_loop g d expired tot wire p (x # xs) =
     (case Write_round g d expired tot wire p x of
        Inl r \<Rightarrow> Some r
      | Inr (g', d', tot', wire', p') \<Rightarrow> Write_loop g' d' True tot' wire' p' xs)"

definition tcp_Write :: "tcpIdleState \<Rightarrow> i64 \<Rightarrow> i64 \<Rightarrow> 'b list \<Rightarrow> io_round list \<Rightarrow>
    ('b write_result \<times> tcpIdleState \<times> i64) option" where
  "tcp_Write g d now p rounds = Write_loop (touch now g) d False 0 [] p rounds"

text \<open>What \<open>net.Conn.Write\<close> promises for each round of a script: at most the rest of the buffer
  is written, and a short write carries an error.\<close>

fun write_contract :: "nat \<Rightarrow> io_round list \<Rightarrow> bool" where
  "write_contract k [] \<longleftrightarrow> True"
| "write_contract k (x # xs) \<longleftrightarrow>
     io_n x \<le> k \<and> (io_n x < k \<longrightarrow> io_e x \<noteq> NoErr) \<and> write_contract (k - io_n x) xs"

text \<open>\<open>TCPIdleConns\<close>: no wrapping without a positive timeout.\<close>

definition TCPIdleConns :: "i64 \<Rightarrow> tcpIdleState option" where
  "TCPIdleConns timeout =
     (if sint timeout \<le> 0 then None else Some \<lparr>idle_timeout = timeout, idle_last = 0\<rparr>)"

section \<open>IdleConn and its group (netutil.go)\<close>

text \<open>The socket deadlines of the connections, by connection; \<open>None\<close> is the zero time.\<close>

record deadlines =
  read_dl :: "nat \<Rightarrow> int option"
  write_dl :: "nat \<Rightarrow> int option"

record idleGroup =
  grp_timeout :: int
  grp_conns :: "nat list"

record IdleConn =
  ic_conn :: nat
  ic_Timeout :: int
  ic_group :: "idleGroup option"

definition SetDeadline :: "nat \<Rightarrow> int option \<Rightarrow> deadlines \<Rightarrow> deadlines" where
  "SetDeadline c t s = s\<lparr>read_dl := (read_dl s)(c := t), write_dl := (write_dl s)(c := t)\<rparr>"

definition SetReadDeadline :: "nat \<Rightarrow> int option \<Rightarrow> deadlines \<Rightarrow> deadlines" where
  "SetReadDeadline c t s = s\<lparr>read_dl := (read_dl s)(c := t)\<rparr>"

definition SetWriteDeadline :: "nat \<Rightarrow> int option \<Rightarrow> deadlines \<Rightarrow> deadlines" where
  "SetWriteDeadline c t s = s\<lparr>write_dl := (write_dl s)(c := t)\<rparr>"

text \<open>\<open>fails c\<close> is the error of setting a deadline on \<open>c\<close>, when it fails.  Every connection of
  the group is tried, and the first error is returned.\<close>

fun refresh_conns :: "(nat \<Rightarrow> 'e option) \<Rightarrow> int \<Rightarrow> nat list \<Rightarrow> 'e option \<Rightarrow> deadlines \<Rightarrow> 'e option \<times> deadlines" where
  "refresh_conns fails dl [] firstErr s = (firstErr, s)"
| "refresh_conns fails dl (c # cs) firstErr s =
     (case fails c of
        None \<Rightarrow> refresh_conns fails dl cs firstErr (SetDeadline c (Some dl) s)
      | Some e \<Rightarrow> refresh_conns fails dl cs (case firstErr of None \<Rightarrow> Some e | Some _ \<Rightarrow> firstErr) s)"

definition group_refreshDeadline :: "(nat \<Rightarrow> 'e option) \<Rightarrow> int \<Rightarrow> idleGroup \<Rightarrow> deadlines \<Rightarrow> 'e option \<times> deadlines" where
  "group_refreshDeadline fails now g s =
     (if grp_timeout g \<le> 0 then (None, s)
      else refresh_conns fails (now + grp_timeout g) (grp_conns g) None s)"

definition ShareIdleTimeout :: "IdleConn \<Rightarrow> IdleConn \<Rightarrow> int \<Rightarrow> IdleConn \<times> IdleConn" where
  "ShareIdleTimeout a b timeout =
     (let group = \<lparr>grp_timeout = timeout, grp_conns = [ic_conn a, ic_conn b]\<rparr> in
      (a\<lparr>ic_Timeout := timeout, ic_group := Some group\<rparr>,
       b\<lparr>ic_Timeout := timeout, ic_group := Some group\<rparr>))"

definition refreshReadDeadline :: "(nat \<Rightarrow> 'e option) \<Rightarrow> int \<Rightarrow> IdleConn \<Rightarrow> deadlines \<Rightarrow> 'e option \<times> deadlines" where
  "refreshReadDeadline fails now c s =
     (case ic_group c of
        Some g \<Rightarrow> group_refreshDeadline fails now g s
      | None \<Rightarrow>
          if ic_Timeout c > 0
          then (case fails (ic_conn c) of
                  Some e \<Rightarrow> (Some e, s)
                | None \<Rightarrow> (None, SetReadDeadline (ic_conn c) (Some (now + ic_Timeout c)) s))
          else (None, s))"

definition refreshWriteDeadline :: "(nat \<Rightarrow> 'e option) \<Rightarrow> int \<Rightarrow> IdleConn \<Rightarrow> deadlines \<Rightarrow> 'e option \<times> deadlines" where
  "refreshWriteDeadline fails now c s =
     (case ic_group c of
        Some g \<Rightarrow> group_refreshDeadline fails now g s
      | None \<Rightarrow>
          if ic_Timeout c > 0
          then (case fails (ic_conn c) of
                  Some e \<Rightarrow> (Some e, s)
                | None \<Rightarrow> (None, SetWriteDeadline (ic_conn c) (Some (now + ic_Timeout c)) s))
          else (None, s))"

definition refreshSharedDeadlineAfterActivity ::
    "(nat \<Rightarrow> 'e option) \<Rightarrow> int \<Rightarrow> IdleConn \<Rightarrow> 'e option \<Rightarrow> deadlines \<Rightarrow> 'e option \<times> deadlines" where
  "refreshSharedDeadlineAfterActivity fails now c err s =
     (case ic_group c of
        None \<Rightarrow> (err, s)
      | Some g \<Rightarrow>
          (case group_refreshDeadline fails now g s of
             (refreshErr, s') \<Rightarrow> (if err = None \<and> refreshErr \<noteq> None then refreshErr else err, s')))"

text \<open>\<open>Read\<close> and \<open>Write\<close> of the wrapper differ in the first refresh only.  The wrapped call's
  outcome \<open>(n, err)\<close> is an input; \<open>t0\<close> and \<open>t1\<close> are the clock before and after it.  The last
  component tells whether the wrapped call was made at all.\<close>

definition idle_io :: "((nat \<Rightarrow> 'e option) \<Rightarrow> int \<Rightarrow> IdleConn \<Rightarrow> deadlines \<Rightarrow> 'e option \<times> deadlines) \<Rightarrow>
    (nat \<Rightarrow> 'e option) \<Rightarrow> int \<Rightarrow> int \<Rightarrow> nat \<times> 'e option \<Rightarrow> IdleConn \<Rightarrow> deadlines \<Rightarrow>
    (nat \<times> 'e option) \<times> deadlines \<times> bool" where
  "idle_io refresh fails t0 t1 outcome c s =
     (case refresh fails t0 c s of
        (Some err, s') \<Rightarrow> ((0, Some err), s', False)
      | (None, s') \<Rightarrow>
          (case outcome of
             (n, err) \<Rightarrow>
               if n > 0
               then (case refreshSharedDeadlineAfterActivity fails t1 c err s' of
                       (err', s'') \<Rightarrow> ((n, err'), s'', True))
               else ((n, err), s', True)))"

definition IdleConn_Read :: "(nat \<Rightarrow> 'e option) \<Rightarrow> int \<Rightarrow> int \<Rightarrow> nat \<times> 'e option \<Rightarrow> IdleConn \<Rightarrow> deadlines \<Rightarrow>
    (nat \<times> 'e option) \<times> deadlines \<times> bool" where
  "IdleConn_Read = idle_io refreshReadDeadline"

definition IdleConn_Write :: "(nat \<Rightarrow> 'e option) \<Rightarrow> int \<Rightarrow> int \<Rightarrow> nat \<times> 'e option \<Rightarrow> IdleConn \<Rightarrow> deadlines \<Rightarrow>
    (nat \<times> 'e option) \<times> deadlines \<times> bool" where
  "IdleConn_Write = idle_io refreshWriteDeadline"

section \<open>Lemmas\<close>

text \<open>The value a swap loop leaves is the largest of those that met, and never smaller than the
  caller's reading.\<close>

lemma touch_loop_ge: "sint now \<le> sint (touch_loop now vs old)"
  by (induction now vs old rule: touch_loop.induct) auto

lemma touch_loop_mono:
  "sorted (map sint (old # vs)) \<Longrightarrow> sint old \<le> sint (touch_loop now vs old)"
  by (induction now vs old rule: touch_loop.induct) auto

lemma touch_loop_among: "touch_loop now vs old \<in> insert now (insert old (set vs))"
  by (induction now vs old rule: touch_loop.induct) auto

lemma touch_last: "sint (idle_last (touch now g)) = max (sint now) (sint (idle_last g))"
  by (simp add: touch_def max_def)

lemma touch_timeout [simp]: "idle_timeout (touch now g) = idle_timeout g"
  by (simp add: touch_def)

lemma sint_maxDeadline [simp]: "sint maxDeadline = 2 ^ 63 - 1"
  by (simp add: maxDeadline_def)

lemma sint_minus_i64:
  "- (2 ^ 63) \<le> sint a - sint b \<Longrightarrow> sint a - sint b < 2 ^ 63 \<Longrightarrow> sint ((a :: i64) - b) = sint a - sint b"
  using sint_of_int_i64 [of "sint a - sint b"] by simp

lemma sint_plus_i64:
  "- (2 ^ 63) \<le> sint a + sint b \<Longrightarrow> sint a + sint b < 2 ^ 63 \<Longrightarrow> sint ((a :: i64) + b) = sint a + sint b"
  using sint_of_int_i64 [of "sint a + sint b"] by simp

definition wf_idle :: "tcpIdleState \<Rightarrow> bool" where
  "wf_idle g \<longleftrightarrow> 0 < sint (idle_timeout g) \<and> 0 \<le> sint (idle_last g)"

lemma wf_touch [simp]: "wf_idle g \<Longrightarrow> wf_idle (touch now g)"
  by (simp add: wf_idle_def touch_last max_def)

lemma sint_deadline:
  assumes "wf_idle g"
  shows "sint (deadline g) = min (2 ^ 63 - 1) (sint (idle_last g) + sint (idle_timeout g))"
proof -
  note r = sint_i64_range [of "idle_timeout g"] sint_i64_range [of "idle_last g"]
  have sub: "sint (maxDeadline - idle_timeout g) = 2 ^ 63 - 1 - sint (idle_timeout g)"
    using assms r by (subst sint_minus_i64) (auto simp: wf_idle_def)
  show ?thesis
  proof (cases "sint (idle_last g) > 2 ^ 63 - 1 - sint (idle_timeout g)")
    case True
    then show ?thesis by (simp add: deadline_def sub)
  next
    case False
    then have "sint (idle_last g + idle_timeout g) = sint (idle_last g) + sint (idle_timeout g)"
      using assms by (subst sint_plus_i64) (auto simp: wf_idle_def)
    with False show ?thesis by (simp add: deadline_def sub)
  qed
qed

lemma arm_mono: "arm lf g d e ok = (b, d') \<Longrightarrow> sint d \<le> sint d'"
  by (auto simp: arm_def Let_def split: if_splits)

text \<open>A round that gives a timeout back to the caller did so because the whole tunnel was idle at
  the clock reading of the decision, or because the socket deadline in force was not ours.\<close>

lemma Read_round_timeout:
  "Read_round g d e x = Inl (ReadDone 0 TimeoutErr, g', d', now) \<Longrightarrow> sint d' \<le> sint now \<Longrightarrow>
   sint (deadline g') \<le> sint now"
  by (auto simp: Read_round_def Let_def retry_def split: prod.splits if_splits)

lemma Read_loop_timeout:
  "Read_loop g d e rounds = Some (ReadDone 0 TimeoutErr, g', d', now) \<Longrightarrow> sint d' \<le> sint now \<Longrightarrow>
   sint (deadline g') \<le> sint now"
  by (induction g d e rounds rule: Read_loop.induct)
    (auto split: sum.splits dest: Read_round_timeout)

definition same_group :: "tcpIdleState \<Rightarrow> tcpIdleState \<Rightarrow> bool" where
  "same_group g g' \<longleftrightarrow> wf_idle g' \<and> idle_timeout g' = idle_timeout g"

lemma Read_round_wf:
  "wf_idle g \<Longrightarrow> Read_round g d e x = Inl (r, g', d', now) \<Longrightarrow> same_group g g'"
  "wf_idle g \<Longrightarrow> Read_round g d e x = Inr (g', d') \<Longrightarrow> same_group g g'"
  by (auto simp: same_group_def Read_round_def Let_def split: prod.splits if_splits)

lemma Read_loop_wf:
  "wf_idle g \<Longrightarrow> Read_loop g d e rounds = Some (r, g', d', now) \<Longrightarrow> same_group g g'"
proof (induction g d e rounds rule: Read_loop.induct)
  case (2 g d e x xs)
  show ?case
  proof (cases "Read_round g d e x")
    case (Inl y)
    with 2 Read_round_wf(1) show ?thesis by (cases y) auto
  next
    case (Inr y)
    obtain g1 d1 where y: "y = (g1, d1)" by (cases y)
    with Inr "2.prems" have "same_group g g1" using Read_round_wf(2) by blast
    then show ?thesis using 2 Inr y by (auto simp: same_group_def)
  qed
qed simp

text \<open>One round of a write extends the prefix that is on the wire.\<close>

definition write_inv :: "'b list \<Rightarrow> nat \<Rightarrow> 'b list \<Rightarrow> 'b list \<Rightarrow> bool" where
  "write_inv p tot wire rest \<longleftrightarrow> wire = take tot p \<and> rest = drop tot p \<and> tot \<le> length p"

lemma write_inv_step:
  "write_inv p tot wire rest \<Longrightarrow> n \<le> length rest \<Longrightarrow>
   write_inv p (tot + n) (wire @ take n rest) (drop n rest)"
  by (simp add: write_inv_def take_add) (auto simp: add.commute)

lemma Write_round_Inl:
  assumes "Write_round g d e tot wire rest x = Inl (WriteResult n err w, g', d')"
    and "write_inv p tot wire rest" "write_contract (length rest) (x # xs)"
  shows "w = take n p \<and> n \<le> length p \<and> (err = Some NoErr \<longrightarrow> n = length p)"
proof -
  note step = write_inv_step [OF assms(2), of "io_n x"]
  from assms(1) consider "n = tot" "w = wire" "err = None"
    | "n = tot + io_n x" "w = wire @ take (io_n x) rest" "err = Some (io_e x) \<or> drop (io_n x) rest = []"
    by (auto simp: Write_round_def Let_def split: prod.splits if_splits)
  then show ?thesis using step assms(2,3) by cases (auto simp: write_inv_def)
qed

lemma Write_round_Inr:
  assumes "Write_round g d e tot wire rest x = Inr (g', d', tot', wire', rest')"
    and "write_inv p tot wire rest" "write_contract (length rest) (x # xs)"
  shows "write_inv p tot' wire' rest' \<and> write_contract (length rest') xs"
  using assms write_inv_step [OF assms(2), of "io_n x"]
  by (auto simp: Write_round_def Let_def split: prod.splits if_splits)

lemma Write_loop_wire:
  "Write_loop g d e tot wire rest rounds = Some (WriteResult n err w, g', d') \<Longrightarrow>
   write_inv p tot wire rest \<Longrightarrow> write_contract (length rest) rounds \<Longrightarrow>
   w = take n p \<and> n \<le> length p \<and> (err = Some NoErr \<longrightarrow> n = length p)"
proof (induction g d e tot wire rest rounds rule: Write_loop.induct)
  case (2 g d e tot wire rest x xs)
  show ?case
  proof (cases "Write_round g d e tot wire rest x")
    case (Inl y)
    with 2 show ?thesis by (intro Write_round_Inl) auto
  next
    case (Inr y)
    obtain g1 d1 t1 w1 p1 where y: "y = (g1, d1, t1, w1, p1)" by (cases y)
    with Write_round_Inr Inr "2.prems" have "write_inv p t1 w1 p1" "write_contract (length p1) xs" by blast+
    with 2 Inr y show ?thesis by auto
  qed
qed simp

section \<open>Properties\<close>

text \<open>The shared activity time never moves backwards and never loses an update: whatever other
  goroutines store (increasing values) between the load and the swap, the loop of \<open>touch\<close> ends with
  a value at least its own clock reading and at least the value it started from, and one that some
  goroutine really stored.\<close>

theorem touch_never_loses_activity:
  assumes "sorted (map sint (old # stored))"
  shows "sint now \<le> sint (touch_loop now stored old) \<and> sint old \<le> sint (touch_loop now stored old) \<and>
    touch_loop now stored old \<in> insert now (insert old (set stored))"
  using touch_loop_ge touch_loop_mono [OF assms] touch_loop_among by blast

theorem touch_never_loses_activity_witness: "touch_loop 5 [3, 9] 1 = 9 \<and> sint (5 :: i64) \<le> sint (9 :: i64)"
proof -
  have "sorted (map sint (1 # [3, 9 :: i64]))" by simp
  from touch_never_loses_activity [OF this, of 5] show ?thesis by simp
qed

text \<open>The idle deadline saturates: for every positive timeout, up to the largest \<open>time.Duration\<close>,
  it is the last activity plus the timeout cut at 2^63 - 1, never a wrapped (negative) value.\<close>

theorem idle_deadline_saturates:
  assumes "0 < sint timeout" and "0 \<le> sint act"
  shows "sint (deadline \<lparr>idle_timeout = timeout, idle_last = act\<rparr>) = min (2 ^ 63 - 1) (sint act + sint timeout)"
  using sint_deadline [of "\<lparr>idle_timeout = timeout, idle_last = act\<rparr>"] assms by (simp add: wf_idle_def)

theorem idle_deadline_saturates_witness:
  "sint (deadline \<lparr>idle_timeout = 2 ^ 63 - 1, idle_last = 7\<rparr>) = 2 ^ 63 - 1"
  by (subst idle_deadline_saturates) simp_all

text \<open>C39: A read reports an idle timeout only when the whole tunnel is idle: if \<open>Read\<close> returns no
  data and a timeout error at clock \<open>now\<close>, and the deadline it had installed itself has expired,
  then at least the timeout has passed since the last activity of either direction (or the clock
  has reached the largest representable deadline).\<close>

theorem read_timeout_means_tunnel_idle:
  assumes "tcp_Read g d start rounds = Some (ReadDone 0 TimeoutErr, g', d', now)"
    and "wf_idle g" and "sint d' \<le> sint now"
  shows "min (2 ^ 63 - 1) (sint (idle_last g') + sint (idle_timeout g)) \<le> sint now"
proof -
  from assms have "wf_idle g'" "idle_timeout g' = idle_timeout g"
    using Read_loop_wf [of "touch start g"] by (auto simp: tcp_Read_def same_group_def)
  moreover have "sint (deadline g') \<le> sint now"
    using assms Read_loop_timeout by (auto simp: tcp_Read_def)
  ultimately show ?thesis by (simp add: sint_deadline)
qed

text \<open>Witness: the first wake-up is stale because the other direction was active at 60, the second
  one finds the tunnel idle since then.\<close>

theorem read_timeout_means_tunnel_idle_witness:
  "min (2 ^ 63 - 1) (60 + 100) \<le> (160 :: int)"
proof -
  let ?g = "\<lparr>idle_timeout = 100, idle_last = 0\<rparr>"
  let ?x = "\<lparr>set_ok = True, io_n = 0, io_e = TimeoutErr, touch_now = 0, retry_now = 100, other_lock = 0, other_io = 60\<rparr>"
  let ?y = "\<lparr>set_ok = True, io_n = 0, io_e = TimeoutErr, touch_now = 0, retry_now = 160, other_lock = 0, other_io = 0\<rparr>"
  have "tcp_Read ?g 0 0 [?x, ?y] = Some (ReadDone 0 TimeoutErr, ?g\<lparr>idle_last := 60\<rparr>, 160, 160)"
    by code_simp
  from read_timeout_means_tunnel_idle [OF this] show ?thesis by (simp add: wf_idle_def)
qed

text \<open>The retry loop makes progress: a timeout that is retried leads to a strictly later socket
  deadline, in the future of the clock reading that decided the retry, so a stale wake-up cannot
  become a busy loop.\<close>

theorem retry_extends_socket_deadline:
  assumes "retry g err d now" and "arm lastF g d True ok = (True, d')"
  shows "sint d < sint d' \<and> sint now < sint d' \<and> d' = deadline g"
  using assms by (auto simp: retry_def arm_def Let_def split: if_splits)

theorem retry_extends_socket_deadline_witness:
  "sint (100 :: i64) < sint (160 :: i64)"
  using retry_extends_socket_deadline [of "\<lparr>idle_timeout = 100, idle_last = 60\<rparr>" TimeoutErr 100 100 100 True 160]
  by (simp add: retry_def arm_def deadline_def maxDeadline_def)

text \<open>A tunnel write that survives stale deadlines neither repeats nor skips a byte: the bytes
  the socket accepted are exactly the first \<open>n\<close> bytes of the buffer, where \<open>n\<close> is the returned
  count, and a nil error means the whole buffer was written (given that the wrapped connection
  reports an error with every short write).\<close>

theorem tcp_write_sends_prefix_once:
  assumes "tcp_Write g d now p rounds = Some (WriteResult n err wire, g', d')"
    and "write_contract (length p) rounds"
  shows "wire = take n p \<and> n \<le> length p \<and> (err = Some NoErr \<longrightarrow> n = length p)"
  using Write_loop_wire [of "touch now g" d False 0 "[]" p rounds n err wire g' d' p] assms
  by (simp add: tcp_Write_def write_inv_def)

theorem tcp_write_sends_prefix_once_witness:
  "[1, 2, 3 :: nat] = take 3 [1, 2, 3]"
proof -
  let ?g = "\<lparr>idle_timeout = 100, idle_last = 0\<rparr>"
  let ?x = "\<lparr>set_ok = True, io_n = 1, io_e = TimeoutErr, touch_now = 100, retry_now = 100, other_lock = 0, other_io = 60\<rparr>"
  let ?y = "\<lparr>set_ok = True, io_n = 2, io_e = NoErr, touch_now = 120, retry_now = 120, other_lock = 0, other_io = 0\<rparr>"
  have "tcp_Write ?g 0 0 [1, 2, 3 :: nat] [?x, ?y] =
      Some (WriteResult 3 (Some NoErr) [1, 2, 3], ?g\<lparr>idle_last := 120\<rparr>, 200)"
    by code_simp
  from tcp_write_sends_prefix_once [OF this] show ?thesis by simp
qed

text \<open>In shared mode any non-empty read or write on one end of the tunnel leaves the read and
  write deadlines of both ends at its completion time plus the timeout, and returns the outcome of
  the wrapped call unchanged.\<close>

theorem shared_activity_refreshes_both_ends:
  assumes "(a', b') = ShareIdleTimeout a b timeout" and "0 < timeout" and "0 < n"
    and "c \<in> {a', b'}" and "io \<in> {IdleConn_Read, IdleConn_Write}"
  shows "case io (\<lambda>_. None) t0 t1 (n, err) c s of (res, s', called) \<Rightarrow>
     res = (n, err) \<and> called \<and>
     (\<forall>e \<in> {ic_conn a, ic_conn b}. read_dl s' e = Some (t1 + timeout) \<and> write_dl s' e = Some (t1 + timeout))"
  using assms
  by (auto simp: ShareIdleTimeout_def IdleConn_Read_def IdleConn_Write_def idle_io_def Let_def
      refreshReadDeadline_def refreshWriteDeadline_def refreshSharedDeadlineAfterActivity_def
      group_refreshDeadline_def SetDeadline_def split: prod.splits)

theorem shared_activity_refreshes_both_ends_witness:
  "case IdleConn_Read (\<lambda>_. None :: nat option) 10 20 (5, None)
      \<lparr>ic_conn = 1, ic_Timeout = 60, ic_group = Some \<lparr>grp_timeout = 60, grp_conns = [1, 2]\<rparr>\<rparr>
      \<lparr>read_dl = (\<lambda>_. None), write_dl = (\<lambda>_. None)\<rparr> of (res, s', called) \<Rightarrow>
     res = (5, None) \<and> called \<and>
     (\<forall>e \<in> {1, 2}. read_dl s' e = Some (20 + 60) \<and> write_dl s' e = Some (20 + 60))"
proof -
  let ?c = "\<lambda>i t g. \<lparr>ic_conn = i, ic_Timeout = t, ic_group = g\<rparr>"
  let ?g = "Some \<lparr>grp_timeout = 60, grp_conns = [1, 2]\<rparr>"
  have "(?c 1 60 ?g, ?c 2 60 ?g) = ShareIdleTimeout (?c 1 0 None) (?c 2 0 None) 60"
    by (simp add: ShareIdleTimeout_def Let_def)
  from shared_activity_refreshes_both_ends [OF this, where n = 5 and c = "?c 1 60 ?g" and io = IdleConn_Read
      and ?t0.0 = 10 and ?t1.0 = 20 and err = None and s = "\<lparr>read_dl = (\<lambda>_. None), write_dl = (\<lambda>_. None)\<rparr>"]
  show ?thesis by simp
qed

end
