(* ===== verification/Relay_Model.thy ===== *)
theory Relay_Model
  imports PM_Prelude
begin

text \<open>
  Copying and relaying, internal/netutil/netutil.go: \<open>CopyAndCloseWrite\<close> (one direction, then a
  half-close) and \<open>RelayReaderCount\<close> (both directions at once, with their byte counts).  A source
  is the script of its \<open>Read\<close> outcomes and a destination the script of its \<open>Write\<close> outcomes; the
  two goroutines of a relay interleave freely, one chunk at a time.
\<close>

section \<open>io.Copy\<close>

datatype copy_err = EOF | ErrShortWrite | CopyErr string

text \<open>A read returns a chunk and possibly an error beside it; a write says how much of the chunk
  it took and possibly fails.  An unlimited writer is the empty script.\<close>

type_synonym 'b reads = "('b list \<times> copy_err option) list"
type_synonym writes = "(nat \<times> copy_err option) list"

definition write_outcome :: "'b list \<Rightarrow> writes \<Rightarrow> nat \<times> copy_err option \<times> writes" where
  "write_outcome chunk ws =
     (case ws of [] \<Rightarrow> (length chunk, None, []) | (n, e) # ws' \<Rightarrow> (min n (length chunk), e, ws'))"

text \<open>One round of the copy loop: either it goes on with the count so far and the bytes that
  reached the destination, or it stops with the error \<open>io.Copy\<close> returns (EOF becomes nil).\<close>

definition copy_round :: "'b list \<times> copy_err option \<Rightarrow> writes \<Rightarrow>
    nat \<times> 'b list \<times> writes \<times> copy_err option option" where
  "copy_round r ws =
     (case r of (chunk, er) \<Rightarrow>
        let stop = (case er of None \<Rightarrow> None | Some EOF \<Rightarrow> Some None | Some e \<Rightarrow> Some (Some e)) in
        if chunk = [] then (0, [], ws, stop)
        else (case write_outcome chunk ws of (nw, ew, ws') \<Rightarrow>
          (nw, take nw chunk, ws',
            if ew \<noteq> None then Some ew
            else if nw \<noteq> length chunk then Some (Some ErrShortWrite)
            else stop)))"

fun io_Copy :: "'b reads \<Rightarrow> writes \<Rightarrow> (nat \<times> 'b list \<times> copy_err option) option" where
  "io_Copy [] ws = None"
| "io_Copy (r # rs) ws =
     (case copy_round r ws of (n, out, ws', stop) \<Rightarrow>
        (case stop of
           Some err \<Rightarrow> Some (n, out, err)
         | None \<Rightarrow> map_option (\<lambda>(n', out', err). (n + n', out @ out', err)) (io_Copy rs ws')))"

text \<open>\<open>closeWrite\<close>: half-close where the connection can, an immediate read deadline otherwise.\<close>

datatype close_effect = HalfClosed | ReadDeadlineNow

definition closeWrite :: "bool \<Rightarrow> close_effect" where
  "closeWrite isHalfCloser = (if isHalfCloser then HalfClosed else ReadDeadlineNow)"

text \<open>The two branches of \<open>CopyAndCloseWrite\<close> (library fast path or pooled buffer) copy alike.\<close>

definition CopyAndCloseWrite :: "bool \<Rightarrow> 'b reads \<Rightarrow> writes \<Rightarrow>
    (nat \<times> 'b list \<times> copy_err option \<times> close_effect) option" where
  "CopyAndCloseWrite dstHalfCloser src dst =
     map_option (\<lambda>(n, out, err). (n, out, err, closeWrite dstHalfCloser)) (io_Copy src dst)"

section \<open>RelayReaderCount\<close>

text \<open>One direction of a relay: what is left to read and to write, the count, the bytes that
  arrived, and whether the goroutine has closed the write side and signalled \<open>done\<close>.\<close>

record 'b copier =
  cp_src :: "'b reads"
  cp_dst :: writes
  cp_count :: nat
  cp_out :: "'b list"
  cp_closed :: "close_effect option"
  cp_stopped :: bool
  cp_done :: bool

definition new_copier :: "'b reads \<Rightarrow> writes \<Rightarrow> 'b copier" where
  "new_copier src dst = \<lparr>cp_src = src, cp_dst = dst, cp_count = 0, cp_out = [], cp_closed = None,
     cp_stopped = False, cp_done = False\<rparr>"

text \<open>The next atomic action of a goroutine: a round of the copy, then \<open>closeWrite\<close>, then the send
  on \<open>done\<close>.  \<open>None\<close>: it is blocked in a read, or finished.\<close>

definition copier_next :: "bool \<Rightarrow> 'b copier \<Rightarrow> 'b copier option" where
  "copier_next half c =
     (if cp_done c then None
      else if cp_closed c \<noteq> None then Some (c\<lparr>cp_done := True\<rparr>)
      else if cp_stopped c then Some (c\<lparr>cp_closed := Some (closeWrite half)\<rparr>)
      else (case cp_src c of
              [] \<Rightarrow> None
            | r # rs \<Rightarrow>
                (case copy_round r (cp_dst c) of (n, out, ws', stop) \<Rightarrow>
                   Some (c\<lparr>cp_src := rs, cp_dst := ws', cp_count := cp_count c + n,
                     cp_out := cp_out c @ out, cp_stopped := (stop \<noteq> None)\<rparr>))))"

text \<open>The relay waits for both signals and then returns the two counts.\<close>

record 'b relay =
  rl_up :: "'b copier"
  rl_down :: "'b copier"
  rl_result :: "(nat \<times> nat) option"

definition start_relay :: "'b reads \<Rightarrow> writes \<Rightarrow> 'b reads \<Rightarrow> writes \<Rightarrow> 'b relay" where
  "start_relay us ud ds dd = \<lparr>rl_up = new_copier us ud, rl_down = new_copier ds dd, rl_result = None\<rparr>"

inductive relay_step :: "bool \<Rightarrow> bool \<Rightarrow> 'b relay \<Rightarrow> 'b relay \<Rightarrow> bool"
  for remoteHalf clientHalf where
  relay_up: "copier_next remoteHalf (rl_up r) = Some c \<Longrightarrow>
     relay_step remoteHalf clientHalf r (r\<lparr>rl_up := c\<rparr>)"
| relay_down: "copier_next clientHalf (rl_down r) = Some c \<Longrightarrow>
     relay_step remoteHalf clientHalf r (r\<lparr>rl_down := c\<rparr>)"
| relay_return: "cp_done (rl_up r) \<Longrightarrow> cp_done (rl_down r) \<Longrightarrow> rl_result r = None \<Longrightarrow>
     relay_step remoteHalf clientHalf r (r\<lparr>rl_result := Some (cp_count (rl_up r), cp_count (rl_down r))\<rparr>)"

inductive_cases relay_stepE [step_elims]: "relay_step rh ch r r'"

section \<open>RelayReader\<close>

text \<open>\<open>RelayReader\<close> runs the same two goroutines and returns nothing.  (\<open>Relay\<close> is \<open>RelayReader\<close> with
  the client as its own reader.)\<close>

record 'b plain_relay =
  pr_up :: "'b copier"
  pr_down :: "'b copier"
  pr_returned :: bool

definition start_plain_relay :: "'b reads \<Rightarrow> writes \<Rightarrow> 'b reads \<Rightarrow> writes \<Rightarrow> 'b plain_relay" where
  "start_plain_relay us ud ds dd = \<lparr>pr_up = new_copier us ud, pr_down = new_copier ds dd, pr_returned = False\<rparr>"

inductive plain_relay_step :: "bool \<Rightarrow> bool \<Rightarrow> 'b plain_relay \<Rightarrow> 'b plain_relay \<Rightarrow> bool"
  for remoteHalf clientHalf where
  plain_up: "copier_next remoteHalf (pr_up r) = Some c \<Longrightarrow>
     plain_relay_step remoteHalf clientHalf r (r\<lparr>pr_up := c\<rparr>)"
| plain_down: "copier_next clientHalf (pr_down r) = Some c \<Longrightarrow>
     plain_relay_step remoteHalf clientHalf r (r\<lparr>pr_down := c\<rparr>)"
| plain_return: "cp_done (pr_up r) \<Longrightarrow> cp_done (pr_down r) \<Longrightarrow> \<not> pr_returned r \<Longrightarrow>
     plain_relay_step remoteHalf clientHalf r (r\<lparr>pr_returned := True\<rparr>)"

inductive_cases plain_relay_stepE [step_elims]: "plain_relay_step rh ch r r'"

definition forget_counts :: "'b relay \<Rightarrow> 'b plain_relay" where
  "forget_counts r = \<lparr>pr_up = rl_up r, pr_down = rl_down r, pr_returned = (rl_result r \<noteq> None)\<rparr>"

section \<open>Lemmas\<close>

definition delivered :: "'b reads \<Rightarrow> 'b list" where
  "delivered rs = concat (map fst rs)"

lemma copy_round_prefix:
  "copy_round r ws = (n, out, ws', stop) \<Longrightarrow>
   n = length out \<and> prefix out (fst r) \<and> (stop = None \<longrightarrow> out = fst r) \<and> (stop = Some None \<longrightarrow> out = fst r)"
  by (auto simp: copy_round_def write_outcome_def Let_def take_is_prefix
      split: prod.splits if_splits option.splits copy_err.splits list.splits)

lemma io_Copy_prefix:
  "io_Copy rs ws = Some (n, out, err) \<Longrightarrow>
   n = length out \<and> prefix out (delivered rs) \<and>
   (err = None \<longrightarrow> (\<exists>k. k \<le> length rs \<and> out = delivered (take k rs)))"
proof (induction rs ws arbitrary: n out err rule: io_Copy.induct)
  case (2 r rs ws)
  obtain n1 o1 ws1 stop where r: "copy_round r ws = (n1, o1, ws1, stop)" by (cases "copy_round r ws") auto
  note p = copy_round_prefix [OF r]
  show ?case
  proof (cases stop)
    case (Some e)
    with 2 r have eq: "n = n1" "out = o1" "err = e" by auto
    have "e = None \<longrightarrow> out = delivered (take 1 (r # rs))" using p Some eq by (simp add: delivered_def)
    then show ?thesis using p eq by (auto simp: delivered_def intro!: exI [of _ 1])
  next
    case None
    with "2.prems" r obtain n2 o2 where c: "io_Copy rs ws1 = Some (n2, o2, err)" "n = n1 + n2" "out = o1 @ o2"
      by auto
    from "2.IH" [OF r [symmetric] refl refl None c(1)] obtain
      IH: "n2 = length o2" "prefix o2 (delivered rs)"
        "err = None \<longrightarrow> (\<exists>k. k \<le> length rs \<and> o2 = delivered (take k rs))" by blast
    have "err = None \<longrightarrow> (\<exists>k. k \<le> length (r # rs) \<and> out = delivered (take k (r # rs)))"
    proof
      assume "err = None"
      with IH obtain k where "k \<le> length rs" "o2 = delivered (take k rs)" by blast
      then show "\<exists>k. k \<le> length (r # rs) \<and> out = delivered (take k (r # rs))"
        using p None c by (intro exI [of _ "Suc k"]) (simp add: delivered_def)
    qed
    then show ?thesis using IH p None c by (auto simp: delivered_def)
  qed
qed simp

text \<open>What holds of one goroutine at every moment, and that it is kept by its actions.\<close>

definition copier_inv :: "bool \<Rightarrow> 'b list \<Rightarrow> 'b copier \<Rightarrow> bool" where
  "copier_inv half src c \<longleftrightarrow>
     cp_count c = length (cp_out c) \<and> prefix (cp_out c) src \<and>
     (\<not> cp_stopped c \<longrightarrow> cp_out c @ delivered (cp_src c) = src) \<and>
     (cp_closed c \<noteq> None \<longrightarrow> cp_stopped c \<and> cp_closed c = Some (closeWrite half)) \<and>
     (cp_done c \<longrightarrow> cp_closed c \<noteq> None)"

lemma copier_inv_new: "copier_inv half (delivered src) (new_copier src dst)"
  by (simp add: copier_inv_def new_copier_def)

lemma copier_inv_next: "copier_inv half src c \<Longrightarrow> copier_next half c = Some c' \<Longrightarrow> copier_inv half src c'"
proof -
  assume inv: "copier_inv half src c" and nx: "copier_next half c = Some c'"
  show ?thesis
  proof (cases "cp_done c \<or> cp_closed c \<noteq> None \<or> cp_stopped c")
    case True
    with inv nx show ?thesis by (auto simp: copier_next_def copier_inv_def split: if_splits)
  next
    case False
    with nx obtain r rs where src: "cp_src c = r # rs" by (auto simp: copier_next_def split: list.splits)
    obtain n out ws stop where r: "copy_round r (cp_dst c) = (n, out, ws, stop)" by (cases "copy_round r (cp_dst c)") auto
    have "cp_out c @ fst r @ delivered rs = src" using inv False src by (simp add: copier_inv_def delivered_def)
    moreover have "prefix (cp_out c @ out) (cp_out c @ fst r @ delivered rs)"
      using copy_round_prefix [OF r] by auto
    ultimately show ?thesis
      using inv nx False src r copy_round_prefix [OF r]
      by (auto simp: copier_next_def copier_inv_def split: if_splits)
  qed
qed

definition relay_inv :: "bool \<Rightarrow> bool \<Rightarrow> 'b list \<Rightarrow> 'b list \<Rightarrow> 'b relay \<Rightarrow> bool" where
  "relay_inv rh ch up down r \<longleftrightarrow>
     copier_inv rh up (rl_up r) \<and> copier_inv ch down (rl_down r) \<and>
     (case rl_result r of None \<Rightarrow> True
      | Some (u, d) \<Rightarrow> cp_done (rl_up r) \<and> cp_done (rl_down r) \<and>
          u = cp_count (rl_up r) \<and> d = cp_count (rl_down r))"

lemma copier_next_done: "cp_done c \<Longrightarrow> copier_next half c = None"
  by (simp add: copier_next_def)

lemma relay_inv_step:
  "relay_inv rh ch up down r \<Longrightarrow> relay_step rh ch r r' \<Longrightarrow> relay_inv rh ch up down r'"
  by (auto elim!: relay_stepE simp: relay_inv_def copier_next_done split: option.splits
      dest: copier_inv_next)

interpretation relay_sys: invariant_system "\<lambda>r. r = start_relay us ud ds dd" "relay_step rh ch"
    "relay_inv rh ch (delivered us) (delivered ds)"
proof unfold_locales
  fix r :: "'a relay"
  assume "r = start_relay us ud ds dd"
  then show "relay_inv rh ch (delivered us) (delivered ds) r"
    by (simp add: relay_inv_def start_relay_def copier_inv_new)
qed (rule relay_inv_step)

text \<open>The two relays simulate each other.\<close>

lemma forget_counts_start: "forget_counts (start_relay us ud ds dd) = start_plain_relay us ud ds dd"
  by (simp add: forget_counts_def start_relay_def start_plain_relay_def)

lemma forget_counts_step: "relay_step rh ch r r' \<Longrightarrow> plain_relay_step rh ch (forget_counts r) (forget_counts r')"
  using plain_up [of rh "forget_counts r"] plain_down [of ch "forget_counts r"] plain_return [of "forget_counts r"]
  by (elim relay_stepE) (auto simp: forget_counts_def)

lemma forget_counts_back:
  "plain_relay_step rh ch (forget_counts r) p \<Longrightarrow> \<exists>r'. relay_step rh ch r r' \<and> forget_counts r' = p"
proof (erule plain_relay_stepE)
  fix c assume p: "p = forget_counts r\<lparr>pr_up := c\<rparr>" and "copier_next rh (pr_up (forget_counts r)) = Some c"
  then have "relay_step rh ch r (r\<lparr>rl_up := c\<rparr>)" by (intro relay_up) (simp add: forget_counts_def)
  then show ?thesis using p by (force simp: forget_counts_def)
next
  fix c assume p: "p = forget_counts r\<lparr>pr_down := c\<rparr>" and "copier_next ch (pr_down (forget_counts r)) = Some c"
  then have "relay_step rh ch r (r\<lparr>rl_down := c\<rparr>)" by (intro relay_down) (simp add: forget_counts_def)
  then show ?thesis using p by (force simp: forget_counts_def)
next
  assume p: "p = forget_counts r\<lparr>pr_returned := True\<rparr>"
    and "cp_done (pr_up (forget_counts r))" "cp_done (pr_down (forget_counts r))" "\<not> pr_returned (forget_counts r)"
  then have "rl_result r = None" and "cp_done (rl_up r)" "cp_done (rl_down r)"
    by (cases "rl_result r"; simp add: forget_counts_def)+
  then have "relay_step rh ch r (r\<lparr>rl_result := Some (cp_count (rl_up r), cp_count (rl_down r))\<rparr>)"
    by (intro relay_return)
  then show ?thesis using p by (force simp: forget_counts_def)
qed

section \<open>Properties\<close>

text \<open>\<open>CopyAndCloseWrite\<close> returns the number of bytes that reached the destination, these are a
  prefix of what the source delivered (nothing reordered, repeated or invented), on a nil error it
  is everything that was read, and the write side of the destination is always closed afterwards,
  whatever the error.\<close>

theorem copy_delivers_prefix_and_half_closes:
  assumes "CopyAndCloseWrite half src dst = Some (n, out, err, closed)"
  shows "n = length out \<and> prefix out (delivered src) \<and> closed = closeWrite half \<and>
    (err = None \<longrightarrow> (\<exists>k. k \<le> length src \<and> out = delivered (take k src)))"
  using assms by (auto simp: CopyAndCloseWrite_def dest: io_Copy_prefix)

theorem copy_delivers_prefix_and_half_closes_witness:
  "3 = length [1, 2, 3 :: nat] \<and> prefix [1, 2, 3 :: nat] [1, 2, 3, 4]"
proof -
  have "CopyAndCloseWrite True [([1, 2 :: nat], None), ([3, 4], Some EOF)] [(2, None), (1, None)] =
      Some (3, [1, 2, 3], Some ErrShortWrite, HalfClosed)"
    by code_simp
  from copy_delivers_prefix_and_half_closes [OF this] show ?thesis by (simp add: delivered_def)
qed

text \<open>\<open>RelayReaderCount\<close> does exactly what \<open>RelayReader\<close> does: the states the two can reach from
  the same streams are the same but for the counts, whatever the interleaving, so the counting relay
  returns in a run if and only if the plain one does, with the same bytes delivered and the same closes.\<close>

theorem counting_relay_is_the_plain_one:
  "reach (\<lambda>p. p = start_plain_relay us ud ds dd) (plain_relay_step rh ch) p \<longleftrightarrow>
   (\<exists>r. reach (\<lambda>r. r = start_relay us ud ds dd) (relay_step rh ch) r \<and> forget_counts r = p)"
proof
  assume "reach (\<lambda>p. p = start_plain_relay us ud ds dd) (plain_relay_step rh ch) p"
  then show "\<exists>r. reach (\<lambda>r. r = start_relay us ud ds dd) (relay_step rh ch) r \<and> forget_counts r = p"
  proof (induction rule: reach.induct)
    case (reach_init p)
    then show ?case by (metis forget_counts_start reach.reach_init)
  next
    case (reach_step p p')
    then show ?case by (metis forget_counts_back reach.reach_step)
  qed
next
  assume "\<exists>r. reach (\<lambda>r. r = start_relay us ud ds dd) (relay_step rh ch) r \<and> forget_counts r = p"
  then obtain r where r: "reach (\<lambda>r. r = start_relay us ud ds dd) (relay_step rh ch) r" and p: "p = forget_counts r"
    by blast
  from r have "reach (\<lambda>p. p = start_plain_relay us ud ds dd) (plain_relay_step rh ch) (forget_counts r)"
  proof (induction rule: reach.induct)
    case (reach_init r)
    then show ?case by (auto simp: forget_counts_start intro: reach.reach_init)
  next
    case (reach_step r r')
    then show ?case by (blast intro: reach.reach_step forget_counts_step)
  qed
  then show "reach (\<lambda>p. p = start_plain_relay us ud ds dd) (plain_relay_step rh ch) p" by (simp add: p)
qed

text \<open>C38: A relay returns only after both directions have been closed towards their receivers, and
  the two counts it returns are exactly the numbers of bytes delivered upstream and downstream, in
  every interleaving of its two goroutines and for every pattern of read and write failures.\<close>

theorem relay_counts_and_closes_both:
  assumes "reach (\<lambda>r. r = start_relay us ud ds dd) (relay_step remoteHalf clientHalf) r"
    and "rl_result r = Some (up, down)"
  shows "up = length (cp_out (rl_up r)) \<and> prefix (cp_out (rl_up r)) (delivered us) \<and>
    down = length (cp_out (rl_down r)) \<and> prefix (cp_out (rl_down r)) (delivered ds) \<and>
    cp_closed (rl_up r) = Some (closeWrite remoteHalf) \<and> cp_closed (rl_down r) = Some (closeWrite clientHalf)"
  using relay_sys.inv_reach [OF assms(1)] assms(2) by (auto simp: relay_inv_def copier_inv_def)

lemma relay_reach_next:
  "reach i (relay_step rh ch) r \<Longrightarrow> copier_next rh (rl_up r) = Some c \<Longrightarrow>
     reach i (relay_step rh ch) (r\<lparr>rl_up := c\<rparr>)"
  "reach i (relay_step rh ch) r \<Longrightarrow> copier_next ch (rl_down r) = Some c \<Longrightarrow>
     reach i (relay_step rh ch) (r\<lparr>rl_down := c\<rparr>)"
  by (blast intro: reach_step relay_step.intros)+

text \<open>Witness: the client sends two bytes and closes, the target answers with one byte.\<close>

theorem relay_counts_and_closes_both_witness:
  "\<exists>r. reach (\<lambda>r. r = start_relay [([1, 2 :: nat], Some EOF)] [] [([3], Some EOF)] []) (relay_step True False) r \<and>
     rl_result r = Some (2, 1) \<and> 2 = length (cp_out (rl_up r)) \<and>
     cp_closed (rl_down r) = Some (closeWrite False)"
proof -
  let ?i = "\<lambda>r. r = start_relay [([1, 2 :: nat], Some EOF)] [] [([3], Some EOF)] []"
  let ?R = "reach ?i (relay_step True False)"
  define u where "u c = \<lparr>cp_src = [], cp_dst = [], cp_count = 2, cp_out = [1, 2 :: nat], cp_closed = c,
      cp_stopped = True, cp_done = False\<rparr>" for c
  define d where "d c = \<lparr>cp_src = [], cp_dst = [], cp_count = 1, cp_out = [3 :: nat], cp_closed = c,
      cp_stopped = True, cp_done = False\<rparr>" for c
  note defs = start_relay_def new_copier_def copier_next_def copy_round_def write_outcome_def
    closeWrite_def u_def d_def
  have "?R (start_relay [([1, 2], Some EOF)] [] [([3], Some EOF)] [])" by (rule reach_init) (rule refl)
  note relay_reach_next(1) [OF this, of "u None"]
  note relay_reach_next(1) [OF this, of "u (Some HalfClosed)"]
  note relay_reach_next(1) [OF this, of "u (Some HalfClosed)\<lparr>cp_done := True\<rparr>"]
  note relay_reach_next(2) [OF this, of "d None"]
  note relay_reach_next(2) [OF this, of "d (Some ReadDeadlineNow)"]
  note relay_reach_next(2) [OF this, of "d (Some ReadDeadlineNow)\<lparr>cp_done := True\<rparr>"]
  note reach_step [OF this relay_return]
  then have R: "?R \<lparr>rl_up = u (Some HalfClosed)\<lparr>cp_done := True\<rparr>, rl_down = d (Some ReadDeadlineNow)\<lparr>cp_done := True\<rparr>,
      rl_result = Some (2, 1)\<rparr>"
    by (simp add: defs)
  show ?thesis
    by (rule exI, rule conjI [OF R]) (use relay_counts_and_closes_both [OF R] in simp)
qed

end
