(* ===== verification/Sem_Model.thy ===== *)
theory Sem_Model
  imports PM_Prelude
begin

text \<open>
  The connection limit shared by the TCP and the UDP forwarder (field \<open>sem\<close> of
  internal/forward/forward.go, a buffered channel of \<open>MaxConns\<close> slots, nil when unlimited): a
  send takes a slot, a receive gives it back.  The contract the two state machines rely on is the
  locale \<open>token_pool\<close>: the number of tokens outstanding is known and never exceeds the capacity.
\<close>

record sem =
  sem_cap :: "nat option"
  sem_held :: nat

definition new_sem :: "int \<Rightarrow> sem" where
  "new_sem maxConns = \<lparr>sem_cap = (if maxConns > 0 then Some (nat maxConns) else None), sem_held = 0\<rparr>"

text \<open>A send on the channel and a receive from it; \<open>None\<close> means it cannot proceed now.  With a
  nil channel the code skips both.\<close>

definition sem_acquire :: "sem \<Rightarrow> sem option" where
  "sem_acquire s =
     (case sem_cap s of
        None \<Rightarrow> Some s
      | Some k \<Rightarrow> if sem_held s < k then Some (s\<lparr>sem_held := Suc (sem_held s)\<rparr>) else None)"

definition sem_release :: "sem \<Rightarrow> sem option" where
  "sem_release s =
     (case sem_cap s of
        None \<Rightarrow> Some s
      | Some k \<Rightarrow> (case sem_held s of 0 \<Rightarrow> None | Suc n \<Rightarrow> Some (s\<lparr>sem_held := n\<rparr>)))"

locale token_pool =
  fixes acquire release :: "'s \<Rightarrow> 's option"
    and cap :: "'s \<Rightarrow> nat option"
    and held :: "'s \<Rightarrow> nat"
  assumes acquire_cap: "acquire s = Some s' \<Longrightarrow> cap s' = cap s"
    and acquire_held: "acquire s = Some s' \<Longrightarrow> cap s = Some k \<Longrightarrow> held s < k \<and> held s' = Suc (held s)"
    and acquire_free: "cap s = None \<or> (cap s = Some k \<and> held s < k) \<Longrightarrow> acquire s \<noteq> None"
    and release_cap: "release s = Some s' \<Longrightarrow> cap s' = cap s"
    and release_held: "release s = Some s' \<Longrightarrow> cap s = Some k \<Longrightarrow> held s = Suc (held s')"
    and release_free: "cap s = None \<or> 0 < held s \<Longrightarrow> release s \<noteq> None"
begin

definition tokens :: "'s \<Rightarrow> nat \<Rightarrow> bool" where
  "tokens s n \<longleftrightarrow> (\<forall>k. cap s = Some k \<longrightarrow> held s = n \<and> n \<le> k)"

lemma tokens_acquire: "tokens s n \<Longrightarrow> acquire s = Some s' \<Longrightarrow> tokens s' (Suc n)"
  unfolding tokens_def using acquire_cap acquire_held by fastforce

lemma tokens_release: "tokens s (Suc n) \<Longrightarrow> release s = Some s' \<Longrightarrow> tokens s' n"
  unfolding tokens_def using release_cap release_held by fastforce

lemma tokens_can_release: "tokens s (Suc n) \<Longrightarrow> release s \<noteq> None"
  unfolding tokens_def using release_free by (cases "cap s") auto

lemma tokens_full: "tokens s n \<Longrightarrow> acquire s = None \<Longrightarrow> cap s = Some n"
  unfolding tokens_def using acquire_free by (cases "cap s") force+

lemma tokens_bound: "tokens s n \<Longrightarrow> cap s = Some k \<Longrightarrow> n \<le> k"
  unfolding tokens_def by blast

end

interpretation sem_pool: token_pool sem_acquire sem_release sem_cap sem_held
  by unfold_locales (auto simp: sem_acquire_def sem_release_def split: option.splits if_splits nat.splits)

lemma tokens_new [simp]: "sem_pool.tokens (new_sem m) 0"
  by (simp add: sem_pool.tokens_def new_sem_def)

lemma new_sem_cap: "sem_cap (new_sem m) = (if m > 0 then Some (nat m) else None)"
  by (simp add: new_sem_def)

end
