(* ===== verification/Fwd_Config.thy ===== *)
theory Fwd_Config
  imports Sem_Model Stats_Model Self_Target Idle_Model
begin

text \<open>
  What the TCP and the UDP forwarder share, internal/forward/forward.go: the configuration and its
  defaults, the dispatch on the network, the errors, \<open>isNormalClose\<close> and the choice of the idle
  wrapping of a tunnel.
\<close>

section \<open>Configuration and dispatch\<close>

record fwd_Config =
  fc_Listen :: string
  fc_Target :: string
  fc_Network :: string
  fc_ReuseAddr :: bool
  fc_DialTimeout :: i64
  fc_MaxConns :: int
  fc_IdleTimeout :: i64
  fc_Debug :: bool
  fc_Quiet :: bool
  fc_Events :: "EventLog option"

record fwd_Server =
  fs_cfg :: fwd_Config
  fs_sem :: sem
  fs_stats :: Counters

definition forward_New :: "int \<Rightarrow> fwd_Config \<Rightarrow> fwd_Server" where
  "forward_New now cfg0 =
     (let cfg1 = (if fc_DialTimeout cfg0 = 0 then cfg0\<lparr>fc_DialTimeout := 10000000000\<rparr> else cfg0);
          cfg = (if TrimSpace (fc_Network cfg1) = [] then cfg1\<lparr>fc_Network := ''tcp''\<rparr> else cfg1) in
      \<lparr>fs_cfg = cfg, fs_sem = new_sem (fc_MaxConns cfg), fs_stats = stats_New now\<rparr>)"

datatype accept_err = ErrNetClosed | AcceptTimeout | AcceptOther string

datatype fwd_err =
    UnsupportedNet string | ListenFailed string | FwdSelfTarget string | AcceptFailed accept_err
  | ResolveFailed string | ReadFailed string

text \<open>\<open>None\<close> is Go's nil error.\<close>

definition fwd_ListenAndServe :: "fwd_Config \<Rightarrow> fwd_err option \<Rightarrow> fwd_err option \<Rightarrow> fwd_err option" where
  "fwd_ListenAndServe cfg serveTCP serveUDP =
     (if fc_Network cfg = ''tcp'' then serveTCP
      else if fc_Network cfg = ''udp'' then serveUDP
      else Some (UnsupportedNet (fc_Network cfg)))"

text \<open>\<open>listenConfig\<close>'s control hook: the outcome of \<open>RawConn.Control\<close> and of \<open>setReuseAddr\<close>.\<close>

definition listenConfig_Control :: "bool \<Rightarrow> string option \<Rightarrow> string option \<Rightarrow> string option" where
  "listenConfig_Control reuseAddr controlErr setReuseAddrErr =
     (if \<not> reuseAddr then None else if controlErr \<noteq> None then controlErr else setReuseAddrErr)"

definition listenerDualStack :: "bool \<Rightarrow> string option \<Rightarrow> string option \<Rightarrow> int \<times> string option \<Rightarrow> bool" where
  "listenerDualStack isSyscallConn rawErr controlErr v6only =
     (if \<not> isSyscallConn then False
      else if rawErr \<noteq> None then False
      else if controlErr \<noteq> None \<or> snd v6only \<noteq> None then False
      else fst v6only = 0)"

text \<open>Errors as \<open>isNormalClose\<close> tells them apart.\<close>

datatype io_error = IoEOF | IoErrClosed | IoCanceled | IoNetError bool | IoOther string

definition isNormalClose :: "io_error option \<Rightarrow> bool" where
  "isNormalClose err =
     (case err of
        None \<Rightarrow> True
      | Some e \<Rightarrow>
          if e = IoEOF \<or> e = IoErrClosed \<or> e = IoCanceled then True
          else (case e of IoNetError timeout \<Rightarrow> timeout | _ \<Rightarrow> False))"

datatype tunnel = RawTunnel | TcpIdleTunnel tcpIdleState | SharedIdleTunnel IdleConn IdleConn

definition tunnelConns :: "fwd_Config \<Rightarrow> bool \<Rightarrow> bool \<Rightarrow> nat \<Rightarrow> nat \<Rightarrow> tunnel" where
  "tunnelConns cfg srcTCP dstTCP src dst =
     (if sint (fc_IdleTimeout cfg) \<le> 0 then RawTunnel
      else if srcTCP \<and> dstTCP then
        (case TCPIdleConns (fc_IdleTimeout cfg) of None \<Rightarrow> RawTunnel | Some g \<Rightarrow> TcpIdleTunnel g)
      else
        (let conn = \<lambda>c. \<lparr>ic_conn = c, ic_Timeout = 0, ic_group = None\<rparr>;
             p = ShareIdleTimeout (conn src) (conn dst) (sint (fc_IdleTimeout cfg)) in
         SharedIdleTunnel (fst p) (snd p)))"

end
