(* ===== verification/Forward_Model.thy ===== *)
theory Forward_Model
  imports Fwd_Config
begin

text \<open>
  The TCP forwarder, internal/forward/forward.go.  The accept loop of \<open>serveTCPListener\<close>, the
  goroutines it starts (\<open>handle\<close>) and the environment (cancellation, the watcher that closes the
  listener) are one step relation over a shared state, so every interleaving is covered.  A handler
  is a list of pending atomic actions in the order of the code, deferred calls included.
\<close>

section \<open>State of a running forwarder\<close>

text \<open>What does not change while it serves: the environment, the configuration, the listener's
  address and whether it is dual-stack.\<close>

record fwd_ctx =
  fx_env :: net_env
  fx_cfg :: fwd_Config
  fx_laddr :: net_addr
  fx_dual :: bool

text \<open>The atomic actions of a handler's goroutine.\<close>

datatype act =
    ActDial | ActDialError | ActEvent string | ActStop | ActCancel | ActCloseLn
  | ActOpened | ActRelay | ActAddUp | ActAddDown | ActConnClosed | ActCloseDst | ActCloseSrc
  | ActSemRelease | ActWgDone

record handler =
  hd_client :: string
  hd_target :: string
  hd_connID :: i64
  hd_up :: i64
  hd_down :: i64
  hd_todo :: "act list"

text \<open>The three ways through \<open>handle\<close>, each ended by the deferred closes and by the deferred calls
  of the goroutine in \<open>serveTCPListener\<close> (the slot first, then the wait group).\<close>

definition handle_exit :: "act list" where
  "handle_exit = [ActCloseSrc, ActSemRelease, ActWgDone]"

definition handle_dial_failed :: "act list" where
  "handle_dial_failed = [ActDialError, ActEvent ''dial-error''] @ handle_exit"

definition handle_self :: "act list" where
  "handle_self = [ActDialError, ActStop, ActCloseDst] @ handle_exit"

definition handle_connected :: "act list" where
  "handle_connected = [ActOpened, ActEvent ''open'', ActRelay, ActAddUp, ActAddDown, ActEvent ''close'',
     ActConnClosed, ActCloseDst] @ handle_exit"

definition new_handler :: "fwd_Config \<Rightarrow> string \<Rightarrow> handler" where
  "new_handler cfg client = \<lparr>hd_client = client, hd_target = fc_Target cfg, hd_connID = 0, hd_up = 0,
     hd_down = 0, hd_todo = [ActDial]\<rparr>"

datatype phase =
    Accepting
  | SelectFatal accept_err
  | CheckCtx accept_err
  | Holding string
  | DrainHeld
  | Draining "fwd_err option"
  | Returned "fwd_err option"

record fwd_state =
  fw_phase :: phase
  fw_handlers :: "handler list"
  fw_sem :: sem
  fw_wg :: nat
  fw_stats :: Counters
  fw_nextID :: i64
  fw_events :: "EventLog option"
  fw_fatal :: "fwd_err option"
  fw_ctx :: bool
  fw_serve :: bool
  fw_lnClosed :: bool

text \<open>What the environment decides in an action: the dial's outcome, the bytes of the two
  directions, the clock.\<close>

datatype dial_outcome = DialFailure | DialOk net_addr string

record choice =
  ch_dial :: dial_outcome
  ch_up :: i64
  ch_down :: i64
  ch_time :: string
  ch_ms :: int

definition mk_event :: "fwd_Config \<Rightarrow> choice \<Rightarrow> handler \<Rightarrow> string \<Rightarrow> Event" where
  "mk_event cfg ch h kind =
     \<lparr>evTime = ch_time ch, evKind = kind, evProto = fc_Network cfg, evClient = hd_client h,
      evTarget = hd_target h,
      evUpBytes = (if kind = ''close'' then hd_up h else 0),
      evDownBytes = (if kind = ''close'' then hd_down h else 0),
      evDurationMs = (if kind = ''close'' then ch_ms ch else 0), evConnID = hd_connID h\<rparr>"

definition after_dial :: "fwd_ctx \<Rightarrow> dial_outcome \<Rightarrow> handler \<Rightarrow> handler" where
  "after_dial x d h =
     (case d of
        DialFailure \<Rightarrow> h\<lparr>hd_todo := handle_dial_failed\<rparr>
      | DialOk addr str \<Rightarrow>
          h\<lparr>hd_target := str,
            hd_todo := (if connMatchesListener (fx_env x) addr (fx_laddr x) (fx_dual x) then handle_self
                        else handle_connected)\<rparr>)"

text \<open>One action of a handler whose remaining actions are then \<open>todo\<close>.  The result is the shared
  state and the handler; a release that would block is no step.  \<open>ActStop\<close> is the select on the
  one-slot channel: only the first sender goes on to cancel and to close the listener.\<close>

fun do_act :: "fwd_ctx \<Rightarrow> choice \<Rightarrow> act \<Rightarrow> fwd_state \<Rightarrow> handler \<Rightarrow> (fwd_state \<times> handler) option" where
  "do_act x ch ActDial s h = Some (s, after_dial x (ch_dial ch) h)"
| "do_act x ch ActDialError s h = Some (s\<lparr>fw_stats := DialError (fw_stats s)\<rparr>, h)"
| "do_act x ch (ActEvent k) s h = Some (s\<lparr>fw_events := Append (fw_events s) (mk_event (fx_cfg x) ch h k)\<rparr>, h)"
| "do_act x ch ActStop s h =
     (case fw_fatal s of
        None \<Rightarrow> Some (s\<lparr>fw_fatal := Some (FwdSelfTarget (fc_Target (fx_cfg x)))\<rparr>,
                      h\<lparr>hd_todo := ActCancel # ActCloseLn # hd_todo h\<rparr>)
      | Some _ \<Rightarrow> Some (s, h))"
| "do_act x ch ActCancel s h = Some (s\<lparr>fw_serve := True\<rparr>, h)"
| "do_act x ch ActCloseLn s h = Some (s\<lparr>fw_lnClosed := True\<rparr>, h)"
| "do_act x ch ActOpened s h =
     (case ConnOpened (fw_stats s) (fw_nextID s) of
        (c, nid, connID) \<Rightarrow> Some (s\<lparr>fw_stats := c, fw_nextID := nid\<rparr>, h\<lparr>hd_connID := connID\<rparr>))"
| "do_act x ch ActRelay s h = Some (s, h\<lparr>hd_up := ch_up ch, hd_down := ch_down ch\<rparr>)"
| "do_act x ch ActAddUp s h = Some (s\<lparr>fw_stats := AddUp (fw_stats s) (hd_up h)\<rparr>, h)"
| "do_act x ch ActAddDown s h = Some (s\<lparr>fw_stats := AddDown (fw_stats s) (hd_down h)\<rparr>, h)"
| "do_act x ch ActConnClosed s h = Some (s\<lparr>fw_stats := ConnClosed (fw_stats s)\<rparr>, h)"
| "do_act x ch ActCloseDst s h = Some (s, h)"
| "do_act x ch ActCloseSrc s h = Some (s, h)"
| "do_act x ch ActSemRelease s h = map_option (\<lambda>m. (s\<lparr>fw_sem := m\<rparr>, h)) (sem_release (fw_sem s))"
| "do_act x ch ActWgDone s h = (case fw_wg s of 0 \<Rightarrow> None | Suc n \<Rightarrow> Some (s\<lparr>fw_wg := n\<rparr>, h))"

text \<open>A handler takes its next action; it leaves the state when none is left.\<close>

definition handler_act :: "fwd_ctx \<Rightarrow> choice \<Rightarrow> fwd_state \<Rightarrow> handler \<Rightarrow> (fwd_state \<times> handler list) option" where
  "handler_act x ch s h =
     (case hd_todo h of
        [] \<Rightarrow> None
      | a # todo \<Rightarrow>
          map_option (\<lambda>(s', h'). (s', if hd_todo h' = [] then [] else [h']))
            (do_act x ch a s (h\<lparr>hd_todo := todo\<rparr>)))"

text \<open>The steps of the accept loop after an error and at its exits.  \<open>Returned\<close> runs the deferred
  \<open>ln.Close\<close> and \<open>cancel\<close>.\<close>

definition return_with :: "fwd_err option \<Rightarrow> fwd_state \<Rightarrow> fwd_state" where
  "return_with r s = s\<lparr>fw_phase := Returned r, fw_lnClosed := True, fw_serve := True\<rparr>"

definition select_fatal :: "accept_err \<Rightarrow> fwd_state \<Rightarrow> fwd_state" where
  "select_fatal err s =
     (case fw_fatal s of
        Some fatal \<Rightarrow> s\<lparr>fw_fatal := None, fw_phase := Draining (Some fatal)\<rparr>
      | None \<Rightarrow> s\<lparr>fw_phase := CheckCtx err\<rparr>)"

definition check_ctx :: "accept_err \<Rightarrow> fwd_state \<Rightarrow> fwd_state" where
  "check_ctx err s =
     (if fw_ctx s then s\<lparr>fw_phase := Draining None\<rparr>
      else if err = AcceptTimeout then s\<lparr>fw_phase := Accepting\<rparr>
      else return_with (Some (AcceptFailed err)) s)"

definition give_up :: "fwd_state \<Rightarrow> fwd_state" where
  "give_up s =
     (case fw_fatal s of
        Some fatal \<Rightarrow> return_with (Some fatal) (s\<lparr>fw_fatal := None\<rparr>)
      | None \<Rightarrow> return_with None s)"

definition start_handler :: "fwd_ctx \<Rightarrow> string \<Rightarrow> sem \<Rightarrow> fwd_state \<Rightarrow> fwd_state" where
  "start_handler x client m s =
     s\<lparr>fw_sem := m, fw_wg := Suc (fw_wg s), fw_phase := Accepting,
       fw_handlers := fw_handlers s @ [new_handler (fx_cfg x) client]\<rparr>"

inductive fwd_step :: "fwd_ctx \<Rightarrow> fwd_state \<Rightarrow> fwd_state \<Rightarrow> bool" for x where
  fwd_accept: "fw_phase s = Accepting \<Longrightarrow> \<not> fw_lnClosed s \<Longrightarrow> fwd_step x s (s\<lparr>fw_phase := Holding client\<rparr>)"
| fwd_accept_err: "fw_phase s = Accepting \<Longrightarrow> err = ErrNetClosed \<longleftrightarrow> fw_lnClosed s \<Longrightarrow>
     fwd_step x s (s\<lparr>fw_phase := SelectFatal err\<rparr>)"
| fwd_select: "fw_phase s = SelectFatal err \<Longrightarrow> fwd_step x s (select_fatal err s)"
| fwd_check: "fw_phase s = CheckCtx err \<Longrightarrow> fwd_step x s (check_ctx err s)"
| fwd_spawn: "fw_phase s = Holding client \<Longrightarrow> sem_acquire (fw_sem s) = Some m \<Longrightarrow>
     fwd_step x s (start_handler x client m s)"
| fwd_drop: "fw_phase s = Holding client \<Longrightarrow> sem_cap (fw_sem s) \<noteq> None \<Longrightarrow> fw_serve s \<Longrightarrow>
     fwd_step x s (s\<lparr>fw_phase := DrainHeld\<rparr>)"
| fwd_give_up: "fw_phase s = DrainHeld \<Longrightarrow> fw_wg s = 0 \<Longrightarrow> fwd_step x s (give_up s)"
| fwd_return: "fw_phase s = Draining r \<Longrightarrow> fw_wg s = 0 \<Longrightarrow> fwd_step x s (return_with r s)"
| fwd_handler: "fw_handlers s = xs @ h # ys \<Longrightarrow> handler_act x ch s h = Some (s', hs) \<Longrightarrow>
     fwd_step x s (s'\<lparr>fw_handlers := xs @ hs @ ys\<rparr>)"
| fwd_cancel: "fwd_step x s (s\<lparr>fw_ctx := True\<rparr>)"
| fwd_propagate: "fw_ctx s \<Longrightarrow> fwd_step x s (s\<lparr>fw_serve := True\<rparr>)"
| fwd_watcher: "fw_serve s \<Longrightarrow> fwd_step x s (s\<lparr>fw_lnClosed := True\<rparr>)"

inductive_cases fwd_stepE [step_elims]: "fwd_step x s s'"

text \<open>\<open>serveTCP\<close> and the head of \<open>serveTCPListener\<close>: either an error at once, or the loop's
  initial state.\<close>

definition fwd_initial :: "fwd_Server \<Rightarrow> i64 \<Rightarrow> fwd_state" where
  "fwd_initial srv nid =
     \<lparr>fw_phase = Accepting, fw_handlers = [], fw_sem = fs_sem srv, fw_wg = 0, fw_stats = fs_stats srv,
      fw_nextID = nid, fw_events = fc_Events (fs_cfg srv), fw_fatal = None, fw_ctx = False,
      fw_serve = False, fw_lnClosed = False\<rparr>"

definition serveTCP_start :: "net_env \<Rightarrow> fwd_Server \<Rightarrow> i64 \<Rightarrow> string + net_addr \<Rightarrow> bool \<Rightarrow>
    fwd_err + fwd_ctx \<times> fwd_state" where
  "serveTCP_start env srv nid listen dualStack =
     (case listen of
        Inl err \<Rightarrow> Inl (ListenFailed err)
      | Inr laddr \<Rightarrow>
          if targetMatchesListener env (fc_Target (fs_cfg srv)) laddr dualStack
          then Inl (FwdSelfTarget (fc_Target (fs_cfg srv)))
          else Inr (\<lparr>fx_env = env, fx_cfg = fs_cfg srv, fx_laddr = laddr, fx_dual = dualStack\<rparr>,
                    fwd_initial srv nid))"


section \<open>Resources: slots, wait group, gauge\<close>

text \<open>The remaining actions a handler can have.\<close>

definition todo_list :: "act list list" where
  "todo_list = remdups ([ActDial] # concat (map (\<lambda>p. map (\<lambda>n. drop n p) [0..<length p])
     [handle_dial_failed, handle_self, handle_connected, [ActCancel, ActCloseLn, ActCloseDst] @ handle_exit]))"

definition legal :: "handler \<Rightarrow> bool" where
  "legal h \<longleftrightarrow> hd_todo h \<in> set todo_list"

definition holds_slot :: "handler \<Rightarrow> bool" where
  "holds_slot h \<longleftrightarrow> hd_todo h \<noteq> [ActWgDone]"

definition relaying :: "handler \<Rightarrow> bool" where
  "relaying h \<longleftrightarrow> ActConnClosed \<in> set (hd_todo h) \<and> ActOpened \<notin> set (hd_todo h)"

definition stopping :: "handler \<Rightarrow> bool" where
  "stopping h \<longleftrightarrow> ActCancel \<in> set (hd_todo h) \<or> ActCloseLn \<in> set (hd_todo h)"

abbreviation count :: "('a \<Rightarrow> bool) \<Rightarrow> 'a list \<Rightarrow> nat" where
  "count p xs \<equiv> length (filter p xs)"

lemmas handle_defs = handle_exit_def handle_dial_failed_def handle_self_def handle_connected_def

lemma todo_list_eq: "todo_list =
   [[ActDial],
    [ActDialError, ActEvent ''dial-error'', ActCloseSrc, ActSemRelease, ActWgDone],
    [ActEvent ''dial-error'', ActCloseSrc, ActSemRelease, ActWgDone],
    [ActDialError, ActStop, ActCloseDst, ActCloseSrc, ActSemRelease, ActWgDone],
    [ActStop, ActCloseDst, ActCloseSrc, ActSemRelease, ActWgDone],
    [ActOpened, ActEvent ''open'', ActRelay, ActAddUp, ActAddDown, ActEvent ''close'', ActConnClosed, ActCloseDst, ActCloseSrc, ActSemRelease, ActWgDone],
    [ActEvent ''open'', ActRelay, ActAddUp, ActAddDown, ActEvent ''close'', ActConnClosed, ActCloseDst, ActCloseSrc, ActSemRelease, ActWgDone],
    [ActRelay, ActAddUp, ActAddDown, ActEvent ''close'', ActConnClosed, ActCloseDst, ActCloseSrc, ActSemRelease, ActWgDone],
    [ActAddUp, ActAddDown, ActEvent ''close'', ActConnClosed, ActCloseDst, ActCloseSrc, ActSemRelease, ActWgDone],
    [ActAddDown, ActEvent ''close'', ActConnClosed, ActCloseDst, ActCloseSrc, ActSemRelease, ActWgDone],
    [ActEvent ''close'', ActConnClosed, ActCloseDst, ActCloseSrc, ActSemRelease, ActWgDone],
    [ActConnClosed, ActCloseDst, ActCloseSrc, ActSemRelease, ActWgDone],
    [ActCancel, ActCloseLn, ActCloseDst, ActCloseSrc, ActSemRelease, ActWgDone],
    [ActCloseLn, ActCloseDst, ActCloseSrc, ActSemRelease, ActWgDone],
    [ActCloseDst, ActCloseSrc, ActSemRelease, ActWgDone],
    [ActCloseSrc, ActSemRelease, ActWgDone],
    [ActSemRelease, ActWgDone],
    [ActWgDone]]"
  by code_simp

text \<open>Everything an action does to the resources, and what it leaves alone.\<close>

definition act_effect :: "fwd_state \<Rightarrow> handler \<Rightarrow> fwd_state \<Rightarrow> handler list \<Rightarrow> bool" where
  "act_effect s h s' hs \<longleftrightarrow>
     fw_phase s' = fw_phase s \<and> fw_handlers s' = fw_handlers s \<and> fw_ctx s' = fw_ctx s \<and>
     length hs \<le> 1 \<and> (\<forall>h' \<in> set hs. legal h') \<and>
     fw_wg s = fw_wg s' + (1 - length hs) \<and>
     (if holds_slot h \<and> count holds_slot hs = 0 then sem_release (fw_sem s) = Some (fw_sem s')
      else fw_sem s' = fw_sem s \<and> count holds_slot hs = count holds_slot [h]) \<and>
     activeConns (fw_stats s') + of_nat (count relaying [h]) =
       activeConns (fw_stats s) + of_nat (count relaying hs)"

lemma handler_act_effect:
  assumes "legal h" and "handler_act x ch s h = Some (s', hs)"
  shows "act_effect s h s' hs"
proof -
  have "hd_todo h \<in> set todo_list" using assms(1) by (simp add: legal_def)
  then show ?thesis
    using assms(2) unfolding todo_list_eq list.set
    by (elim insertE emptyE) (auto simp: act_effect_def handler_act_def legal_def todo_list_eq holds_slot_def
        relaying_def after_dial_def handle_defs counter_defs
        split: option.splits nat.splits dial_outcome.splits if_splits)
qed


definition res_inv :: "fwd_state \<Rightarrow> bool" where
  "res_inv s \<longleftrightarrow>
     (\<forall>h \<in> set (fw_handlers s). legal h) \<and>
     fw_wg s = length (fw_handlers s) \<and>
     sem_pool.tokens (fw_sem s) (count holds_slot (fw_handlers s)) \<and>
     activeConns (fw_stats s) = of_nat (count relaying (fw_handlers s))"

lemma res_inv_handler:
  assumes inv: "res_inv s" and hs: "fw_handlers s = xs @ h # ys"
    and act: "handler_act x ch s h = Some (s', hs')"
  shows "res_inv (s'\<lparr>fw_handlers := xs @ hs' @ ys\<rparr>)"
proof -
  have "legal h" using inv hs by (simp add: res_inv_def)
  from handler_act_effect [OF this act] have e: "act_effect s h s' hs'" .
  let ?n = "count holds_slot xs + count holds_slot ys"
  have tok: "sem_pool.tokens (fw_sem s) (count holds_slot [h] + ?n)"
    using inv hs by (auto simp: res_inv_def split: if_splits)
  have "sem_pool.tokens (fw_sem s') (count holds_slot hs' + ?n)"
  proof (cases "holds_slot h \<and> count holds_slot hs' = 0")
    case True
    then have "sem_release (fw_sem s) = Some (fw_sem s')" using e by (simp add: act_effect_def)
    with True tok show ?thesis using sem_pool.tokens_release [of "fw_sem s" ?n] by simp
  next
    case False
    with e tok show ?thesis by (simp add: act_effect_def)
  qed
  moreover have "activeConns (fw_stats s') = of_nat (count relaying (xs @ hs' @ ys))"
  proof -
    have "activeConns (fw_stats s) = of_nat (count relaying xs + count relaying [h] + count relaying ys)"
      using inv hs by (simp add: res_inv_def)
    moreover have "activeConns (fw_stats s') + of_nat (count relaying [h]) =
        activeConns (fw_stats s) + of_nat (count relaying hs')"
      using e by (simp add: act_effect_def)
    ultimately have "activeConns (fw_stats s') + of_nat (count relaying [h]) =
        of_nat (count relaying (xs @ hs' @ ys)) + of_nat (count relaying [h])"
      by (simp add: algebra_simps)
    then show ?thesis by (rule add_right_imp_eq)
  qed
  moreover have "fw_wg s' = length (xs @ hs' @ ys)"
    using inv hs e by (auto simp: res_inv_def act_effect_def)
  ultimately show ?thesis
    using inv hs e by (auto simp: res_inv_def act_effect_def ac_simps)
qed

lemma res_inv_start:
  "res_inv s \<Longrightarrow> sem_acquire (fw_sem s) = Some m \<Longrightarrow> res_inv (start_handler x client m s)"
  using sem_pool.tokens_acquire [of "fw_sem s" "count holds_slot (fw_handlers s)" m]
  by (simp add: res_inv_def start_handler_def new_handler_def legal_def todo_list_eq holds_slot_def relaying_def)

lemma res_inv_frame [simp]:
  "res_inv (s\<lparr>fw_phase := p\<rparr>) = res_inv s" "res_inv (s\<lparr>fw_fatal := f\<rparr>) = res_inv s"
  "res_inv (s\<lparr>fw_ctx := b\<rparr>) = res_inv s" "res_inv (s\<lparr>fw_serve := b\<rparr>) = res_inv s"
  "res_inv (s\<lparr>fw_lnClosed := b\<rparr>) = res_inv s"
  by (simp_all add: res_inv_def)

lemma res_inv_return [simp]: "res_inv (return_with r s) = res_inv s"
  unfolding return_with_def by simp

lemma res_inv_step: "res_inv s \<Longrightarrow> fwd_step x s s' \<Longrightarrow> res_inv s'"
  by (erule fwd_stepE)
    (auto simp: select_fatal_def check_ctx_def give_up_def res_inv_start res_inv_handler split: option.splits)

lemma res_inv_initial: "res_inv (fwd_initial (forward_New now cfg) nid)"
  by (simp add: res_inv_def fwd_initial_def forward_New_def Let_def stats_New_def)

interpretation fwd_res: invariant_system "\<lambda>s. s = fwd_initial (forward_New now cfg) nid" "fwd_step x" res_inv
  by unfold_locales (auto simp: res_inv_initial intro: res_inv_step)

lemma fwd_cap_step: "res_inv s \<Longrightarrow> fwd_step x s s' \<Longrightarrow> sem_cap (fw_sem s') = sem_cap (fw_sem s)"
proof (erule fwd_stepE)
  fix xs h ys ch t hs
  assume "res_inv s" "fw_handlers s = xs @ h # ys" "handler_act x ch s h = Some (t, hs)"
    "s' = t\<lparr>fw_handlers := xs @ hs @ ys\<rparr>"
  moreover from this have "act_effect s h t hs" by (intro handler_act_effect) (auto simp: res_inv_def)
  ultimately show ?thesis
    using sem_pool.release_cap by (auto simp: act_effect_def split: if_splits)
qed (auto simp: select_fatal_def check_ctx_def give_up_def return_with_def start_handler_def
    dest: sem_pool.acquire_cap split: option.splits)

lemma fwd_cap: "reach (\<lambda>s. s = fwd_initial (forward_New now cfg) nid) (fwd_step x) s \<Longrightarrow>
    sem_cap (fw_sem s) = sem_cap (new_sem (fc_MaxConns cfg))"
proof (induction rule: reach.induct)
  case (reach_step s t)
  with fwd_cap_step [OF fwd_res.inv_reach [OF reach_step(1)]] show ?case by simp
qed (simp add: fwd_initial_def forward_New_def Let_def)

section \<open>Control: why the loop ends\<close>

text \<open>The listener is closed, and the serving context cancelled, only after the caller cancelled or
  a handler reported the self-target error, which is still in the channel until the loop takes it.\<close>

definition ending :: "fwd_state \<Rightarrow> bool" where
  "ending s \<longleftrightarrow> fw_ctx s \<or> fw_fatal s \<noteq> None \<or> (\<exists>e. fw_phase s = Draining (Some e)) \<or>
     (\<exists>r. fw_phase s = Returned r)"

definition reported :: "fwd_state \<Rightarrow> bool" where
  "reported s \<longleftrightarrow> fw_fatal s \<noteq> None \<or> (\<exists>e. fw_phase s = Draining (Some e)) \<or> (\<exists>r. fw_phase s = Returned r)"

definition phase_inv :: "string \<Rightarrow> fwd_state \<Rightarrow> bool" where
  "phase_inv tgt s \<longleftrightarrow>
     (case fw_phase s of
        SelectFatal err \<Rightarrow> err = ErrNetClosed \<longrightarrow> fw_lnClosed s
      | CheckCtx err \<Rightarrow> err = ErrNetClosed \<longrightarrow> fw_ctx s
      | DrainHeld \<Rightarrow> fw_serve s
      | Draining None \<Rightarrow> fw_ctx s
      | Draining (Some e) \<Rightarrow> e = FwdSelfTarget tgt
      | Returned None \<Rightarrow> fw_ctx s \<and> fw_handlers s = []
      | Returned (Some e) \<Rightarrow> (e = FwdSelfTarget tgt \<and> fw_handlers s = []) \<or> (\<exists>t. e = AcceptFailed (AcceptOther t))
      | _ \<Rightarrow> True)"

definition ctl_inv :: "string \<Rightarrow> fwd_state \<Rightarrow> bool" where
  "ctl_inv tgt s \<longleftrightarrow>
     (fw_serve s \<or> fw_lnClosed s \<longrightarrow> ending s) \<and>
     (\<forall>h \<in> set (fw_handlers s). stopping h \<longrightarrow> reported s) \<and>
     (\<forall>e. fw_fatal s = Some e \<longrightarrow> e = FwdSelfTarget tgt) \<and>
     phase_inv tgt s"

text \<open>The same for the actions of a handler.\<close>

definition act_control :: "string \<Rightarrow> fwd_state \<Rightarrow> handler \<Rightarrow> fwd_state \<Rightarrow> handler list \<Rightarrow> bool" where
  "act_control tgt s h s' hs \<longleftrightarrow>
     (fw_serve s' \<longrightarrow> fw_serve s \<or> stopping h) \<and> (fw_serve s \<longrightarrow> fw_serve s') \<and>
     (fw_lnClosed s' \<longrightarrow> fw_lnClosed s \<or> stopping h) \<and> (fw_lnClosed s \<longrightarrow> fw_lnClosed s') \<and>
     (fw_fatal s' = fw_fatal s \<or> fw_fatal s' = Some (FwdSelfTarget tgt)) \<and>
     (\<forall>h' \<in> set hs. stopping h' \<longrightarrow> stopping h \<or> fw_fatal s' \<noteq> None)"

lemma handler_act_control:
  assumes "legal h" and "handler_act x ch s h = Some (s', hs)"
  shows "act_control (fc_Target (fx_cfg x)) s h s' hs"
proof -
  have "hd_todo h \<in> set todo_list" using assms(1) by (simp add: legal_def)
  then show ?thesis
    using assms(2) unfolding todo_list_eq list.set
    by (elim insertE emptyE) (auto simp: act_control_def handler_act_def stopping_def
        after_dial_def handle_defs counter_defs
        split: option.splits nat.splits dial_outcome.splits if_splits)
qed


lemma ctl_inv_handler:
  assumes inv: "ctl_inv (fc_Target (fx_cfg x)) s" and res: "res_inv s" and hs: "fw_handlers s = xs @ h # ys"
    and act: "handler_act x ch s h = Some (s', hs')"
  shows "ctl_inv (fc_Target (fx_cfg x)) (s'\<lparr>fw_handlers := xs @ hs' @ ys\<rparr>)" (is "ctl_inv ?t ?s'")
proof -
  have l: "legal h" using res hs by (simp add: res_inv_def)
  have e: "fw_phase s' = fw_phase s" "fw_ctx s' = fw_ctx s"
    using handler_act_effect [OF l act] by (simp_all add: act_effect_def)
  note c = handler_act_control [OF l act, unfolded act_control_def]
  have fatal: "fw_fatal s \<noteq> None \<longrightarrow> fw_fatal s' \<noteq> None" using c by auto
  have rep: "reported s \<longrightarrow> reported ?s'" using e fatal by (auto simp: reported_def)
  have fin: "ending s \<longrightarrow> ending ?s'" using e fatal by (auto simp: ending_def)
  have rf: "reported s \<longrightarrow> ending s" by (auto simp: reported_def ending_def)
  have st: "stopping h \<longrightarrow> reported s" using inv hs by (simp add: ctl_inv_def)
  have "fw_serve ?s' \<or> fw_lnClosed ?s' \<longrightarrow> ending ?s'"
    using inv c st rf fin by (auto simp: ctl_inv_def)
  moreover have "\<forall>h' \<in> set (fw_handlers ?s'). stopping h' \<longrightarrow> reported ?s'"
    using inv hs c st rep by (auto simp: ctl_inv_def reported_def)
  moreover have "\<forall>f. fw_fatal ?s' = Some f \<longrightarrow> f = FwdSelfTarget ?t"
    using inv c by (auto simp: ctl_inv_def)
  moreover have "phase_inv ?t ?s'"
    using inv e c hs by (auto simp: ctl_inv_def phase_inv_def split: phase.splits option.splits)
  ultimately show ?thesis by (simp add: ctl_inv_def)
qed

text \<open>The steps of the loop and of the environment, one by one.\<close>

lemma no_handlers: "res_inv s \<Longrightarrow> fw_wg s = 0 \<Longrightarrow> fw_handlers s = []"
  by (simp add: res_inv_def)

lemma ctl_inv_select: "ctl_inv t s \<Longrightarrow> fw_phase s = SelectFatal err \<Longrightarrow> ctl_inv t (select_fatal err s)"
  by (auto simp: ctl_inv_def phase_inv_def select_fatal_def ending_def reported_def split: option.splits)

lemma ctl_inv_check: "ctl_inv t s \<Longrightarrow> fw_phase s = CheckCtx err \<Longrightarrow> ctl_inv t (check_ctx err s)"
  by (cases err) (auto simp: ctl_inv_def phase_inv_def check_ctx_def return_with_def ending_def reported_def)

lemma ctl_inv_spawn: "ctl_inv t s \<Longrightarrow> fw_phase s = Holding c \<Longrightarrow> ctl_inv t (start_handler x c m s)"
  by (auto simp: ctl_inv_def phase_inv_def start_handler_def new_handler_def stopping_def ending_def reported_def)

lemma ctl_inv_give_up:
  "ctl_inv t s \<Longrightarrow> fw_phase s = DrainHeld \<Longrightarrow> fw_handlers s = [] \<Longrightarrow> ctl_inv t (give_up s)"
  by (auto simp: ctl_inv_def phase_inv_def give_up_def return_with_def ending_def split: option.splits)

lemma ctl_inv_return:
  "ctl_inv t s \<Longrightarrow> fw_phase s = Draining r \<Longrightarrow> fw_handlers s = [] \<Longrightarrow> ctl_inv t (return_with r s)"
  by (auto simp: ctl_inv_def phase_inv_def return_with_def ending_def split: option.splits)

lemma ctl_inv_env:
  "ctl_inv t s \<Longrightarrow> ctl_inv t (s\<lparr>fw_ctx := True\<rparr>)"
  "ctl_inv t s \<Longrightarrow> fw_ctx s \<Longrightarrow> ctl_inv t (s\<lparr>fw_serve := True\<rparr>)"
  "ctl_inv t s \<Longrightarrow> fw_serve s \<Longrightarrow> ctl_inv t (s\<lparr>fw_lnClosed := True\<rparr>)"
  by (auto simp: ctl_inv_def phase_inv_def ending_def reported_def split: phase.splits option.splits)

lemma ctl_inv_loop:
  "ctl_inv t s \<Longrightarrow> fw_phase s = Accepting \<Longrightarrow> ctl_inv t (s\<lparr>fw_phase := Holding c\<rparr>)"
  "ctl_inv t s \<Longrightarrow> fw_phase s = Accepting \<Longrightarrow> err = ErrNetClosed \<longleftrightarrow> fw_lnClosed s \<Longrightarrow>
     ctl_inv t (s\<lparr>fw_phase := SelectFatal err\<rparr>)"
  "ctl_inv t s \<Longrightarrow> fw_phase s = Holding c \<Longrightarrow> fw_serve s \<Longrightarrow> ctl_inv t (s\<lparr>fw_phase := DrainHeld\<rparr>)"
  by (auto simp: ctl_inv_def phase_inv_def ending_def reported_def)

lemmas ctl_inv_steps = ctl_inv_handler ctl_inv_select ctl_inv_check ctl_inv_spawn ctl_inv_give_up
  ctl_inv_return ctl_inv_env ctl_inv_loop

definition fwd_inv :: "fwd_ctx \<Rightarrow> fwd_state \<Rightarrow> bool" where
  "fwd_inv x s \<longleftrightarrow> res_inv s \<and> ctl_inv (fc_Target (fx_cfg x)) s"

lemma fwd_inv_step: "fwd_inv x s \<Longrightarrow> fwd_step x s s' \<Longrightarrow> fwd_inv x s'"
proof -
  assume inv: "fwd_inv x s" and step: "fwd_step x s s'"
  have "res_inv s'" using inv step res_inv_step by (auto simp: fwd_inv_def)
  moreover have "ctl_inv (fc_Target (fx_cfg x)) s'"
    using step inv unfolding fwd_inv_def
    by cases (auto intro: ctl_inv_steps simp: no_handlers)
  ultimately show ?thesis by (simp add: fwd_inv_def)
qed

lemma fwd_inv_initial: "fwd_inv x (fwd_initial (forward_New now cfg) nid)"
  unfolding fwd_inv_def by (simp add: res_inv_initial) (simp add: ctl_inv_def phase_inv_def fwd_initial_def)

interpretation fwd_sys: invariant_system "\<lambda>s. s = fwd_initial (forward_New now cfg) nid" "fwd_step x" "fwd_inv x"
  by unfold_locales (auto simp: fwd_inv_initial intro: fwd_inv_step)


section \<open>Progress\<close>


definition quiet_choice :: choice where
  "quiet_choice = \<lparr>ch_dial = DialFailure, ch_up = 0, ch_down = 0, ch_time = [], ch_ms = 0\<rparr>"


















section \<open>One handler on its own\<close>

text \<open>A handler run to its end with one set of choices, nothing else moving.\<close>

fun run_handler :: "nat \<Rightarrow> fwd_ctx \<Rightarrow> choice \<Rightarrow> fwd_state \<Rightarrow> handler \<Rightarrow> fwd_state option" where
  "run_handler 0 x ch s h = None"
| "run_handler (Suc n) x ch s h =
     (case handler_act x ch s h of
        None \<Rightarrow> None
      | Some (s', []) \<Rightarrow> Some s'
      | Some (s', h' # _) \<Rightarrow> run_handler n x ch s' h')"

text \<open>A small forwarder for the witnesses: target 10.0.0.9:22, at most two connections.\<close>

definition demo_cfg :: fwd_Config where
  "demo_cfg = \<lparr>fc_Listen = ''127.0.0.1:2222'', fc_Target = ''10.0.0.9:22'', fc_Network = [],
     fc_ReuseAddr = True, fc_DialTimeout = 0, fc_MaxConns = 2, fc_IdleTimeout = 0, fc_Debug = False,
     fc_Quiet = False, fc_Events = None\<rparr>"

definition demo_ctx :: fwd_ctx where
  "demo_ctx = \<lparr>fx_env = quiet_env, fx_cfg = demo_cfg, fx_laddr = TCPAddr [127, 0, 0, 1] 2222 [], fx_dual = False\<rparr>"

definition demo_state :: fwd_state where
  "demo_state = fwd_initial (forward_New 0 demo_cfg) 0"

lemma demo_reach0: "reach (\<lambda>s. s = fwd_initial (forward_New 0 demo_cfg) 0) (fwd_step demo_ctx) demo_state"
  by (rule reach_init) (simp add: demo_state_def)

lemma demo_simps [simp]:
  "fw_phase demo_state = Accepting" "fw_handlers demo_state = []" "fw_wg demo_state = 0"
  "fw_lnClosed demo_state = False" "fw_fatal demo_state = None" "fw_sem demo_state = \<lparr>sem_cap = Some 2, sem_held = 0\<rparr>"
  by (simp_all add: demo_state_def demo_cfg_def fwd_initial_def forward_New_def new_sem_def Let_def)

text \<open>One connection is accepted and its handler waits to dial.\<close>

definition demo_busy :: fwd_state where
  "demo_busy = start_handler demo_ctx ''c'' \<lparr>sem_cap = Some 2, sem_held = 1\<rparr> (demo_state\<lparr>fw_phase := Holding ''c''\<rparr>)"

lemma demo_reach_busy: "reach (\<lambda>s. s = fwd_initial (forward_New 0 demo_cfg) 0) (fwd_step demo_ctx) demo_busy"
proof -
  have "fwd_step demo_ctx demo_state (demo_state\<lparr>fw_phase := Holding ''c''\<rparr>)" by (rule fwd_accept) simp_all
  note r = reach_step [OF demo_reach0 this]
  have "fwd_step demo_ctx (demo_state\<lparr>fw_phase := Holding ''c''\<rparr>) demo_busy"
    unfolding demo_busy_def by (rule fwd_spawn) (simp_all add: sem_acquire_def)
  from reach_step [OF r this] show ?thesis .
qed

text \<open>The caller cancels: the listener closes, the accept fails and the loop drains.\<close>

definition cancelled :: "fwd_state \<Rightarrow> fwd_state" where
  "cancelled s = s\<lparr>fw_ctx := True, fw_serve := True, fw_lnClosed := True, fw_phase := Draining None\<rparr>"

lemma reach_cancelled:
  assumes "reach i (fwd_step x) s" and "fw_phase s = Accepting" "fw_fatal s = None"
  shows "reach i (fwd_step x) (cancelled s)"
proof -
  let ?s1 = "s\<lparr>fw_ctx := True\<rparr>" let ?s2 = "?s1\<lparr>fw_serve := True\<rparr>" let ?s3 = "?s2\<lparr>fw_lnClosed := True\<rparr>"
  let ?s4 = "?s3\<lparr>fw_phase := SelectFatal ErrNetClosed\<rparr>" let ?s5 = "?s4\<lparr>fw_phase := CheckCtx ErrNetClosed\<rparr>"
  note reach_step [OF assms(1) fwd_cancel]
  note reach_step [OF this fwd_propagate]
  then have "reach i (fwd_step x) ?s2" by simp
  note reach_step [OF this fwd_watcher]
  then have r3: "reach i (fwd_step x) ?s3" by simp
  have "fwd_step x ?s3 ?s4" by (rule fwd_accept_err) (use assms(2) in simp_all)
  note r4 = reach_step [OF r3 this]
  have "select_fatal ErrNetClosed ?s4 = ?s5" using assms(3) by (simp add: select_fatal_def)
  then have "fwd_step x ?s4 ?s5" using fwd_select [of ?s4 ErrNetClosed x] by simp
  note r5 = reach_step [OF r4 this]
  have "check_ctx ErrNetClosed ?s5 = cancelled s" by (simp add: check_ctx_def cancelled_def)
  then have "fwd_step x ?s5 (cancelled s)" using fwd_check [of ?s5 ErrNetClosed x] by simp
  from reach_step [OF r5 this] show ?thesis .
qed




section \<open>Properties\<close>

text \<open>C9: Whatever the interleaving, at most \<open>MaxConns\<close> connections are being dialled or relayed at a
  time, the active-connection gauge equals the number of connections that are relaying, and the
  wait group equals the number of handlers still running.\<close>

theorem forward_limits_and_counts_connections:
  assumes "reach (\<lambda>s. s = fwd_initial (forward_New now cfg) nid) (fwd_step x) s"
  shows "(fc_MaxConns cfg > 0 \<longrightarrow>
      int (count holds_slot (fw_handlers s)) \<le> fc_MaxConns cfg) \<and>
    activeConns (fw_stats s) = of_nat (count relaying (fw_handlers s)) \<and>
    fw_wg s = length (fw_handlers s)"
proof -
  have "res_inv s" using fwd_res.inv_reach [OF assms] .
  then show ?thesis
    using sem_pool.tokens_bound [of "fw_sem s" "count holds_slot (fw_handlers s)"]
    by (auto simp: res_inv_def fwd_cap [OF assms] new_sem_cap)
qed

theorem forward_limits_and_counts_connections_witness:
  "int (count holds_slot (fw_handlers demo_busy)) \<le> 2 \<and> count holds_slot (fw_handlers demo_busy) = 1 \<and>
   fw_wg demo_busy = 1"
  using forward_limits_and_counts_connections [OF demo_reach_busy]
  by (simp add: demo_cfg_def) (simp add: demo_busy_def start_handler_def new_handler_def holds_slot_def)

text \<open>C8: The forwarder returns nil only when its caller cancelled it, and it returns nil or the
  self-target error only after every handler has finished; the closing of its own listener is never
  reported as an error: any other result is a genuine accept error, not a timeout.\<close>

theorem forward_returns_only_drained:
  assumes "reach (\<lambda>s. s = fwd_initial (forward_New now cfg) nid) (fwd_step x) s"
    and "fw_phase s = Returned r"
  shows "(r = None \<and> fw_ctx s \<and> fw_handlers s = []) \<or>
    (r = Some (FwdSelfTarget (fc_Target (fx_cfg x))) \<and> fw_handlers s = []) \<or>
    (\<exists>t. r = Some (AcceptFailed (AcceptOther t)))"
  using fwd_sys.inv_reach [OF assms(1)] assms(2)
  by (auto simp: fwd_inv_def ctl_inv_def phase_inv_def split: option.splits)

theorem forward_returns_only_drained_witness:
  "\<exists>s :: fwd_state. fw_phase s = Returned None \<and> fw_ctx s \<and> fw_handlers s = []"
proof -
  let ?s = "return_with None (cancelled demo_state)"
  have "fwd_step demo_ctx (cancelled demo_state) ?s" by (rule fwd_return) (simp_all add: cancelled_def)
  note r = reach_step [OF reach_cancelled [OF demo_reach0] this]
  have p: "fw_phase ?s = Returned None" by (simp add: return_with_def)
  show ?thesis
    by (rule exI [of _ ?s]) (use forward_returns_only_drained [OF r p] p in simp)
qed



text \<open>C11: What one connection leaves in the statistics and in the log, on each way through the
  handler: a failed dial counts one dial error and logs one dial-error event; a peer that is the
  forwarder itself counts a dial error, logs no event, cancels the service and closes the listener
  (first report only); a relayed connection is opened and closed once, adds the two byte counts and
  logs an open and a close event under the same new id.  The slot and the wait group are given back
  on each way.\<close>

theorem handler_accounting_on_every_path:
  assumes "sem_release (fw_sem s) = Some m" and "fw_wg s = Suc n"
  shows "run_handler 12 x ch s (new_handler (fx_cfg x) client) =
    (let done = (\<lambda>t. Some (t\<lparr>fw_sem := m, fw_wg := n\<rparr>)); h = new_handler (fx_cfg x) client in
     case ch_dial ch of
       DialFailure \<Rightarrow> done (s\<lparr>fw_stats := DialError (fw_stats s),
           fw_events := Append (fw_events s) (mk_event (fx_cfg x) ch h ''dial-error'')\<rparr>)
     | DialOk addr str \<Rightarrow>
         if connMatchesListener (fx_env x) addr (fx_laddr x) (fx_dual x) then
           (if fw_fatal s = None
            then done (s\<lparr>fw_stats := DialError (fw_stats s), fw_serve := True, fw_lnClosed := True,
                   fw_fatal := Some (FwdSelfTarget (fc_Target (fx_cfg x)))\<rparr>)
            else done (s\<lparr>fw_stats := DialError (fw_stats s)\<rparr>))
         else
           (let cid = fw_nextID s + 1; h1 = h\<lparr>hd_target := str, hd_connID := cid\<rparr>;
                h2 = h1\<lparr>hd_up := ch_up ch, hd_down := ch_down ch\<rparr> in
            done (s\<lparr>fw_stats := ConnClosed (AddDown (AddUp (fst (ConnOpened (fw_stats s) (fw_nextID s)))
                     (ch_up ch)) (ch_down ch)),
                   fw_nextID := cid,
                   fw_events := Append (Append (fw_events s) (mk_event (fx_cfg x) ch h1 ''open''))
                     (mk_event (fx_cfg x) ch h2 ''close'')\<rparr>)))"
  using assms
  by (auto simp: Let_def numeral_eq_Suc new_handler_def handler_act_def after_dial_def handle_defs
      ConnOpened_def mk_event_def split: dial_outcome.splits option.splits)

theorem handler_accounting_on_every_path_witness:
  "map_option fw_wg (run_handler 12 demo_ctx (quiet_choice\<lparr>ch_dial := DialOk (TCPAddr [10, 0, 0, 9] 22 []) ''10.0.0.9:22'', ch_up := 3\<rparr>)
     (demo_state\<lparr>fw_wg := 1, fw_sem := \<lparr>sem_cap = Some 2, sem_held = 1\<rparr>\<rparr>) (new_handler demo_cfg ''c'')) = Some 0"
  using handler_accounting_on_every_path
    [of "demo_state\<lparr>fw_wg := 1, fw_sem := \<lparr>sem_cap = Some 2, sem_held = 1\<rparr>\<rparr>" "\<lparr>sem_cap = Some 2, sem_held = 0\<rparr>" 0 demo_ctx
      "quiet_choice\<lparr>ch_dial := DialOk (TCPAddr [10, 0, 0, 9] 22 []) ''10.0.0.9:22'', ch_up := 3\<rparr>" "''c''"]
  by (simp add: sem_release_def demo_ctx_def quiet_choice_def Let_def split: if_splits)

end
