(* ===== verification/Udp_Model.thy ===== *)
theory Udp_Model
  imports Fwd_Config
begin

text \<open>
  The UDP forwarder, internal/forward/udp.go.  The receive loop of \<open>serveUDP\<close> (which runs \<open>forward\<close>
  and \<open>get\<close> itself), one relay goroutine per session, and the environment are one step relation; the
  session table is a map from client addresses to pointers into the list of all sessions made.
  Only the lengths of datagrams are kept.
\<close>

section \<open>Sessions\<close>

text \<open>What a relay's deferred function still has to do, in order, then the goroutine's own
  deferred \<open>wg.Done\<close>.\<close>

datatype rel_act = RRemoveIf | RConnClosed | RSemRelease | RCloseDst | RCloseDone | REvent | RWgDone

definition relay_exit :: "rel_act list" where
  "relay_exit = [RRemoveIf, RConnClosed, RSemRelease, RCloseDst, RCloseDone, REvent, RWgDone]"

datatype rel_stage = NotStarted | Looping | Exiting "rel_act list"

record udpSession =
  ss_client :: string
  ss_lastSeen :: int
  ss_connID :: i64
  ss_start :: int
  ss_cancelled :: bool
  ss_dstClosed :: bool
  ss_stage :: rel_stage

definition ss_touch :: "int \<Rightarrow> udpSession \<Rightarrow> udpSession" where
  "ss_touch now ss = ss\<lparr>ss_lastSeen := now\<rparr>"

text \<open>One round of the relay's loop: what it decides, given the clock, whether its context is done,
  the outcome of the read and of the write to the client.\<close>

datatype udp_read = ReadTimeout | ReadError | ReadOk i64

datatype relay_decision = RelayExit | RelayAgain | RelayDown i64 bool

definition relay_round :: "int \<Rightarrow> udpSession \<Rightarrow> int \<Rightarrow> bool \<Rightarrow> udp_read \<Rightarrow> bool \<Rightarrow> relay_decision" where
  "relay_round idle ss now ctxDone rd writeOk =
     (if ctxDone then RelayExit
      else
        (let wait = idle - (now - ss_lastSeen ss) in
         if wait \<le> 0 then RelayExit
         else (case rd of
                 ReadTimeout \<Rightarrow> RelayAgain
               | ReadError \<Rightarrow> RelayExit
               | ReadOk n \<Rightarrow> RelayDown n writeOk)))"

section \<open>State\<close>

datatype attempt = FirstTry | SecondTry bool

text \<open>The receive loop's program counter.  \<open>SecondTry b\<close> is the retry after a failed write; \<open>b\<close>
  tells that the old session was seen to be done (not that the two seconds ran out).\<close>

datatype mphase =
    MRead
  | MGet attempt string i64
  | MAcquire attempt string i64
  | MDial attempt string i64
  | MDialFailed string
  | MInsert attempt string i64
  | MDuplicate attempt nat i64
  | MAnnounce attempt nat i64
  | MSpawn attempt nat i64
  | MSend attempt nat i64
  | MWriteFailed nat i64
  | MCancel nat i64
  | MWait nat i64
  | MReject string
  | MDialError string
  | MAddUp nat i64
  | MCloseAll
  | MClosing "nat list"
  | MWaitAll
  | MReturned "fwd_err option"

record udp_state =
  us_phase :: mphase
  us_table :: "string \<Rightarrow> nat option"
  us_sessions :: "udpSession list"
  us_sem :: sem
  us_wg :: nat
  us_stats :: Counters
  us_nextID :: i64
  us_events :: "EventLog option"
  us_ctx :: bool
  us_now :: int

text \<open>What \<open>serveUDP\<close> fixed before the loop: the configuration, the idle time (60s when none is
  configured) and the resolved target as text.\<close>

record udp_ctx =
  ux_cfg :: fwd_Config
  ux_idle :: int
  ux_target :: string

definition udp_idle :: "fwd_Config \<Rightarrow> int" where
  "udp_idle cfg = (if sint (fc_IdleTimeout cfg) \<le> 0 then 60000000000 else sint (fc_IdleTimeout cfg))"

definition udp_event :: "string \<Rightarrow> string \<Rightarrow> string \<Rightarrow> string \<Rightarrow> int \<Rightarrow> i64 \<Rightarrow> Event" where
  "udp_event time kind client target ms cid =
     \<lparr>evTime = time, evKind = kind, evProto = ''udp'', evClient = client, evTarget = target,
      evUpBytes = 0, evDownBytes = 0, evDurationMs = ms, evConnID = cid\<rparr>"

definition upd_session :: "nat \<Rightarrow> (udpSession \<Rightarrow> udpSession) \<Rightarrow> udp_state \<Rightarrow> udp_state" where
  "upd_session i f s = s\<lparr>us_sessions := (us_sessions s)[i := f (us_sessions s ! i)]\<rparr>"

definition removeIf :: "string \<Rightarrow> nat \<Rightarrow> udp_state \<Rightarrow> udp_state" where
  "removeIf key i s =
     (if us_table s key = Some i then s\<lparr>us_table := (us_table s)(key := None)\<rparr> else s)"

section \<open>The receive loop\<close>

text \<open>\<open>get\<close>: the lookup, the slot, the dial, and the second lookup under the lock.\<close>

definition get_lookup :: "attempt \<Rightarrow> string \<Rightarrow> i64 \<Rightarrow> udp_state \<Rightarrow> udp_state" where
  "get_lookup att client n s =
     (case us_table s client of
        Some i \<Rightarrow> s\<lparr>us_phase := MSend att i n\<rparr>
      | None \<Rightarrow> s\<lparr>us_phase := MAcquire att client n\<rparr>)"

definition get_acquire :: "attempt \<Rightarrow> string \<Rightarrow> i64 \<Rightarrow> udp_state \<Rightarrow> udp_state" where
  "get_acquire att client n s =
     (case sem_acquire (us_sem s) of
        None \<Rightarrow> s\<lparr>us_phase := MReject client\<rparr>
      | Some m \<Rightarrow> s\<lparr>us_sem := m, us_phase := MDial att client n\<rparr>)"

definition get_insert :: "attempt \<Rightarrow> string \<Rightarrow> i64 \<Rightarrow> udp_state \<Rightarrow> udp_state" where
  "get_insert att client n s =
     (case us_table s client of
        Some i \<Rightarrow> s\<lparr>us_phase := MDuplicate att i n\<rparr>
      | None \<Rightarrow>
          (case ConnOpened (us_stats s) (us_nextID s) of
             (c, nid, connID) \<Rightarrow>
               s\<lparr>us_stats := c, us_nextID := nid,
                 us_table := (us_table s)(client := Some (length (us_sessions s))),
                 us_sessions := us_sessions s @ [\<lparr>ss_client = client, ss_lastSeen = us_now s,
                   ss_connID = connID, ss_start = us_now s, ss_cancelled = False, ss_dstClosed = False,
                   ss_stage = NotStarted\<rparr>],
                 us_phase := MAnnounce att (length (us_sessions s)) n\<rparr>))"

definition get_announce :: "udp_ctx \<Rightarrow> string \<Rightarrow> attempt \<Rightarrow> nat \<Rightarrow> i64 \<Rightarrow> udp_state \<Rightarrow> udp_state" where
  "get_announce x time att i n s =
     (let ss = us_sessions s ! i in
      s\<lparr>us_events := Append (us_events s) (udp_event time ''open'' (ss_client ss) (ux_target x) 0 (ss_connID ss)),
        us_phase := MSpawn att i n\<rparr>)"

definition get_spawn :: "attempt \<Rightarrow> nat \<Rightarrow> i64 \<Rightarrow> udp_state \<Rightarrow> udp_state" where
  "get_spawn att i n s =
     (upd_session i (\<lambda>ss. ss\<lparr>ss_stage := Looping\<rparr>) s)\<lparr>us_wg := Suc (us_wg s), us_phase := MSend att i n\<rparr>"

text \<open>\<open>forward\<close> after a successful \<open>get\<close>: the outcome of the write decides.\<close>

definition send_outcome :: "bool \<Rightarrow> attempt \<Rightarrow> nat \<Rightarrow> i64 \<Rightarrow> udp_state \<Rightarrow> udp_state" where
  "send_outcome writeOk att i n s =
     (if writeOk then s\<lparr>us_phase := MAddUp i n\<rparr>
      else (case att of
              FirstTry \<Rightarrow> s\<lparr>us_phase := MWriteFailed i n\<rparr>
            | SecondTry _ \<Rightarrow> s\<lparr>us_phase := MRead\<rparr>))"

definition count_up :: "nat \<Rightarrow> i64 \<Rightarrow> udp_state \<Rightarrow> udp_state" where
  "count_up i n s =
     (upd_session i (ss_touch (us_now s)) s)\<lparr>us_stats := AddUp (us_stats s) n, us_phase := MRead\<rparr>"

definition reject_packet :: "udp_ctx \<Rightarrow> string \<Rightarrow> string \<Rightarrow> udp_state \<Rightarrow> udp_state" where
  "reject_packet x time client s =
     s\<lparr>us_stats := Reject (us_stats s),
       us_events := Append (us_events s) (udp_event time ''reject'' client (fc_Target (ux_cfg x)) 0 0),
       us_phase := MRead\<rparr>"

definition dial_error_packet :: "udp_ctx \<Rightarrow> string \<Rightarrow> string \<Rightarrow> udp_state \<Rightarrow> udp_state" where
  "dial_error_packet x time client s =
     s\<lparr>us_stats := DialError (us_stats s),
       us_events := Append (us_events s) (udp_event time ''dial-error'' client (fc_Target (ux_cfg x)) 0 0),
       us_phase := MRead\<rparr>"

text \<open>The receive loop after a failed read.\<close>

definition read_failed :: "io_error \<Rightarrow> string \<Rightarrow> udp_state \<Rightarrow> udp_state" where
  "read_failed err msg s =
     (if us_ctx s then s\<lparr>us_phase := MCloseAll\<rparr>
      else if isNormalClose (Some err) then s
      else s\<lparr>us_phase := MReturned (Some (ReadFailed msg))\<rparr>)"

text \<open>\<open>closeAll\<close> takes the table under the lock, then cancels and closes each session; the order
  of a Go map's iteration is any order.\<close>

definition closeAll_take :: "nat list \<Rightarrow> udp_state \<Rightarrow> udp_state" where
  "closeAll_take order s = s\<lparr>us_table := Map.empty, us_phase := MClosing order\<rparr>"

definition close_session :: "nat \<Rightarrow> udp_state \<Rightarrow> udp_state" where
  "close_session i s = upd_session i (\<lambda>ss. ss\<lparr>ss_cancelled := True, ss_dstClosed := True\<rparr>) s"

section \<open>The relays\<close>

fun exit_act :: "udp_ctx \<Rightarrow> string \<Rightarrow> int \<Rightarrow> rel_act \<Rightarrow> nat \<Rightarrow> udp_state \<Rightarrow> udp_state option" where
  "exit_act x time ms RRemoveIf i s = Some (removeIf (ss_client (us_sessions s ! i)) i s)"
| "exit_act x time ms RConnClosed i s = Some (s\<lparr>us_stats := ConnClosed (us_stats s)\<rparr>)"
| "exit_act x time ms RSemRelease i s = map_option (\<lambda>m. s\<lparr>us_sem := m\<rparr>) (sem_release (us_sem s))"
| "exit_act x time ms RCloseDst i s = Some (upd_session i (\<lambda>ss. ss\<lparr>ss_dstClosed := True\<rparr>) s)"
| "exit_act x time ms RCloseDone i s = Some s"
| "exit_act x time ms REvent i s =
     (let ss = us_sessions s ! i in
      Some (s\<lparr>us_events := Append (us_events s)
        (udp_event time ''close'' (ss_client ss) (ux_target x) ms (ss_connID ss))\<rparr>))"
| "exit_act x time ms RWgDone i s = (case us_wg s of 0 \<Rightarrow> None | Suc k \<Rightarrow> Some (s\<lparr>us_wg := k\<rparr>))"

definition relay_apply :: "relay_decision \<Rightarrow> nat \<Rightarrow> udp_state \<Rightarrow> udp_state" where
  "relay_apply d i s =
     (case d of
        RelayExit \<Rightarrow> upd_session i (\<lambda>ss. ss\<lparr>ss_stage := Exiting relay_exit\<rparr>) s
      | RelayAgain \<Rightarrow> s
      | RelayDown n writeOk \<Rightarrow>
          (upd_session i (\<lambda>ss. (ss_touch (us_now s) ss)
             \<lparr>ss_stage := (if writeOk then Looping else Exiting relay_exit)\<rparr>) s)
          \<lparr>us_stats := AddDown (us_stats s) n\<rparr>)"

definition session_done :: "udpSession \<Rightarrow> bool" where
  "session_done ss \<longleftrightarrow> (\<exists>acts. ss_stage ss = Exiting acts \<and> RCloseDone \<notin> set acts)"

inductive udp_step :: "udp_ctx \<Rightarrow> udp_state \<Rightarrow> udp_state \<Rightarrow> bool" for x where
  udp_packet: "us_phase s = MRead \<Longrightarrow> udp_step x s (s\<lparr>us_phase := MGet FirstTry client n\<rparr>)"
| udp_read_failed: "us_phase s = MRead \<Longrightarrow> udp_step x s (read_failed err msg s)"
| udp_lookup: "us_phase s = MGet att client n \<Longrightarrow> udp_step x s (get_lookup att client n s)"
| udp_acquire: "us_phase s = MAcquire att client n \<Longrightarrow> udp_step x s (get_acquire att client n s)"
| udp_dialled: "us_phase s = MDial att client n \<Longrightarrow> udp_step x s (s\<lparr>us_phase := MInsert att client n\<rparr>)"
| udp_dial_failed: "us_phase s = MDial att client n \<Longrightarrow> udp_step x s (s\<lparr>us_phase := MDialFailed client\<rparr>)"
| udp_dial_release: "us_phase s = MDialFailed client \<Longrightarrow> sem_release (us_sem s) = Some m \<Longrightarrow>
     udp_step x s (s\<lparr>us_sem := m, us_phase := MDialError client\<rparr>)"
| udp_insert: "us_phase s = MInsert att client n \<Longrightarrow> udp_step x s (get_insert att client n s)"
| udp_duplicate: "us_phase s = MDuplicate att i n \<Longrightarrow> sem_release (us_sem s) = Some m \<Longrightarrow>
     udp_step x s (s\<lparr>us_sem := m, us_phase := MSend att i n\<rparr>)"
| udp_announce: "us_phase s = MAnnounce att i n \<Longrightarrow> udp_step x s (get_announce x time att i n s)"
| udp_spawn: "us_phase s = MSpawn att i n \<Longrightarrow> udp_step x s (get_spawn att i n s)"
| udp_send: "us_phase s = MSend att i n \<Longrightarrow> (writeOk \<longrightarrow> \<not> ss_dstClosed (us_sessions s ! i)) \<Longrightarrow>
     udp_step x s (send_outcome writeOk att i n s)"
| udp_remove: "us_phase s = MWriteFailed i n \<Longrightarrow>
     udp_step x s ((removeIf (ss_client (us_sessions s ! i)) i s)\<lparr>us_phase := MCancel i n\<rparr>)"
| udp_cancel_session: "us_phase s = MCancel i n \<Longrightarrow>
     udp_step x s ((upd_session i (\<lambda>ss. ss\<lparr>ss_cancelled := True\<rparr>) s)\<lparr>us_phase := MWait i n\<rparr>)"
| udp_waited: "us_phase s = MWait i n \<Longrightarrow> session_done (us_sessions s ! i) \<Longrightarrow>
     udp_step x s (s\<lparr>us_phase := MGet (SecondTry True) (ss_client (us_sessions s ! i)) n\<rparr>)"
| udp_wait_timeout: "us_phase s = MWait i n \<Longrightarrow>
     udp_step x s (s\<lparr>us_phase := MGet (SecondTry False) (ss_client (us_sessions s ! i)) n\<rparr>)"
| udp_reject: "us_phase s = MReject client \<Longrightarrow> udp_step x s (reject_packet x time client s)"
| udp_dial_error: "us_phase s = MDialError client \<Longrightarrow> udp_step x s (dial_error_packet x time client s)"
| udp_count: "us_phase s = MAddUp i n \<Longrightarrow> udp_step x s (count_up i n s)"
| udp_close_all: "us_phase s = MCloseAll \<Longrightarrow> set order = ran (us_table s) \<Longrightarrow> distinct order \<Longrightarrow>
     udp_step x s (closeAll_take order s)"
| udp_close_one: "us_phase s = MClosing (i # is) \<Longrightarrow>
     udp_step x s ((close_session i s)\<lparr>us_phase := MClosing is\<rparr>)"
| udp_closed: "us_phase s = MClosing [] \<Longrightarrow> udp_step x s (s\<lparr>us_phase := MWaitAll\<rparr>)"
| udp_return: "us_phase s = MWaitAll \<Longrightarrow> us_wg s = 0 \<Longrightarrow> udp_step x s (s\<lparr>us_phase := MReturned None\<rparr>)"
| udp_relay: "i < length (us_sessions s) \<Longrightarrow> ss_stage (us_sessions s ! i) = Looping \<Longrightarrow>
     (ctxDone \<longrightarrow> us_ctx s \<or> ss_cancelled (us_sessions s ! i)) \<Longrightarrow> t \<le> us_now s \<Longrightarrow>
     d = relay_round (ux_idle x) (us_sessions s ! i) t ctxDone rd writeOk \<Longrightarrow>
     (ss_dstClosed (us_sessions s ! i) \<longrightarrow> rd = ReadError) \<Longrightarrow>
     udp_step x s (relay_apply d i s)"
| udp_exit: "i < length (us_sessions s) \<Longrightarrow> ss_stage (us_sessions s ! i) = Exiting (a # acts) \<Longrightarrow>
     exit_act x time ms a i s = Some s' \<Longrightarrow>
     udp_step x s (upd_session i (\<lambda>ss. ss\<lparr>ss_stage := Exiting acts\<rparr>) s')"
| udp_cancel: "udp_step x s (s\<lparr>us_ctx := True\<rparr>)"
| udp_tick: "us_now s \<le> t \<Longrightarrow> udp_step x s (s\<lparr>us_now := t\<rparr>)"

inductive_cases udp_stepE [step_elims]: "udp_step x s s'"

text \<open>\<open>serveUDP\<close> up to its loop.\<close>

definition udp_initial :: "fwd_Server \<Rightarrow> i64 \<Rightarrow> int \<Rightarrow> udp_state" where
  "udp_initial srv nid now =
     \<lparr>us_phase = MRead, us_table = Map.empty, us_sessions = [], us_sem = fs_sem srv, us_wg = 0,
      us_stats = fs_stats srv, us_nextID = nid, us_events = fc_Events (fs_cfg srv), us_ctx = False, us_now = now\<rparr>"

definition serveUDP_start :: "net_env \<Rightarrow> fwd_Server \<Rightarrow> i64 \<Rightarrow> int \<Rightarrow> string + net_addr \<Rightarrow>
    string + (net_addr \<times> string) \<Rightarrow> bool \<Rightarrow> fwd_err + udp_ctx \<times> udp_state" where
  "serveUDP_start env srv nid now listen resolve dualStack =
     (case listen of
        Inl err \<Rightarrow> Inl (ListenFailed err)
      | Inr laddr \<Rightarrow>
          (case resolve of
             Inl err \<Rightarrow> Inl (ResolveFailed err)
           | Inr (targetAddr, targetStr) \<Rightarrow>
               if addressMatchesListener env targetAddr laddr dualStack
               then Inl (FwdSelfTarget (fc_Target (fs_cfg srv)))
               else Inr (\<lparr>ux_cfg = fs_cfg srv, ux_idle = udp_idle (fs_cfg srv), ux_target = targetStr\<rparr>,
                         udp_initial srv nid now)))"


section \<open>Counting sessions\<close>

definition pending :: "rel_act \<Rightarrow> udpSession \<Rightarrow> bool" where
  "pending a ss \<longleftrightarrow> (case ss_stage ss of Exiting acts \<Rightarrow> a \<in> set acts | _ \<Rightarrow> True)"

definition running :: "udpSession \<Rightarrow> bool" where
  "running ss \<longleftrightarrow> (case ss_stage ss of NotStarted \<Rightarrow> False | Looping \<Rightarrow> True | Exiting acts \<Rightarrow> acts \<noteq> [])"

abbreviation holds :: "udpSession \<Rightarrow> bool" where
  "holds \<equiv> pending RSemRelease"

definition stage_ok :: "udpSession \<Rightarrow> bool" where
  "stage_ok ss \<longleftrightarrow> (case ss_stage ss of Exiting acts \<Rightarrow> \<exists>n. acts = drop n relay_exit | _ \<Rightarrow> True)"

lemma relay_exit_suffix:
  "(\<exists>n. a # acts = drop n relay_exit) \<Longrightarrow>
     (a, acts) \<in> {(RRemoveIf, [RConnClosed, RSemRelease, RCloseDst, RCloseDone, REvent, RWgDone]),
       (RConnClosed, [RSemRelease, RCloseDst, RCloseDone, REvent, RWgDone]),
       (RSemRelease, [RCloseDst, RCloseDone, REvent, RWgDone]),
       (RCloseDst, [RCloseDone, REvent, RWgDone]), (RCloseDone, [REvent, RWgDone]),
       (REvent, [RWgDone]), (RWgDone, [])}"
proof (elim exE)
  fix n assume d: "a # acts = drop n relay_exit"
  then have "n < length relay_exit" by (metis drop_all list.distinct(1) not_le)
  then have "n \<in> {0, 1, 2, 3, 4, 5, 6}" by (auto simp: relay_exit_def)
  with d show ?thesis by (auto simp: relay_exit_def)
qed

lemma stage_ok_rest:
  "ss_stage ss = Exiting (a # acts) \<Longrightarrow> stage_ok ss \<Longrightarrow> \<exists>n. acts = drop n relay_exit"
  by (auto simp: stage_ok_def) (metis drop_Suc list.sel(3) tl_drop)

text \<open>A slot that the receive loop itself holds while it makes a session.\<close>

fun loop_token :: "mphase \<Rightarrow> nat" where
  "loop_token (MDial _ _ _) = 1"
| "loop_token (MDialFailed _) = 1"
| "loop_token (MInsert _ _ _) = 1"
| "loop_token (MDuplicate _ _ _) = 1"
| "loop_token _ = 0"

section \<open>The invariants\<close>

definition tab_inv :: "udp_state \<Rightarrow> bool" where
  "tab_inv s \<longleftrightarrow>
     (\<forall>k i. us_table s k = Some i \<longrightarrow>
        i < length (us_sessions s) \<and> ss_client (us_sessions s ! i) = k \<and> pending RRemoveIf (us_sessions s ! i))"

definition cnt_inv :: "udp_state \<Rightarrow> bool" where
  "cnt_inv s \<longleftrightarrow>
     (\<forall>ss \<in> set (us_sessions s). stage_ok ss) \<and>
     sem_pool.tokens (us_sem s) (cnt holds (us_sessions s) + loop_token (us_phase s)) \<and>
     activeConns (us_stats s) = of_nat (cnt (pending RConnClosed) (us_sessions s)) \<and>
     us_wg s = cnt running (us_sessions s)"

text \<open>What each point of the receive loop relies on.  \<open>room_without s i\<close>: were session \<open>i\<close> gone,
  a slot would be free.\<close>

definition room_without :: "udp_state \<Rightarrow> nat \<Rightarrow> bool" where
  "room_without s i \<longleftrightarrow> (\<forall>k. sem_cap (us_sem s) = Some k \<longrightarrow>
     cnt holds (us_sessions s) < k + (if holds (us_sessions s ! i) then 1 else 0))"

definition room :: "udp_state \<Rightarrow> bool" where
  "room s \<longleftrightarrow> (\<forall>k. sem_cap (us_sem s) = Some k \<longrightarrow> cnt holds (us_sessions s) < k)"

definition starting :: "mphase \<Rightarrow> nat option" where
  "starting p = (case p of MAnnounce _ i _ \<Rightarrow> Some i | MSpawn _ i _ \<Rightarrow> Some i | _ \<Rightarrow> None)"

definition udp_phase_inv :: "udp_state \<Rightarrow> bool" where
  "udp_phase_inv s \<longleftrightarrow>
     (case us_phase s of
        MGet (SecondTry True) _ _ \<Rightarrow> room s
      | MAcquire (SecondTry True) _ _ \<Rightarrow> room s
      | MDuplicate _ i _ \<Rightarrow> i < length (us_sessions s)
      | MAnnounce _ i _ \<Rightarrow> i < length (us_sessions s) \<and> ss_stage (us_sessions s ! i) = NotStarted
      | MSpawn _ i _ \<Rightarrow> i < length (us_sessions s) \<and> ss_stage (us_sessions s ! i) = NotStarted
      | MSend att i _ \<Rightarrow> i < length (us_sessions s) \<and> (att = FirstTry \<longrightarrow> room_without s i)
      | MWriteFailed i _ \<Rightarrow> i < length (us_sessions s) \<and> room_without s i
      | MCancel i _ \<Rightarrow> i < length (us_sessions s) \<and> room_without s i
      | MWait i _ \<Rightarrow> i < length (us_sessions s) \<and> room_without s i
      | MAddUp i _ \<Rightarrow> i < length (us_sessions s)
      | MCloseAll \<Rightarrow> us_ctx s
      | MClosing is \<Rightarrow> us_ctx s \<and> (\<forall>i \<in> set is. i < length (us_sessions s))
      | MWaitAll \<Rightarrow> us_ctx s
      | MReturned None \<Rightarrow> us_ctx s \<and> us_wg s = 0
      | _ \<Rightarrow> True) \<and>
     (\<forall>i < length (us_sessions s). ss_stage (us_sessions s ! i) = NotStarted \<longrightarrow> starting (us_phase s) = Some i)"

definition udp_inv :: "udp_state \<Rightarrow> bool" where
  "udp_inv s \<longleftrightarrow> tab_inv s \<and> cnt_inv s \<and> udp_phase_inv s"


section \<open>Steps that change one session\<close>

text \<open>Session \<open>i\<close> becomes \<open>y\<close>; what it gives back is given back, and its table entry goes before
  anything else.\<close>

definition session_change :: "nat \<Rightarrow> udpSession \<Rightarrow> udp_state \<Rightarrow> udp_state \<Rightarrow> bool" where
  "session_change i y s s' \<longleftrightarrow>
     (let old = us_sessions s ! i in
      i < length (us_sessions s) \<and> us_sessions s' = (us_sessions s)[i := y] \<and>
      us_phase s' = us_phase s \<and> us_ctx s' = us_ctx s \<and>
      (\<forall>k. us_table s' k = us_table s k \<or> us_table s' k = None) \<and>
      ss_client y = ss_client old \<and> stage_ok y \<and>
      (pending RRemoveIf y \<or> us_table s' (ss_client y) \<noteq> Some i) \<and>
      (holds y \<longrightarrow> holds old) \<and> (pending RConnClosed y \<longrightarrow> pending RConnClosed old) \<and>
      (if holds old \<and> \<not> holds y then sem_release (us_sem s) = Some (us_sem s') else us_sem s' = us_sem s) \<and>
      activeConns (us_stats s) = activeConns (us_stats s') +
        (if pending RConnClosed old \<and> \<not> pending RConnClosed y then 1 else 0) \<and>
      us_wg s + (if running y then 1 else 0) = us_wg s' + (if running old then 1 else 0) \<and>
      (ss_stage y = NotStarted \<longleftrightarrow> ss_stage old = NotStarted) \<and> (running y \<longrightarrow> running old))"

lemma session_changeD:
  assumes "session_change i y s s'"
  shows "i < length (us_sessions s)" "us_sessions s' = (us_sessions s)[i := y]"
    "us_phase s' = us_phase s" "us_ctx s' = us_ctx s"
    "\<forall>k. us_table s' k = us_table s k \<or> us_table s' k = None"
    "ss_client y = ss_client (us_sessions s ! i)" "stage_ok y"
    "pending RRemoveIf y \<or> us_table s' (ss_client y) \<noteq> Some i"
    "holds y \<longrightarrow> holds (us_sessions s ! i)"
    "pending RConnClosed y \<longrightarrow> pending RConnClosed (us_sessions s ! i)"
    "if holds (us_sessions s ! i) \<and> \<not> holds y then sem_release (us_sem s) = Some (us_sem s') else us_sem s' = us_sem s"
    "activeConns (us_stats s) = activeConns (us_stats s') +
        (if pending RConnClosed (us_sessions s ! i) \<and> \<not> pending RConnClosed y then 1 else 0)"
    "us_wg s + (if running y then 1 else 0) = us_wg s' + (if running (us_sessions s ! i) then 1 else 0)"
    "ss_stage y = NotStarted \<longleftrightarrow> ss_stage (us_sessions s ! i) = NotStarted"
    "running y \<longrightarrow> running (us_sessions s ! i)"
  by (insert assms [unfolded session_change_def Let_def], (elim conjE, assumption)+)

lemma tab_inv_change:
  assumes inv: "tab_inv s" and ch: "session_change i y s s'"
  shows "tab_inv s'"
  unfolding tab_inv_def
proof (intro allI impI)
  fix k j assume t: "us_table s' k = Some j"
  with session_changeD(5) [OF ch, THEN spec, of k] have t0: "us_table s k = Some j" by auto
  with inv have j: "j < length (us_sessions s)" "ss_client (us_sessions s ! j) = k"
    "pending RRemoveIf (us_sessions s ! j)" by (auto simp: tab_inv_def)
  note i = session_changeD(1) [OF ch] and s' = session_changeD(2) [OF ch]
    and y = session_changeD(6) [OF ch] and rm = session_changeD(8) [OF ch]
  show "j < length (us_sessions s') \<and> ss_client (us_sessions s' ! j) = k \<and> pending RRemoveIf (us_sessions s' ! j)"
  proof (cases "j = i")
    case True
    then show ?thesis using rm y j t i by (simp add: s')
  next
    case False
    then show ?thesis using j by (simp add: s')
  qed
qed

lemma cnt_inv_change:
  assumes inv: "cnt_inv s" and ch: "session_change i y s s'"
  shows "cnt_inv s'"
proof -
  let ?ss = "us_sessions s" and ?old = "us_sessions s ! i"
  note i = session_changeD(1) [OF ch] and s' = session_changeD(2) [OF ch]
    and ph = session_changeD(3) [OF ch] and ok = session_changeD(7) [OF ch]
  note up = cnt_update [OF i, of _ y]
  have "sem_pool.tokens (us_sem s') (cnt holds (us_sessions s') + loop_token (us_phase s'))"
  proof (cases "holds ?old \<and> \<not> holds y")
    case True
    then have "sem_release (us_sem s) = Some (us_sem s')" using session_changeD(11) [OF ch] by simp
    moreover have "cnt holds ?ss = Suc (cnt holds (us_sessions s'))" using up [of holds] True s' by simp
    ultimately show ?thesis
      using inv ph sem_pool.tokens_release [of "us_sem s" "cnt holds (us_sessions s') + loop_token (us_phase s)"]
      by (simp add: cnt_inv_def)
  next
    case False
    then have "us_sem s' = us_sem s" "cnt holds (us_sessions s') = cnt holds ?ss"
      using session_changeD(9,11) [OF ch] up [of holds] s' by (auto split: if_splits)
    then show ?thesis using inv ph by (simp add: cnt_inv_def)
  qed
  moreover have "activeConns (us_stats s') = of_nat (cnt (pending RConnClosed) (us_sessions s'))"
  proof -
    have "of_nat (cnt (pending RConnClosed) (us_sessions s')) +
        (if pending RConnClosed ?old \<and> \<not> pending RConnClosed y then 1 else 0) =
        (of_nat (cnt (pending RConnClosed) ?ss) :: i64)"
      using arg_cong [OF up [of "pending RConnClosed"], of "of_nat :: nat \<Rightarrow> i64"] s' session_changeD(10) [OF ch]
      by (auto split: if_splits)
    moreover have "activeConns (us_stats s') + (if pending RConnClosed ?old \<and> \<not> pending RConnClosed y then 1 else 0) =
        of_nat (cnt (pending RConnClosed) ?ss)"
      using inv session_changeD(12) [OF ch] by (simp add: cnt_inv_def)
    ultimately show ?thesis by (metis add_right_imp_eq)
  qed
  moreover have "us_wg s' = cnt running (us_sessions s')"
    using up [of running] s' inv session_changeD(13) [OF ch] by (simp add: cnt_inv_def)
  moreover have "\<forall>ss \<in> set (us_sessions s'). stage_ok ss"
    using inv ok s' by (auto simp: cnt_inv_def dest!: set_update_subset_insert [THEN subsetD])
  ultimately show ?thesis by (simp add: cnt_inv_def)
qed

lemma room_change:
  assumes ch: "session_change i y s s'"
  shows "room s \<Longrightarrow> room s'" "room_without s j \<Longrightarrow> j < length (us_sessions s) \<Longrightarrow> room_without s' j"
proof -
  note i = session_changeD(1) [OF ch] and s' = session_changeD(2) [OF ch] and h = session_changeD(9) [OF ch]
  have cap: "sem_cap (us_sem s') = sem_cap (us_sem s)"
    using session_changeD(11) [OF ch] sem_pool.release_cap [of "us_sem s" "us_sem s'"] by (auto split: if_splits)
  note up = cnt_update [OF i, of holds y]
  have le: "cnt holds (us_sessions s') \<le> cnt holds (us_sessions s)" using up h s' by (auto split: if_splits)
  show "room s \<Longrightarrow> room s'" using le cap by (auto simp: room_def intro: le_less_trans)
  assume r: "room_without s j" and j: "j < length (us_sessions s)"
  show "room_without s' j"
  proof (cases "j = i")
    case True
    then show ?thesis using r up s' i cap by (auto simp: room_without_def split: if_splits)
  next
    case False
    then show ?thesis using r le s' j cap by (fastforce simp: room_without_def intro: le_less_trans)
  qed
qed

lemma phase_inv_change:
  assumes inv: "udp_phase_inv s" and ch: "session_change i y s s'"
  shows "udp_phase_inv s'"
proof -
  note i = session_changeD(1) [OF ch] and s' = session_changeD(2) [OF ch] and ph = session_changeD(3) [OF ch]
    and ctx = session_changeD(4) [OF ch] and st = session_changeD(14) [OF ch]
  have wg: "us_wg s = 0 \<Longrightarrow> us_wg s' = 0"
    using session_changeD(13,15) [OF ch] by (simp split: if_splits)
  have ns: "ss_stage (us_sessions s' ! j) = NotStarted \<longleftrightarrow> ss_stage (us_sessions s ! j) = NotStarted"
    if "j < length (us_sessions s)" for j
    using that s' st i by (cases "j = i") auto
  show ?thesis
    using inv ns wg room_change [OF ch]
    by (auto simp: udp_phase_inv_def ph ctx s' split: mphase.splits attempt.splits bool.splits option.splits)
qed

lemma udp_inv_change: "udp_inv s \<Longrightarrow> session_change i y s s' \<Longrightarrow> udp_inv s'"
  unfolding udp_inv_def using tab_inv_change cnt_inv_change phase_inv_change by blast


section \<open>The relays keep the invariants\<close>

lemmas stage_defs = pending_def running_def stage_ok_def relay_exit_def

lemma stage_ok_exit [simp]: "ss_stage ss = Exiting relay_exit \<Longrightarrow> stage_ok ss"
  by (auto simp: stage_ok_def intro: exI [of _ 0])

lemma relay_apply_change:
  assumes "i < length (us_sessions s)" and "ss_stage (us_sessions s ! i) = Looping" and "d \<noteq> RelayAgain"
  shows "\<exists>y. session_change i y s (relay_apply d i s)"
proof -
  have "session_change i (us_sessions (relay_apply d i s) ! i) s (relay_apply d i s)"
    using assms stage_ok_exit
    by (cases d)
      (auto simp: session_change_def Let_def relay_apply_def upd_session_def pending_def running_def
        relay_exit_def ss_touch_def AddDown_def, auto simp: stage_ok_def)
  then show ?thesis by blast
qed

lemma removeIf_sel [simp]:
  "us_sessions (removeIf k i s) = us_sessions s" "us_phase (removeIf k i s) = us_phase s"
  "us_ctx (removeIf k i s) = us_ctx s" "us_sem (removeIf k i s) = us_sem s"
  "us_stats (removeIf k i s) = us_stats s" "us_wg (removeIf k i s) = us_wg s"
  "us_table (removeIf k i s) k' = (if k' = k \<and> us_table s k = Some i then None else us_table s k')"
  by (simp_all add: removeIf_def)

lemma exit_change:
  assumes i: "i < length (us_sessions s)" and st: "ss_stage (us_sessions s ! i) = Exiting (a # acts)"
    and inv: "udp_inv s" and act: "exit_act x time ms a i s = Some t"
  shows "\<exists>y. session_change i y s (upd_session i (\<lambda>ss. ss\<lparr>ss_stage := Exiting acts\<rparr>) t)"
proof -
  let ?s' = "upd_session i (\<lambda>ss. ss\<lparr>ss_stage := Exiting acts\<rparr>) t"
  have ok: "stage_ok (us_sessions s ! i)" using inv i by (simp add: udp_inv_def cnt_inv_def)
  have sfx: "\<exists>n. a # acts = drop n relay_exit" using ok st by (simp add: stage_ok_def)
  have ok': "stage_ok (X\<lparr>ss_stage := Exiting acts\<rparr>)" for X :: udpSession
    unfolding stage_ok_def using stage_ok_rest [OF st ok] by simp
  have tab: "us_table s (ss_client (us_sessions s ! i)) \<noteq> Some i \<or> pending RRemoveIf (us_sessions s ! i)"
    using inv by (auto simp: udp_inv_def tab_inv_def)
  have "session_change i (us_sessions ?s' ! i) s ?s'"
    using relay_exit_suffix [OF sfx] i st act ok' tab
    by (elim insertE emptyE) (auto simp: session_change_def Let_def upd_session_def pending_def
        running_def ConnClosed_def split: nat.splits if_splits)
  then show ?thesis by blast
qed

lemma udp_inv_relay:
  "udp_inv s \<Longrightarrow> i < length (us_sessions s) \<Longrightarrow> ss_stage (us_sessions s ! i) = Looping \<Longrightarrow>
     udp_inv (relay_apply d i s)"
  using relay_apply_change [of i s d] udp_inv_change [of s i]
  by (cases "d = RelayAgain") (auto simp: relay_apply_def)

lemma udp_inv_exit:
  "udp_inv s \<Longrightarrow> i < length (us_sessions s) \<Longrightarrow> ss_stage (us_sessions s ! i) = Exiting (a # acts) \<Longrightarrow>
     exit_act x time ms a i s = Some t \<Longrightarrow> udp_inv (upd_session i (\<lambda>ss. ss\<lparr>ss_stage := Exiting acts\<rparr>) t)"
  using exit_change udp_inv_change by blast

text \<open>Updates of a session that leave its stage and its client alone.\<close>

lemma udp_inv_flags:
  assumes "udp_inv s" and i: "i < length (us_sessions s)"
    and f: "\<And>ss. ss_stage (f ss) = ss_stage ss \<and> ss_client (f ss) = ss_client ss"
  shows "udp_inv (upd_session i f s)"
proof -
  have ok: "stage_ok (us_sessions s ! i)" using assms by (simp add: udp_inv_def cnt_inv_def)
  have "tab_inv s" using assms(1) by (simp add: udp_inv_def)
  then have "us_table s (ss_client (us_sessions s ! i)) = Some i \<longrightarrow> pending RRemoveIf (us_sessions s ! i)"
    by (auto simp: tab_inv_def)
  then have "session_change i (f (us_sessions s ! i)) s (upd_session i f s)"
    using i f ok by (auto simp: session_change_def upd_session_def pending_def running_def stage_ok_def)
  with assms(1) show ?thesis by (rule udp_inv_change)
qed

lemma udp_inv_removeIf:
  assumes "udp_inv s"
  shows "udp_inv (removeIf k i s)"
proof -
  have "udp_phase_inv (removeIf k i s) = udp_phase_inv s"
    by (cases "us_phase s") (simp_all add: udp_phase_inv_def room_def room_without_def
        split: attempt.splits bool.splits option.splits)
  then show ?thesis using assms by (auto simp: udp_inv_def tab_inv_def cnt_inv_def split: if_splits)
qed


section \<open>The receive loop keeps the invariants\<close>

text \<open>A step that only moves the program counter.\<close>

lemma udp_inv_goto:
  assumes "udp_inv s" and "loop_token p = loop_token (us_phase s)" and "udp_phase_inv (s\<lparr>us_phase := p\<rparr>)"
  shows "udp_inv (s\<lparr>us_phase := p\<rparr>)"
  using assms by (simp add: udp_inv_def tab_inv_def cnt_inv_def)

definition stages_started :: "udp_state \<Rightarrow> bool" where
  "stages_started s \<longleftrightarrow> (\<forall>i < length (us_sessions s). ss_stage (us_sessions s ! i) \<noteq> NotStarted)"

lemma not_started: "udp_inv s \<Longrightarrow> starting (us_phase s) = None \<Longrightarrow> stages_started s"
  by (auto simp: udp_inv_def udp_phase_inv_def stages_started_def)

lemma phase_invI:
  assumes "stages_started s" and "starting p = None \<or> starting p \<noteq> None"
  shows "\<forall>i < length (us_sessions s). ss_stage (us_sessions s ! i) = NotStarted \<longrightarrow> starting p = Some i"
  using assms by (auto simp: stages_started_def)

lemma in_table:
  assumes "udp_inv s" and "us_table s k = Some i"
  shows "i < length (us_sessions s)" and "holds (us_sessions s ! i)" and "ss_client (us_sessions s ! i) = k"
proof -
  from assms have i: "i < length (us_sessions s)" "pending RRemoveIf (us_sessions s ! i)"
      "ss_client (us_sessions s ! i) = k"
    by (auto simp: udp_inv_def tab_inv_def)
  then have ok: "stage_ok (us_sessions s ! i)" using assms(1) by (simp add: udp_inv_def cnt_inv_def)
  show "i < length (us_sessions s)" "ss_client (us_sessions s ! i) = k" using i by simp_all
  show "holds (us_sessions s ! i)"
  proof (cases "ss_stage (us_sessions s ! i)")
    case (Exiting acts)
    with i ok obtain n where n: "acts = drop n relay_exit" "RRemoveIf \<in> set acts"
      by (auto simp: pending_def stage_ok_def)
    then have "n = 0" by (cases n) (auto simp: relay_exit_def dest: in_set_dropD)
    with n Exiting show ?thesis by (simp add: pending_def relay_exit_def)
  qed (simp_all add: pending_def)
qed

lemma tokens_room_without:
  "sem_pool.tokens (us_sem s) (cnt holds (us_sessions s) + t) \<Longrightarrow> holds (us_sessions s ! i) \<or> 0 < t \<Longrightarrow> room_without s i"
  unfolding room_without_def by (auto dest: sem_pool.tokens_bound)

lemma udp_inv_lookup:
  assumes inv: "udp_inv s" and p: "us_phase s = MGet att client n"
  shows "udp_inv (get_lookup att client n s)"
proof -
  have st: "stages_started s" using not_started [OF inv] p by (simp add: starting_def)
  have "sem_pool.tokens (us_sem s) (cnt holds (us_sessions s) + 0)" using inv p by (simp add: udp_inv_def cnt_inv_def)
  then have rw: "us_table s client = Some i \<Longrightarrow> room_without s i" for i
    using in_table [OF inv] tokens_room_without by blast
  have r: "att = SecondTry True \<Longrightarrow> room s" using inv p by (simp add: udp_inv_def udp_phase_inv_def)
  show ?thesis
    unfolding get_lookup_def
    using rw r in_table(1) [OF inv, of client] st p
    by (auto split: option.splits intro!: udp_inv_goto [OF inv]
        simp: udp_phase_inv_def starting_def stages_started_def room_def room_without_def
        split: attempt.splits bool.splits)
qed

lemma udp_inv_acquire:
  assumes inv: "udp_inv s" and p: "us_phase s = MAcquire att client n"
  shows "udp_inv (get_acquire att client n s)"
proof -
  have st: "stages_started s" using not_started [OF inv] p by (simp add: starting_def)
  show ?thesis
    using inv p st sem_pool.tokens_acquire [of "us_sem s" "cnt holds (us_sessions s)"]
    by (auto simp: get_acquire_def udp_inv_def tab_inv_def cnt_inv_def udp_phase_inv_def starting_def
        stages_started_def split: option.splits)
qed

lemma udp_inv_dial_release:
  assumes inv: "udp_inv s" and p: "us_phase s = MDialFailed client" and m: "sem_release (us_sem s) = Some m"
  shows "udp_inv (s\<lparr>us_sem := m, us_phase := MDialError client\<rparr>)"
proof -
  have st: "stages_started s" using not_started [OF inv] p by (simp add: starting_def)
  show ?thesis
    using inv p st sem_pool.tokens_release [OF _ m]
    by (auto simp: udp_inv_def tab_inv_def cnt_inv_def udp_phase_inv_def starting_def stages_started_def)
qed

lemma udp_inv_duplicate:
  assumes inv: "udp_inv s" and p: "us_phase s = MDuplicate att i n" and m: "sem_release (us_sem s) = Some m"
  shows "udp_inv (s\<lparr>us_sem := m, us_phase := MSend att i n\<rparr>)"
proof -
  have st: "stages_started s" using not_started [OF inv] p by (simp add: starting_def)
  have "sem_pool.tokens (us_sem s) (cnt holds (us_sessions s) + 1)" using inv p by (simp add: udp_inv_def cnt_inv_def)
  from tokens_room_without [OF this] have "room_without s i" by simp
  then have "room_without (s\<lparr>us_sem := m, us_phase := MSend att i n\<rparr>) i"
    using sem_pool.release_cap [OF m] by (simp add: room_without_def)
  then show ?thesis
    using inv p st sem_pool.tokens_release [OF _ m]
    by (auto simp: udp_inv_def tab_inv_def cnt_inv_def udp_phase_inv_def starting_def stages_started_def)
qed


lemma udp_inv_insert:
  assumes inv: "udp_inv s" and p: "us_phase s = MInsert att client n"
  shows "udp_inv (get_insert att client n s)"
proof -
  have st: "stages_started s" using not_started [OF inv] p by (simp add: starting_def)
  show ?thesis
  proof (cases "us_table s client")
    case (Some i)
    then show ?thesis
      using in_table(1) [OF inv Some] st p
      by (auto simp: get_insert_def udp_phase_inv_def starting_def stages_started_def intro!: udp_inv_goto [OF inv])
  next
    case None
    have tab: "tab_inv (get_insert att client n s)"
      using inv None by (auto simp: get_insert_def udp_inv_def tab_inv_def ConnOpened_def nth_append pending_def less_Suc_eq)
    have "cnt_inv (get_insert att client n s)"
      using inv None p by (auto simp: get_insert_def udp_inv_def cnt_inv_def ConnOpened_def pending_def running_def
          stage_ok_def algebra_simps)
    moreover have "udp_phase_inv (get_insert att client n s)"
      using st None by (auto simp: get_insert_def ConnOpened_def udp_phase_inv_def starting_def stages_started_def
          nth_append less_Suc_eq)
    ultimately show ?thesis using tab by (simp add: udp_inv_def)
  qed
qed

lemma udp_inv_announce:
  assumes inv: "udp_inv s" and p: "us_phase s = MAnnounce att i n"
  shows "udp_inv (get_announce x time att i n s)"
  using inv p by (auto simp: get_announce_def Let_def udp_inv_def tab_inv_def cnt_inv_def udp_phase_inv_def starting_def)

lemma udp_inv_spawn:
  assumes inv: "udp_inv s" and p: "us_phase s = MSpawn att i n"
  shows "udp_inv (get_spawn att i n s)"
proof -
  let ?y = "(us_sessions s ! i)\<lparr>ss_stage := Looping\<rparr>" and ?t = "get_spawn att i n s"
  have i: "i < length (us_sessions s)" and ns: "ss_stage (us_sessions s ! i) = NotStarted"
    using inv p by (auto simp: udp_inv_def udp_phase_inv_def)
  have t: "us_sessions ?t = (us_sessions s)[i := ?y]" "us_phase ?t = MSend att i n" "us_wg ?t = Suc (us_wg s)"
    "us_sem ?t = us_sem s" "us_stats ?t = us_stats s" "us_table ?t = us_table s"
    by (simp_all add: get_spawn_def upd_session_def)
  have same: "cnt p (us_sessions ?t) = cnt p (us_sessions s)" if "p ?y = p (us_sessions s ! i)" for p
    using cnt_update [OF i, of p ?y] that t by (simp split: if_splits)
  have run: "cnt running (us_sessions ?t) = Suc (cnt running (us_sessions s))"
    using cnt_update [OF i, of running ?y] ns t by (simp add: running_def)
  have "tab_inv ?t" using inv i by (auto simp: udp_inv_def tab_inv_def t pending_def nth_list_update)
  moreover have cnt: "cnt_inv ?t"
    using inv p ns run same [of holds] same [of "pending RConnClosed"] t
    by (auto simp: udp_inv_def cnt_inv_def pending_def stage_ok_def dest!: set_update_subset_insert [THEN subsetD])
  moreover have "udp_phase_inv ?t"
  proof -
    have "sem_pool.tokens (us_sem ?t) (cnt holds (us_sessions ?t) + 0)" using cnt t by (simp add: cnt_inv_def)
    from tokens_room_without [OF this, of i] have "room_without ?t i" using i t by (simp add: pending_def)
    moreover have "\<forall>j < length (us_sessions s). ss_stage (us_sessions s ! j) = NotStarted \<longrightarrow> j = i"
      using inv p by (auto simp: udp_inv_def udp_phase_inv_def starting_def)
    ultimately show ?thesis using i t by (auto simp: udp_phase_inv_def nth_list_update)
  qed
  ultimately show ?thesis by (simp add: udp_inv_def)
qed

lemma udp_inv_send:
  assumes inv: "udp_inv s" and p: "us_phase s = MSend att i n"
  shows "udp_inv (send_outcome writeOk att i n s)"
proof -
  have st: "stages_started s" using not_started [OF inv] p by (simp add: starting_def)
  have "i < length (us_sessions s)" "att = FirstTry \<longrightarrow> room_without s i"
    using inv p by (auto simp: udp_inv_def udp_phase_inv_def)
  then show ?thesis
    using p st unfolding send_outcome_def
    by (auto intro!: udp_inv_goto [OF inv] simp: starting_def stages_started_def udp_phase_inv_def
        room_without_def split: attempt.splits)
qed


text \<open>Steps that change only statistics other than the gauge, the events, or a pointer phase.\<close>

lemma udp_inv_back:
  assumes inv: "udp_inv s" and "starting (us_phase s) = None" and "loop_token (us_phase s) = 0"
    and "activeConns c = activeConns (us_stats s)"
  shows "udp_inv (s\<lparr>us_stats := c, us_events := e, us_phase := MRead\<rparr>)"
proof -
  have "stages_started s" using not_started [OF inv] assms(2) .
  then show ?thesis
    using assms by (auto simp: udp_inv_def tab_inv_def cnt_inv_def udp_phase_inv_def starting_def stages_started_def)
qed

lemma udp_inv_count:
  assumes inv: "udp_inv s" and p: "us_phase s = MAddUp i n"
  shows "udp_inv (count_up i n s)"
proof -
  have "i < length (us_sessions s)" using inv p by (simp add: udp_inv_def udp_phase_inv_def)
  from udp_inv_flags [OF inv this] have "udp_inv (upd_session i (ss_touch (us_now s)) s)"
    by (simp add: ss_touch_def)
  from udp_inv_back [OF this, of "AddUp (us_stats s) n" "us_events s"] show ?thesis
    using p by (simp add: count_up_def upd_session_def starting_def AddUp_def)
qed

lemma udp_inv_read_failed:
  assumes inv: "udp_inv s" and p: "us_phase s = MRead"
  shows "udp_inv (read_failed err msg s)"
proof -
  have "stages_started s" using not_started [OF inv] p by (simp add: starting_def)
  then show ?thesis
    using inv p by (auto simp: read_failed_def udp_phase_inv_def starting_def stages_started_def intro!: udp_inv_goto [OF inv])
qed

lemma udp_inv_packet:
  assumes inv: "udp_inv s" and p: "us_phase s = MRead"
  shows "udp_inv (s\<lparr>us_phase := MGet FirstTry client n\<rparr>)"
proof -
  have "stages_started s" using not_started [OF inv] p by (simp add: starting_def)
  then show ?thesis using p by (auto simp: udp_phase_inv_def starting_def stages_started_def intro!: udp_inv_goto [OF inv])
qed

lemma udp_inv_dialled:
  assumes inv: "udp_inv s" and p: "us_phase s = MDial att client n"
  shows "udp_inv (s\<lparr>us_phase := MInsert att client n\<rparr>)" "udp_inv (s\<lparr>us_phase := MDialFailed client\<rparr>)"
proof -
  have "stages_started s" using not_started [OF inv] p by (simp add: starting_def)
  then show "udp_inv (s\<lparr>us_phase := MInsert att client n\<rparr>)" "udp_inv (s\<lparr>us_phase := MDialFailed client\<rparr>)"
    using p by (auto simp: udp_phase_inv_def starting_def stages_started_def intro!: udp_inv_goto [OF inv])
qed

text \<open>The retry after a failed write.\<close>

lemma udp_inv_write_failed:
  assumes inv: "udp_inv s"
  shows "us_phase s = MWriteFailed i n \<Longrightarrow> udp_inv ((removeIf k i s)\<lparr>us_phase := MCancel i n\<rparr>)"
    and "us_phase s = MCancel i n \<Longrightarrow>
      udp_inv ((upd_session i (\<lambda>ss. ss\<lparr>ss_cancelled := True\<rparr>) s)\<lparr>us_phase := MWait i n\<rparr>)"
proof -
  assume p: "us_phase s = MWriteFailed i n"
  have "stages_started s" using not_started [OF inv] p by (simp add: starting_def)
  then show "udp_inv ((removeIf k i s)\<lparr>us_phase := MCancel i n\<rparr>)"
    using p inv by (intro udp_inv_goto udp_inv_removeIf inv)
      (auto simp: udp_inv_def udp_phase_inv_def starting_def stages_started_def room_without_def)
next
  assume p: "us_phase s = MCancel i n"
  have st: "stages_started s" using not_started [OF inv] p by (simp add: starting_def)
  have i: "i < length (us_sessions s)" and r: "room_without s i" using inv p by (auto simp: udp_inv_def udp_phase_inv_def)
  let ?t = "upd_session i (\<lambda>ss. ss\<lparr>ss_cancelled := True\<rparr>) s"
  have t: "udp_inv ?t" using udp_inv_flags [OF inv i] by simp
  then have "udp_phase_inv ?t" by (simp add: udp_inv_def)
  then show "udp_inv (?t\<lparr>us_phase := MWait i n\<rparr>)"
    using p st by (intro udp_inv_goto t)
      (auto simp: upd_session_def udp_phase_inv_def starting_def stages_started_def room_without_def)
qed

lemma done_released: "stage_ok ss \<Longrightarrow> session_done ss \<Longrightarrow> \<not> holds ss"
proof -
  assume "stage_ok ss" "session_done ss"
  then obtain n where n: "ss_stage ss = Exiting (drop n relay_exit)" "RCloseDone \<notin> set (drop n relay_exit)"
    by (auto simp: stage_ok_def session_done_def)
  have "n > 4"
  proof (rule ccontr)
    assume "\<not> n > 4"
    then have "n \<in> {0, 1, 2, 3, 4}" by auto
    with n(2) show False by (auto simp: relay_exit_def)
  qed
  then have "set (drop n relay_exit) \<subseteq> set (drop 5 relay_exit)" by (intro set_drop_subset_set_drop) simp
  then show ?thesis using n(1) by (auto simp: pending_def relay_exit_def)
qed

lemma udp_inv_waited:
  assumes inv: "udp_inv s" and p: "us_phase s = MWait i n"
  shows "udp_inv (s\<lparr>us_phase := MGet (SecondTry False) k n\<rparr>)"
    and "session_done (us_sessions s ! i) \<Longrightarrow> udp_inv (s\<lparr>us_phase := MGet (SecondTry True) k n\<rparr>)"
proof -
  have st: "stages_started s" using not_started [OF inv] p by (simp add: starting_def)
  show "udp_inv (s\<lparr>us_phase := MGet (SecondTry False) k n\<rparr>)"
    using p st by (intro udp_inv_goto inv) (auto simp: udp_phase_inv_def starting_def stages_started_def)
  assume d: "session_done (us_sessions s ! i)"
  have i: "i < length (us_sessions s)" and r: "room_without s i" using inv p by (auto simp: udp_inv_def udp_phase_inv_def)
  have "\<not> holds (us_sessions s ! i)" using inv i d by (intro done_released) (simp_all add: udp_inv_def cnt_inv_def)
  with r have "room s" by (simp add: room_without_def room_def)
  then show "udp_inv (s\<lparr>us_phase := MGet (SecondTry True) k n\<rparr>)"
    using p st by (intro udp_inv_goto inv) (auto simp: udp_phase_inv_def starting_def stages_started_def room_def)
qed

text \<open>\<open>closeAll\<close> and the return.\<close>

lemma udp_inv_close_all:
  assumes inv: "udp_inv s" and p: "us_phase s = MCloseAll" and o: "set order = ran (us_table s)"
  shows "udp_inv (closeAll_take order s)"
proof -
  have st: "stages_started s" using not_started [OF inv] p by (simp add: starting_def)
  have "\<forall>i \<in> set order. i < length (us_sessions s)" using inv o by (auto simp: udp_inv_def tab_inv_def ran_def)
  then show ?thesis
    using inv p st by (auto simp: closeAll_take_def udp_inv_def tab_inv_def cnt_inv_def udp_phase_inv_def starting_def stages_started_def)
qed

lemma udp_inv_close_one:
  assumes inv: "udp_inv s" and p: "us_phase s = MClosing (i # is)"
  shows "udp_inv ((close_session i s)\<lparr>us_phase := MClosing is\<rparr>)"
proof -
  have st: "stages_started s" using not_started [OF inv] p by (simp add: starting_def)
  have i: "i < length (us_sessions s)" using inv p by (simp add: udp_inv_def udp_phase_inv_def)
  have t: "udp_inv (close_session i s)" using udp_inv_flags [OF inv i] by (simp add: close_session_def)
  then have "udp_phase_inv (close_session i s)" by (simp add: udp_inv_def)
  then show ?thesis
    using p by (intro udp_inv_goto t) (auto simp: close_session_def upd_session_def udp_phase_inv_def starting_def)
qed

lemma udp_inv_closed:
  assumes inv: "udp_inv s"
  shows "us_phase s = MClosing [] \<Longrightarrow> udp_inv (s\<lparr>us_phase := MWaitAll\<rparr>)"
    and "us_phase s = MWaitAll \<Longrightarrow> us_wg s = 0 \<Longrightarrow> udp_inv (s\<lparr>us_phase := MReturned None\<rparr>)"
  using inv by (auto simp: udp_inv_def tab_inv_def cnt_inv_def udp_phase_inv_def starting_def)

lemma udp_inv_env:
  assumes "udp_inv s"
  shows "udp_inv (s\<lparr>us_ctx := True\<rparr>)" "udp_inv (s\<lparr>us_now := t\<rparr>)"
  using assms by (cases "us_phase s"; auto simp: udp_inv_def tab_inv_def cnt_inv_def udp_phase_inv_def room_def room_without_def
      split: attempt.splits bool.splits option.splits)+

lemmas udp_inv_steps = udp_inv_relay udp_inv_exit udp_inv_lookup udp_inv_acquire udp_inv_dial_release
  udp_inv_duplicate udp_inv_insert udp_inv_announce udp_inv_spawn udp_inv_send udp_inv_count
  udp_inv_read_failed udp_inv_packet udp_inv_dialled udp_inv_write_failed udp_inv_waited
  udp_inv_close_all udp_inv_close_one udp_inv_closed udp_inv_env

lemma udp_inv_step: "udp_inv s \<Longrightarrow> udp_step x s s' \<Longrightarrow> udp_inv s'"
proof (erule udp_stepE)
  fix client time assume "udp_inv s" "us_phase s = MReject client" "s' = reject_packet x time client s"
  then show "udp_inv s'"
    using udp_inv_back [of s "Reject (us_stats s)"] by (simp add: reject_packet_def starting_def Reject_def)
next
  fix client time assume "udp_inv s" "us_phase s = MDialError client" "s' = dial_error_packet x time client s"
  then show "udp_inv s'"
    using udp_inv_back [of s "DialError (us_stats s)"] by (simp add: dial_error_packet_def starting_def DialError_def)
qed (auto intro: udp_inv_steps)

lemma udp_inv_initial: "udp_inv (udp_initial (forward_New now cfg) nid t)"
  by (simp add: udp_inv_def tab_inv_def cnt_inv_def udp_phase_inv_def udp_initial_def forward_New_def stats_New_def
      Let_def)

interpretation udp_sys: invariant_system "\<lambda>s. s = udp_initial (forward_New now cfg) nid t" "udp_step x" udp_inv
  by unfold_locales (auto simp: udp_inv_initial intro: udp_inv_step)


text \<open>A run for the witnesses: one slot; the first datagram of client \<open>c\<close> opens session 0, its write
  fails, the relay ends, and the retry asks for the slot again.\<close>

definition udp_cfg1 :: fwd_Config where
  "udp_cfg1 = \<lparr>fc_Listen = '':53'', fc_Target = ''10.0.0.9:53'', fc_Network = ''udp'',
     fc_ReuseAddr = True, fc_DialTimeout = 0, fc_MaxConns = 1, fc_IdleTimeout = 0, fc_Debug = False,
     fc_Quiet = False, fc_Events = None\<rparr>"

definition udp_ctx1 :: udp_ctx where
  "udp_ctx1 = \<lparr>ux_cfg = udp_cfg1, ux_idle = udp_idle udp_cfg1, ux_target = ''10.0.0.9:53''\<rparr>"

definition udp_at :: "mphase \<Rightarrow> bool \<Rightarrow> udpSession list \<Rightarrow> nat \<Rightarrow> nat \<Rightarrow> i64 \<Rightarrow> i64 \<Rightarrow> udp_state" where
  "udp_at p tab sess tok wg active tot =
     \<lparr>us_phase = p, us_table = (if tab then [''c'' \<mapsto> 0] else Map.empty), us_sessions = sess,
      us_sem = \<lparr>sem_cap = Some 1, sem_held = tok\<rparr>, us_wg = wg,
      us_stats = (stats_New 0)\<lparr>activeConns := active, totalConns := tot\<rparr>, us_nextID = tot, us_events = None,
      us_ctx = False, us_now = 0\<rparr>"

definition sess1 :: "bool \<Rightarrow> bool \<Rightarrow> rel_stage \<Rightarrow> udpSession" where
  "sess1 cancelled closed st = \<lparr>ss_client = ''c'', ss_lastSeen = 0, ss_connID = 1, ss_start = 0,
     ss_cancelled = cancelled, ss_dstClosed = closed, ss_stage = st\<rparr>"

abbreviation udp_reach1 :: "udp_state \<Rightarrow> bool" where
  "udp_reach1 \<equiv> reach (\<lambda>s. s = udp_initial (forward_New 0 udp_cfg1) 0 0) (udp_step udp_ctx1)"

lemma udp_reach_by: "udp_reach1 s \<Longrightarrow> udp_step udp_ctx1 s t' \<Longrightarrow> t' = t \<Longrightarrow> udp_reach1 t"
  by (auto intro: reach_step)

lemmas udp_at_defs = udp_at_def sess1_def upd_session_def get_lookup_def get_acquire_def get_insert_def
  get_announce_def get_spawn_def send_outcome_def removeIf_def relay_apply_def sem_acquire_def sem_release_def
  ConnOpened_def ConnClosed_def Append_def stats_New_def session_done_def fun_eq_iff

lemma udp_demo_waiting:
  "udp_reach1 (udp_at (MWait 0 5) False [sess1 True False Looping] 1 1 1 1)"
proof -
  have "udp_reach1 (udp_at MRead False [] 0 0 0 0)"
    by (rule reach_init) (simp add: udp_at_def udp_initial_def forward_New_def udp_cfg1_def new_sem_def Let_def stats_New_def)
  note udp_reach_by [OF this udp_packet [of _ _ "''c''" 5], of "udp_at (MGet FirstTry ''c'' 5) False [] 0 0 0 0"]
  then have "udp_reach1 (udp_at (MGet FirstTry ''c'' 5) False [] 0 0 0 0)" by (simp add: udp_at_defs)
  note udp_reach_by [OF this udp_lookup, of FirstTry "''c''" 5 "udp_at (MAcquire FirstTry ''c'' 5) False [] 0 0 0 0"]
  then have "udp_reach1 (udp_at (MAcquire FirstTry ''c'' 5) False [] 0 0 0 0)" by (simp add: udp_at_defs)
  note udp_reach_by [OF this udp_acquire, of FirstTry "''c''" 5 "udp_at (MDial FirstTry ''c'' 5) False [] 1 0 0 0"]
  then have "udp_reach1 (udp_at (MDial FirstTry ''c'' 5) False [] 1 0 0 0)" by (simp add: udp_at_defs)
  note udp_reach_by [OF this udp_dialled, of FirstTry "''c''" 5 "udp_at (MInsert FirstTry ''c'' 5) False [] 1 0 0 0"]
  then have "udp_reach1 (udp_at (MInsert FirstTry ''c'' 5) False [] 1 0 0 0)" by (simp add: udp_at_defs)
  note udp_reach_by [OF this udp_insert, of FirstTry "''c''" 5 "udp_at (MAnnounce FirstTry 0 5) True [sess1 False False NotStarted] 1 0 1 1"]
  then have "udp_reach1 (udp_at (MAnnounce FirstTry 0 5) True [sess1 False False NotStarted] 1 0 1 1)" by (simp add: udp_at_defs)
  note udp_reach_by [OF this udp_announce, of FirstTry 0 5 "[]" "udp_at (MSpawn FirstTry 0 5) True [sess1 False False NotStarted] 1 0 1 1"]
  then have "udp_reach1 (udp_at (MSpawn FirstTry 0 5) True [sess1 False False NotStarted] 1 0 1 1)" by (simp add: udp_at_defs)
  note udp_reach_by [OF this udp_spawn, of FirstTry 0 5 "udp_at (MSend FirstTry 0 5) True [sess1 False False Looping] 1 1 1 1"]
  then have "udp_reach1 (udp_at (MSend FirstTry 0 5) True [sess1 False False Looping] 1 1 1 1)" by (simp add: udp_at_defs)
  note udp_reach_by [OF this udp_send, of FirstTry 0 5 False "udp_at (MWriteFailed 0 5) True [sess1 False False Looping] 1 1 1 1"]
  then have "udp_reach1 (udp_at (MWriteFailed 0 5) True [sess1 False False Looping] 1 1 1 1)" by (simp add: udp_at_defs)
  note udp_reach_by [OF this udp_remove, of 0 5 "udp_at (MCancel 0 5) False [sess1 False False Looping] 1 1 1 1"]
  then have "udp_reach1 (udp_at (MCancel 0 5) False [sess1 False False Looping] 1 1 1 1)" by (simp add: udp_at_defs)
  note udp_reach_by [OF this udp_cancel_session, of 0 5 "udp_at (MWait 0 5) False [sess1 True False Looping] 1 1 1 1"]
  then show ?thesis by (simp add: udp_at_defs)
qed

lemma udp_exit_by:
  assumes "udp_reach1 s" and "i < length (us_sessions s)" and "ss_stage (us_sessions s ! i) = Exiting (a # acts)"
    and "exit_act udp_ctx1 [] 0 a i s = Some s'" and "t = upd_session i (\<lambda>ss. ss\<lparr>ss_stage := Exiting acts\<rparr>) s'"
  shows "udp_reach1 t"
  unfolding assms(5) using assms(1-4) by (blast intro: reach_step udp_exit)

lemma udp_demo_retry:
  "udp_reach1 (udp_at (MAcquire (SecondTry True) ''c'' 5) False [sess1 True True (Exiting [REvent, RWgDone])] 0 1 0 1)"
proof -
  have "udp_step udp_ctx1 (udp_at (MWait 0 5) False [sess1 True False Looping] 1 1 1 1)
      (relay_apply RelayExit 0 (udp_at (MWait 0 5) False [sess1 True False Looping] 1 1 1 1))"
    by (rule udp_relay [where ctxDone = True and t = 0 and rd = ReadError]) (simp_all add: udp_at_def sess1_def relay_round_def)
  note udp_reach_by [OF udp_demo_waiting this, of "udp_at (MWait 0 5) False [sess1 True False (Exiting relay_exit)] 1 1 1 1"]
  then have r: "udp_reach1 (udp_at (MWait 0 5) False [sess1 True False (Exiting relay_exit)] 1 1 1 1)" by (simp add: udp_at_defs)
  have r: "udp_reach1 (udp_at (MWait 0 5) False [sess1 True False (Exiting [RConnClosed, RSemRelease, RCloseDst, RCloseDone, REvent, RWgDone])] 1 1 1 1)"
    by (rule udp_exit_by [OF r, where i = 0 and a = RRemoveIf])
      (simp add: udp_at_def sess1_def relay_exit_def, simp add: udp_at_def sess1_def relay_exit_def, rule exit_act.simps [THEN trans],
        simp add: udp_at_defs, simp add: udp_at_defs)
  have r: "udp_reach1 (udp_at (MWait 0 5) False [sess1 True False (Exiting [RSemRelease, RCloseDst, RCloseDone, REvent, RWgDone])] 1 1 0 1)"
    by (rule udp_exit_by [OF r, where i = 0 and a = RConnClosed])
      (simp add: udp_at_def sess1_def relay_exit_def, simp add: udp_at_def sess1_def relay_exit_def, rule exit_act.simps [THEN trans],
        simp add: udp_at_defs, simp add: udp_at_defs)
  have r: "udp_reach1 (udp_at (MWait 0 5) False [sess1 True False (Exiting [RCloseDst, RCloseDone, REvent, RWgDone])] 0 1 0 1)"
    by (rule udp_exit_by [OF r, where i = 0 and a = RSemRelease])
      (simp add: udp_at_def sess1_def relay_exit_def, simp add: udp_at_def sess1_def relay_exit_def, rule exit_act.simps [THEN trans],
        simp add: udp_at_defs, simp add: udp_at_defs)
  have r: "udp_reach1 (udp_at (MWait 0 5) False [sess1 True True (Exiting [RCloseDone, REvent, RWgDone])] 0 1 0 1)"
    by (rule udp_exit_by [OF r, where i = 0 and a = RCloseDst])
      (simp add: udp_at_def sess1_def relay_exit_def, simp add: udp_at_def sess1_def relay_exit_def, rule exit_act.simps [THEN trans],
        simp add: udp_at_defs, simp add: udp_at_defs)
  have r: "udp_reach1 (udp_at (MWait 0 5) False [sess1 True True (Exiting [REvent, RWgDone])] 0 1 0 1)"
    by (rule udp_exit_by [OF r, where i = 0 and a = RCloseDone])
      (simp add: udp_at_def sess1_def relay_exit_def, simp add: udp_at_def sess1_def relay_exit_def, rule exit_act.simps [THEN trans],
        simp add: udp_at_defs, simp add: udp_at_defs)
  note udp_reach_by [OF r udp_waited, of 0 5 "udp_at (MGet (SecondTry True) ''c'' 5) False [sess1 True True (Exiting [REvent, RWgDone])] 0 1 0 1"]
  then have "udp_reach1 (udp_at (MGet (SecondTry True) ''c'' 5) False [sess1 True True (Exiting [REvent, RWgDone])] 0 1 0 1)"
    by (simp add: udp_at_defs)
  note udp_reach_by [OF this udp_lookup, of "SecondTry True" "''c''" 5 "udp_at (MAcquire (SecondTry True) ''c'' 5) False [sess1 True True (Exiting [REvent, RWgDone])] 0 1 0 1"]
  then show ?thesis by (simp add: udp_at_defs)
qed

lemma udp_demo_returned: "udp_reach1 ((udp_at (MReturned None) False [] 0 0 0 0)\<lparr>us_ctx := True\<rparr>)"
proof -
  have "udp_reach1 (udp_at MRead False [] 0 0 0 0)"
    by (rule reach_init) (simp add: udp_at_def udp_initial_def forward_New_def udp_cfg1_def new_sem_def Let_def stats_New_def)
  note reach_step [OF this udp_cancel]
  then have "udp_reach1 ((udp_at MRead False [] 0 0 0 0)\<lparr>us_ctx := True\<rparr>)" .
  note udp_reach_by [OF this udp_read_failed, of IoErrClosed "[]" "(udp_at MCloseAll False [] 0 0 0 0)\<lparr>us_ctx := True\<rparr>"]
  then have "udp_reach1 ((udp_at MCloseAll False [] 0 0 0 0)\<lparr>us_ctx := True\<rparr>)" by (simp add: udp_at_def read_failed_def)
  note udp_reach_by [OF this udp_close_all, of "[]" "(udp_at (MClosing []) False [] 0 0 0 0)\<lparr>us_ctx := True\<rparr>"]
  then have "udp_reach1 ((udp_at (MClosing []) False [] 0 0 0 0)\<lparr>us_ctx := True\<rparr>)" by (simp add: udp_at_def closeAll_take_def)
  note udp_reach_by [OF this udp_closed, of "(udp_at MWaitAll False [] 0 0 0 0)\<lparr>us_ctx := True\<rparr>"]
  then have "udp_reach1 ((udp_at MWaitAll False [] 0 0 0 0)\<lparr>us_ctx := True\<rparr>)" by (simp add: udp_at_def)
  note udp_reach_by [OF this udp_return, of "(udp_at (MReturned None) False [] 0 0 0 0)\<lparr>us_ctx := True\<rparr>"]
  then show ?thesis by (simp add: udp_at_def)
qed




section \<open>Properties\<close>



text \<open>C5: A session that is rebuilt after a failed write, once its predecessor was seen to be done, is
  never turned away by the limit: a slot is free when the retry asks for one.\<close>

theorem udp_retry_is_never_rejected:
  assumes "reach (\<lambda>s. s = udp_initial (forward_New now cfg) nid t) (udp_step x) s"
    and "us_phase s = MAcquire (SecondTry True) client n"
  shows "\<exists>m. sem_acquire (us_sem s) = Some m \<and>
    get_acquire (SecondTry True) client n s = s\<lparr>us_sem := m, us_phase := MDial (SecondTry True) client n\<rparr>"
proof -
  have inv: "udp_inv s" using udp_sys.inv_reach [OF assms(1)] .
  then have r: "room s" using assms(2) by (simp add: udp_inv_def udp_phase_inv_def)
  have "sem_pool.tokens (us_sem s) (cnt holds (us_sessions s))" using inv assms(2) by (simp add: udp_inv_def cnt_inv_def)
  with r have "sem_acquire (us_sem s) \<noteq> None" by (auto dest: sem_pool.tokens_full simp: room_def)
  then show ?thesis by (auto simp: get_acquire_def)
qed

theorem udp_retry_is_never_rejected_witness:
  "\<exists>m. sem_acquire \<lparr>sem_cap = Some 1, sem_held = 0\<rparr> = Some m"
  using udp_retry_is_never_rejected [OF udp_demo_retry, of "''c''" 5] by (auto simp: udp_at_def)

text \<open>The UDP forwarder returns nil only when its caller cancelled it and after every session's
  relay has run to its end: slot returned, socket closed, close event logged.\<close>

theorem udp_returns_only_drained:
  assumes "reach (\<lambda>s. s = udp_initial (forward_New now cfg) nid t) (udp_step x) s"
    and "us_phase s = MReturned None"
  shows "us_ctx s \<and> (\<forall>ss \<in> set (us_sessions s). ss_stage ss = Exiting [])"
proof -
  have inv: "udp_inv s" using udp_sys.inv_reach [OF assms(1)] .
  then have ctx: "us_ctx s" and "us_wg s = 0" using assms(2) by (auto simp: udp_inv_def udp_phase_inv_def)
  then have "cnt running (us_sessions s) = 0" using inv by (simp add: udp_inv_def cnt_inv_def)
  then have nr: "\<not> running ss" if "ss \<in> set (us_sessions s)" for ss using that by (simp add: filter_empty_conv)
  have "stages_started s" using not_started [OF inv] assms(2) by (simp add: starting_def)
  then have ns: "ss_stage ss \<noteq> NotStarted" if "ss \<in> set (us_sessions s)" for ss
    using that by (auto simp: stages_started_def in_set_conv_nth)
  have "ss_stage ss = Exiting []" if "ss \<in> set (us_sessions s)" for ss
    using nr [OF that] ns [OF that] by (auto simp: running_def split: rel_stage.splits)
  with ctx show ?thesis by blast
qed

theorem udp_returns_only_drained_witness:
  "us_ctx ((udp_at (MReturned None) False [] 0 0 0 0)\<lparr>us_ctx := True\<rparr>)"
  using udp_returns_only_drained [OF udp_demo_returned] by (simp add: udp_at_def)

text \<open>A session is reclaimed only for one of three reasons: its context is done, its socket
  failed, or nothing was seen from either side for the whole idle time.\<close>

theorem udp_session_reclaimed_only_when_idle:
  "relay_round idle ss now ctxDone rd writeOk = RelayExit \<longleftrightarrow>
     ctxDone \<or> idle \<le> now - ss_lastSeen ss \<or> rd = ReadError"
  by (auto simp: relay_round_def Let_def split: udp_read.splits)

end
