(* ===== verification/Proxy_Server.thy ===== *)
theory Proxy_Server
  imports Stats_Model Self_Target
begin

text \<open>
  The life of a proxy server, internal/proxy/server.go: the tracked connections, the wait group, the
  lifecycle context, the installation of the dialer, the accept loop, one handler per connection
  (\<open>serveConn\<close> and the part that the SOCKS5, CONNECT and plain HTTP handlers have in common) and any
  number of concurrent calls of \<open>Close\<close> and \<open>Shutdown\<close>, as one step relation.  Connections are
  numbers handed out in order.  What a request contains is the matter of Socks5_Model and Http_Proxy.
\<close>

section \<open>State\<close>

datatype dialer = DirectDialer | StatelessUpstream string | ClosableUpstream string

datatype sock_deadline = NoDeadline | HandshakeDeadline | NowDeadline

text \<open>Where a handler's goroutine is, from \<open>serveConn\<close> to the deferred \<open>untrackConn\<close>.\<close>

datatype stage =
    HOpen
  | HDeadline | HPeek | HRequest string | HComplete string | HDial string
  | HTrackRemote string nat | HBegin string nat | HClearDl string nat | HRelay string nat
  | HCloseRemote nat | HUntrackRemote nat
  | HConnClosed | HCloseConn | HUntrack | HWgDone

text \<open>What a caller of \<open>Close\<close> or \<open>Shutdown\<close> still has to do.  \<open>KCancel\<close> holds the cancel
  function captured under the lock, if there was one.\<close>

datatype kact = KStop | KCancel bool | KCloseLn | KSnapshot | KCloseConns "nat list" | KWait | KSelect | KCloseDialer

datatype kmode = CloseCall | ShutdownCall

record px_cfg =
  pc_DialTimeout :: i64
  pc_MaxConns :: int
  pc_HandshakeTimeout :: i64
  pc_IdleTimeout :: i64
  pc_AllowPublic :: bool
  pc_Upstream :: "string option"

record px_state =
  px_cfg :: px_cfg
  px_closing :: bool
  px_listening :: bool
  px_lnClosed :: bool
  px_returned :: bool
  px_conns :: "nat set"
  px_handshakes :: "nat set"
  px_remotes :: "nat set"
  px_life :: "bool option"
  px_wg :: nat
  px_hands :: "nat \<Rightarrow> stage option"
  px_ids :: "nat \<Rightarrow> i64"
  px_dl :: "nat \<Rightarrow> sock_deadline"
  px_closed :: "nat set"
  px_next :: nat
  px_stats :: Counters
  px_nextID :: i64
  px_events :: "EventLog option"
  px_closers :: "(kmode \<times> kact list) list"
  px_dialer :: "dialer option"
  px_dialerClosed :: bool

definition proxy_New :: "int \<Rightarrow> i64 \<Rightarrow> px_state" where
  "proxy_New now nid =
     \<lparr>px_cfg = \<lparr>pc_DialTimeout = 30000000000, pc_MaxConns = 256, pc_HandshakeTimeout = 10000000000,
        pc_IdleTimeout = 300000000000, pc_AllowPublic = False, pc_Upstream = None\<rparr>,
      px_closing = False, px_listening = False, px_lnClosed = False, px_returned = False,
      px_conns = {}, px_handshakes = {}, px_remotes = {}, px_life = None, px_wg = 0,
      px_hands = Map.empty, px_ids = (\<lambda>_. 0), px_dl = (\<lambda>_. NoDeadline), px_closed = {}, px_next = 0,
      px_stats = stats_New now, px_nextID = nid, px_events = None, px_closers = [], px_dialer = None,
      px_dialerClosed = False\<rparr>"

section \<open>The locked operations\<close>

definition trackConn :: "nat \<Rightarrow> px_state \<Rightarrow> bool \<times> px_state" where
  "trackConn c s =
     (if px_closing s \<or> (pc_MaxConns (px_cfg s) > 0 \<and> int (card (px_conns s)) \<ge> pc_MaxConns (px_cfg s))
      then (False, s)
      else (True, s\<lparr>px_conns := insert c (px_conns s), px_handshakes := insert c (px_handshakes s),
                    px_wg := Suc (px_wg s)\<rparr>))"

definition untrackConn_locked :: "nat \<Rightarrow> px_state \<Rightarrow> px_state" where
  "untrackConn_locked c s = s\<lparr>px_conns := px_conns s - {c}, px_handshakes := px_handshakes s - {c}\<rparr>"

definition trackRemote :: "nat \<Rightarrow> px_state \<Rightarrow> bool \<times> px_state" where
  "trackRemote r s = (if px_closing s then (False, s) else (True, s\<lparr>px_remotes := insert r (px_remotes s)\<rparr>))"

definition untrackRemote :: "nat \<Rightarrow> px_state \<Rightarrow> px_state" where
  "untrackRemote r s = s\<lparr>px_remotes := px_remotes s - {r}\<rparr>"

text \<open>\<open>setOk\<close> is the outcome of \<open>SetDeadline\<close>.\<close>

definition setHandshakeDeadline :: "bool \<Rightarrow> nat \<Rightarrow> px_state \<Rightarrow> bool \<times> px_state" where
  "setHandshakeDeadline setOk c s =
     (if px_closing s then (False, s)
      else if setOk then (True, s\<lparr>px_dl := (px_dl s)(c := HandshakeDeadline)\<rparr>) else (False, s))"

definition completeHandshake :: "bool \<Rightarrow> nat \<Rightarrow> px_state \<Rightarrow> bool \<times> px_state" where
  "completeHandshake setOk c s =
     (if px_closing s then (False, s)
      else if setOk then (True, s\<lparr>px_dl := (px_dl s)(c := NoDeadline)\<rparr>) else (False, s))"

definition beginRelay_locked :: "nat \<Rightarrow> px_state \<Rightarrow> bool \<times> px_state" where
  "beginRelay_locked c s =
     (if px_closing s then (False, s) else (True, s\<lparr>px_handshakes := px_handshakes s - {c}\<rparr>))"

text \<open>The lifecycle context: \<open>Some True\<close> is a cancelled one.\<close>

definition serverContext :: "px_state \<Rightarrow> px_state" where
  "serverContext s = (case px_life s of None \<Rightarrow> s\<lparr>px_life := Some (px_closing s)\<rparr> | Some _ \<Rightarrow> s)"

definition stopAccepting_locked :: "px_state \<Rightarrow> px_state" where
  "stopAccepting_locked s =
     s\<lparr>px_closing := True,
       px_dl := (\<lambda>c. if c \<in> px_handshakes s then NowDeadline else px_dl s c)\<rparr>"

definition cancel_life :: "bool \<Rightarrow> px_state \<Rightarrow> px_state" where
  "cancel_life captured s = (if captured then s\<lparr>px_life := Some True\<rparr> else s)"

definition closeDialer :: "px_state \<Rightarrow> px_state" where
  "closeDialer s =
     (case px_dialer s of Some (ClosableUpstream _) \<Rightarrow> s\<lparr>px_dialerClosed := True\<rparr> | _ \<Rightarrow> s)"

section \<open>Starting\<close>

datatype proxy_err =
    PxErrClosed | PxAlreadyServing | PxPublic net_addr | PxListen string | PxDialer string

text \<open>\<open>installDialer\<close>: a dialer that arrives after the shutdown began is closed, not published.
  The Boolean tells whether the new dialer was closed here.\<close>

definition installDialer :: "dialer \<Rightarrow> px_state \<Rightarrow> proxy_err option \<times> bool \<times> px_state" where
  "installDialer d s =
     (if px_closing s then (Some PxErrClosed, (case d of ClosableUpstream _ \<Rightarrow> True | _ \<Rightarrow> False), s)
      else (None, False, s\<lparr>px_dialer := Some d\<rparr>))"

text \<open>The first locked part of \<open>initializeDialer\<close>: the early return, or the dialer to build.  The
  construction itself (\<open>build\<close>) runs without the lock, in the state \<open>s2\<close> it leaves.\<close>

definition initializeDialer_first :: "px_state \<Rightarrow> (proxy_err option + unit) \<times> px_state" where
  "initializeDialer_first s =
     (if px_closing s then (Inl (Some PxErrClosed), s)
      else
        (let s1 = (if sint (pc_DialTimeout (px_cfg s)) \<le> 0
                   then s\<lparr>px_cfg := (px_cfg s)\<lparr>pc_DialTimeout := 30000000000\<rparr>\<rparr> else s) in
         if px_dialer s1 \<noteq> None then (Inl None, s1) else (Inr (), s1)))"

definition initializeDialer_second :: "(string \<Rightarrow> string + dialer) \<Rightarrow> px_state \<Rightarrow> proxy_err option \<times> bool \<times> px_state" where
  "initializeDialer_second build s =
     (case pc_Upstream (px_cfg s) of
        None \<Rightarrow> installDialer DirectDialer s
      | Some u \<Rightarrow> (case build u of Inl e \<Rightarrow> (Some (PxDialer e), False, s) | Inr d \<Rightarrow> installDialer d s))"

text \<open>\<open>ListenAndServe\<close> after the dialer is there; the outcome of \<open>net.Listen\<close> is an input.\<close>

definition ListenAndServe_bind :: "string + net_addr \<Rightarrow> px_state \<Rightarrow> proxy_err option \<times> px_state" where
  "ListenAndServe_bind listen s =
     (case listen of
        Inl e \<Rightarrow> (Some (PxListen e), s)
      | Inr addr \<Rightarrow>
          if \<not> pc_AllowPublic (px_cfg s) \<and> \<not> isLoopbackListener addr then (Some (PxPublic addr), s)
          else if px_closing s then (Some PxErrClosed, s)
          else if px_listening s then (Some PxAlreadyServing, s)
          else (None, s\<lparr>px_listening := True, px_lnClosed := False, px_returned := False\<rparr>))"

section \<open>The accept loop\<close>

definition px_log :: "string \<Rightarrow> string \<Rightarrow> string \<Rightarrow> string \<Rightarrow> string \<Rightarrow> i64 \<Rightarrow> i64 \<Rightarrow> int \<Rightarrow> i64 \<Rightarrow> px_state \<Rightarrow> px_state" where
  "px_log time kind proto client target up down ms cid s =
     s\<lparr>px_events := Append (px_events s) \<lparr>evTime = time, evKind = kind, evProto = proto, evClient = client,
       evTarget = target, evUpBytes = up, evDownBytes = down, evDurationMs = ms, evConnID = cid\<rparr>\<rparr>"

definition accept_conn :: "string \<Rightarrow> string \<Rightarrow> px_state \<Rightarrow> px_state" where
  "accept_conn time client s =
     (let c = px_next s; s1 = s\<lparr>px_next := Suc c\<rparr> in
      case trackConn c s1 of
        (True, s2) \<Rightarrow> s2\<lparr>px_hands := (px_hands s2)(c := Some HOpen)\<rparr>
      | (False, s2) \<Rightarrow>
          (px_log time ''reject'' [] client [] 0 0 0 0 (s2\<lparr>px_stats := Reject (px_stats s2)\<rparr>))
          \<lparr>px_closed := insert c (px_closed s2)\<rparr>)"

section \<open>Handlers\<close>

text \<open>What the environment decides in a handler's step.\<close>

record hchoice =
  hc_ok :: bool
  hc_self :: bool
  hc_dialled :: bool
  hc_proto :: string
  hc_client :: string
  hc_target :: string
  hc_up :: i64
  hc_down :: i64
  hc_time :: string
  hc_ms :: int

definition recordDialError :: "hchoice \<Rightarrow> nat \<Rightarrow> string \<Rightarrow> px_state \<Rightarrow> px_state" where
  "recordDialError ch c proto s =
     px_log (hc_time ch) ''dial-error'' proto (hc_client ch) (hc_target ch) 0 0 0 (px_ids s c)
       (s\<lparr>px_stats := DialError (px_stats s)\<rparr>)"

text \<open>One action of the handler of connection \<open>c\<close>, as in \<open>serveConn\<close> up to the request, then as in the
  three protocol handlers, then the deferred calls in reverse order.  \<open>None\<close>: the handler is gone.\<close>

fun hand_step :: "hchoice \<Rightarrow> nat \<Rightarrow> stage \<Rightarrow> px_state \<Rightarrow> px_state \<times> stage option" where
  "hand_step ch c HOpen s =
     (case ConnOpened (px_stats s) (px_nextID s) of
        (st, nid, cid) \<Rightarrow>
          (serverContext (s\<lparr>px_stats := st, px_nextID := nid, px_ids := (px_ids s)(c := cid)\<rparr>), Some HDeadline))"
| "hand_step ch c HDeadline s =
     (if sint (pc_HandshakeTimeout (px_cfg s)) > 0
      then (case setHandshakeDeadline (hc_ok ch) c s of (ok, s') \<Rightarrow> (s', Some (if ok then HPeek else HConnClosed)))
      else (s, Some HPeek))"
| "hand_step ch c HPeek s =
     (if hc_ok ch
      then (px_log (hc_time ch) ''open'' (hc_proto ch) (hc_client ch) [] 0 0 0 (px_ids s c) s,
            Some (HRequest (hc_proto ch)))
      else (s, Some HConnClosed))"
| "hand_step ch c (HRequest p) s = (s, Some (if hc_ok ch then HComplete p else HConnClosed))"
| "hand_step ch c (HComplete p) s =
     (case completeHandshake (hc_ok ch) c s of
        (ok, s') \<Rightarrow> if ok then (serverContext s', Some (HDial p)) else (s', Some HConnClosed))"
| "hand_step ch c (HDial p) s =
     (if hc_self ch \<and> \<not> hc_dialled ch then (s, Some HConnClosed)
      else if \<not> hc_dialled ch then (recordDialError ch c p s, Some HConnClosed)
      else
        (let r = px_next s; s' = s\<lparr>px_next := Suc r\<rparr> in
         if hc_self ch then (s'\<lparr>px_closed := insert r (px_closed s')\<rparr>, Some HConnClosed)
         else (s', Some (HTrackRemote p r))))"
| "hand_step ch c (HTrackRemote p r) s =
     (case trackRemote r s of
        (ok, s') \<Rightarrow> if ok then (s', Some (HBegin p r)) else (s'\<lparr>px_closed := insert r (px_closed s')\<rparr>, Some HConnClosed))"
| "hand_step ch c (HBegin p r) s =
     (case beginRelay_locked c s of (ok, s') \<Rightarrow> (s', Some (if ok then HClearDl p r else HCloseRemote r)))"
| "hand_step ch c (HClearDl p r) s = (s\<lparr>px_dl := (px_dl s)(c := NoDeadline, r := NoDeadline)\<rparr>, Some (HRelay p r))"
| "hand_step ch c (HRelay p r) s =
     (if hc_ok ch
      then (px_log (hc_time ch) ''close'' p (hc_client ch) (hc_target ch) (hc_up ch) (hc_down ch) (hc_ms ch) (px_ids s c)
             (s\<lparr>px_stats := AddDown (AddUp (px_stats s) (hc_up ch)) (hc_down ch)\<rparr>), Some (HCloseRemote r))
      else (s\<lparr>px_stats := AddDown (AddUp (px_stats s) (hc_up ch)) (hc_down ch)\<rparr>, Some (HCloseRemote r)))"
| "hand_step ch c (HCloseRemote r) s = (s\<lparr>px_closed := insert r (px_closed s)\<rparr>, Some (HUntrackRemote r))"
| "hand_step ch c (HUntrackRemote r) s = (untrackRemote r s, Some HConnClosed)"
| "hand_step ch c HConnClosed s = (s\<lparr>px_stats := ConnClosed (px_stats s)\<rparr>, Some HCloseConn)"
| "hand_step ch c HCloseConn s = (s\<lparr>px_closed := insert c (px_closed s)\<rparr>, Some HUntrack)"
| "hand_step ch c HUntrack s = (untrackConn_locked c s, Some HWgDone)"
| "hand_step ch c HWgDone s = (s\<lparr>px_wg := px_wg s - 1\<rparr>, None)"

definition run_hand :: "hchoice \<Rightarrow> nat \<Rightarrow> stage \<Rightarrow> px_state \<Rightarrow> px_state" where
  "run_hand ch c st s = (case hand_step ch c st s of (s', st') \<Rightarrow> s'\<lparr>px_hands := (px_hands s')(c := st')\<rparr>)"

section \<open>Close and Shutdown\<close>

definition close_prog :: "kmode \<Rightarrow> kact list" where
  "close_prog m = (case m of CloseCall \<Rightarrow> [KStop, KCloseLn, KSnapshot, KWait, KCloseDialer]
                   | ShutdownCall \<Rightarrow> [KStop, KCloseLn, KSelect])"

text \<open>One action of a caller; \<open>expired\<close> is \<open>ctx.Done\<close> in \<open>Shutdown\<close>, \<open>order\<close> the order in which the
  two maps are read.  \<open>None\<close>: it has to wait.\<close>

fun closer_step :: "bool \<Rightarrow> nat list \<Rightarrow> kact \<Rightarrow> kact list \<Rightarrow> px_state \<Rightarrow> (px_state \<times> kact list) option" where
  "closer_step expired order KStop ks s =
     Some (stopAccepting_locked s, (case px_life s of None \<Rightarrow> KCancel False | Some _ \<Rightarrow> KCancel True) # ks)"
| "closer_step expired order (KCancel captured) ks s = Some (cancel_life captured s, ks)"
| "closer_step expired order KCloseLn ks s = Some ((if px_listening s then s\<lparr>px_lnClosed := True\<rparr> else s), ks)"
| "closer_step expired order KSnapshot ks s =
     (if set order = px_conns s \<union> px_remotes s then Some (s, KCloseConns order # ks) else None)"
| "closer_step expired order (KCloseConns l) ks s =
     (case l of [] \<Rightarrow> Some (s, ks) | c # l' \<Rightarrow> Some (s\<lparr>px_closed := insert c (px_closed s)\<rparr>, KCloseConns l' # ks))"
| "closer_step expired order KWait ks s = (if px_wg s = 0 then Some (s, ks) else None)"
| "closer_step expired order KSelect ks s =
     (if expired then Some (s, [KSnapshot, KCloseDialer])
      else if px_wg s = 0 then Some (s, [KCloseDialer]) else None)"
| "closer_step expired order KCloseDialer ks s = Some (closeDialer s, ks)"

inductive px_step :: "px_state \<Rightarrow> px_state \<Rightarrow> bool" where
  px_accept: "px_listening s \<Longrightarrow> \<not> px_lnClosed s \<Longrightarrow> \<not> px_returned s \<Longrightarrow> px_step s (accept_conn time client s)"
| px_accept_closed: "px_listening s \<Longrightarrow> px_lnClosed s \<Longrightarrow> px_step s (s\<lparr>px_returned := True, px_listening := False\<rparr>)"
| px_bind: "ListenAndServe_bind listen s = (None, s') \<Longrightarrow> px_step s s'"
| px_install: "installDialer d s = (e, b, s') \<Longrightarrow> px_step s s'"
| px_hand: "px_hands s c = Some st \<Longrightarrow> px_step s (run_hand ch c st s)"
| px_call: "px_step s (s\<lparr>px_closers := px_closers s @ [(m, close_prog m)]\<rparr>)"
| px_closer: "px_closers s = xs @ (m, k # ks) # ys \<Longrightarrow> closer_step expired order k ks s = Some (s', ks') \<Longrightarrow>
     px_step s (s'\<lparr>px_closers := xs @ (m, ks') # ys\<rparr>)"

inductive_cases px_stepE [step_elims]: "px_step s s'"


section \<open>Invariants of the tracked sets\<close>

fun stage_remote :: "stage \<Rightarrow> nat option" where
  "stage_remote (HTrackRemote p r) = Some r"
| "stage_remote (HBegin p r) = Some r"
| "stage_remote (HClearDl p r) = Some r"
| "stage_remote (HRelay p r) = Some r"
| "stage_remote (HCloseRemote r) = Some r"
| "stage_remote (HUntrackRemote r) = Some r"
| "stage_remote _ = None"

fun tracked_remote :: "stage \<Rightarrow> nat option" where
  "tracked_remote (HBegin p r) = Some r"
| "tracked_remote (HClearDl p r) = Some r"
| "tracked_remote (HRelay p r) = Some r"
| "tracked_remote (HCloseRemote r) = Some r"
| "tracked_remote (HUntrackRemote r) = Some r"
| "tracked_remote _ = None"

fun promoted :: "stage \<Rightarrow> bool" where
  "promoted (HClearDl p r) = True"
| "promoted (HRelay p r) = True"
| "promoted _ = False"

definition tracked :: "px_state \<Rightarrow> nat set" where
  "tracked s = {c. px_hands s c \<noteq> None \<and> px_hands s c \<noteq> Some HWgDone}"

definition hands_inv :: "px_state \<Rightarrow> bool" where
  "hands_inv s \<longleftrightarrow>
     finite (dom (px_hands s)) \<and> px_wg s = card (dom (px_hands s)) \<and>
     px_conns s = tracked s \<and>
     (\<forall>c \<in> dom (px_hands s). c < px_next s) \<and>
     (\<forall>c st r. px_hands s c = Some st \<longrightarrow> stage_remote st = Some r \<longrightarrow> r < px_next s \<and> r \<notin> dom (px_hands s))"

definition sets_inv :: "px_state \<Rightarrow> bool" where
  "sets_inv s \<longleftrightarrow>
     px_handshakes s \<subseteq> px_conns s \<and>
     (\<forall>c st. px_hands s c = Some st \<longrightarrow> promoted st \<longrightarrow> c \<notin> px_handshakes s) \<and>
     (\<forall>r \<in> px_remotes s. \<exists>c st. px_hands s c = Some st \<and> tracked_remote st = Some r) \<and>
     (pc_MaxConns (px_cfg s) > 0 \<longrightarrow> int (card (px_conns s)) \<le> pc_MaxConns (px_cfg s))"

definition dl_inv :: "px_state \<Rightarrow> bool" where
  "dl_inv s \<longleftrightarrow>
     (px_closing s \<longrightarrow> (\<forall>c \<in> px_handshakes s. px_dl s c = NowDeadline)) \<and>
     (\<forall>c p r. px_hands s c = Some (HRelay p r) \<longrightarrow> px_dl s c \<noteq> NowDeadline)"

lemmas locked_defs = trackConn_def untrackConn_locked_def trackRemote_def untrackRemote_def
  setHandshakeDeadline_def completeHandshake_def beginRelay_locked_def serverContext_def px_log_def recordDialError_def

text \<open>What a handler's action leaves alone, and what it may do.\<close>

lemma hand_step_frame:
  "hand_step ch c st s = (s', st') \<Longrightarrow>
     px_cfg s' = px_cfg s \<and> px_closing s' = px_closing s \<and> px_closers s' = px_closers s \<and>
     px_hands s' = px_hands s \<and> px_listening s' = px_listening s \<and> px_next s \<le> px_next s' \<and>
     px_dialer s' = px_dialer s \<and> px_dialerClosed s' = px_dialerClosed s \<and> px_closed s \<subseteq> px_closed s'"
  by (cases st) (auto simp: locked_defs ConnOpened_def Let_def split: if_splits option.splits prod.splits)

lemma hand_step_sets:
  "hand_step ch c st s = (s', st') \<Longrightarrow>
     px_conns s' = (if st = HUntrack then px_conns s - {c} else px_conns s) \<and>
     px_handshakes s' \<subseteq> px_handshakes s \<and> (st = HUntrack \<longrightarrow> c \<notin> px_handshakes s') \<and>
     px_remotes s' \<subseteq> px_remotes s \<union> (case st of HTrackRemote p r \<Rightarrow> {r} | _ \<Rightarrow> {}) \<and>
     px_wg s' = (if st = HWgDone then px_wg s - 1 else px_wg s)"
  by (cases st) (auto simp: locked_defs ConnOpened_def Let_def split: if_splits option.splits prod.splits)

lemma hand_step_stage:
  "hand_step ch c st s = (s', st') \<Longrightarrow>
     (st' = None \<longleftrightarrow> st = HWgDone) \<and> (st' = Some HWgDone \<longleftrightarrow> st = HUntrack) \<and>
     (\<forall>t r. st' = Some t \<longrightarrow> stage_remote t = Some r \<longrightarrow>
        stage_remote st = Some r \<or> (r = px_next s \<and> px_next s' = Suc r)) \<and>
     (\<forall>t. st' = Some t \<longrightarrow> promoted t \<longrightarrow> promoted st \<or> c \<notin> px_handshakes s')"
  by (cases st) (auto simp: locked_defs ConnOpened_def Let_def split: if_splits option.splits prod.splits)

lemma hand_step_remotes:
  "hand_step ch c st s = (s', st') \<Longrightarrow> r \<in> px_remotes s' \<Longrightarrow>
     (\<exists>t. st' = Some t \<and> tracked_remote t = Some r) \<or> (r \<in> px_remotes s \<and> tracked_remote st \<noteq> Some r)"
  by (cases st) (auto simp: locked_defs ConnOpened_def Let_def split: if_splits option.splits prod.splits)

lemma hands_inv_hand:
  assumes inv: "hands_inv s" and c: "px_hands s c = Some st"
  shows "hands_inv (run_hand ch c st s)"
proof -
  obtain s' st' where h: "hand_step ch c st s = (s', st')" by (cases "hand_step ch c st s")
  note f = hand_step_frame [OF h] and k = hand_step_sets [OF h] and g = hand_step_stage [OF h]
  have fin: "finite (dom (px_hands s))" and wg: "px_wg s = card (dom (px_hands s))"
    and conns: "px_conns s = tracked s"
    and lt: "\<forall>c \<in> dom (px_hands s). c < px_next s"
    and rem: "\<And>d t r. px_hands s d = Some t \<Longrightarrow> stage_remote t = Some r \<Longrightarrow> r < px_next s \<and> r \<notin> dom (px_hands s)"
    using inv by (auto simp: hands_inv_def)
  let ?t = "s'\<lparr>px_hands := (px_hands s')(c := st')\<rparr>"
  have d: "dom (px_hands ?t) = (if st = HWgDone then dom (px_hands s) - {c} else dom (px_hands s))"
    using f g c by (auto simp: dom_def)
  have "px_wg ?t = card (dom (px_hands ?t))"
    unfolding d using k wg fin domI [of "px_hands s", OF c] by (simp add: card_Diff_singleton)
  moreover have "px_conns ?t = tracked ?t"
    using conns k f g c by (auto simp: tracked_def)
  moreover have "\<forall>e \<in> dom (px_hands ?t). e < px_next ?t"
    unfolding d using lt f by (auto split: if_splits intro: less_le_trans)
  moreover have "r < px_next ?t \<and> r \<notin> dom (px_hands ?t)"
    if e: "px_hands ?t e = Some t" and r: "stage_remote t = Some r" for e t r
  proof (cases "e = c")
    case True
    with e r g have "stage_remote st = Some r \<or> (r = px_next s \<and> px_next s' = Suc r)" by auto
    then show ?thesis unfolding d using rem [OF c] lt f by (auto intro: less_le_trans split: if_splits)
  next
    case False
    with e f have "px_hands s e = Some t" by simp
    from rem [OF this r] show ?thesis unfolding d using f by (auto intro: less_le_trans)
  qed
  moreover have "finite (dom (px_hands ?t))" unfolding d using fin by simp
  ultimately show ?thesis unfolding run_hand_def h hands_inv_def prod.case by blast
qed

lemma sets_inv_hand:
  assumes inv: "hands_inv s" "sets_inv s" and c: "px_hands s c = Some st"
  shows "sets_inv (run_hand ch c st s)"
proof -
  obtain s' st' where h: "hand_step ch c st s = (s', st')" by (cases "hand_step ch c st s")
  note f = hand_step_frame [OF h] and k = hand_step_sets [OF h] and g = hand_step_stage [OF h]
  let ?t = "s'\<lparr>px_hands := (px_hands s')(c := st')\<rparr>"
  have "px_handshakes ?t \<subseteq> px_conns ?t" using inv k by (auto simp: sets_inv_def)
  moreover have "e \<notin> px_handshakes ?t" if e: "px_hands ?t e = Some t" and p: "promoted t" for e t
  proof (cases "e = c")
    case True
    with e p g have "promoted st \<or> c \<notin> px_handshakes s'" by simp
    then show ?thesis using True k inv(2) c by (auto simp: sets_inv_def)
  next
    case False
    with e f have "px_hands s e = Some t" by simp
    with p inv(2) have "e \<notin> px_handshakes s" by (auto simp: sets_inv_def)
    then show ?thesis using k by auto
  qed
  moreover have "\<exists>e t. px_hands ?t e = Some t \<and> tracked_remote t = Some r" if r: "r \<in> px_remotes ?t" for r
  proof -
    have "r \<in> px_remotes s'" using r by simp
    from hand_step_remotes [OF h this] show ?thesis
    proof (elim disjE conjE exE)
      assume r0: "r \<in> px_remotes s" and n: "tracked_remote st \<noteq> Some r"
      from inv(2) r0 obtain e t where e: "px_hands s e = Some t" "tracked_remote t = Some r" by (auto simp: sets_inv_def)
      with n c have "e \<noteq> c" by auto
      with e f show ?thesis by (intro exI [of _ e]) simp
    next
      fix t assume "st' = Some t" "tracked_remote t = Some r"
      then show ?thesis by (intro exI [of _ c]) simp
    qed
  qed
  moreover have "card (px_conns ?t) \<le> card (px_conns s)"
  proof (rule card_mono)
    have "tracked s \<subseteq> dom (px_hands s)" by (auto simp: tracked_def)
    then show "finite (px_conns s)" using inv(1) by (auto simp: hands_inv_def intro: finite_subset)
  qed (use k in auto)
  ultimately show ?thesis using inv f by (auto simp: run_hand_def h sets_inv_def)
qed


lemma hand_step_dl:
  "hand_step ch c st s = (s', st') \<Longrightarrow> px_closing s \<Longrightarrow>
     px_dl s' e = px_dl s e \<or> (\<exists>p r. st = HClearDl p r \<and> e \<in> {c, r})"
  by (cases st) (auto simp: locked_defs ConnOpened_def Let_def split: if_splits option.splits prod.splits)

lemma hand_step_dl_open:
  "hand_step ch c st s = (s', st') \<Longrightarrow> px_dl s' e = NowDeadline \<Longrightarrow> px_dl s e = NowDeadline"
  by (cases st) (auto simp: locked_defs ConnOpened_def Let_def split: if_splits option.splits prod.splits)

lemma hand_step_relay: "hand_step ch c st s = (s', Some (HRelay p r)) \<Longrightarrow> px_dl s' c = NoDeadline"
  by (cases st) (auto simp: locked_defs ConnOpened_def Let_def split: if_splits option.splits prod.splits)

lemma dl_inv_hand:
  assumes inv: "hands_inv s" "sets_inv s" "dl_inv s" and c: "px_hands s c = Some st"
  shows "dl_inv (run_hand ch c st s)"
proof -
  obtain s' st' where h: "hand_step ch c st s = (s', st')" by (cases "hand_step ch c st s")
  note f = hand_step_frame [OF h] and k = hand_step_sets [OF h]
  let ?t = "s'\<lparr>px_hands := (px_hands s')(c := st')\<rparr>"
  have "px_dl ?t e = NowDeadline" if cl: "px_closing ?t" and e: "e \<in> px_handshakes ?t" for e
  proof -
    have cl': "px_closing s" and e': "e \<in> px_handshakes s" using cl e f k by auto
    have now: "px_dl s e = NowDeadline" using inv(3) cl' e' by (simp add: dl_inv_def)
    from hand_step_dl [OF h cl', of e] show ?thesis
    proof (elim disjE exE conjE)
      fix p r assume st: "st = HClearDl p r" and "e \<in> {c, r}"
      moreover have "c \<notin> px_handshakes s" using inv(2) c st by (auto simp: sets_inv_def)
      moreover have "r \<notin> px_handshakes s"
        using inv(1,2) c st by (fastforce simp: hands_inv_def sets_inv_def tracked_def dom_def)
      ultimately show ?thesis using e' by auto
    qed (use now in simp)
  qed
  moreover have "px_dl ?t e \<noteq> NowDeadline" if e: "px_hands ?t e = Some (HRelay p r)" for e p r
  proof (cases "e = c")
    case True
    with e h show ?thesis using hand_step_relay [of ch c st s s' p r] by simp
  next
    case False
    with e f have "px_hands s e = Some (HRelay p r)" by simp
    then have "px_dl s e \<noteq> NowDeadline" using inv(3) by (auto simp: dl_inv_def)
    then show ?thesis using hand_step_dl_open [OF h, of e] by auto
  qed
  ultimately show ?thesis unfolding run_hand_def h dl_inv_def prod.case by blast
qed

section \<open>Invariants of the callers of Close and Shutdown\<close>

text \<open>What a caller may still have to do.\<close>

definition legal_closer :: "kmode \<Rightarrow> kact list \<Rightarrow> bool" where
  "legal_closer m ks \<longleftrightarrow>
     (case m of
        CloseCall \<Rightarrow>
          (\<exists>b l. ks \<in> {close_prog CloseCall, [KCancel b, KCloseLn, KSnapshot, KWait, KCloseDialer],
             [KCloseLn, KSnapshot, KWait, KCloseDialer], [KSnapshot, KWait, KCloseDialer],
             [KCloseConns l, KWait, KCloseDialer], [KWait, KCloseDialer], [KCloseDialer], []})
      | ShutdownCall \<Rightarrow>
          (\<exists>b l. ks \<in> {close_prog ShutdownCall, [KCancel b, KCloseLn, KSelect], [KCloseLn, KSelect], [KSelect],
             [KSnapshot, KCloseDialer], [KCloseConns l, KCloseDialer], [KCloseDialer], []}))"

definition all_closed :: "nat list \<Rightarrow> px_state \<Rightarrow> bool" where
  "all_closed l s \<longleftrightarrow> (\<forall>c \<in> px_conns s \<union> px_remotes s. c \<in> px_closed s \<or> c \<in> set l)"

definition closer_ok :: "px_state \<Rightarrow> kmode \<Rightarrow> kact list \<Rightarrow> bool" where
  "closer_ok s m ks \<longleftrightarrow>
     legal_closer m ks \<and>
     (KStop \<notin> set ks \<longrightarrow> px_closing s) \<and>
     (KStop \<notin> set ks \<longrightarrow> KCancel True \<notin> set ks \<longrightarrow> px_life s \<noteq> Some False) \<and>
     (\<forall>l. KCloseConns l \<in> set ks \<longrightarrow> all_closed l s) \<and>
     (ks \<in> {[KWait, KCloseDialer], [KCloseDialer], []} \<longrightarrow> all_closed [] s) \<and>
     (m = CloseCall \<and> ks \<in> {[KCloseDialer], []} \<longrightarrow> px_hands s = Map.empty) \<and>
     (ks = [] \<longrightarrow> (\<forall>u. px_dialer s = Some (ClosableUpstream u) \<longrightarrow> px_dialerClosed s))"

text \<open>A state in which no more is tracked, open or cancellable than before.\<close>

definition shrinks :: "px_state \<Rightarrow> px_state \<Rightarrow> bool" where
  "shrinks s s' \<longleftrightarrow>
     px_closing s' \<and> px_conns s' \<subseteq> px_conns s \<and> px_remotes s' \<subseteq> px_remotes s \<and> px_closed s \<subseteq> px_closed s' \<and>
     (px_life s \<noteq> Some False \<longrightarrow> px_life s' \<noteq> Some False) \<and>
     (px_hands s = Map.empty \<longrightarrow> px_hands s' = Map.empty) \<and>
     px_dialer s' = px_dialer s \<and> (px_dialerClosed s \<longrightarrow> px_dialerClosed s')"

lemma legal_stop: "legal_closer m ks \<Longrightarrow> KStop \<in> set ks \<Longrightarrow> ks = close_prog m"
  by (cases m) (auto simp: legal_closer_def close_prog_def)

lemma closer_ok_prog: "closer_ok s m (close_prog m)"
  by (cases m) (auto simp: closer_ok_def close_prog_def legal_closer_def)

lemma closer_ok_shrinks:
  assumes "closer_ok s m ks" and "px_closing s \<Longrightarrow> shrinks s s'"
  shows "closer_ok s' m ks"
proof (cases "KStop \<in> set ks")
  case True
  with assms(1) have "ks = close_prog m" by (simp add: closer_ok_def legal_stop)
  then show ?thesis by (simp add: closer_ok_prog)
next
  case False
  then have "shrinks s s'" using assms by (simp add: closer_ok_def)
  then have sh: "px_closing s'" "px_life s \<noteq> Some False \<longrightarrow> px_life s' \<noteq> Some False"
      "px_hands s = Map.empty \<longrightarrow> px_hands s' = Map.empty" "px_dialer s' = px_dialer s"
      "px_dialerClosed s \<longrightarrow> px_dialerClosed s'"
    and ac: "all_closed l s \<Longrightarrow> all_closed l s'" for l
    by (auto simp: shrinks_def all_closed_def)
  show ?thesis using assms(1) sh ac unfolding closer_ok_def by simp
qed

lemma closers_shrink:
  "\<forall>x \<in> set l. closer_ok s (fst x) (snd x) \<Longrightarrow> (px_closing s \<Longrightarrow> shrinks s t) \<Longrightarrow>
   \<forall>x \<in> set l. closer_ok t (fst x) (snd x)"
  by (blast intro: closer_ok_shrinks)

lemma hand_shrinks:
  assumes "px_closing s" and c: "px_hands s c = Some st"
  shows "shrinks s (run_hand ch c st s)"
proof -
  obtain s' st' where h: "hand_step ch c st s = (s', st')" by (cases "hand_step ch c st s")
  have "px_conns s' \<subseteq> px_conns s \<and> px_remotes s' \<subseteq> px_remotes s \<and> (px_life s \<noteq> Some False \<longrightarrow> px_life s' \<noteq> Some False)"
    using h assms(1)
    by (cases st) (auto simp: locked_defs ConnOpened_def Let_def split: if_splits option.splits prod.splits)
  then show ?thesis
    using hand_step_frame [OF h] assms by (auto simp: shrinks_def run_hand_def h)
qed


definition px_inv :: "px_state \<Rightarrow> bool" where
  "px_inv s \<longleftrightarrow> hands_inv s \<and> sets_inv s \<and> dl_inv s \<and> (\<forall>x \<in> set (px_closers s). closer_ok s (fst x) (snd x))"

lemma px_inv_hand:
  assumes inv: "px_inv s" and c: "px_hands s c = Some st"
  shows "px_inv (run_hand ch c st s)"
proof -
  have same: "px_closers (run_hand ch c st s) = px_closers s"
    using hand_step_frame by (auto simp: run_hand_def split: prod.splits)
  have "\<forall>x \<in> set (px_closers s). closer_ok (run_hand ch c st s) (fst x) (snd x)"
    by (rule closers_shrink [OF _ hand_shrinks [OF _ c]]) (use inv in \<open>simp_all add: px_inv_def\<close>)
  with same show ?thesis
    using inv hands_inv_hand [OF _ c] sets_inv_hand [OF _ _ c] dl_inv_hand [OF _ _ _ c] by (simp add: px_inv_def)
qed

text \<open>The accept loop.\<close>

text \<open>An accepted connection that is tracked.\<close>

definition admitted :: "px_state \<Rightarrow> px_state" where
  "admitted s = s\<lparr>px_next := Suc (px_next s), px_conns := insert (px_next s) (px_conns s),
     px_handshakes := insert (px_next s) (px_handshakes s), px_wg := Suc (px_wg s),
     px_hands := (px_hands s)(px_next s := Some HOpen)\<rparr>"

lemma accept_admitted:
  assumes "fst (trackConn (px_next s) (s\<lparr>px_next := Suc (px_next s)\<rparr>))"
  shows "\<not> px_closing s" "pc_MaxConns (px_cfg s) > 0 \<longrightarrow> int (card (px_conns s)) < pc_MaxConns (px_cfg s)"
    "accept_conn time client s = admitted s"
  using assms by (auto simp: trackConn_def accept_conn_def admitted_def Let_def split: if_splits)

lemma next_is_fresh: "hands_inv s \<Longrightarrow> px_hands s (px_next s) = None"
  by (fastforce simp: hands_inv_def dom_def)

lemma admitted_hands:
  assumes h: "hands_inv s"
  shows "hands_inv (admitted s)"
proof -
  let ?c = "px_next s" and ?t = "admitted s"
  note fresh = next_is_fresh [OF h]
  have dom: "dom (px_hands ?t) = insert ?c (dom (px_hands s))" by (simp add: admitted_def)
  have "tracked ?t = insert ?c (tracked s)" by (auto simp: admitted_def tracked_def)
  then have "px_conns ?t = tracked ?t" using h by (simp add: admitted_def hands_inv_def)
  moreover have "px_wg ?t = card (dom (px_hands ?t))"
  proof -
    have "px_wg s = card (dom (px_hands s))" "finite (dom (px_hands s))" using h by (simp_all add: hands_inv_def)
    moreover have "px_wg ?t = Suc (px_wg s)" by (simp add: admitted_def)
    ultimately show ?thesis unfolding dom using fresh by (simp add: domIff)
  qed
  moreover have "r < px_next ?t \<and> r \<notin> dom (px_hands ?t)"
    if e: "px_hands ?t e = Some st'" and r: "stage_remote st' = Some r" for e st' r
  proof -
    have "e \<noteq> ?c" using e r unfolding admitted_def by auto
    with e have "px_hands s e = Some st'" unfolding admitted_def by simp
    with h r have "r < px_next s" "r \<notin> dom (px_hands s)" unfolding hands_inv_def by blast+
    then show ?thesis unfolding dom unfolding admitted_def by simp
  qed
  moreover have "\<forall>e \<in> dom (px_hands ?t). e < px_next ?t"
  proof -
    have "\<forall>e \<in> dom (px_hands s). e < px_next s" using h unfolding hands_inv_def by blast
    moreover have "px_next ?t = Suc ?c" by (simp add: admitted_def)
    ultimately show ?thesis unfolding dom by (metis insert_iff less_Suc_eq)
  qed
  moreover have "finite (dom (px_hands ?t))" unfolding dom using h by (simp add: hands_inv_def)
  ultimately show ?thesis unfolding hands_inv_def by blast
qed

lemma admitted_sets:
  assumes h: "hands_inv s" and st: "sets_inv s"
    and room: "pc_MaxConns (px_cfg s) > 0 \<longrightarrow> int (card (px_conns s)) < pc_MaxConns (px_cfg s)"
  shows "sets_inv (admitted s)"
proof -
  let ?t = "admitted s"
  note fresh = next_is_fresh [OF h]
  have fin: "finite (px_conns s)"
    using h by (auto simp: hands_inv_def tracked_def dom_def intro: finite_subset [of _ "dom (px_hands s)"])
  have notin: "px_next s \<notin> px_conns s" using h fresh by (simp add: hands_inv_def tracked_def)
  have "\<exists>e st'. px_hands ?t e = Some st' \<and> tracked_remote st' = Some r" if "r \<in> px_remotes s" for r
  proof -
    from that st obtain e st' where e: "px_hands s e = Some st'" "tracked_remote st' = Some r"
      unfolding sets_inv_def by blast
    with fresh have "e \<noteq> px_next s" by auto
    with e show ?thesis by (intro exI [of _ e]) (simp add: admitted_def)
  qed
  moreover have "e \<notin> px_handshakes ?t" if "px_hands ?t e = Some st'" "promoted st'" for e st'
    using that st fresh by (auto simp: admitted_def sets_inv_def split: if_splits)
  moreover have "px_remotes ?t = px_remotes s" by (simp add: admitted_def)
  moreover have "px_handshakes ?t \<subseteq> px_conns ?t" using st by (auto simp: admitted_def sets_inv_def)
  moreover have "pc_MaxConns (px_cfg ?t) > 0 \<longrightarrow> int (card (px_conns ?t)) \<le> pc_MaxConns (px_cfg ?t)"
    using room fin notin by (auto simp: admitted_def)
  ultimately show ?thesis unfolding sets_inv_def by blast
qed

lemma px_inv_accept:
  assumes inv: "px_inv s"
  shows "px_inv (accept_conn time client s)"
proof -
  let ?c = "px_next s" and ?t = "accept_conn time client s"
  have h: "hands_inv s" and st: "sets_inv s" and d: "dl_inv s" using inv by (auto simp: px_inv_def)
  show ?thesis
  proof (cases "fst (trackConn ?c (s\<lparr>px_next := Suc ?c\<rparr>))")
    case True
    note a = accept_admitted [OF True]
    have "dl_inv (admitted s)" using d a(1) by (simp add: dl_inv_def admitted_def)
    moreover have "closer_ok (admitted s) m ks" if "(m, ks) \<in> set (px_closers s)" for m ks
      using inv that a(1) closer_ok_shrinks [of s m ks "admitted s"] by (auto simp: px_inv_def)
    moreover have "px_closers (admitted s) = px_closers s" by (simp add: admitted_def)
    ultimately show ?thesis
      unfolding a(3) px_inv_def using admitted_hands [OF h] admitted_sets [OF h st a(2)] inv a(1)
      by (auto simp: px_inv_def admitted_def)
  next
    case False
    then have t: "?t = px_log time ''reject'' [] client [] 0 0 0 0 (s\<lparr>px_next := Suc ?c, px_stats := Reject (px_stats s)\<rparr>)
        \<lparr>px_closed := insert ?c (px_closed s)\<rparr>"
      by (auto simp: trackConn_def accept_conn_def Let_def split: if_splits)
    have tr: "tracked ?t = tracked s" by (simp add: t px_log_def tracked_def)
    have "hands_inv ?t"
      unfolding hands_inv_def tr using h unfolding hands_inv_def by (simp add: t px_log_def) (metis less_SucI)
    moreover have "sets_inv ?t" "dl_inv ?t" using st d unfolding t px_log_def by (simp_all add: sets_inv_def dl_inv_def)
    moreover have "closer_ok ?t m ks" if "(m, ks) \<in> set (px_closers s)" for m ks
      using inv that by (intro closer_ok_shrinks [of s m ks ?t]) (auto simp: px_inv_def t px_log_def shrinks_def)
    ultimately show ?thesis unfolding px_inv_def by (auto simp: t px_log_def)
  qed
qed

lemma px_inv_frame:
  assumes inv: "px_inv s" and "px_hands t = px_hands s" "px_wg t = px_wg s" "px_conns t = px_conns s"
    "px_next t = px_next s" "px_handshakes t = px_handshakes s" "px_remotes t = px_remotes s"
    "pc_MaxConns (px_cfg t) = pc_MaxConns (px_cfg s)" "px_dl t = px_dl s" "px_closing t = px_closing s"
    "px_closed t = px_closed s" "px_life t = px_life s" "px_closers t = px_closers s"
    and "px_closing s \<longrightarrow> px_dialer t = px_dialer s" "px_dialerClosed s \<longrightarrow> px_dialerClosed t"
  shows "px_inv t"
proof -
  have "px_closing s \<Longrightarrow> shrinks s t" using assms by (simp add: shrinks_def)
  then have "\<forall>x \<in> set (px_closers t). closer_ok t (fst x) (snd x)"
    using closers_shrink [of "px_closers s" s t] inv assms(13) by (simp add: px_inv_def)
  moreover have "tracked t = tracked s" using assms(2) by (simp add: tracked_def)
  then have "hands_inv t = hands_inv s" "sets_inv t = sets_inv s" "dl_inv t = dl_inv s"
    using assms(2-) by (simp_all add: hands_inv_def sets_inv_def dl_inv_def)
  ultimately show ?thesis using inv by (simp add: px_inv_def)
qed

lemma drained: "hands_inv s \<Longrightarrow> px_wg s = 0 \<Longrightarrow> px_hands s = Map.empty"
  by (auto simp: hands_inv_def)

lemma drained_sets:
  "hands_inv s \<Longrightarrow> sets_inv s \<Longrightarrow> px_hands s = Map.empty \<Longrightarrow> px_conns s = {} \<and> px_remotes s = {}"
  by (auto simp: hands_inv_def sets_inv_def tracked_def)

text \<open>A caller's own next action.\<close>

lemma legal_next:
  "legal_closer m (KStop # ks) \<Longrightarrow> ks = tl (close_prog m)"
  "legal_closer m (KCancel b # ks) \<Longrightarrow> ks = tl (close_prog m)"
  "legal_closer m (KCloseLn # ks) \<Longrightarrow> ks = tl (tl (close_prog m))"
  "legal_closer m (KSnapshot # ks) \<Longrightarrow> ks = (if m = CloseCall then [KWait, KCloseDialer] else [KCloseDialer])"
  "legal_closer m (KCloseConns l # ks) \<Longrightarrow> ks = (if m = CloseCall then [KWait, KCloseDialer] else [KCloseDialer])"
  "legal_closer m (KWait # ks) \<Longrightarrow> m = CloseCall \<and> ks = [KCloseDialer]"
  "legal_closer m (KSelect # ks) \<Longrightarrow> m = ShutdownCall \<and> ks = []"
  "legal_closer m (KCloseDialer # ks) \<Longrightarrow> ks = []"
  by (cases m; force simp: legal_closer_def close_prog_def)+

lemma legal_intros:
  "legal_closer m (KCancel b # tl (close_prog m))" "legal_closer m (tl (close_prog m))"
  "legal_closer m (tl (tl (close_prog m)))"
  "legal_closer m (KCloseConns l # (if m = CloseCall then [KWait, KCloseDialer] else [KCloseDialer]))"
  "legal_closer m (if m = CloseCall then [KWait, KCloseDialer] else [KCloseDialer])"
  "legal_closer ShutdownCall [KSnapshot, KCloseDialer]" "legal_closer m [KCloseDialer]" "legal_closer m []"
  by (cases m; force simp: legal_closer_def close_prog_def)+

lemma closer_ok_own:
  assumes ok: "closer_ok s m (k # ks)" and inv: "hands_inv s" "sets_inv s"
    and st: "closer_step expired order k ks s = Some (s', ks')"
  shows "closer_ok s' m ks'"
proof -
  have l: "legal_closer m (k # ks)" using ok by (simp add: closer_ok_def)
  have w: "px_wg s = 0 \<Longrightarrow> px_hands s = Map.empty \<and> px_conns s = {} \<and> px_remotes s = {}"
    using inv drained drained_sets by blast
  show ?thesis
  proof (cases k)
    case KStop
    with l have ks: "ks = tl (close_prog m)" using legal_next by blast
    show ?thesis using ok st KStop ks legal_intros(1) [of m]
      by (cases m) (auto simp: closer_ok_def stopAccepting_locked_def close_prog_def split: option.splits)
  next
    case (KCancel b)
    with l have ks: "ks = tl (close_prog m)" using legal_next by blast
    show ?thesis using ok st KCancel ks legal_intros(2) [of m]
      by (cases m; cases b) (auto simp: closer_ok_def cancel_life_def close_prog_def)
  next
    case KCloseLn
    with l have ks: "ks = tl (tl (close_prog m))" using legal_next by blast
    show ?thesis using ok st KCloseLn ks legal_intros(3) [of m]
      by (cases m) (auto simp: closer_ok_def close_prog_def split: if_splits)
  next
    case KSnapshot
    with l have ks: "ks = (if m = CloseCall then [KWait, KCloseDialer] else [KCloseDialer])" using legal_next by blast
    show ?thesis using ok st KSnapshot ks legal_intros(4) [of m]
      by (auto simp: closer_ok_def all_closed_def split: if_splits)
  next
    case (KCloseConns cs)
    with l have ks: "ks = (if m = CloseCall then [KWait, KCloseDialer] else [KCloseDialer])" using legal_next by blast
    show ?thesis
    proof (cases cs)
      case Nil
      then show ?thesis using ok st KCloseConns ks legal_intros(5) [of m]
        by (auto simp: closer_ok_def split: if_splits)
    next
      case (Cons c cs')
      then show ?thesis using ok st KCloseConns ks legal_intros(4) [of m]
        by (auto simp: closer_ok_def all_closed_def split: if_splits)
    qed
  next
    case KWait
    with l have ks: "m = CloseCall" "ks = [KCloseDialer]" using legal_next by blast+
    show ?thesis using ok st KWait ks w legal_intros(7) by (auto simp: closer_ok_def split: if_splits)
  next
    case KSelect
    with l have ks: "m = ShutdownCall" "ks = []" using legal_next by blast+
    show ?thesis using ok st KSelect ks w legal_intros(6,7)
      by (auto simp: closer_ok_def all_closed_def split: if_splits)
  next
    case KCloseDialer
    with l have ks: "ks = []" using legal_next by blast
    show ?thesis using ok st KCloseDialer ks legal_intros(8)
      by (auto simp: closer_ok_def all_closed_def closeDialer_def split: if_splits option.splits dialer.splits)
  qed
qed


text \<open>A caller's action on the rest of the state.\<close>

lemma closer_step_frame:
  "closer_step expired order k ks s = Some (s', ks') \<Longrightarrow>
     px_hands s' = px_hands s \<and> px_wg s' = px_wg s \<and> px_conns s' = px_conns s \<and> px_next s' = px_next s \<and>
     px_handshakes s' = px_handshakes s \<and> px_remotes s' = px_remotes s \<and> px_cfg s' = px_cfg s \<and>
     px_closers s' = px_closers s \<and> px_closed s \<subseteq> px_closed s' \<and> (px_closing s \<longrightarrow> px_closing s') \<and>
     px_dialer s' = px_dialer s \<and> (px_dialerClosed s \<longrightarrow> px_dialerClosed s') \<and>
     (px_life s \<noteq> Some False \<longrightarrow> px_life s' \<noteq> Some False) \<and>
     (if k = KStop then s' = stopAccepting_locked s else px_dl s' = px_dl s \<and> px_closing s' = px_closing s)"
  by (cases k) (auto simp: stopAccepting_locked_def cancel_life_def closeDialer_def
      split: if_splits option.splits list.splits dialer.splits)

lemma dl_inv_stop: "sets_inv s \<Longrightarrow> dl_inv s \<Longrightarrow> dl_inv (stopAccepting_locked s)"
  by (auto simp: dl_inv_def sets_inv_def stopAccepting_locked_def)

lemma px_inv_closer:
  assumes inv: "px_inv s" and cl: "px_closers s = xs @ (m, k # ks) # ys"
    and st: "closer_step expired order k ks s = Some (s', ks')"
  shows "px_inv (s'\<lparr>px_closers := xs @ (m, ks') # ys\<rparr>)" (is "px_inv ?t")
proof -
  note f = closer_step_frame [OF st]
  have h: "hands_inv s" and se: "sets_inv s" and d: "dl_inv s" using inv by (auto simp: px_inv_def)
  have "tracked s' = tracked s" using f by (simp add: tracked_def)
  then have h': "hands_inv s'" and se': "sets_inv s'" using h se f by (simp_all add: hands_inv_def sets_inv_def)
  have d': "dl_inv s'"
    using f dl_inv_stop [OF se d] d by (cases "k = KStop") (auto simp: dl_inv_def)
  have own: "closer_ok s' m ks'"
    using closer_ok_own [OF _ h se st] inv cl by (simp add: px_inv_def)
  have "px_closing s' \<or> \<not> px_closing s" using f by blast
  then have "px_closing s \<Longrightarrow> shrinks s s'" using f by (auto simp: shrinks_def)
  from closers_shrink [OF _ this, of "px_closers s"] have "\<forall>x \<in> set (px_closers s). closer_ok s' (fst x) (snd x)"
    using inv by (simp add: px_inv_def)
  with own cl have all: "\<forall>x \<in> set (xs @ (m, ks') # ys). closer_ok s' (fst x) (snd x)" by auto
  have same: "closer_ok ?t = closer_ok s'" by (simp add: fun_eq_iff closer_ok_def all_closed_def)
  show ?thesis
    using h' se' d' all unfolding px_inv_def same
    by (simp add: hands_inv_def sets_inv_def dl_inv_def tracked_def)
qed

lemma px_inv_step: "px_inv s \<Longrightarrow> px_step s s' \<Longrightarrow> px_inv s'"
proof (erule px_stepE)
  fix time client assume "px_inv s" "s' = accept_conn time client s"
  then show "px_inv s'" by (simp add: px_inv_accept)
next
  assume "px_inv s" "s' = s\<lparr>px_returned := True, px_listening := False\<rparr>"
  then show "px_inv s'" by (auto intro: px_inv_frame)
next
  fix listen assume "px_inv s" "ListenAndServe_bind listen s = (None, s')"
  then show "px_inv s'"
    by (auto simp: ListenAndServe_bind_def split: sum.splits if_splits intro: px_inv_frame)
next
  fix d e b assume "px_inv s" "installDialer d s = (e, b, s')"
  then show "px_inv s'" by (auto simp: installDialer_def split: if_splits intro: px_inv_frame)
next
  fix c st ch assume "px_inv s" "px_hands s c = Some st" "s' = run_hand ch c st s"
  then show "px_inv s'" by (simp add: px_inv_hand)
next
  fix m assume inv: "px_inv s" and s': "s' = s\<lparr>px_closers := px_closers s @ [(m, close_prog m)]\<rparr>"
  have "closer_ok s' = closer_ok s" unfolding s' by (simp add: fun_eq_iff closer_ok_def all_closed_def)
  then show "px_inv s'"
    using inv closer_ok_prog unfolding px_inv_def s'
    by (auto simp: hands_inv_def sets_inv_def dl_inv_def tracked_def)
next
  fix xs m k ks ys expired order t ks'
  assume "px_inv s" "s' = t\<lparr>px_closers := xs @ (m, ks') # ys\<rparr>" "px_closers s = xs @ (m, k # ks) # ys"
    "closer_step expired order k ks s = Some (t, ks')"
  then show "px_inv s'" using px_inv_closer by simp
qed

definition px_initial :: "px_cfg \<Rightarrow> int \<Rightarrow> i64 \<Rightarrow> px_state" where
  "px_initial cfg now nid = (proxy_New now nid)\<lparr>px_cfg := cfg\<rparr>"

lemma px_inv_initial: "px_inv (px_initial cfg now nid)"
  by (simp add: px_inv_def hands_inv_def sets_inv_def dl_inv_def tracked_def px_initial_def proxy_New_def)

interpretation px_sys: invariant_system "\<lambda>s. s = px_initial cfg now nid" px_step px_inv
  by unfold_locales (auto simp: px_inv_initial intro: px_inv_step)

lemma px_cfg_step: "px_step s s' \<Longrightarrow> px_cfg s' = px_cfg s"
proof (erule px_stepE)
  fix c st ch assume "s' = run_hand ch c st s"
  then show ?thesis using hand_step_frame by (auto simp: run_hand_def split: prod.splits)
next
  fix xs m k ks ys expired order t ks'
  assume "s' = t\<lparr>px_closers := xs @ (m, ks') # ys\<rparr>" "closer_step expired order k ks s = Some (t, ks')"
  then show ?thesis using closer_step_frame by simp
qed (auto simp: accept_conn_def trackConn_def Let_def px_log_def ListenAndServe_bind_def installDialer_def
    split: if_splits sum.splits)


section \<open>A run for the witnesses\<close>

definition px_cfg1 :: px_cfg where
  "px_cfg1 = \<lparr>pc_DialTimeout = 0, pc_MaxConns = 2, pc_HandshakeTimeout = 0, pc_IdleTimeout = 0,
     pc_AllowPublic = False, pc_Upstream = None\<rparr>"

abbreviation px_reach1 :: "px_state \<Rightarrow> bool" where
  "px_reach1 \<equiv> reach (\<lambda>s. s = px_initial px_cfg1 0 0) px_step"

text \<open>One client accepted, its handler about to start.\<close>

definition px_accepted :: px_state where
  "px_accepted = accept_conn [] ''c'' ((px_initial px_cfg1 0 0)\<lparr>px_listening := True\<rparr>)"

lemma px_reach_accepted: "px_reach1 px_accepted"
proof -
  have "px_reach1 (px_initial px_cfg1 0 0)" by (rule reach_init) simp
  moreover have "px_step (px_initial px_cfg1 0 0) ((px_initial px_cfg1 0 0)\<lparr>px_listening := True\<rparr>)"
    by (rule px_bind [of "Inr (TCPAddr [127, 0, 0, 1] 1080 [])"])
      (simp add: ListenAndServe_bind_def px_initial_def proxy_New_def px_cfg1_def isLoopbackListener_def IsLoopback_def)
  ultimately have "px_reach1 ((px_initial px_cfg1 0 0)\<lparr>px_listening := True\<rparr>)" by (rule reach_step)
  moreover have "px_step ((px_initial px_cfg1 0 0)\<lparr>px_listening := True\<rparr>) px_accepted"
    unfolding px_accepted_def by (rule px_accept) (simp_all add: px_initial_def proxy_New_def)
  ultimately show ?thesis by (rule reach_step)
qed

lemmas px_accepted_eq = px_accepted_def accept_conn_def trackConn_def Let_def px_initial_def proxy_New_def px_cfg1_def

lemma px_accepted_sel [simp]:
  "px_conns px_accepted = {0}" "px_handshakes px_accepted = {0}" "px_hands px_accepted = [0 \<mapsto> HOpen]"
  "px_closers px_accepted = []" "px_life px_accepted = None" "px_closing px_accepted = False"
  "px_remotes px_accepted = {}" "px_wg px_accepted = 1" "px_cfg px_accepted = px_cfg1"
  by (simp_all add: px_accepted_eq)

text \<open>\<open>Shutdown\<close> is called and has set its flag.\<close>

definition px_stopping :: px_state where
  "px_stopping = (stopAccepting_locked (px_accepted\<lparr>px_closers := [(ShutdownCall, close_prog ShutdownCall)]\<rparr>))
     \<lparr>px_closers := [(ShutdownCall, [KCancel False, KCloseLn, KSelect])]\<rparr>"

lemma px_reach_stopping: "px_reach1 px_stopping"
proof -
  have "px_step px_accepted (px_accepted\<lparr>px_closers := [(ShutdownCall, close_prog ShutdownCall)]\<rparr>)"
    using px_call [of px_accepted ShutdownCall] by simp
  note r = reach_step [OF px_reach_accepted this]
  have "px_step (px_accepted\<lparr>px_closers := [(ShutdownCall, close_prog ShutdownCall)]\<rparr>) px_stopping"
    using px_closer [of "px_accepted\<lparr>px_closers := [(ShutdownCall, close_prog ShutdownCall)]\<rparr>" "[]" ShutdownCall
        KStop "[KCloseLn, KSelect]" "[]" False "[]"]
    by (simp add: close_prog_def px_stopping_def)
  from reach_step [OF r this] show ?thesis .
qed

text \<open>\<open>Close\<close> on a server without connections runs through.\<close>

definition px_idle :: "bool \<Rightarrow> kact list \<Rightarrow> px_state" where
  "px_idle b ks = (px_initial px_cfg1 0 0)\<lparr>px_closing := b, px_closers := [(CloseCall, ks)]\<rparr>"

lemma px_idle_step:
  assumes "px_reach1 (px_idle b (k # ks))"
    and "closer_step False [] k ks (px_idle b (k # ks)) = Some (s', ks')" and "s'\<lparr>px_closers := [(CloseCall, ks')]\<rparr> = px_idle b' ks'"
  shows "px_reach1 (px_idle b' ks')"
proof -
  have "px_step (px_idle b (k # ks)) (s'\<lparr>px_closers := [] @ (CloseCall, ks') # []\<rparr>)"
    by (rule px_closer [OF _ assms(2)]) (simp add: px_idle_def)
  then show ?thesis using assms(1,3) by (auto intro: reach_step)
qed

lemma px_reach_closed: "px_reach1 (px_idle True [])"
proof -
  have "px_reach1 (px_initial px_cfg1 0 0)" by (rule reach_init) simp
  moreover have "px_step (px_initial px_cfg1 0 0) (px_idle False (close_prog CloseCall))"
    using px_call [of "px_initial px_cfg1 0 0" CloseCall] by (simp add: px_idle_def px_initial_def proxy_New_def)
  ultimately have "px_reach1 (px_idle False (close_prog CloseCall))" by (rule reach_step)
  note defs = px_idle_def px_initial_def proxy_New_def stopAccepting_locked_def cancel_life_def closeDialer_def close_prog_def
  have "px_reach1 (px_idle True [KCancel False, KCloseLn, KSnapshot, KWait, KCloseDialer])"
    by (rule px_idle_step [OF \<open>px_reach1 (px_idle False (close_prog CloseCall))\<close> [unfolded close_prog_def kmode.case]])
      (simp add: defs, simp add: defs)
  then have "px_reach1 (px_idle True [KCloseLn, KSnapshot, KWait, KCloseDialer])"
    by (rule px_idle_step) (simp add: defs, simp add: defs)
  then have "px_reach1 (px_idle True [KSnapshot, KWait, KCloseDialer])" by (rule px_idle_step) (simp add: defs, simp add: defs)
  then have "px_reach1 (px_idle True [KCloseConns [], KWait, KCloseDialer])" by (rule px_idle_step) (simp add: defs, simp add: defs)
  then have "px_reach1 (px_idle True [KWait, KCloseDialer])" by (rule px_idle_step) (simp add: defs, simp add: defs)
  then have "px_reach1 (px_idle True [KCloseDialer])" by (rule px_idle_step) (simp add: defs, simp add: defs)
  then show ?thesis by (rule px_idle_step) (simp add: defs, simp add: defs)
qed

section \<open>Properties\<close>

text \<open>In every interleaving of the accept loop, the handlers and the callers of \<open>Close\<close> and
  \<open>Shutdown\<close>, at most \<open>MaxConns\<close> connections are tracked, connections in their handshake are
  tracked ones, and the wait group counts exactly the handlers that have not finished.\<close>

theorem proxy_tracks_at_most_max_conns:
  assumes "reach (\<lambda>s. s = px_initial cfg now nid) px_step s"
  shows "(pc_MaxConns (px_cfg s) > 0 \<longrightarrow> int (card (px_conns s)) \<le> pc_MaxConns (px_cfg s)) \<and>
    px_handshakes s \<subseteq> px_conns s \<and> px_wg s = card (dom (px_hands s)) \<and>
    px_conns s = {c. px_hands s c \<noteq> None \<and> px_hands s c \<noteq> Some HWgDone}"
  using px_sys.inv_reach [OF assms] by (auto simp: px_inv_def hands_inv_def sets_inv_def tracked_def)

theorem proxy_tracks_at_most_max_conns_witness:
  "int (card (px_conns px_accepted)) \<le> 2 \<and> px_handshakes px_accepted \<subseteq> px_conns px_accepted"
  using proxy_tracks_at_most_max_conns [OF px_reach_accepted, THEN conjunct1] by (simp add: px_cfg1_def)

text \<open>C4: No connection escapes a forced close: when a call of \<open>Close\<close>, or of \<open>Shutdown\<close> whether it
  ran out of time or not, has returned, every client and upstream connection still tracked has been
  closed, the lifecycle context is cancelled wherever there is one, a dialer that holds a session is
  closed; and after \<open>Close\<close> no handler is left.\<close>

theorem proxy_close_misses_nothing:
  assumes "reach (\<lambda>s. s = px_initial cfg now nid) px_step s" and "(m, []) \<in> set (px_closers s)"
  shows "px_closing s \<and> px_conns s \<union> px_remotes s \<subseteq> px_closed s \<and> px_life s \<noteq> Some False \<and>
    (\<forall>u. px_dialer s = Some (ClosableUpstream u) \<longrightarrow> px_dialerClosed s) \<and>
    (m = CloseCall \<longrightarrow> px_hands s = Map.empty \<and> px_conns s = {} \<and> px_remotes s = {} \<and> px_wg s = 0)"
proof -
  have inv: "px_inv s" using px_sys.inv_reach [OF assms(1)] .
  then have ok: "closer_ok s m []" using assms(2) by (force simp: px_inv_def)
  moreover have "px_wg s = 0 \<and> px_conns s = {} \<and> px_remotes s = {}" if "px_hands s = Map.empty"
    using inv drained_sets that by (auto simp: px_inv_def hands_inv_def)
  ultimately show ?thesis by (auto simp: closer_ok_def all_closed_def)
qed

theorem proxy_close_misses_nothing_witness:
  "px_hands (px_idle True []) = Map.empty \<and> px_wg (px_idle True []) = 0"
  using proxy_close_misses_nothing [OF px_reach_closed, of CloseCall] by (simp add: px_idle_def)

text \<open>C13: Graceful shutdown interrupts exactly the unfinished handshakes: once the server is closing,
  every connection still in its handshake has the immediate deadline (no handler can replace it by a
  later one), while no relaying connection has it.\<close>

theorem proxy_shutdown_spares_relays:
  assumes "reach (\<lambda>s. s = px_initial cfg now nid) px_step s"
  shows "(px_closing s \<longrightarrow> (\<forall>c \<in> px_handshakes s. px_dl s c = NowDeadline)) \<and>
    (\<forall>c p r. px_hands s c = Some (HRelay p r) \<longrightarrow> px_dl s c \<noteq> NowDeadline \<and> c \<notin> px_handshakes s)"
  using px_sys.inv_reach [OF assms] by (auto simp: px_inv_def dl_inv_def sets_inv_def)

theorem proxy_shutdown_spares_relays_witness:
  "px_dl px_stopping 0 = NowDeadline"
  using proxy_shutdown_spares_relays [OF px_reach_stopping] by (simp add: px_stopping_def stopAccepting_locked_def)

text \<open>C14: Once the server is closing, no step of anyone tracks a new client or upstream connection,
  grows the wait group, promotes a handshake to a relay or publishes a dialer.\<close>

theorem proxy_closing_admits_nothing:
  assumes "px_step s s'" and "px_closing s"
  shows "px_closing s' \<and> px_conns s' \<subseteq> px_conns s \<and> px_remotes s' \<subseteq> px_remotes s \<and> px_wg s' \<le> px_wg s \<and>
    px_dialer s' = px_dialer s \<and>
    (\<forall>c st. px_hands s' c = Some st \<longrightarrow> promoted st \<longrightarrow> (\<exists>st0. px_hands s c = Some st0 \<and> promoted st0))"
  using assms(1)
proof cases
  case (px_hand c st ch)
  obtain t st' where h: "hand_step ch c st s = (t, st')" by (cases "hand_step ch c st s")
  have "px_conns t \<subseteq> px_conns s \<and> px_remotes t \<subseteq> px_remotes s \<and> px_wg t \<le> px_wg s \<and>
      (\<forall>x. st' = Some x \<longrightarrow> promoted x \<longrightarrow> promoted st)"
    using h assms(2)
    by (cases st) (auto simp: locked_defs ConnOpened_def Let_def split: if_splits option.splits prod.splits)
  then show ?thesis
    using hand_step_frame [OF h] assms(2) px_hand by (auto simp: run_hand_def h)
next
  case (px_closer xs m k ks ys expired order t ks')
  then show ?thesis using closer_step_frame [OF px_closer(3)] assms(2) by auto
qed (use assms(2) in \<open>auto simp: accept_conn_def trackConn_def Let_def px_log_def ListenAndServe_bind_def
    installDialer_def split: if_splits sum.splits\<close>)

theorem proxy_closing_admits_nothing_witness:
  "px_conns (accept_conn [] ''d'' px_stopping) \<subseteq> {0}"
proof -
  have "px_step px_stopping (accept_conn [] ''d'' px_stopping)"
    by (rule px_accept) (simp_all add: px_stopping_def stopAccepting_locked_def px_accepted_eq)
  from proxy_closing_admits_nothing [OF this] show ?thesis by (simp add: px_stopping_def stopAccepting_locked_def)
qed

end
