(* ===== verification/Socks5_Model.thy ===== *)
theory Socks5_Model
  imports Stats_Model Self_Target
begin

text \<open>
  The SOCKS5 side of the proxy, internal/proxy/socks5.go.  The client's stream is the list of bytes
  it will ever send (running out of it is the read error); the version byte is already consumed.
  What the server writes to the client is the list of its writes, in order.
\<close>

section \<open>Bytes\<close>

definition byte_char :: "byte \<Rightarrow> char" where
  "byte_char b = char_of (unat b)"

definition char_byte :: "char \<Rightarrow> byte" where
  "char_byte c = of_nat (of_char c :: nat)"

text \<open>\<open>io.ReadFull\<close> of \<open>n\<close> bytes.\<close>

definition ReadFull :: "nat \<Rightarrow> byte list \<Rightarrow> (byte list \<times> byte list) option" where
  "ReadFull n r = (if n \<le> length r then Some (take n r, drop n r) else None)"

definition ReadByte :: "byte list \<Rightarrow> (byte \<times> byte list) option" where
  "ReadByte r = (case r of [] \<Rightarrow> None | b # r' \<Rightarrow> Some (b, r'))"

definition BigEndian_Uint16 :: "byte list \<Rightarrow> nat" where
  "BigEndian_Uint16 b = unat (b ! 0) * 256 + unat (b ! 1)"

section \<open>The request\<close>

datatype socks_err =
    ReadNMethods | ReadMethods | NoAuth | ReplyAuth | ReadHeader | BadVersion byte
  | ParseAddr addr_err | ReadPort | BadCommand byte
and addr_err = AddrRead | BadAddrType byte

definition sendSOCKSReply :: "byte \<Rightarrow> byte list" where
  "sendSOCKSReply rep = [5, rep, 0, 1, 0, 0, 0, 0, 0, 0]"

definition readSOCKSAddr :: "byte list \<Rightarrow> byte \<Rightarrow> addr_err + (string \<times> byte list)" where
  "readSOCKSAddr r atyp =
     (if atyp = 1 then
        (case ReadFull 4 r of None \<Rightarrow> Inl AddrRead | Some (buf, r') \<Rightarrow> Inr (ip_String buf, r'))
      else if atyp = 4 then
        (case ReadFull 16 r of None \<Rightarrow> Inl AddrRead | Some (buf, r') \<Rightarrow> Inr (ip_String buf, r'))
      else if atyp = 3 then
        (case ReadByte r of
           None \<Rightarrow> Inl AddrRead
         | Some (n, r1) \<Rightarrow>
             (case ReadFull (unat n) r1 of
                None \<Rightarrow> Inl AddrRead
              | Some (buf, r') \<Rightarrow> Inr (map byte_char buf, r')))
      else Inl (BadAddrType atyp))"

fun containsByte :: "byte list \<Rightarrow> byte \<Rightarrow> bool" where
  "containsByte [] target = False"
| "containsByte (b # bs) target = (if b = target then True else containsByte bs target)"

text \<open>The second half of \<open>readSOCKSRequest\<close>, after the method was accepted: the result and what
  is written.\<close>

definition readSOCKSHead :: "byte list \<Rightarrow> (socks_err + string \<times> byte list) \<times> byte list list" where
  "readSOCKSHead r =
     (case ReadFull 4 r of
        None \<Rightarrow> (Inl ReadHeader, [])
      | Some (header, r1) \<Rightarrow>
          if header ! 0 \<noteq> 5 then (Inl (BadVersion (header ! 0)), [])
          else
            (case readSOCKSAddr r1 (header ! 3) of
               Inl err \<Rightarrow> (Inl (ParseAddr err), [sendSOCKSReply 8])
             | Inr (host, r2) \<Rightarrow>
                 (case ReadFull 2 r2 of
                    None \<Rightarrow> (Inl ReadPort, [])
                  | Some (portBuf, r3) \<Rightarrow>
                      if header ! 1 \<noteq> 1 then (Inl (BadCommand (header ! 1)), [sendSOCKSReply 7])
                      else (Inr (JoinHostPort host (Itoa (int (BigEndian_Uint16 portBuf))), r3), []))))"

text \<open>\<open>readSOCKSRequest\<close>; \<open>authOk\<close> is the outcome of writing the method reply.\<close>

definition readSOCKSRequest :: "bool \<Rightarrow> byte list \<Rightarrow> (socks_err + string \<times> byte list) \<times> byte list list" where
  "readSOCKSRequest authOk r =
     (case ReadByte r of
        None \<Rightarrow> (Inl ReadNMethods, [])
      | Some (nMethods, r1) \<Rightarrow>
          (case ReadFull (unat nMethods) r1 of
             None \<Rightarrow> (Inl ReadMethods, [])
           | Some (methods, r2) \<Rightarrow>
               if \<not> containsByte methods 0 then (Inl NoAuth, [[5, 0xFF]])
               else if \<not> authOk then (Inl ReplyAuth, [[5, 0]])
               else (case readSOCKSHead r2 of (res, ws) \<Rightarrow> (res, [5, 0] # ws))))"

section \<open>The handler\<close>

text \<open>A dial error as \<open>socksReplyForDialError\<close> sees it.\<close>

record dial_error =
  de_timeout :: bool
  de_opError :: bool
  de_refused :: bool

definition socksReplyForDialError :: "dial_error \<Rightarrow> byte" where
  "socksReplyForDialError err =
     (if de_timeout err then 4 else if de_opError err \<and> de_refused err then 5 else 1)"

text \<open>The answers of the server and of the network the handler meets on its way.\<close>

record socks_env =
  sx_net :: net_env
  sx_listener :: "net_addr option"
  sx_authOk :: bool
  sx_ctxErr :: bool
  sx_complete :: bool
  sx_dial :: "string \<Rightarrow> dial_error + net_addr"
  sx_track :: bool
  sx_begin :: bool
  sx_replyOk :: bool
  sx_relay :: "byte list \<Rightarrow> i64 \<times> i64"
  sx_client :: string
  sx_connID :: i64
  sx_time :: string
  sx_ms :: int

datatype handler_err =
    SocksErr socks_err | CtxErr | Canceled | SelfTargetErr string | DialErr string | ReplySuccessErr

text \<open>What the handler leaves: its error, its writes (the success reply also when its write fails), the
  statistics, the log, what became of the upstream connection, whether it is still in the server's
  table, and the early bytes with which the relay was started, if it was.\<close>

datatype remote_fate = NoRemote | RemoteOpen | RemoteClosed

record socks_result =
  sr_err :: "handler_err option"
  sr_writes :: "byte list list"
  sr_stats :: Counters
  sr_events :: "EventLog option"
  sr_remote :: remote_fate
  sr_tracked :: bool
  sr_tunnel :: "byte list option"

definition close_remote :: "socks_result \<Rightarrow> socks_result" where
  "close_remote res = res\<lparr>sr_remote := RemoteClosed\<rparr>"

definition socks_untrack :: "socks_result \<Rightarrow> socks_result" where
  "socks_untrack res = res\<lparr>sr_tracked := False\<rparr>"

definition sx_event :: "socks_env \<Rightarrow> string \<Rightarrow> string \<Rightarrow> i64 \<Rightarrow> i64 \<Rightarrow> Event" where
  "sx_event x kind target up down =
     \<lparr>evTime = sx_time x, evKind = kind, evProto = ''socks5'', evClient = sx_client x, evTarget = target,
      evUpBytes = up, evDownBytes = down, evDurationMs = (if kind = ''close'' then sx_ms x else 0),
      evConnID = sx_connID x\<rparr>"

text \<open>After the dial, with the connection open: the check of the peer, the tracking, the promotion, the
  reply, the relay.  The two deferred calls run on every exit behind them, the close first.\<close>

definition socks_connected :: "socks_env \<Rightarrow> string \<Rightarrow> byte list \<Rightarrow> net_addr \<Rightarrow> byte list list \<Rightarrow>
    Counters \<Rightarrow> EventLog option \<Rightarrow> socks_result" where
  "socks_connected x target rest remote ws st ev =
     (let res = (\<lambda>err ws' tracked. \<lparr>sr_err = Some err, sr_writes = ws @ ws', sr_stats = st, sr_events = ev,
                   sr_remote = RemoteOpen, sr_tracked = tracked, sr_tunnel = None\<rparr>) in
      if isSelfConn (sx_net x) (sx_listener x) remote
      then close_remote (res (SelfTargetErr target) [sendSOCKSReply 1] False)
      else if \<not> sx_track x then close_remote (res Canceled [] False)
      else socks_untrack (close_remote
        (if \<not> sx_begin x then res Canceled [] True
         else if \<not> sx_replyOk x then res ReplySuccessErr [sendSOCKSReply 0] True
         else (case sx_relay x rest of
                 (up, down) \<Rightarrow>
                   \<lparr>sr_err = None, sr_writes = ws @ [sendSOCKSReply 0], sr_stats = AddDown (AddUp st up) down,
                    sr_events = Append ev (sx_event x ''close'' target up down), sr_remote = RemoteOpen,
                    sr_tracked = True, sr_tunnel = Some rest\<rparr>))))"

definition handleSOCKS5WithReader :: "socks_env \<Rightarrow> byte list \<Rightarrow> Counters \<Rightarrow> EventLog option \<Rightarrow> socks_result" where
  "handleSOCKS5WithReader x reader st ev =
     (case readSOCKSRequest (sx_authOk x) reader of
        (Inl err, ws) \<Rightarrow>
          \<lparr>sr_err = Some (SocksErr err), sr_writes = ws, sr_stats = st, sr_events = ev,
           sr_remote = NoRemote, sr_tracked = False, sr_tunnel = None\<rparr>
      | (Inr (target, rest), ws) \<Rightarrow>
          (let res = (\<lambda>err ws' st' ev'. \<lparr>sr_err = Some err, sr_writes = ws @ ws', sr_stats = st', sr_events = ev',
                        sr_remote = NoRemote, sr_tracked = False, sr_tunnel = None\<rparr>) in
           if sx_ctxErr x then res CtxErr [] st ev
           else if \<not> sx_complete x then res Canceled [] st ev
           else if isSelfTarget (sx_net x) (sx_listener x) target
           then res (SelfTargetErr target) [sendSOCKSReply 1] st ev
           else (case sx_dial x target of
                   Inl err \<Rightarrow> res (DialErr target) [sendSOCKSReply (socksReplyForDialError err)] (DialError st)
                                (Append ev (sx_event x ''dial-error'' target 0 0))
                 | Inr remote \<Rightarrow> socks_connected x target rest remote ws st ev)))"

section \<open>A client's encoding (RFC 1928)\<close>

datatype socks_dest = DestV4 byte byte byte byte | DestV6 "byte list" | DestDomain string

fun dest_host :: "socks_dest \<Rightarrow> string" where
  "dest_host (DestV4 a b c d) = ip_String [a, b, c, d]"
| "dest_host (DestV6 bs) = ip_String bs"
| "dest_host (DestDomain s) = s"

fun dest_ok :: "socks_dest \<Rightarrow> bool" where
  "dest_ok (DestV4 a b c d) = True"
| "dest_ok (DestV6 bs) = (length bs = 16)"
| "dest_ok (DestDomain s) = (length s < 256)"

fun encode_dest :: "socks_dest \<Rightarrow> byte list" where
  "encode_dest (DestV4 a b c d) = [1, a, b, c, d]"
| "encode_dest (DestV6 bs) = 4 # bs"
| "encode_dest (DestDomain s) = [3, of_nat (length s)] @ map char_byte s"

definition encode_request :: "byte list \<Rightarrow> byte \<Rightarrow> byte \<Rightarrow> socks_dest \<Rightarrow> nat \<Rightarrow> byte list" where
  "encode_request methods cmd rsv dest port =
     [of_nat (length methods)] @ methods @ [5, cmd, rsv] @ encode_dest dest @
     [of_nat (port div 256), of_nat (port mod 256)]"

section \<open>Lemmas\<close>

lemma containsByte_iff [simp]: "containsByte bs b \<longleftrightarrow> b \<in> set bs"
  by (induction bs) auto

lemma byte_char_inverse [simp]: "byte_char (char_byte c) = c"
proof -
  have "(of_char c :: nat) < 256" by simp
  then have "unat (of_nat (of_char c :: nat) :: byte) = of_char c" by (simp add: unat_of_nat)
  then show ?thesis by (simp add: byte_char_def char_byte_def)
qed

lemma ReadFull_append [simp]: "ReadFull (length xs) (xs @ ys) = Some (xs, ys)"
  by (simp add: ReadFull_def)

lemma ReadFull_append': "n = length xs \<Longrightarrow> ReadFull n (xs @ ys) = Some (xs, ys)"
  by simp

lemma unat_length: "length xs < 256 \<Longrightarrow> unat (of_nat (length xs) :: byte) = length xs"
  by (simp add: unat_of_nat)

lemma BigEndian_roundtrip:
  "port < 2 ^ 16 \<Longrightarrow> BigEndian_Uint16 [of_nat (port div 256), of_nat (port mod 256)] = port"
  by (simp add: BigEndian_Uint16_def unat_of_nat)

lemma readSOCKSAddr_encode:
  assumes "dest_ok dest"
  shows "readSOCKSAddr (tl (encode_dest dest) @ rest) (hd (encode_dest dest)) = Inr (dest_host dest, rest)"
proof (cases dest)
  case (DestV4 a b c d)
  then show ?thesis by (simp add: readSOCKSAddr_def ReadFull_def)
next
  case (DestV6 bs)
  with assms show ?thesis by (simp add: readSOCKSAddr_def ReadFull_append')
next
  case (DestDomain s)
  with assms have "unat (of_nat (length s) :: byte) = length (map char_byte s)" by (simp add: unat_length)
  then show ?thesis
    using DestDomain ReadFull_append' [of _ "map char_byte s" rest]
    by (simp add: readSOCKSAddr_def ReadByte_def o_def)
qed

lemma readSOCKSHead_encode:
  assumes "dest_ok dest" and "port < 2 ^ 16"
  shows "readSOCKSHead ([5, cmd, rsv] @ encode_dest dest @ [of_nat (port div 256), of_nat (port mod 256)] @ rest) =
     (if cmd = 1 then (Inr (JoinHostPort (dest_host dest) (Itoa (int port)), rest), [])
      else (Inl (BadCommand cmd), [sendSOCKSReply 7]))"
proof -
  let ?p = "[of_nat (port div 256), of_nat (port mod 256)] :: byte list"
  obtain at bs where e: "encode_dest dest = at # bs" by (cases dest) auto
  have a: "readSOCKSAddr (bs @ ?p @ rest) at = Inr (dest_host dest, ?p @ rest)"
    using readSOCKSAddr_encode [OF assms(1), of "?p @ rest"] by (simp add: e)
  have h: "ReadFull 4 ([5, cmd, rsv, at] @ bs @ ?p @ rest) = Some ([5, cmd, rsv, at], bs @ ?p @ rest)"
    by (rule ReadFull_append') simp
  have p: "ReadFull 2 (?p @ rest) = Some (?p, rest)" by (rule ReadFull_append') simp
  show ?thesis
    using h a p BigEndian_roundtrip [OF assms(2)]
    by (simp add: readSOCKSHead_def e)
qed

text \<open>What a read consumes is a prefix: more bytes behind it change nothing.\<close>

lemma ReadFull_more: "ReadFull n r = Some (b, r') \<Longrightarrow> ReadFull n (r @ ext) = Some (b, r' @ ext)"
  by (auto simp: ReadFull_def split: if_splits)

lemma ReadByte_more: "ReadByte r = Some (b, r') \<Longrightarrow> ReadByte (r @ ext) = Some (b, r' @ ext)"
  by (auto simp: ReadByte_def split: list.splits)

lemma readSOCKSAddr_more: "readSOCKSAddr r at = Inr (h, r') \<Longrightarrow> readSOCKSAddr (r @ ext) at = Inr (h, r' @ ext)"
  by (auto simp: readSOCKSAddr_def ReadFull_more ReadByte_more split: if_split_asm option.split_asm prod.split_asm)

lemma readSOCKSHead_more:
  "readSOCKSHead r = (Inr (t, r'), ws) \<Longrightarrow> readSOCKSHead (r @ ext) = (Inr (t, r' @ ext), ws)"
  by (auto simp: readSOCKSHead_def ReadFull_more readSOCKSAddr_more
      split: if_split_asm option.split_asm sum.split_asm prod.split_asm)

lemma readSOCKSRequest_more:
  "readSOCKSRequest ok r = (Inr (t, r'), ws) \<Longrightarrow> readSOCKSRequest ok (r @ ext) = (Inr (t, r' @ ext), ws)"
  by (auto simp: readSOCKSRequest_def ReadFull_more ReadByte_more readSOCKSHead_more
      split: if_split_asm option.split_asm prod.split_asm)

lemma socks_error_reply_cases:
  shows "0 \<notin> set methods \<Longrightarrow> length methods < 256 \<Longrightarrow>
      readSOCKSRequest ok (of_nat (length methods) # methods @ rest) = (Inl NoAuth, [[5, 0xFF]])"
    and "atyp \<notin> {1, 3, 4} \<Longrightarrow> readSOCKSHead ([5, cmd, rsv, atyp] @ rest) =
      (Inl (ParseAddr (BadAddrType atyp)), [[5, 8, 0, 1, 0, 0, 0, 0, 0, 0]])"
    and "dest_ok dest \<Longrightarrow> port < 2 ^ 16 \<Longrightarrow> cmd \<noteq> 1 \<Longrightarrow>
      readSOCKSHead ([5, cmd, rsv] @ encode_dest dest @ [of_nat (port div 256), of_nat (port mod 256)] @ rest) =
      (Inl (BadCommand cmd), [[5, 7, 0, 1, 0, 0, 0, 0, 0, 0]])"
    and "readSOCKSRequest (sx_authOk x) reader = (Inr (target, rest), ws) \<Longrightarrow> \<not> sx_ctxErr x \<Longrightarrow> sx_complete x \<Longrightarrow>
      \<not> isSelfTarget (sx_net x) (sx_listener x) target \<Longrightarrow> sx_dial x target = Inl err \<Longrightarrow>
      sr_writes (handleSOCKS5WithReader x reader st ev) =
        ws @ [[5, if de_timeout err then 4 else if de_opError err \<and> de_refused err then 5 else 1, 0, 1, 0, 0, 0, 0, 0, 0]] \<and>
      dialErrors (sr_stats (handleSOCKS5WithReader x reader st ev)) = dialErrors st + 1"
proof -
  assume "0 \<notin> set methods" "length methods < 256"
  moreover from this have "ReadFull (unat (of_nat (length methods) :: byte)) (methods @ rest) = Some (methods, rest)"
    by (intro ReadFull_append') (simp add: unat_length)
  ultimately show "readSOCKSRequest ok (of_nat (length methods) # methods @ rest) = (Inl NoAuth, [[5, 0xFF]])"
    by (simp add: readSOCKSRequest_def ReadByte_def)
next
  assume "atyp \<notin> {1, 3, 4}"
  moreover have "ReadFull 4 ([5, cmd, rsv, atyp] @ rest) = Some ([5, cmd, rsv, atyp], rest)" by (rule ReadFull_append') simp
  ultimately show "readSOCKSHead ([5, cmd, rsv, atyp] @ rest) =
      (Inl (ParseAddr (BadAddrType atyp)), [[5, 8, 0, 1, 0, 0, 0, 0, 0, 0]])"
    by (simp add: readSOCKSHead_def readSOCKSAddr_def sendSOCKSReply_def)
next
  assume "dest_ok dest" "port < 2 ^ 16" "cmd \<noteq> 1"
  then show "readSOCKSHead ([5, cmd, rsv] @ encode_dest dest @ [of_nat (port div 256), of_nat (port mod 256)] @ rest) =
      (Inl (BadCommand cmd), [[5, 7, 0, 1, 0, 0, 0, 0, 0, 0]])"
    using readSOCKSHead_encode by (simp add: sendSOCKSReply_def)
next
  assume "readSOCKSRequest (sx_authOk x) reader = (Inr (target, rest), ws)" "\<not> sx_ctxErr x" "sx_complete x"
    "\<not> isSelfTarget (sx_net x) (sx_listener x) target" "sx_dial x target = Inl err"
  then show "sr_writes (handleSOCKS5WithReader x reader st ev) =
        ws @ [[5, if de_timeout err then 4 else if de_opError err \<and> de_refused err then 5 else 1, 0, 1, 0, 0, 0, 0, 0, 0]] \<and>
      dialErrors (sr_stats (handleSOCKS5WithReader x reader st ev)) = dialErrors st + 1"
    by (simp add: handleSOCKS5WithReader_def sendSOCKSReply_def socksReplyForDialError_def DialError_def)
qed

section \<open>Properties\<close>

text \<open>C30: Round trip: whatever a client encodes by RFC 1928, for an IPv4, IPv6 or domain destination,
  the server decodes to that destination and port; it answers the method offer first and leaves
  every byte behind the request (the client's early data) to the relay.\<close>

theorem socks_request_roundtrip:
  assumes "dest_ok dest" and "port < 2 ^ 16" and "length methods < 256" and "0 \<in> set methods"
  shows "readSOCKSRequest True (encode_request methods 1 rsv dest port @ rest) =
    (Inr (JoinHostPort (dest_host dest) (Itoa (int port)), rest), [[5, 0]])"
proof -
  let ?tail = "[5, 1, rsv] @ encode_dest dest @ [of_nat (port div 256), of_nat (port mod 256)] @ rest"
  have m: "ReadFull (unat (of_nat (length methods) :: byte)) (methods @ ?tail) = Some (methods, ?tail)"
    using assms(3) by (intro ReadFull_append') (simp add: unat_length)
  show ?thesis
    using m assms(4) readSOCKSHead_encode [OF assms(1,2), of 1 rsv rest]
    by (simp add: readSOCKSRequest_def encode_request_def ReadByte_def)
qed

theorem socks_request_roundtrip_witness:
  "readSOCKSRequest True ([2, 2, 0, 5, 1, 0, 3, 2, 0x61, 0x62, 1, 0xBB] @ [0x16]) = (Inr (''ab:443'', [0x16]), [[5, 0]])"
proof -
  have e: "encode_request [2, 0] 1 0 (DestDomain ''ab'') 443 = [2, 2, 0, 5, 1, 0, 3, 2, 0x61, 0x62, 1, 0xBB]"
    by code_simp
  have j: "JoinHostPort ''ab'' (Itoa 443) = ''ab:443''" by code_simp
  show ?thesis
    using socks_request_roundtrip [of "DestDomain ''ab''" 443 "[2, 0]" 0 "[0x16]"] unfolding e by (simp add: j)
qed

text \<open>The decoder never answers from a partial request: when it yields a target it has consumed
  exactly the bytes before the rest, so a request cut anywhere before its end yields an error, and
  bytes behind it never change the target.\<close>

theorem socks_truncated_request_is_error:
  assumes "readSOCKSRequest True r = (Inr (target, []), ws)" and "r = r1 @ r2" and "r2 \<noteq> []"
  shows "\<exists>err ws'. readSOCKSRequest True r1 = (Inl err, ws')"
proof (cases "readSOCKSRequest True r1")
  case (Pair res ws1)
  show ?thesis
  proof (cases res)
    case (Inr x)
    obtain t rest where "x = (t, rest)" by (cases x)
    with Pair Inr have "readSOCKSRequest True (r1 @ r2) = (Inr (t, rest @ r2), ws1)"
      by (auto intro: readSOCKSRequest_more)
    with assms show ?thesis by simp
  qed (use Pair in simp)
qed

theorem socks_truncated_request_is_error_witness:
  "\<exists>err ws'. readSOCKSRequest True [1, 0, 5, 1, 0, 1, 127, 0, 0, 1, 0] = (Inl err, ws')"
proof (rule socks_truncated_request_is_error [of "[1, 0, 5, 1, 0, 1, 127, 0, 0, 1, 0, 80]" "''127.0.0.1:80''" "[[5, 0]]" _ "[80]"])
  show "readSOCKSRequest True [1, 0, 5, 1, 0, 1, 127, 0, 0, 1, 0, 80] = (Inr (''127.0.0.1:80'', []), [[5, 0]])" by code_simp
qed simp_all

text \<open>C31: The client is told of success only for a connection that stands: the success reply is
  written exactly when the request was read in time, its target is not the proxy itself, the dial
  succeeded and the connection passed the self check, was tracked and promoted.  The tunnel runs, with
  the bytes the client already sent, exactly when that reply was written and its write succeeded, and
  exactly then the handler ends without an error: the reply is the last write, the relay's two byte
  counts are added to the statistics and one close event with them is logged.  Otherwise no byte is
  counted and no close event logged.  On every way out the upstream connection is closed and out of
  the server's table.\<close>

theorem socks_success_means_tunnel:
  assumes "handleSOCKS5WithReader x reader st ev = res"
  shows "(sendSOCKSReply 0 \<in> set (sr_writes res) \<longleftrightarrow> \<not> sx_ctxErr x \<and> sx_complete x \<and> sx_track x \<and> sx_begin x \<and>
      (\<exists>target rest ws remote. readSOCKSRequest (sx_authOk x) reader = (Inr (target, rest), ws) \<and>
         \<not> isSelfTarget (sx_net x) (sx_listener x) target \<and> sx_dial x target = Inr remote \<and>
         \<not> isSelfConn (sx_net x) (sx_listener x) remote)) \<and>
    (sr_tunnel res \<noteq> None \<longleftrightarrow> sendSOCKSReply 0 \<in> set (sr_writes res) \<and> sx_replyOk x) \<and>
    (sr_err res = None \<longleftrightarrow> sr_tunnel res \<noteq> None) \<and>
    (\<forall>rest. sr_tunnel res = Some rest \<longrightarrow>
       (\<exists>target ws up down. readSOCKSRequest (sx_authOk x) reader = (Inr (target, rest), ws) \<and> sx_relay x rest = (up, down) \<and>
          sr_writes res = ws @ [sendSOCKSReply 0] \<and>
          sr_stats res = st\<lparr>upBytes := upBytes st + up, downBytes := downBytes st + down\<rparr> \<and>
          sr_events res = Append ev \<lparr>evTime = sx_time x, evKind = ''close'', evProto = ''socks5'', evClient = sx_client x,
            evTarget = target, evUpBytes = up, evDownBytes = down, evDurationMs = sx_ms x, evConnID = sx_connID x\<rparr>)) \<and>
    (sr_tunnel res = None \<longrightarrow> upBytes (sr_stats res) = upBytes st \<and> downBytes (sr_stats res) = downBytes st \<and>
       (sr_events res = ev \<or> (\<exists>target. sr_events res = Append ev (sx_event x ''dial-error'' target 0 0)))) \<and>
    sr_remote res \<noteq> RemoteOpen \<and> \<not> sr_tracked res"
proof -
  have ws: "sendSOCKSReply 0 \<notin> set ws" if "readSOCKSRequest a r = (y, ws)" for a r y ws
    using that by (auto simp: readSOCKSRequest_def readSOCKSHead_def sendSOCKSReply_def
        split: option.splits prod.splits sum.splits if_splits)
  obtain y ws0 where r: "readSOCKSRequest (sx_authOk x) reader = (y, ws0)" by (cases "readSOCKSRequest (sx_authOk x) reader")
  note no = ws [OF r]
  show ?thesis
  proof (cases y)
    case (Inl e)
    then show ?thesis using assms r no by (auto simp: handleSOCKS5WithReader_def)
  next
    case (Inr z)
    obtain target rest where z: "z = (target, rest)" by (cases z)
    show ?thesis
    proof (cases "sx_ctxErr x \<or> \<not> sx_complete x \<or> isSelfTarget (sx_net x) (sx_listener x) target")
      case True
      then show ?thesis using assms r no Inr z
        by (auto simp: handleSOCKS5WithReader_def Let_def sendSOCKSReply_def split: if_splits)
    next
      case False
      show ?thesis
      proof (cases "sx_dial x target")
        case (Inl e)
        then show ?thesis using assms r no Inr z False
          by (auto simp: handleSOCKS5WithReader_def Let_def sendSOCKSReply_def socksReplyForDialError_def DialError_def
              split: if_splits)
      next
        case (Inr remote)
        then show ?thesis using assms r no \<open>y = Inr z\<close> z False
          by (auto simp: handleSOCKS5WithReader_def Let_def socks_connected_def sendSOCKSReply_def close_remote_def
              socks_untrack_def AddUp_def AddDown_def sx_event_def split: if_splits prod.splits)
      qed
    qed
  qed
qed

text \<open>A server whose dials reach the given address, for the witnesses.\<close>

definition socks_env1 :: socks_env where
  "socks_env1 = \<lparr>sx_net = quiet_env, sx_listener = Some (TCPAddr [127, 0, 0, 1] 1080 []), sx_authOk = True,
     sx_ctxErr = False, sx_complete = True, sx_dial = (\<lambda>_. Inr (TCPAddr [10, 0, 0, 9] 80 [])), sx_track = True,
     sx_begin = True, sx_replyOk = True, sx_relay = (\<lambda>rest. (of_nat (length rest), 7)), sx_client = ''c'',
     sx_connID = 1, sx_time = [], sx_ms = 0\<rparr>"

theorem socks_success_means_tunnel_witness:
  "sr_err (handleSOCKS5WithReader socks_env1 [1, 0, 5, 1, 0, 1, 10, 0, 0, 9, 0, 80] (stats_New 0) None) = None \<and>
   sendSOCKSReply 0 \<in> set (sr_writes (handleSOCKS5WithReader socks_env1 [1, 0, 5, 1, 0, 1, 10, 0, 0, 9, 0, 80] (stats_New 0) None))"
proof -
  have "sr_err (handleSOCKS5WithReader socks_env1 [1, 0, 5, 1, 0, 1, 10, 0, 0, 9, 0, 80] (stats_New 0) None) = None"
    by code_simp
  with socks_success_means_tunnel [OF refl, of socks_env1 "[1, 0, 5, 1, 0, 1, 10, 0, 0, 9, 0, 80]" "stats_New 0" None]
  show ?thesis by blast
qed

text \<open>Errors map to replies as the protocol wants: an unsupported address type is answered with
  code 8 before the command is looked at, an unsupported command with 7, an offer without the
  no-authentication method with FF, a refused, timed-out or other failed dial with 5, 4 or 1 and one
  dial error counted.\<close>

theorem socks_error_replies:
  "(0 \<notin> set methods \<and> length methods < 256 \<longrightarrow>
      readSOCKSRequest ok (of_nat (length methods) # methods @ rest) = (Inl NoAuth, [[5, 0xFF]])) \<and>
   (atyp \<notin> {1, 3, 4} \<longrightarrow> readSOCKSHead ([5, cmd, rsv, atyp] @ rest) =
      (Inl (ParseAddr (BadAddrType atyp)), [[5, 8, 0, 1, 0, 0, 0, 0, 0, 0]])) \<and>
   (dest_ok dest \<and> port < 2 ^ 16 \<and> cmd \<noteq> 1 \<longrightarrow>
      readSOCKSHead ([5, cmd, rsv] @ encode_dest dest @ [of_nat (port div 256), of_nat (port mod 256)] @ rest) =
      (Inl (BadCommand cmd), [[5, 7, 0, 1, 0, 0, 0, 0, 0, 0]])) \<and>
   (readSOCKSRequest (sx_authOk x) reader = (Inr (target, rest'), ws) \<and> \<not> sx_ctxErr x \<and> sx_complete x \<and>
      \<not> isSelfTarget (sx_net x) (sx_listener x) target \<and> sx_dial x target = Inl err \<longrightarrow>
      sr_writes (handleSOCKS5WithReader x reader st ev) =
        ws @ [[5, if de_timeout err then 4 else if de_opError err \<and> de_refused err then 5 else 1, 0, 1, 0, 0, 0, 0, 0, 0]] \<and>
      dialErrors (sr_stats (handleSOCKS5WithReader x reader st ev)) = dialErrors st + 1)"
  using socks_error_reply_cases by blast

theorem socks_error_replies_witness:
  "readSOCKSRequest True [1, 2] = (Inl NoAuth, [[5, 0xFF]]) \<and>
   readSOCKSHead [5, 1, 0, 9] = (Inl (ParseAddr (BadAddrType 9)), [[5, 8, 0, 1, 0, 0, 0, 0, 0, 0]])"
  using socks_error_replies [of "[2]" True "[]" 9 1 0 "DestV4 1 2 3 4" 80 socks_env1] by simp

end
