(* ===== verification/Http_Proxy.thy ===== *)
theory Http_Proxy
  imports Stats_Model Self_Target
begin

text \<open>
  The HTTP side of the proxy, internal/proxy/http.go: the bounded reading of a message head, the
  headers a proxy must not forward, the replay of a response head, and the CONNECT and plain
  handlers.  Go's \<open>http.Header\<close> is a function from canonical names to their values (the empty list
  when absent); \<open>http.ReadRequest\<close> and \<open>http.ReadResponse\<close> are library calls whose parsed results
  are inputs.
\<close>

section \<open>net/http headers\<close>

type_synonym header = "string \<Rightarrow> string list"

definition is_token_char :: "char \<Rightarrow> bool" where
  "is_token_char c = (let n = of_char c :: nat in
     (48 \<le> n \<and> n \<le> 57) \<or> (65 \<le> n \<and> n \<le> 90) \<or> (97 \<le> n \<and> n \<le> 122) \<or>
     c \<in> set ''!#$%&*+-.^_`|~'' \<or> n = 39)"

fun canonical_chars :: "bool \<Rightarrow> string \<Rightarrow> string" where
  "canonical_chars up [] = []"
| "canonical_chars up (c # cs) =
     (if up then upper_char c else lower_char c) # canonical_chars (c = CHR ''-'') cs"

text \<open>\<open>CanonicalMIMEHeaderKey\<close>: a name with a byte that cannot be in one is left alone.\<close>

definition CanonicalKey :: "string \<Rightarrow> string" where
  "CanonicalKey k = (if list_all is_token_char k then canonical_chars True k else k)"

definition Header_Values :: "header \<Rightarrow> string \<Rightarrow> string list" where
  "Header_Values h k = h (CanonicalKey k)"

definition Header_Del :: "string \<Rightarrow> header \<Rightarrow> header" where
  "Header_Del k h = h(CanonicalKey k := [])"

definition Header_Add :: "string \<Rightarrow> string \<Rightarrow> header \<Rightarrow> header" where
  "Header_Add k v h = h(CanonicalKey k := h (CanonicalKey k) @ [v])"

definition Header_Set :: "string \<Rightarrow> string \<Rightarrow> header \<Rightarrow> header" where
  "Header_Set k v h = h(CanonicalKey k := [v])"

text \<open>\<open>textproto.TrimString\<close>.\<close>

definition is_mime_space :: "char \<Rightarrow> bool" where
  "is_mime_space c \<longleftrightarrow> c \<in> {CHR '' '', CHR 0x09, CHR 0x0A, CHR 0x0D}"

definition TrimString :: "string \<Rightarrow> string" where
  "TrimString s = trim_both is_mime_space s"

section \<open>Hop-by-hop headers\<close>

definition connectionOptionNames :: "header \<Rightarrow> string list" where
  "connectionOptionNames h =
     concat (map (\<lambda>value. filter (\<lambda>k. k \<noteq> []) (map TrimString (SplitByte CHR '','' value)))
       (Header_Values h ''Connection''))"

definition hopByHopHeaders :: "string list" where
  "hopByHopHeaders = [''Connection'', ''Proxy-Connection'', ''Keep-Alive'', ''Proxy-Authenticate'',
     ''Proxy-Authorization'', ''Te'', ''Trailer'', ''Transfer-Encoding'', ''Upgrade'']"

definition del_keys :: "string list \<Rightarrow> header \<Rightarrow> header" where
  "del_keys ks h = fold Header_Del ks h"

definition stripHopByHopHeaders :: "header \<Rightarrow> header" where
  "stripHopByHopHeaders h = del_keys hopByHopHeaders (del_keys (connectionOptionNames h) h)"

definition filterTrailers :: "string list \<Rightarrow> header \<Rightarrow> header" where
  "filterTrailers connectionOptions trailer = stripHopByHopHeaders (del_keys connectionOptions trailer)"

definition isUpgradeRequest :: "header \<Rightarrow> bool" where
  "isUpgradeRequest h =
     (if \<not> list_ex (\<lambda>value. TrimSpace value \<noteq> []) (Header_Values h ''Upgrade'') then False
      else list_ex (\<lambda>option. EqualFold option ''upgrade'') (connectionOptionNames h))"

definition appendVia :: "int \<Rightarrow> int \<Rightarrow> header \<Rightarrow> header" where
  "appendVia major minor h = Header_Add ''Via'' (Itoa major @ ''.'' @ Itoa minor @ '' portmap'') h"

text \<open>\<open>splitHeaderList\<close>: the members between commas outside quoted strings.  The state is the
  member so far (reversed) and the two flags.\<close>

fun split_list_from :: "string \<Rightarrow> bool \<Rightarrow> bool \<Rightarrow> string \<Rightarrow> string list" where
  "split_list_from cur quoted escaped [] = [TrimString (rev cur)]"
| "split_list_from cur quoted escaped (c # cs) =
     (if escaped then split_list_from (c # cur) quoted False cs
      else if quoted \<and> c = CHR 0x5C then split_list_from (c # cur) quoted True cs
      else if c = CHR 0x22 then split_list_from (c # cur) (\<not> quoted) False cs
      else if c = CHR '','' \<and> \<not> quoted then TrimString (rev cur) # split_list_from [] quoted False cs
      else split_list_from (c # cur) quoted False cs)"

definition splitHeaderList :: "string \<Rightarrow> string list" where
  "splitHeaderList value = split_list_from [] False False value"

text \<open>One value in \<open>removeHeaderToken\<close>: whether the token was met, and the members kept.\<close>

definition kept_tokens :: "string \<Rightarrow> string \<Rightarrow> bool \<times> string list" where
  "kept_tokens want value =
     (let toks = filter (\<lambda>t. t \<noteq> []) (map TrimString (splitHeaderList value)) in
      (list_ex (\<lambda>t. EqualFold t want) toks, filter (\<lambda>t. \<not> EqualFold t want) toks))"

definition removeHeaderToken :: "header \<Rightarrow> string \<Rightarrow> string \<Rightarrow> bool \<times> header" where
  "removeHeaderToken h name want =
     (let rs = map (kept_tokens want) (Header_Values h name);
          keptValues = map (\<lambda>r. Join (snd r) '', '') (filter (\<lambda>r. snd r \<noteq> []) rs) in
      if \<not> list_ex fst rs then (False, h)
      else (True, fold (Header_Add name) keptValues (Header_Del name h)))"

definition requestCanContinue :: "int \<Rightarrow> int \<Rightarrow> bool \<Rightarrow> bool" where
  "requestCanContinue major minor hasBody \<longleftrightarrow> (major > 1 \<or> (major = 1 \<and> minor \<ge> 1)) \<and> hasBody"

fun contains_pair :: "char \<Rightarrow> char \<Rightarrow> string \<Rightarrow> bool" where
  "contains_pair a b (x # y # s) = ((x = a \<and> y = b) \<or> contains_pair a b (y # s))"
| "contains_pair a b _ = False"

definition last_index :: "char \<Rightarrow> string \<Rightarrow> int" where
  "last_index c s = (case LastIndexByte c s of None \<Rightarrow> - 1 | Some i \<Rightarrow> int i)"

definition hasPort :: "string \<Rightarrow> bool" where
  "hasPort host =
     (if host = [] then False
      else if take 1 host = ''['' then contains_pair CHR '']'' CHR '':'' host
      else last_index CHR '':'' host > last_index CHR '']'' host)"

section \<open>Reading a message head\<close>

text \<open>\<open>bufio.Reader.ReadSlice('\n')\<close> with a buffer of \<open>buf\<close> bytes: a line, a full buffer, or what is
  left before the end of the stream.\<close>

datatype slice_err = SliceOk | ErrBufferFull | SliceEOF

definition LF :: char where "LF = CHR 0x0A"
definition CR :: char where "CR = CHR 0x0D"

definition ReadSlice :: "nat \<Rightarrow> string \<Rightarrow> string \<times> slice_err \<times> string" where
  "ReadSlice buf r =
     (case IndexByte LF (take buf r) of
        Some i \<Rightarrow> (take (Suc i) r, SliceOk, drop (Suc i) r)
      | None \<Rightarrow> if length r \<ge> buf then (take buf r, ErrBufferFull, drop buf r) else (r, SliceEOF, []))"

datatype head_err = HeadTooLarge | HeadRead

lemma ReadSlice_shorter:
  "ReadSlice buf r = (fragment, e, r') \<Longrightarrow> e \<noteq> SliceEOF \<Longrightarrow> 0 < buf \<Longrightarrow> fragment @ r' = r \<and> fragment \<noteq> []"
  by (auto simp: ReadSlice_def split: option.splits if_splits)

lemma ReadSlice_decr:
  "(fragment, e, r') = ReadSlice buf r \<Longrightarrow> 0 < buf \<Longrightarrow> e = SliceOk \<or> e = ErrBufferFull \<Longrightarrow> length r' < length r"
  using ReadSlice_shorter [of buf r fragment e r'] by auto

text \<open>The loop of \<open>readRequestHead\<close> and \<open>readResponseHead\<close>; a buffer without room cannot read.\<close>

function head_loop :: "nat \<Rightarrow> nat \<Rightarrow> string \<Rightarrow> bool \<Rightarrow> string \<Rightarrow> head_err + (string \<times> string)" where
  "head_loop max' buf head continuedLine r =
     (if buf = 0 then Inl HeadRead
      else (case ReadSlice buf r of
        (fragment, e, r') \<Rightarrow>
          if length head + length fragment > max' then Inl HeadTooLarge
          else
            (case e of
               ErrBufferFull \<Rightarrow> head_loop max' buf (head @ fragment) True r'
             | SliceEOF \<Rightarrow> Inl HeadRead
             | SliceOk \<Rightarrow>
                 if \<not> continuedLine \<and> (fragment = [CR, LF] \<or> fragment = [LF]) then Inr (head @ fragment, r')
                 else head_loop max' buf (head @ fragment) False r')))"
  by pat_completeness auto
termination
  by (relation "measure (\<lambda>(_, _, _, _, r). length r)") (auto intro: ReadSlice_decr)

declare head_loop.simps [simp del]

definition readRequestHead :: "nat \<Rightarrow> string \<Rightarrow> head_err + (string \<times> string)" where
  "readRequestHead buf r = head_loop (2 ^ 20) buf [] False r"

definition readResponseHead :: "nat \<Rightarrow> string \<Rightarrow> head_err + (string \<times> string)" where
  "readResponseHead buf r = head_loop (10 * 2 ^ 20) buf [] False r"

text \<open>What the loop is for: the stream up to and with its first blank line.\<close>

fun cut_blank :: "string \<Rightarrow> string \<Rightarrow> string \<Rightarrow> (string \<times> string) option" where
  "cut_blank head line [] = None"
| "cut_blank head line (c # r) =
     (if c = LF then
        (if line = [CR] \<or> line = [] then Some (head @ line @ [LF], r) else cut_blank (head @ line @ [LF]) [] r)
      else cut_blank head (line @ [c]) r)"

definition head_spec :: "nat \<Rightarrow> string \<Rightarrow> head_err + (string \<times> string)" where
  "head_spec max' r =
     (case cut_blank [] [] r of
        Some (head, rest) \<Rightarrow> if length head > max' then Inl HeadTooLarge else Inr (head, rest)
      | None \<Rightarrow> if length r > max' then Inl HeadTooLarge else Inl HeadRead)"


subsection \<open>The loop meets its specification\<close>

lemma cut_blank_skip: "LF \<notin> set f \<Longrightarrow> cut_blank h cur (f @ r) = cut_blank h (cur @ f) r"
  by (induction f arbitrary: cur) auto

lemma cut_blank_parts: "cut_blank h cur r = Some (hd', rest) \<Longrightarrow> \<exists>u. hd' = h @ cur @ u \<and> h @ cur @ r = hd' @ rest"
  by (induction h cur r rule: cut_blank.induct) (auto split: if_splits)

lemma cut_blank_length:
  "cut_blank h cur r = Some (hd', rest) \<Longrightarrow> length h + length cur \<le> length hd'"
  using cut_blank_parts by fastforce

definition head_result :: "nat \<Rightarrow> nat \<Rightarrow> (string \<times> string) option \<Rightarrow> head_err + (string \<times> string)" where
  "head_result max' n res =
     (case res of
        Some (head, rest) \<Rightarrow> if length head > max' then Inl HeadTooLarge else Inr (head, rest)
      | None \<Rightarrow> if n > max' then Inl HeadTooLarge else Inl HeadRead)"

lemma head_result_large:
  "(\<And>hd' rest. res = Some (hd', rest) \<Longrightarrow> m \<le> length hd') \<Longrightarrow> m \<le> n \<Longrightarrow> max' < m \<Longrightarrow>
   head_result max' n res = Inl HeadTooLarge"
  by (cases res) (fastforce simp: head_result_def split: prod.splits)+

lemma IndexByte_Some: "IndexByte c xs = Some i \<Longrightarrow> i < length xs \<and> xs ! i = c \<and> c \<notin> set (take i xs)"
  by (induction xs arbitrary: i) (auto split: if_splits simp: nth_Cons' take_Cons')

lemma IndexByte_None_iff: "IndexByte c xs = None \<longleftrightarrow> c \<notin> set xs"
  by (induction xs) auto

lemma ReadSlice_line:
  assumes "ReadSlice buf r = (f, SliceOk, r')"
  obtains g where "f = g @ [LF]" "LF \<notin> set g" "r = g @ LF # r'"
proof -
  from assms obtain i where i: "IndexByte LF (take buf r) = Some i" "f = take (Suc i) r" "r' = drop (Suc i) r"
    by (auto simp: ReadSlice_def split: option.splits if_splits)
  from IndexByte_Some [OF i(1)] have l: "i < length r" "i < buf" "r ! i = LF" "LF \<notin> set (take i r)"
    by (auto simp: min_def split: if_splits)
  then have "f = take i r @ [LF]" "r = take i r @ LF # r'"
    using i(2,3) id_take_nth_drop [OF l(1)] by (simp_all add: take_Suc_conv_app_nth)
  with l(4) that show thesis by blast
qed

lemma ReadSlice_full:
  "ReadSlice buf r = (f, ErrBufferFull, r') \<Longrightarrow> LF \<notin> set f \<and> length f = buf \<and> r = f @ r'"
  by (auto simp: ReadSlice_def IndexByte_None_iff split: option.splits if_splits)

lemma ReadSlice_eof: "ReadSlice buf r = (f, SliceEOF, r') \<Longrightarrow> LF \<notin> set r \<and> f = r"
  by (auto simp: ReadSlice_def IndexByte_None_iff split: option.splits if_splits)

text \<open>One round of the loop after each outcome of \<open>ReadSlice\<close>; the rest of the loop is the hypothesis.\<close>

lemma head_loop_line:
  assumes s: "ReadSlice buf r = (f, SliceOk, r')" and b: "0 < buf"
    and inv: "cont \<longleftrightarrow> cur \<noteq> []" "cur \<noteq> [] \<Longrightarrow> 2 \<le> length cur"
    and ih: "length r' < length r \<Longrightarrow> head_loop max' buf ((h @ cur @ f) @ []) False r' =
      head_result max' (length ((h @ cur @ f) @ [] @ r')) (cut_blank (h @ cur @ f) [] r')"
  shows "head_loop max' buf (h @ cur) cont r = head_result max' (length (h @ cur @ r)) (cut_blank h cur r)"
proof -
  from s obtain g where g: "f = g @ [LF]" "LF \<notin> set g" "r = g @ LF # r'" by (auto elim: ReadSlice_line)
  have cut: "cut_blank h cur r =
      (if cur @ g = [CR] \<or> cur @ g = [] then Some (h @ cur @ g @ [LF], r') else cut_blank (h @ cur @ g @ [LF]) [] r')"
    using g(2,3) by (simp add: cut_blank_skip)
  have ends: "\<not> cont \<and> (f = [CR, LF] \<or> f = [LF]) \<longleftrightarrow> cur @ g = [CR] \<or> cur @ g = []"
    using inv g(1) by (cases cur; cases "tl cur") auto
  have len: "length (h @ cur @ r) = length (h @ cur) + length f + length r'" using g by simp
  consider (large) "length (h @ cur) + length f > max'"
    | (blank) "\<not> length (h @ cur) + length f > max'" "cur @ g = [CR] \<or> cur @ g = []"
    | (line) "\<not> length (h @ cur) + length f > max'" "\<not> (cur @ g = [CR] \<or> cur @ g = [])" by blast
  then show ?thesis
  proof cases
    case large
    have "head_result max' (length (h @ cur @ r)) (cut_blank h cur r) = Inl HeadTooLarge"
      by (rule head_result_large [OF _ _ large])
        (use g(1) len in \<open>auto simp: cut split: if_splits dest!: cut_blank_length\<close>)
    then show ?thesis using large s b by (subst head_loop.simps) simp
  next
    case blank
    then show ?thesis using s b ends cut g(1)
      by (subst head_loop.simps) (auto simp: head_result_def)
  next
    case line
    have "head_loop max' buf (h @ cur) cont r = head_loop max' buf ((h @ cur) @ f) False r'"
      using line s b ends by (subst head_loop.simps) auto
    moreover have "cut_blank h cur r = cut_blank (h @ cur @ g @ [LF]) [] r'" using line cut by auto
    ultimately show ?thesis using ih g by simp
  qed
qed

lemma head_loop_full:
  assumes s: "ReadSlice buf r = (f, ErrBufferFull, r')" and b: "0 < buf"
    and ih: "head_loop max' buf (h @ (cur @ f)) True r' =
      head_result max' (length (h @ (cur @ f) @ r')) (cut_blank h (cur @ f) r')"
  shows "head_loop max' buf (h @ cur) cont r = head_result max' (length (h @ cur @ r)) (cut_blank h cur r)"
proof -
  from ReadSlice_full s have f: "LF \<notin> set f" "r = f @ r'" by auto
  have cut: "cut_blank h cur r = cut_blank h (cur @ f) r'" using f by (simp add: cut_blank_skip)
  show ?thesis
  proof (cases "length (h @ cur) + length f > max'")
    case True
    have "head_result max' (length (h @ cur @ r)) (cut_blank h cur r) = Inl HeadTooLarge"
      using cut_blank_length [of h "cur @ f" r'] f(2)
      by (intro head_result_large [OF _ _ True]) (auto simp: cut [unfolded f(2)])
    then show ?thesis using True s b by (subst head_loop.simps) simp
  next
    case False
    then show ?thesis using s b cut f(2) ih by (subst head_loop.simps) simp
  qed
qed

lemma head_loop_correct:
  assumes "2 \<le> buf" and "cont \<longleftrightarrow> cur \<noteq> []" and "cur \<noteq> [] \<Longrightarrow> 2 \<le> length cur"
  shows "head_loop max' buf (h @ cur) cont r = head_result max' (length (h @ cur @ r)) (cut_blank h cur r)"
  using assms(2,3)
proof (induction "length r" arbitrary: h cur cont r rule: less_induct)
  case less
  obtain f e r' where s: "ReadSlice buf r = (f, e, r')" by (cases "ReadSlice buf r")
  have b: "0 < buf" using assms(1) by simp
  show ?case
  proof (cases e)
    case SliceOk
    show ?thesis
      by (rule head_loop_line [OF s [unfolded SliceOk] b less.prems], assumption) (rule less.hyps, simp_all)
  next
    case ErrBufferFull
    from ReadSlice_full s ErrBufferFull have f: "length f = buf" by auto
    show ?thesis
      by (rule head_loop_full [OF s [unfolded ErrBufferFull] b], rule less.hyps)
        (use ReadSlice_decr [OF s [symmetric] b] ErrBufferFull f assms(1) in auto)
  next
    case SliceEOF
    from ReadSlice_eof s SliceEOF have f: "LF \<notin> set r" "f = r" by auto
    have "cut_blank h cur r = None" using cut_blank_skip [OF f(1), of h cur "[]"] by simp
    then show ?thesis using s SliceEOF b f(2) by (subst head_loop.simps) (simp add: head_result_def)
  qed
qed

lemma head_loop_spec: "2 \<le> buf \<Longrightarrow> head_loop max' buf [] False r = head_spec max' r"
  using head_loop_correct [of buf False "[]" max' "[]" r] by (simp add: head_spec_def head_result_def)

section \<open>Replaying a response head\<close>

text \<open>\<open>replayReader\<close>: the bytes put back, before the source.\<close>

record replay =
  rp_prefix :: string
  rp_source :: string

text \<open>\<open>Read\<close> into a buffer of \<open>n\<close> bytes; when the prefix is used up, the source decides how many
  (\<open>k\<close>) of its bytes it delivers.\<close>

definition replay_Read :: "nat \<Rightarrow> nat \<Rightarrow> replay \<Rightarrow> string \<times> replay" where
  "replay_Read n k r =
     (if rp_prefix r \<noteq> [] then (take n (rp_prefix r), r\<lparr>rp_prefix := drop n (rp_prefix r)\<rparr>)
      else (take (min n k) (rp_source r), r\<lparr>rp_source := drop (min n k) (rp_source r)\<rparr>))"

definition replay_prepend :: "string list \<Rightarrow> replay \<Rightarrow> replay" where
  "replay_prepend parts r = r\<lparr>rp_prefix := concat parts @ rp_prefix r\<rparr>"

text \<open>The bufio reader over it: what it has fetched and not handed out.  \<open>response_rewind\<close> is the
  part of \<open>proxyResponseReader.read\<close> between the reading of the head and \<open>http.ReadResponse\<close>.\<close>

record response_reader =
  rr_buffered :: string
  rr_replay :: replay

definition rr_stream :: "response_reader \<Rightarrow> string" where
  "rr_stream r = rr_buffered r @ rp_prefix (rr_replay r) @ rp_source (rr_replay r)"

definition rr_fill :: "nat \<Rightarrow> nat \<Rightarrow> response_reader \<Rightarrow> response_reader" where
  "rr_fill n k r = (case replay_Read n k (rr_replay r) of (bs, rp) \<Rightarrow>
     r\<lparr>rr_buffered := rr_buffered r @ bs, rr_replay := rp\<rparr>)"

definition rr_consume :: "nat \<Rightarrow> response_reader \<Rightarrow> response_reader" where
  "rr_consume n r = r\<lparr>rr_buffered := drop n (rr_buffered r)\<rparr>"

definition response_rewind :: "string \<Rightarrow> response_reader \<Rightarrow> response_reader" where
  "response_rewind head r = \<lparr>rr_buffered = [], rr_replay = replay_prepend [head, rr_buffered r] (rr_replay r)\<rparr>"

lemma rr_fill_stream [simp]: "rr_stream (rr_fill n k r) = rr_stream r"
  by (auto simp: rr_stream_def rr_fill_def replay_Read_def)

lemma rr_rewind_stream: "rr_stream (response_rewind head r) = head @ rr_stream r"
  by (simp add: rr_stream_def response_rewind_def replay_prepend_def)


section \<open>The handlers\<close>

text \<open>What a handler meets on its way: the checks of the server, the dial, and the writes.\<close>

record http_env =
  hx_net :: net_env
  hx_listener :: "net_addr option"
  hx_ctxErr :: bool
  hx_complete :: bool
  hx_dial :: "string \<Rightarrow> string + net_addr"
  hx_track :: bool
  hx_begin :: bool
  hx_replyOk :: bool
  hx_relay :: "i64 \<times> i64"
  hx_client :: string
  hx_connID :: i64
  hx_time :: string
  hx_ms :: int

record http_request =
  rq_method :: string
  rq_host :: string
  rq_urlHost :: string
  rq_major :: int
  rq_minor :: int
  rq_header :: header
  rq_hasBody :: bool
  rq_trailer :: header

datatype client_write = StatusLine nat | Established | Continue100

datatype http_err =
    ParseFailed | HxCtxErr | UpgradeUnsupported | HxCanceled | HxSelfTarget string | HxDial string
  | ReplyFailed | ForwardFailed | RelayFailed

text \<open>What becomes of the upstream connection: none was made, it is open, it is closed; whether it is
  still in the server's table; and the header of the request that was sent on it.\<close>

datatype upstream_fate = UpNone | UpOpen | UpClosed

record http_result =
  hr_err :: "http_err option"
  hr_writes :: "client_write list"
  hr_stats :: Counters
  hr_events :: "EventLog option"
  hr_up :: upstream_fate
  hr_tracked :: bool
  hr_sent :: "header option"

definition close_up :: "http_result \<Rightarrow> http_result" where
  "close_up res = res\<lparr>hr_up := UpClosed\<rparr>"

definition untrack_up :: "http_result \<Rightarrow> http_result" where
  "untrack_up res = res\<lparr>hr_tracked := False\<rparr>"

definition hx_event :: "http_env \<Rightarrow> string \<Rightarrow> string \<Rightarrow> i64 \<Rightarrow> i64 \<Rightarrow> Event" where
  "hx_event x kind target up down =
     \<lparr>evTime = hx_time x, evKind = kind, evProto = ''http'', evClient = hx_client x, evTarget = target,
      evUpBytes = up, evDownBytes = down, evDurationMs = (if kind = ''close'' then hx_ms x else 0),
      evConnID = hx_connID x\<rparr>"

text \<open>The common way of both handlers to a promoted upstream connection, then \<open>k\<close>, which leaves the
  connection open; the two deferred calls run on every exit behind them, the close first.\<close>

definition dial_and_promote :: "http_env \<Rightarrow> string \<Rightarrow> Counters \<Rightarrow> EventLog option \<Rightarrow>
    (Counters \<Rightarrow> EventLog option \<Rightarrow> http_result option) \<Rightarrow> http_result option" where
  "dial_and_promote x target st ev k =
     (let res = (\<lambda>err ws st' ev' fate tracked.
            \<lparr>hr_err = Some err, hr_writes = ws, hr_stats = st', hr_events = ev', hr_up = fate, hr_tracked = tracked,
             hr_sent = None\<rparr>) in
      if isSelfTarget (hx_net x) (hx_listener x) target
      then Some (res (HxSelfTarget target) [StatusLine 508] st ev UpNone False)
      else (case hx_dial x target of
              Inl _ \<Rightarrow> Some (res (HxDial target) [StatusLine 502] (DialError st)
                         (Append ev (hx_event x ''dial-error'' target 0 0)) UpNone False)
            | Inr remote \<Rightarrow>
                if isSelfConn (hx_net x) (hx_listener x) remote
                then Some (close_up (res (HxSelfTarget target) [StatusLine 508] st ev UpOpen False))
                else if \<not> hx_track x then Some (close_up (res HxCanceled [] st ev UpOpen False))
                else map_option (\<lambda>r. untrack_up (close_up r))
                  (if \<not> hx_begin x then Some (res HxCanceled [] st ev UpOpen True) else k st ev)))"

definition connect_target :: "http_request \<Rightarrow> string" where
  "connect_target req = (if hasPort (rq_host req) then rq_host req else JoinHostPort (rq_host req) ''443'')"

definition handleConnect :: "http_env \<Rightarrow> http_request \<Rightarrow> Counters \<Rightarrow> EventLog option \<Rightarrow> http_result option" where
  "handleConnect x req st ev =
     (let target = connect_target req in
      dial_and_promote x target st ev (\<lambda>st ev.
        if \<not> hx_replyOk x
        then Some \<lparr>hr_err = Some ReplyFailed, hr_writes = [Established], hr_stats = st, hr_events = ev, hr_up = UpOpen,
               hr_tracked = True, hr_sent = None\<rparr>
        else (case hx_relay x of
                (up, down) \<Rightarrow>
                  Some \<lparr>hr_err = None, hr_writes = [Established], hr_stats = AddDown (AddUp st up) down,
                   hr_events = Append ev (hx_event x ''close'' target up down), hr_up = UpOpen, hr_tracked = True,
                   hr_sent = None\<rparr>)))"

definition plain_host :: "http_request \<Rightarrow> string" where
  "plain_host req =
     (let host = (if rq_host req = [] then rq_urlHost req else rq_host req) in
      if hasPort host then host else JoinHostPort host ''80'')"

text \<open>The request as it is forwarded: its header and trailer; then the expectation, which the proxy
  answers itself and takes out of the header.\<close>

definition rewrite_request :: "http_request \<Rightarrow> header \<times> header" where
  "rewrite_request req =
     (let opts = connectionOptionNames (rq_header req) in
      (Header_Set ''Connection'' ''close''
         (appendVia (rq_major req) (rq_minor req) (stripHopByHopHeaders (rq_header req))),
       filterTrailers opts (rq_trailer req)))"

definition expect_step :: "http_request \<Rightarrow> header \<Rightarrow> bool \<times> header" where
  "expect_step req h =
     (if requestCanContinue (rq_major req) (rq_minor req) (rq_hasBody req)
      then removeHeaderToken h ''Expect'' ''100-continue'' else (False, h))"

text \<open>Whether the client is told to continue, and the header and trailer that are sent.\<close>

definition forwarded_request :: "http_request \<Rightarrow> bool \<times> header \<times> header" where
  "forwarded_request req =
     (case rewrite_request req of (h, t) \<Rightarrow> (case expect_step req h of (cont, h') \<Rightarrow> (cont, h', t)))"

text \<open>One response read from the upstream: the options of the raw Connection header (which
  \<open>http.ReadResponse\<close> may have dropped), the parsed header and trailer, and what writing it to the
  client comes to.\<close>

record http_response =
  rs_status :: int
  rs_options :: "string list"
  rs_major :: int
  rs_minor :: int
  rs_header :: header
  rs_trailer :: header
  rs_written :: i64
  rs_writeErr :: bool

datatype response_read = ResponseErr | ResponseRead http_response

definition informational :: "int \<Rightarrow> bool" where
  "informational status \<longleftrightarrow> status \<ge> 100 \<and> status < 200 \<and> status \<noteq> 101"

text \<open>The response as it is forwarded: status, header, trailer and the \<open>Close\<close> flag.\<close>

definition rewrite_response :: "http_response \<Rightarrow> int \<times> header \<times> header \<times> bool" where
  "rewrite_response r =
     (let h = appendVia (rs_major r) (rs_minor r) (stripHopByHopHeaders (del_keys (rs_options r) (rs_header r)));
          t = filterTrailers (rs_options r) (rs_trailer r) in
      if informational (rs_status r) then (rs_status r, h, t, False)
      else (rs_status r, Header_Set ''Connection'' ''close'' h, t, True))"

text \<open>\<open>relayHTTPResponses\<close>: the error, the down counter, and what was forwarded.  \<open>None\<close>: it still
  waits for the upstream.\<close>

fun relayHTTPResponses :: "response_read list \<Rightarrow> i64 \<Rightarrow> (bool \<times> i64 \<times> (int \<times> header \<times> header \<times> bool) list) option" where
  "relayHTTPResponses [] down = None"
| "relayHTTPResponses (ResponseErr # rs) down = Some (True, down, [])"
| "relayHTTPResponses (ResponseRead r # rs) down =
     (let down' = down + rs_written r in
      if rs_writeErr r then Some (True, down', [rewrite_response r])
      else if \<not> informational (rs_status r) then Some (False, down', [rewrite_response r])
      else map_option (\<lambda>(e, d, out). (e, d, rewrite_response r # out)) (relayHTTPResponses rs down'))"

text \<open>What forwarding meets: the write of the interim reply, of the request, and the responses.\<close>

record plain_io =
  pi_continue :: "i64 \<times> bool"
  pi_request :: "i64 \<times> bool"
  pi_responses :: "response_read list"

definition forward_plain :: "http_env \<Rightarrow> plain_io \<Rightarrow> http_request \<Rightarrow> string \<Rightarrow> Counters \<Rightarrow> EventLog option \<Rightarrow> http_result option" where
  "forward_plain x io req host st ev =
     (case forwarded_request req of
        (cont, header, trailer) \<Rightarrow>
          (let ws = (if cont then [Continue100] else []);
               down0 = (if cont then fst (pi_continue io) else 0);
               up = fst (pi_request io);
               res = (\<lambda>err st' sent. Some \<lparr>hr_err = Some err, hr_writes = ws, hr_stats = st', hr_events = ev,
                        hr_up = UpOpen, hr_tracked = True, hr_sent = sent\<rparr>) in
           if cont \<and> \<not> snd (pi_continue io) then res RelayFailed (AddDown st down0) None
           else if \<not> snd (pi_request io) then res ForwardFailed (AddDown (AddUp st up) down0) (Some header)
           else
             (case relayHTTPResponses (pi_responses io) down0 of
                None \<Rightarrow> None
              | Some (True, down, out) \<Rightarrow> res RelayFailed (AddDown (AddUp st up) down) (Some header)
              | Some (False, down, out) \<Rightarrow>
                  Some \<lparr>hr_err = None, hr_writes = ws, hr_stats = AddDown (AddUp st up) down,
                    hr_events = Append ev (hx_event x ''close'' host up down), hr_up = UpOpen, hr_tracked = True,
                    hr_sent = Some header\<rparr>)))"

definition handlePlainHTTP :: "http_env \<Rightarrow> plain_io \<Rightarrow> http_request \<Rightarrow> Counters \<Rightarrow> EventLog option \<Rightarrow> http_result option" where
  "handlePlainHTTP x io req st ev =
     dial_and_promote x (plain_host req) st ev (forward_plain x io req (plain_host req))"

definition handleHTTP :: "http_env \<Rightarrow> plain_io \<Rightarrow> head_err + http_request option \<Rightarrow> Counters \<Rightarrow> EventLog option \<Rightarrow> http_result option" where
  "handleHTTP x io parsed st ev =
     (let res = (\<lambda>err ws. Some \<lparr>hr_err = Some err, hr_writes = ws, hr_stats = st, hr_events = ev, hr_up = UpNone,
                   hr_tracked = False, hr_sent = None\<rparr>) in
      case parsed of
        Inl HeadTooLarge \<Rightarrow> res ParseFailed [StatusLine 431]
      | Inl HeadRead \<Rightarrow> res ParseFailed []
      | Inr None \<Rightarrow> res ParseFailed []
      | Inr (Some req) \<Rightarrow>
          if hx_ctxErr x then res HxCtxErr []
          else if isUpgradeRequest (rq_header req) then res UpgradeUnsupported [StatusLine 501]
          else if \<not> hx_complete x then res HxCanceled []
          else if rq_method req = ''CONNECT'' then handleConnect x req st ev
          else handlePlainHTTP x io req st ev)"


section \<open>Lemmas\<close>

lemma Header_Del_apply: "Header_Del k h x = (if x = CanonicalKey k then [] else h x)"
  by (simp add: Header_Del_def)

lemma del_keys_apply: "del_keys ks h x = (if x \<in> CanonicalKey ` set ks then [] else h x)"
  unfolding del_keys_def by (induction ks arbitrary: h) (auto simp: Header_Del_apply)

lemma canonical_hop: "map CanonicalKey hopByHopHeaders = hopByHopHeaders"
  by code_simp

lemma canonical_names [simp]: "CanonicalKey ''Via'' = ''Via''" "CanonicalKey ''Connection'' = ''Connection''"
  by code_simp+

definition hop_by_hop :: "header \<Rightarrow> string list \<Rightarrow> string \<Rightarrow> bool" where
  "hop_by_hop h extra x \<longleftrightarrow> x \<in> set hopByHopHeaders \<or> x \<in> CanonicalKey ` set (connectionOptionNames h) \<or>
     x \<in> CanonicalKey ` set extra"

lemma strip_apply: "stripHopByHopHeaders h x = (if hop_by_hop h [] x then [] else h x)"
proof -
  have "CanonicalKey ` set hopByHopHeaders = set hopByHopHeaders"
    using arg_cong [OF canonical_hop, of set] by simp
  then show ?thesis by (auto simp: stripHopByHopHeaders_def del_keys_apply hop_by_hop_def)
qed

lemma options_after_del:
  "connectionOptionNames (del_keys ks h) = (if ''Connection'' \<in> CanonicalKey ` set ks then [] else connectionOptionNames h)"
  by (simp add: connectionOptionNames_def Header_Values_def del_keys_apply)

lemma strip_after_del:
  "''Connection'' \<notin> CanonicalKey ` set ks \<Longrightarrow>
   stripHopByHopHeaders (del_keys ks h) x = (if hop_by_hop h ks x then [] else h x)"
  by (auto simp: strip_apply hop_by_hop_def options_after_del del_keys_apply)

lemma connection_is_hop [simp]: "hop_by_hop h ks ''Connection''"
  by (simp add: hop_by_hop_def hopByHopHeaders_def)

lemma via_not_hop: "''Via'' \<notin> set hopByHopHeaders"
  by (simp add: hopByHopHeaders_def)

text \<open>What a proxy must do to the fields, on its own terms: the hop-by-hop fields by name, those a
  Connection header names between its commas, and the members of an expectation.\<close>

definition rfc_hop_by_hop :: "string set" where
  "rfc_hop_by_hop = {''Connection'', ''Proxy-Connection'', ''Keep-Alive'', ''Proxy-Authenticate'', ''Proxy-Authorization'',
     ''Te'', ''Trailer'', ''Transfer-Encoding'', ''Upgrade''}"

definition named_by_connection :: "header \<Rightarrow> string \<Rightarrow> bool" where
  "named_by_connection h x \<longleftrightarrow>
     (\<exists>value\<in>set (h ''Connection''). \<exists>piece\<in>set (SplitByte CHR '','' value).
        TrimString piece \<noteq> [] \<and> x = CanonicalKey (TrimString piece))"

definition end_to_end :: "header \<Rightarrow> header" where
  "end_to_end h = (\<lambda>x. if x \<in> rfc_hop_by_hop \<or> named_by_connection h x then [] else h x)"

definition list_members :: "string \<Rightarrow> string list" where
  "list_members value = filter (\<lambda>t. t \<noteq> []) (map TrimString (splitHeaderList value))"

definition expects_continue :: "string list \<Rightarrow> bool" where
  "expects_continue values = (\<exists>value\<in>set values. \<exists>t\<in>set (list_members value). EqualFold t ''100-continue'')"

definition without_continue :: "string list \<Rightarrow> string list" where
  "without_continue values =
     map (\<lambda>ts. Join ts '', '')
       (filter (\<lambda>ts. ts \<noteq> []) (map (\<lambda>value. filter (\<lambda>t. \<not> EqualFold t ''100-continue'') (list_members value)) values))"

definition can_answer :: "http_request \<Rightarrow> bool" where
  "can_answer req \<longleftrightarrow> (1 < rq_major req \<or> rq_major req = 1 \<and> 1 \<le> rq_minor req) \<and> rq_hasBody req \<and>
     expects_continue (end_to_end (rq_header req) ''Expect'')"

lemma hop_by_hop_end_to_end: "hop_by_hop h [] x \<longleftrightarrow> x \<in> rfc_hop_by_hop \<or> named_by_connection h x"
proof -
  have "x \<in> set hopByHopHeaders \<longleftrightarrow> x \<in> rfc_hop_by_hop" by (simp add: hopByHopHeaders_def rfc_hop_by_hop_def)
  moreover have "x \<in> CanonicalKey ` set (connectionOptionNames h) \<longleftrightarrow> named_by_connection h x"
    unfolding connectionOptionNames_def named_by_connection_def Header_Values_def by (auto simp: image_iff)
  ultimately show ?thesis by (simp add: hop_by_hop_def)
qed

lemma strip_end_to_end: "stripHopByHopHeaders h = end_to_end h"
  by (rule ext) (simp add: strip_apply end_to_end_def hop_by_hop_end_to_end)

lemma canonical_expect [simp]: "CanonicalKey ''Expect'' = ''Expect''"
  by code_simp

lemma fold_Header_Add:
  "fold (Header_Add k) vs h x = (if x = CanonicalKey k then h x @ vs else h x)"
  by (induction vs arbitrary: h) (simp_all add: Header_Add_def)

lemma removeHeaderToken_expect:
  "removeHeaderToken h ''Expect'' ''100-continue'' =
     (if expects_continue (h ''Expect'') then (True, h(''Expect'' := without_continue (h ''Expect''))) else (False, h))"
proof -
  let ?rs = "map (kept_tokens ''100-continue'') (h ''Expect'')"
  have found: "list_ex fst ?rs \<longleftrightarrow> expects_continue (h ''Expect'')"
    unfolding list_ex_iff expects_continue_def by (simp add: kept_tokens_def list_members_def Let_def list_ex_iff)
  have kept: "map (\<lambda>r. Join (snd r) '', '') (filter (\<lambda>r. snd r \<noteq> []) ?rs) = without_continue (h ''Expect'')"
    by (simp add: without_continue_def kept_tokens_def list_members_def Let_def filter_map o_def)
  have "fold (Header_Add ''Expect'') vs (Header_Del ''Expect'' h) = h(''Expect'' := vs)" for vs
    by (rule ext) (simp add: fold_Header_Add Header_Del_apply)
  then show ?thesis
    unfolding removeHeaderToken_def Header_Values_def canonical_expect Let_def found kept by simp
qed

lemma rewritten_header:
  "fst (rewrite_request req) x =
     (if x = ''Connection'' then [''close'']
      else end_to_end (rq_header req) x @
        (if x = ''Via'' then [Itoa (rq_major req) @ ''.'' @ Itoa (rq_minor req) @ '' portmap''] else []))"
  by (simp add: rewrite_request_def Let_def Header_Set_def appendVia_def Header_Add_def strip_end_to_end)

lemma rewritten_expect: "fst (rewrite_request req) ''Expect'' = end_to_end (rq_header req) ''Expect''"
  by (simp add: rewritten_header)

lemma expect_after_rewrite:
  "expect_step req (fst (rewrite_request req)) =
     (can_answer req, if can_answer req
        then (fst (rewrite_request req))(''Expect'' := without_continue (end_to_end (rq_header req) ''Expect''))
        else fst (rewrite_request req))"
  by (auto simp: expect_step_def removeHeaderToken_expect rewritten_expect can_answer_def requestCanContinue_def)

lemma forwarded_cont: "fst (forwarded_request req) = can_answer req"
  using expect_after_rewrite [of req] by (simp add: forwarded_request_def split_def)

lemma forwarded_header:
  "fst (snd (forwarded_request req)) x =
     (if x = ''Connection'' then [''close'']
      else if x = ''Via'' then end_to_end (rq_header req) x @ [Itoa (rq_major req) @ ''.'' @ Itoa (rq_minor req) @ '' portmap'']
      else if x = ''Expect'' \<and> can_answer req then without_continue (end_to_end (rq_header req) x)
      else end_to_end (rq_header req) x)"
  using expect_after_rewrite [of req] rewritten_header [of req x] by (auto simp: forwarded_request_def split_def)

lemma split_list_from_unquoted:
  "CHR 0x22 \<notin> set s \<Longrightarrow>
     split_list_from cur False False s =
       (case SplitByte CHR '','' s of w # ws \<Rightarrow> TrimString (rev cur @ w) # map TrimString ws)"
  by (induction s arbitrary: cur) (auto split: list.splits)

lemma splitHeaderList_unquoted:
  "CHR 0x22 \<notin> set value \<Longrightarrow> splitHeaderList value = map TrimString (SplitByte CHR '','' value)"
  by (cases "SplitByte CHR '','' value") (simp_all add: splitHeaderList_def split_list_from_unquoted)

lemma promote_sends:
  assumes "dial_and_promote x target st ev k = Some res" "hr_sent res = Some h"
  shows "\<exists>r. k st ev = Some r \<and> hr_sent r = Some h"
  using assms by (auto simp: dial_and_promote_def Let_def close_up_def untrack_up_def split: sum.splits if_splits)

lemma plain_sends: "forward_plain x io req host st ev = Some r \<Longrightarrow> hr_sent r = Some h \<Longrightarrow> h = fst (snd (forwarded_request req))"
  by (auto simp: forward_plain_def Let_def split: prod.splits if_splits option.splits bool.splits)

lemma handler_sends:
  assumes "handleHTTP x io parsed st ev = Some res" "hr_sent res = Some h"
  shows "\<exists>req. parsed = Inr (Some req) \<and> rq_method req \<noteq> ''CONNECT'' \<and> h = fst (snd (forwarded_request req))"
proof -
  obtain req where req: "parsed = Inr (Some req)"
    using assms by (auto simp: handleHTTP_def Let_def split: sum.splits head_err.splits option.splits)
  have "\<not> (rq_method req = ''CONNECT'' \<and> handleConnect x req st ev = Some res)"
  proof
    assume "rq_method req = ''CONNECT'' \<and> handleConnect x req st ev = Some res"
    then have "handleConnect x req st ev = Some res" by simp
    then show False using promote_sends [OF _ assms(2)]
      by (fastforce simp: handleConnect_def Let_def split: if_splits prod.splits)
  qed
  then have "rq_method req \<noteq> ''CONNECT'' \<and> handlePlainHTTP x io req st ev = Some res"
    using assms by (auto simp: handleHTTP_def Let_def req split: if_splits)
  then show ?thesis using promote_sends [OF _ assms(2)] plain_sends by (auto simp: req handlePlainHTTP_def) blast
qed

datatype rr_op = RFill nat nat | RTake nat

fun rr_run :: "rr_op list \<Rightarrow> response_reader \<Rightarrow> string \<times> response_reader" where
  "rr_run [] r = ([], r)"
| "rr_run (RFill n k # ops) r = rr_run ops (rr_fill n k r)"
| "rr_run (RTake n # ops) r =
     (case rr_run ops (rr_consume n r) of (out, r') \<Rightarrow> (take n (rr_buffered r) @ out, r'))"

lemma rr_run_stream: "fst (rr_run ops r) @ rr_stream (snd (rr_run ops r)) = rr_stream r"
proof (induction ops r rule: rr_run.induct)
  case (3 n ops r)
  then show ?case by (simp add: split_def rr_stream_def rr_consume_def)
qed auto

lemma relay_shape:
  "relayHTTPResponses rs down = Some (e, d, out) \<Longrightarrow>
   \<exists>used tl. rs = map ResponseRead used @ tl \<and> out = map rewrite_response used \<and>
     d = down + sum_list (map rs_written used) \<and>
     (\<not> e \<longrightarrow> used \<noteq> [] \<and> (\<forall>r \<in> set (butlast used). informational (rs_status r)) \<and> \<not> informational (rs_status (last used)))"
proof (induction rs down arbitrary: e d out rule: relayHTTPResponses.induct)
  case (3 r rs down)
  consider "rs_writeErr r" | "\<not> rs_writeErr r" "\<not> informational (rs_status r)"
    | "\<not> rs_writeErr r" "informational (rs_status r)" by blast
  then show ?case
  proof cases
    case 1
    then show ?thesis using 3 by (intro exI [of _ "[r]"] exI [of _ rs]) (auto simp: Let_def)
  next
    case 2
    then show ?thesis using 3 by (intro exI [of _ "[r]"] exI [of _ rs]) (auto simp: Let_def)
  next
    case 3
    with "3.prems" obtain d' out' where r: "relayHTTPResponses rs (down + rs_written r) = Some (e, d', out')"
        "d = d'" "out = rewrite_response r # out'" by (auto simp: Let_def)
    from "3.IH" [OF refl 3(1) _ r(1)] 3(2) obtain used tl where "rs = map ResponseRead used @ tl" "out' = map rewrite_response used"
        "d' = down + rs_written r + sum_list (map rs_written used)"
        "\<not> e \<longrightarrow> used \<noteq> [] \<and> (\<forall>r \<in> set (butlast used). informational (rs_status r)) \<and> \<not> informational (rs_status (last used))"
      by auto
    then show ?thesis using r 3 by (intro exI [of _ "r # used"] exI [of _ tl]) auto
  qed
qed auto

section \<open>Properties\<close>

text \<open>C32: The bounded reader of message heads is exact: for every buffer of at least two bytes, and
  although it sees long lines in pieces, it returns the stream up to and with the first blank line
  when that is within the limit (1 MiB for requests, 10 MiB for responses), leaves the rest
  untouched, and otherwise reports the limit or the end of the stream.\<close>

theorem http_head_framing_exact:
  assumes "2 \<le> buf"
  shows "readRequestHead buf r = head_spec (2 ^ 20) r \<and> readResponseHead buf r = head_spec (10 * 2 ^ 20) r \<and>
    (\<forall>head rest. readRequestHead buf r = Inr (head, rest) \<longrightarrow> head @ rest = r \<and> length head \<le> 2 ^ 20)"
proof -
  have "readRequestHead buf r = head_spec (2 ^ 20) r" "readResponseHead buf r = head_spec (10 * 2 ^ 20) r"
    by (simp_all add: readRequestHead_def readResponseHead_def head_loop_spec [OF assms])
  moreover have "head @ rest = r \<and> length head \<le> 2 ^ 20" if "head_spec (2 ^ 20) r = Inr (head, rest)" for head rest
    using that cut_blank_parts [of "[]" "[]" r head rest]
    by (auto simp: head_spec_def split: option.splits if_splits)
  ultimately show ?thesis by simp
qed

theorem http_head_framing_exact_witness:
  "readRequestHead 2 (''GET /'' @ [CR, LF] @ [CR, LF] @ ''x'') = Inr (''GET /'' @ [CR, LF, CR, LF], ''x'')"
proof -
  have "head_spec (2 ^ 20) (''GET /'' @ [CR, LF] @ [CR, LF] @ ''x'') = Inr (''GET /'' @ [CR, LF, CR, LF], ''x'')"
    by (simp add: head_spec_def LF_def CR_def)
  with http_head_framing_exact [of 2 "''GET /'' @ [CR, LF] @ [CR, LF] @ ''x''"] show ?thesis by simp
qed

text \<open>C33: A plain request is forwarded with exactly its end-to-end fields.  The fields RFC 9110 and its
  predecessors name as hop-by-hop and every field that the client's Connection header names are gone,
  all other fields keep their values in order, one Via value is appended, and Connection is close.  A
  client that waits for 100 Continue (from HTTP/1.1 on, with a body, and the expectation among the
  members of an Expect value) is answered by the proxy, and then that member, and nothing else, is
  missing from Expect; without a quoted string in a value its members are the pieces between commas.
  Whatever the plain handler sends upstream is that header.\<close>

theorem http_request_headers_forwarded:
  "(let own = end_to_end (rq_header req);
        answered = (1 < rq_major req \<or> rq_major req = 1 \<and> 1 \<le> rq_minor req) \<and> rq_hasBody req \<and>
          expects_continue (own ''Expect'') in
    fst (forwarded_request req) = answered \<and>
    fst (snd (forwarded_request req)) x =
      (if x = ''Connection'' then [''close'']
       else if x = ''Via'' then own x @ [Itoa (rq_major req) @ ''.'' @ Itoa (rq_minor req) @ '' portmap'']
       else if x = ''Expect'' \<and> answered then without_continue (own x)
       else own x)) \<and>
   (CHR 0x22 \<notin> set value \<longrightarrow> splitHeaderList value = map TrimString (SplitByte CHR '','' value)) \<and>
   (handleHTTP env io parsed st ev = Some res \<and> hr_sent res = Some h \<longrightarrow>
      (\<exists>rq. parsed = Inr (Some rq) \<and> rq_method rq \<noteq> ''CONNECT'' \<and> h = fst (snd (forwarded_request rq))))"
proof (intro conjI impI)
  show "let own = end_to_end (rq_header req);
        answered = (1 < rq_major req \<or> rq_major req = 1 \<and> 1 \<le> rq_minor req) \<and> rq_hasBody req \<and>
          expects_continue (own ''Expect'') in
    fst (forwarded_request req) = answered \<and>
    fst (snd (forwarded_request req)) x =
      (if x = ''Connection'' then [''close'']
       else if x = ''Via'' then own x @ [Itoa (rq_major req) @ ''.'' @ Itoa (rq_minor req) @ '' portmap'']
       else if x = ''Expect'' \<and> answered then without_continue (own x)
       else own x)"
    using forwarded_cont [of req] forwarded_header [of req x] unfolding Let_def can_answer_def by simp
  show "CHR 0x22 \<notin> set value \<Longrightarrow> splitHeaderList value = map TrimString (SplitByte CHR '','' value)"
    by (rule splitHeaderList_unquoted)
  assume "handleHTTP env io parsed st ev = Some res \<and> hr_sent res = Some h"
  then show "\<exists>rq. parsed = Inr (Some rq) \<and> rq_method rq \<noteq> ''CONNECT'' \<and> h = fst (snd (forwarded_request rq))"
    using handler_sends [of env io parsed st ev res h] by blast
qed

text \<open>Rereading a response head loses nothing: however the reader fetched and handed out bytes
  before, after putting the head and what was fetched beyond it back in front of the source, the
  stream still to be read is the original one.\<close>

theorem response_replay_loses_nothing:
  "rr_stream (response_rewind (fst (rr_run ops r)) (snd (rr_run ops r))) = rr_stream r"
  by (simp add: rr_rewind_stream rr_run_stream)

text \<open>C34: The responses are relayed in order up to the first final one: on success everything before
  it was informational and keeps no Connection header, the final one says close, and whatever
  happens the down count is the sum of what was written.\<close>

theorem http_responses_relayed:
  assumes "relayHTTPResponses rs down = Some (e, d, out)"
  shows "\<exists>used tl. rs = map ResponseRead used @ tl \<and> out = map rewrite_response used \<and>
    d = down + sum_list (map rs_written used) \<and>
    (\<not> e \<longrightarrow> used \<noteq> [] \<and> (\<forall>r \<in> set (butlast used). informational (rs_status r)) \<and> \<not> informational (rs_status (last used)))
    \<and> (\<forall>r \<in> set used. fst (snd (rewrite_response r)) ''Connection'' = (if informational (rs_status r) then [] else [''close'']))"
proof -
  have "fst (snd (rewrite_response r)) ''Connection'' = (if informational (rs_status r) then [] else [''close''])" for r
    by (simp add: rewrite_response_def Let_def Header_Set_def appendVia_def Header_Add_def strip_apply)
  with relay_shape [OF assms] show ?thesis by blast
qed

text \<open>Two responses for the witness.\<close>

definition resp :: "int \<Rightarrow> http_response" where
  "resp status = \<lparr>rs_status = status, rs_options = [''close''], rs_major = 1, rs_minor = 1,
     rs_header = (\<lambda>_. [])(''Connection'' := [''close'']), rs_trailer = (\<lambda>_. []), rs_written = 10, rs_writeErr = False\<rparr>"

theorem http_responses_relayed_witness:
  "\<exists>used tl. [ResponseRead (resp 100), ResponseRead (resp 200), ResponseErr] = map ResponseRead used @ tl \<and> used \<noteq> []"
proof -
  have "relayHTTPResponses [ResponseRead (resp 100), ResponseRead (resp 200), ResponseErr] 0 =
      Some (False, 20, [rewrite_response (resp 100), rewrite_response (resp 200)])"
    by (simp add: resp_def informational_def)
  from http_responses_relayed [OF this] show ?thesis by (metis)
qed

text \<open>C36: Each failure has its answer: an oversized head 431, an upgrade 501, a loop 508, a failed
  dial 502 with one dial error counted; a cancelled request is answered with nothing; the tunnel is
  announced only after the upstream passed the self check, was tracked and promoted; and whatever the
  outcome, an upstream connection that was made is closed and out of the server's table when the
  handler returns.\<close>

theorem http_error_answers:
  assumes "handleHTTP x io parsed st ev = Some res"
  shows "(case hr_err res of
       Some (HxSelfTarget t) \<Rightarrow> hr_writes res = [StatusLine 508] \<and> hr_stats res = st
     | Some (HxDial t) \<Rightarrow> hr_writes res = [StatusLine 502] \<and> hr_stats res = DialError st \<and>
         hr_events res = Append ev (hx_event x ''dial-error'' t 0 0)
     | Some UpgradeUnsupported \<Rightarrow> hr_writes res = [StatusLine 501] \<and> hr_stats res = st
     | Some ParseFailed \<Rightarrow> hr_writes res = (if parsed = Inl HeadTooLarge then [StatusLine 431] else []) \<and> hr_stats res = st
     | Some HxCanceled \<Rightarrow> hr_writes res = [] \<and> hr_stats res = st
     | Some HxCtxErr \<Rightarrow> hr_writes res = [] \<and> hr_stats res = st
     | _ \<Rightarrow> True) \<and>
    (Established \<in> set (hr_writes res) \<longrightarrow> (\<exists>req remote. parsed = Inr (Some req) \<and> rq_method req = ''CONNECT'' \<and>
        hx_dial x (connect_target req) = Inr remote \<and> \<not> isSelfConn (hx_net x) (hx_listener x) remote \<and>
        hx_track x \<and> hx_begin x)) \<and>
    hr_up res \<noteq> UpOpen \<and> \<not> hr_tracked res \<and> (hr_err res = None \<longrightarrow> hr_up res = UpClosed)"
  using assms
  by (auto simp: handleHTTP_def handleConnect_def handlePlainHTTP_def forward_plain_def dial_and_promote_def Let_def
      close_up_def untrack_up_def
      split: sum.splits head_err.splits option.splits if_splits prod.splits bool.splits)

text \<open>A proxy whose dials are refused, for the witness.\<close>

definition http_env1 :: http_env where
  "http_env1 = \<lparr>hx_net = quiet_env, hx_listener = None, hx_ctxErr = False, hx_complete = True,
     hx_dial = (\<lambda>_. Inl ''refused''), hx_track = True, hx_begin = True, hx_replyOk = True, hx_relay = (0, 0),
     hx_client = ''c'', hx_connID = 1, hx_time = [], hx_ms = 0\<rparr>"

definition http_req1 :: http_request where
  "http_req1 = \<lparr>rq_method = ''CONNECT'', rq_host = ''a:443'', rq_urlHost = [], rq_major = 1, rq_minor = 1,
     rq_header = (\<lambda>_. []), rq_hasBody = False, rq_trailer = (\<lambda>_. [])\<rparr>"

theorem http_error_answers_witness:
  "\<exists>res. handleHTTP http_env1 \<lparr>pi_continue = (0, True), pi_request = (0, True), pi_responses = []\<rparr>
     (Inr (Some http_req1)) (stats_New 0) None = Some res \<and> hr_writes res = [StatusLine 502] \<and>
     hr_stats res = DialError (stats_New 0)"
proof -
  let ?res = "\<lparr>hr_err = Some (HxDial ''a:443''), hr_writes = [StatusLine 502], hr_stats = DialError (stats_New 0),
      hr_events = None, hr_up = UpNone, hr_tracked = False, hr_sent = None\<rparr>"
  have t: "connect_target http_req1 = ''a:443''" by code_simp
  have h: "handleHTTP http_env1 \<lparr>pi_continue = (0, True), pi_request = (0, True), pi_responses = []\<rparr>
      (Inr (Some http_req1)) (stats_New 0) None = Some ?res"
    by (simp add: handleHTTP_def handleConnect_def dial_and_promote_def Let_def t)
      (simp add: http_env1_def http_req1_def isUpgradeRequest_def Header_Values_def isSelfTarget_def Append_def
        split: sum.splits)
  from http_error_answers [OF h] show ?thesis using h by auto
qed

text \<open>A request with a body that waits for the continuation, sent to an upstream that closes at once.\<close>

definition http_env2 :: http_env where
  "http_env2 = http_env1\<lparr>hx_dial := (\<lambda>_. Inr (TCPAddr [10, 0, 0, 9] 80 []))\<rparr>"

definition http_req2 :: http_request where
  "http_req2 = http_req1\<lparr>rq_method := ''POST'', rq_host := ''a:80'', rq_hasBody := True,
     rq_header := (\<lambda>_. [])(''Expect'' := [''100-Continue''], ''Te'' := [''gzip''], ''Accept'' := [''x''])\<rparr>"

theorem http_request_headers_forwarded_witness:
  "fst (forwarded_request http_req2) \<and> fst (snd (forwarded_request http_req2)) ''Expect'' = [] \<and>
   (\<exists>res h. handleHTTP http_env2 \<lparr>pi_continue = (25, True), pi_request = (9, False), pi_responses = []\<rparr>
      (Inr (Some http_req2)) (stats_New 0) None = Some res \<and> hr_sent res = Some h \<and> h ''Te'' = [] \<and> h ''Accept'' = [''x''])"
proof -
  let ?io = "\<lparr>pi_continue = (25, True), pi_request = (9, False), pi_responses = []\<rparr>"
  let ?res = "handleHTTP http_env2 ?io (Inr (Some http_req2)) (stats_New 0) None"
  have f: "fst (forwarded_request http_req2)" "fst (snd (forwarded_request http_req2)) ''Expect'' = []" by code_simp+
  have plain: "\<exists>z. forward_plain http_env2 ?io http_req2 ''a:80'' st ev = Some z \<and>
      hr_sent z = Some (fst (snd (forwarded_request http_req2)))" for st ev
    using f by (simp add: forward_plain_def Let_def split_def)
  have self: "\<not> isSelfTarget (hx_net http_env2) (hx_listener http_env2) t"
    "\<not> isSelfConn (hx_net http_env2) (hx_listener http_env2) c" for t c
    by (auto simp: http_env2_def http_env1_def isSelfTarget_def isSelfConn_def split: sum.splits net_addr.splits)
  have env: "hx_dial http_env2 t = Inr (TCPAddr [10, 0, 0, 9] 80 [])" "hx_track http_env2" "hx_begin http_env2"
    "\<not> hx_ctxErr http_env2" "hx_complete http_env2" for t
    by (simp_all add: http_env2_def http_env1_def)
  have req: "plain_host http_req2 = ''a:80''" "\<not> isUpgradeRequest (rq_header http_req2)" "rq_method http_req2 \<noteq> ''CONNECT''"
    by code_simp+
  obtain z where z: "forward_plain http_env2 ?io http_req2 ''a:80'' (stats_New 0) None = Some z"
    "hr_sent z = Some (fst (snd (forwarded_request http_req2)))"
    using plain by blast
  have ex: "\<exists>res h. ?res = Some res \<and> hr_sent res = Some h"
    by (simp add: handleHTTP_def handlePlainHTTP_def dial_and_promote_def Let_def self env req z close_up_def untrack_up_def)
  then obtain res h where r: "?res = Some res" "hr_sent res = Some h" by blast
  have h: "h = fst (snd (forwarded_request http_req2))"
    using http_request_headers_forwarded [of http_req2 "''Te''" "[]" http_env2 ?io "Inr (Some http_req2)" "stats_New 0" None res h] r
    by simp
  have "h ''Te'' = [] \<and> h ''Accept'' = [''x'']" unfolding h by code_simp
  then show ?thesis using f r by blast
qed

end
