(* ===== verification/I18n_Model.thy ===== *)
theory I18n_Model
  imports PM_Prelude
begin

text \<open>
  The interface language, internal/i18n/i18n.go: the supported languages, \<open>match\<close> and
  \<open>ParseLang\<close>, the detection from the environment, the process-wide current language and the
  lookup with its fallbacks.  The message tables are data and a parameter of the lookup
  (\<open>messages\<close>); the environment and the platform locale are parameters of the detection, and
  \<open>fmt.Sprintf\<close> is a parameter of \<open>T\<close>.
\<close>

section \<open>Languages\<close>

datatype Lang = English | Chinese | Japanese | Korean | French | German

primrec lang_code :: "Lang \<Rightarrow> string" where
  "lang_code English = ''en''"
| "lang_code Chinese = ''zh''"
| "lang_code Japanese = ''ja''"
| "lang_code Korean = ''ko''"
| "lang_code French = ''fr''"
| "lang_code German = ''de''"

definition lang_order :: "Lang list" where
  "lang_order = [English, Chinese, Japanese, Korean, French, German]"

definition Codes :: "string list" where
  "Codes = map lang_code lang_order"

definition lang_match :: "string \<Rightarrow> Lang \<times> bool" where
  "lang_match s0 =
     (let s1 = TrimSpace (ToLower s0) in
      if s1 = [] \<or> s1 = ''c'' \<or> s1 = ''posix'' then (English, False)
      else
        (let s2 = takeWhile (\<lambda>c. c \<noteq> CHR ''.'' \<and> c \<noteq> CHR ''@'') s1;
             s3 = map (\<lambda>c. if c = CHR ''-'' then CHR ''_'' else c) s2;
             primary = takeWhile (\<lambda>c. c \<noteq> CHR ''_'') s3 in
         if primary = ''zh'' then (Chinese, True)
         else if primary = ''en'' then (English, True)
         else if primary = ''ja'' then (Japanese, True)
         else if primary = ''ko'' then (Korean, True)
         else if primary = ''fr'' then (French, True)
         else if primary = ''de'' then (German, True)
         else (English, False)))"

definition ParseLang :: "string \<Rightarrow> Lang \<times> bool" where
  "ParseLang s = lang_match s"

section \<open>Detection and the current language\<close>

fun first_match :: "string list \<Rightarrow> Lang option" where
  "first_match [] = None"
| "first_match (item # items) =
     (case lang_match item of (l, ok) \<Rightarrow> if ok then Some l else first_match items)"

definition detect_keys :: "string list" where
  "detect_keys = [''PORTMAP_LANG'', ''LC_ALL'', ''LC_MESSAGES'', ''LANG'', ''LANGUAGE'']"

fun detect_env :: "(string \<Rightarrow> string) \<Rightarrow> string list \<Rightarrow> Lang option" where
  "detect_env getenv [] = None"
| "detect_env getenv (key # ks) =
     (let v = TrimSpace (getenv key) in
      if v \<noteq> [] then
        (case first_match (SplitByte CHR '':'' v) of
           Some l \<Rightarrow> Some l
         | None \<Rightarrow> detect_env getenv ks)
      else detect_env getenv ks)"

text \<open>\<open>systemLocale\<close> on Unix (locale_unix.go): the environment says it all.\<close>

definition systemLocale_unix :: string where
  "systemLocale_unix = []"

definition Detect :: "(string \<Rightarrow> string) \<Rightarrow> string \<Rightarrow> Lang" where
  "Detect getenv systemLocale =
     (case detect_env getenv detect_keys of
        Some l \<Rightarrow> l
      | None \<Rightarrow>
          if systemLocale \<noteq> [] then
            (case lang_match systemLocale of (l, ok) \<Rightarrow> if ok then l else English)
          else English)"

record lang_state =
  current :: Lang
  detected :: bool

definition SetLang :: "Lang \<Rightarrow> lang_state \<Rightarrow> lang_state" where
  "SetLang l st = st\<lparr>current := l, detected := True\<rparr>"

definition Current :: "(string \<Rightarrow> string) \<Rightarrow> string \<Rightarrow> lang_state \<Rightarrow> Lang \<times> lang_state" where
  "Current getenv systemLocale st =
     (if detected st then (current st, st)
      else (let st' = st\<lparr>current := Detect getenv systemLocale, detected := True\<rparr> in (current st', st')))"

section \<open>Messages\<close>

type_synonym message_tables = "Lang \<Rightarrow> (string \<Rightarrow> string option) option"

definition message_lookup :: "message_tables \<Rightarrow> Lang \<Rightarrow> string \<Rightarrow> string" where
  "message_lookup messages lang key =
     (let fallback =
        (case messages English of
           Some table \<Rightarrow> (case table key of Some s \<Rightarrow> s | None \<Rightarrow> key)
         | None \<Rightarrow> key) in
      case messages lang of
        Some table \<Rightarrow> (case table key of Some s \<Rightarrow> s | None \<Rightarrow> fallback)
      | None \<Rightarrow> fallback)"

definition T ::
  "message_tables \<Rightarrow> (string \<Rightarrow> 'a list \<Rightarrow> string) \<Rightarrow> Lang \<Rightarrow> string \<Rightarrow> 'a list \<Rightarrow> string" where
  "T messages sprintf lang key args =
     (let f = message_lookup messages lang key in if args = [] then f else sprintf f args)"

section \<open>Facts\<close>

lemma lang_code_inj: "lang_code l = lang_code m \<longleftrightarrow> l = m"
  by (cases l; cases m) simp_all

lemma set_lang_order: "set lang_order = UNIV"
  by (auto simp: lang_order_def) (metis Lang.exhaust)

definition lang_sep :: "char \<Rightarrow> bool" where
  "lang_sep c \<longleftrightarrow> c = CHR ''_'' \<or> c = CHR ''-'' \<or> c = CHR ''.'' \<or> c = CHR ''@''"

lemma lower_sep: "lang_sep c \<Longrightarrow> lower_char c = c"
  by (auto simp: lang_sep_def lower_char_def)

lemma sep_not_space: "lang_sep c \<Longrightarrow> \<not> is_go_space c"
  by (auto simp: lang_sep_def is_go_space_def)

lemma TrimSpace_code_sep:
  assumes "p \<noteq> []" "\<forall>c\<in>set p. \<not> is_go_space c" "\<not> is_go_space c"
  shows "\<exists>r. TrimSpace (p @ c # q) = p @ c # r"
proof -
  have l: "trim_left is_go_space (p @ c # q) = p @ c # q"
    using assms by (cases p) (auto simp: trim_left_def)
  have d: "dropWhile is_go_space (rev q @ c # rev p) = dropWhile is_go_space (rev q) @ c # rev p"
    using assms(3) by (auto simp: dropWhile_append)
  show ?thesis by (simp add: TrimSpace_def trim_both_def l trim_right_def d)
qed

lemma TrimSpace_code:
  assumes "\<forall>c\<in>set p. \<not> is_go_space c"
  shows "TrimSpace p = p"
proof -
  have "dropWhile is_go_space p = p" "dropWhile is_go_space (rev p) = rev p"
    using assms by (auto simp: dropWhile_eq_self_iff hd_rev)
  then show ?thesis by (simp add: TrimSpace_def trim_both_def trim_left_def trim_right_def)
qed

lemma primary_of_prefix:
  assumes "\<forall>c\<in>set p. \<not> lang_sep c" "lang_sep c"
  shows "takeWhile (\<lambda>c. c \<noteq> CHR ''_'') (map (\<lambda>c. if c = CHR ''-'' then CHR ''_'' else c)
           (takeWhile (\<lambda>c. c \<noteq> CHR ''.'' \<and> c \<noteq> CHR ''@'') (p @ c # r))) = p"
  using assms by (induction p) (auto simp: lang_sep_def)

lemma lang_code_clean: "\<forall>c\<in>set (lang_code l). \<not> is_go_space c \<and> \<not> lang_sep c"
  by (cases l) (simp_all add: is_go_space_def lang_sep_def)

lemma lang_match_code:
  assumes "ToLower s = lang_code l" "q = [] \<or> lang_sep (hd q)"
  shows "lang_match (s @ q) = (l, True)"
proof (cases q)
  case Nil
  have "TrimSpace (ToLower s) = lang_code l"
    unfolding assms(1) by (rule TrimSpace_code) (use lang_code_clean [of l] in blast)
  then show ?thesis unfolding Nil lang_match_def by (cases l) (simp_all add: Let_def)
next
  case (Cons c q')
  then have c: "lang_sep c" using assms(2) by simp
  obtain r where r: "TrimSpace (lang_code l @ c # ToLower q') = lang_code l @ c # r"
    using TrimSpace_code_sep [of "lang_code l" c "ToLower q'"] lang_code_clean [of l] sep_not_space [OF c]
    by (cases l) auto
  have low: "TrimSpace (ToLower (s @ q)) = lang_code l @ c # r"
    using r assms(1) by (simp add: Cons ToLower_def lower_sep [OF c])
  have prim: "takeWhile (\<lambda>c. c \<noteq> CHR ''_'') (map (\<lambda>c. if c = CHR ''-'' then CHR ''_'' else c)
     (takeWhile (\<lambda>c. c \<noteq> CHR ''.'' \<and> c \<noteq> CHR ''@'') (lang_code l @ c # r))) = lang_code l"
    by (rule primary_of_prefix) (use lang_code_clean [of l] c in blast)+
  have ne: "lang_code l @ c # r \<noteq> []" "lang_code l @ c # r \<noteq> ''c''" "lang_code l @ c # r \<noteq> ''posix''"
    by (cases l; simp)+
  show ?thesis unfolding lang_match_def low Let_def prim using ne by (cases l) simp_all
qed

lemma first_match_append:
  "first_match (xs @ ys) = (case first_match xs of Some l \<Rightarrow> Some l | None \<Rightarrow> first_match ys)"
  by (induction xs) (auto split: prod.splits)

lemma first_match_blank: "first_match (SplitByte c []) = None"
  by (simp add: lang_match_def ToLower_def)

text \<open>A language code is recognised in any letter case, alone or followed by a region, a
  codeset or a modifier (\<open>zh_CN.UTF-8\<close>, \<open>EN-us\<close>, \<open>de@euro\<close>); so every code that \<open>--help\<close>
  lists parses back to its language.  Detection takes the first variable, in order of priority,
  with a recognisable item, and an explicit \<open>SetLang\<close> is never overridden by detection.\<close>
theorem language_selection:
  "(\<forall>l s q. ToLower s = lang_code l \<and> (q = [] \<or> lang_sep (hd q)) \<longrightarrow> ParseLang (s @ q) = (l, True)) \<and>
   map ParseLang Codes = map (\<lambda>l. (l, True)) lang_order \<and>
   (\<forall>pre key post l env loc.
      detect_keys = pre @ key # post \<and>
      (\<forall>k\<in>set pre. detect_env env [k] = None) \<and>
      first_match (SplitByte CHR '':'' (TrimSpace (env key))) = Some l \<longrightarrow> Detect env loc = l) \<and>
   (\<forall>l st env loc. Current env loc (SetLang l st) = (l, SetLang l st)) \<and>
   (\<forall>env loc st. Current env loc (snd (Current env loc st)) = Current env loc st)"
proof (intro conjI allI impI)
  fix l s q
  assume "ToLower s = lang_code l \<and> (q = [] \<or> lang_sep (hd q))"
  then show "ParseLang (s @ q) = (l, True)" unfolding ParseLang_def by (intro lang_match_code) auto
next
  have "ParseLang (lang_code l) = (l, True)" for l
    using lang_match_code [of "lang_code l" l "[]"] by (cases l) (simp_all add: ParseLang_def ToLower_def lower_char_def)
  then show "map ParseLang Codes = map (\<lambda>l. (l, True)) lang_order" by (simp add: Codes_def)
next
  fix pre key post l env and loc :: string
  assume a: "detect_keys = pre @ key # post \<and> (\<forall>k\<in>set pre. detect_env env [k] = None) \<and>
      first_match (SplitByte CHR '':'' (TrimSpace (env key))) = Some l"
  have "\<forall>k\<in>set pre. detect_env env [k] = None \<Longrightarrow> detect_env env (pre @ ks) = detect_env env ks" for pre ks
    by (induction pre) (auto simp: Let_def split: option.splits if_splits)
  then have "detect_env env detect_keys = detect_env env (key # post)" using a by metis
  moreover have "TrimSpace (env key) \<noteq> []"
    using a first_match_blank [of "CHR '':''"] by auto
  ultimately have "detect_env env detect_keys = Some l" using a by (simp add: Let_def)
  then show "Detect env loc = l" by (simp add: Detect_def)
qed (simp_all add: Current_def SetLang_def Let_def)

lemma language_selection_witness:
  "ParseLang ''ZH_cn.UTF-8'' = (Chinese, True) \<and>
   Detect (\<lambda>k. if k = ''LANG'' then ''xx:fr_FR'' else []) [] = French"
proof -
  have s: "ToLower ''ZH'' = lang_code Chinese \<and> (''_cn.UTF-8'' = [] \<or> lang_sep (hd ''_cn.UTF-8''))"
    by code_simp
  have 1: "ParseLang (''ZH'' @ ''_cn.UTF-8'') = (Chinese, True)"
    by (rule language_selection [THEN conjunct1, rule_format, OF s])
  have d: "detect_keys = [''PORTMAP_LANG'', ''LC_ALL'', ''LC_MESSAGES''] @ ''LANG'' # [''LANGUAGE''] \<and>
    (\<forall>k\<in>set [''PORTMAP_LANG'', ''LC_ALL'', ''LC_MESSAGES'']. detect_env (\<lambda>k. if k = ''LANG'' then ''xx:fr_FR'' else []) [k] = None) \<and>
    first_match (SplitByte CHR '':'' (TrimSpace ''xx:fr_FR'')) = Some French"
    by code_simp
  have 2: "Detect (\<lambda>k. if k = ''LANG'' then ''xx:fr_FR'' else []) [] = French"
    by (rule language_selection [THEN conjunct2, THEN conjunct2, THEN conjunct1, rule_format,
          where pre = "[''PORTMAP_LANG'', ''LC_ALL'', ''LC_MESSAGES'']" and key = "''LANG''" and post = "[''LANGUAGE'']"])
      (use d in simp)
  show ?thesis using 1 2 by simp
qed

end
