(* ===== verification/Go_Flags.thy ===== *)
theory Go_Flags
  imports PM_Prelude
begin

text \<open>
  What the command line and the configuration use of Go's standard library: \<open>time.ParseDuration\<close>,
  \<open>strconv.ParseInt\<close> with base 0, \<open>strconv.ParseBool\<close> and the flag sets of package
  \<open>flag\<close> (\<open>Parse\<close>, \<open>parseOne\<close>, the set of flags seen by \<open>Visit\<close>), and \<open>filepath.Join\<close>.  A
  flag set is an association list from names to the setter of the variable the flag is bound to;
  \<open>ParsedVar\<close> is a flag of any further type, given by its parser.
  Fractions of a duration are computed exactly and cut to a whole nanosecond, where Go multiplies
  in \<open>float64\<close>.
\<close>

section \<open>Numbers\<close>

definition is_digit :: "char \<Rightarrow> bool" where
  "is_digit c \<longleftrightarrow> 48 \<le> (of_char c :: int) \<and> (of_char c :: int) \<le> 57"

definition digit_value :: "char \<Rightarrow> int" where
  "digit_value c = of_char c - 48"

text \<open>The value of a digit of a base up to 36, as in \<open>strconv.ParseUint\<close>.\<close>

definition base_digit :: "char \<Rightarrow> int option" where
  "base_digit c =
     (if is_digit c then Some (digit_value c)
      else (let l = of_char (lower_char c) :: int in if 97 \<le> l \<and> l \<le> 122 then Some (l - 97 + 10) else None))"

fun parse_digits :: "int \<Rightarrow> int \<Rightarrow> string \<Rightarrow> int option" where
  "parse_digits base acc [] = Some acc"
| "parse_digits base acc (c # cs) =
     (if c = CHR ''_'' then parse_digits base acc cs
      else (case base_digit c of
              None \<Rightarrow> None
            | Some d \<Rightarrow> if base \<le> d then None else parse_digits base (acc * base + d) cs))"

text \<open>Where underscores may stand: after a digit or a base prefix and before a digit.\<close>

fun underscores_ok :: "bool \<Rightarrow> char \<Rightarrow> string \<Rightarrow> bool" where
  "underscores_ok hex prev [] = (prev \<noteq> CHR ''_'')"
| "underscores_ok hex prev (c # cs) =
     (if is_digit c \<or> hex \<and> lower_char c \<in> set ''abcdef'' then underscores_ok hex CHR ''0'' cs
      else if c = CHR ''_'' then prev = CHR ''0'' \<and> underscores_ok hex CHR ''_'' cs
      else if prev = CHR ''_'' then False
      else underscores_ok hex CHR ''!'' cs)"

definition base_prefix :: "string \<Rightarrow> int \<times> string \<times> bool" where
  "base_prefix s =
     (if take 1 s = ''0'' then
        (if 3 \<le> length s \<and> lower_char (s ! 1) = CHR ''b'' then (2, drop 2 s, True)
         else if 3 \<le> length s \<and> lower_char (s ! 1) = CHR ''o'' then (8, drop 2 s, True)
         else if 3 \<le> length s \<and> lower_char (s ! 1) = CHR ''x'' then (16, drop 2 s, True)
         else (8, drop 1 s, False))
      else (10, s, False))"

definition ParseUint :: "string \<Rightarrow> int option" where
  "ParseUint s =
     (if s = [] then None
      else (case base_prefix s of (base, ds, prefixed) \<Rightarrow>
        (if CHR ''_'' \<in> set ds \<and>
            \<not> (if prefixed then underscores_ok (base = 16) CHR ''0'' ds else underscores_ok False CHR ''^'' s)
         then None else parse_digits base 0 ds)))"

text \<open>\<open>ParseInt(s, 0, 64)\<close>; \<open>None\<close> is a syntax or a range error.\<close>

definition ParseInt :: "string \<Rightarrow> int option" where
  "ParseInt s =
     (let neg = take 1 s = ''-'';
          body = (if take 1 s = ''-'' \<or> take 1 s = ''+'' then drop 1 s else s) in
      case ParseUint body of
        None \<Rightarrow> None
      | Some n \<Rightarrow>
          if neg then (if n \<le> 2 ^ 63 then Some (- n) else None)
          else (if n < 2 ^ 63 then Some n else None))"

definition ParseBool :: "string \<Rightarrow> bool option" where
  "ParseBool s =
     (if s \<in> set [''1'', ''t'', ''T'', ''TRUE'', ''true'', ''True''] then Some True
      else if s \<in> set [''0'', ''f'', ''F'', ''FALSE'', ''false'', ''False''] then Some False
      else None)"

section \<open>Durations\<close>

definition unitMap :: "(string \<times> int) list" where
  "unitMap =
     [(''ns'', 1), (''us'', 1000), ([CHR 0xC2, CHR 0xB5, CHR ''s''], 1000),
      ([CHR 0xCE, CHR 0xBC, CHR ''s''], 1000), (''ms'', 1000000), (''s'', 1000000000),
      (''m'', 60000000000), (''h'', 3600000000000)]"

fun leadingInt :: "int \<Rightarrow> string \<Rightarrow> int \<times> string" where
  "leadingInt acc [] = (acc, [])"
| "leadingInt acc (c # cs) =
     (if is_digit c then leadingInt (acc * 10 + digit_value c) cs else (acc, c # cs))"

text \<open>\<open>leadingFraction\<close>: the digits after the point, with their scale; digits beyond the range
  of a 63-bit integer are dropped.\<close>

fun leadingFraction :: "int \<Rightarrow> int \<Rightarrow> bool \<Rightarrow> string \<Rightarrow> int \<times> int \<times> string" where
  "leadingFraction acc scale overflow [] = (acc, scale, [])"
| "leadingFraction acc scale overflow (c # cs) =
     (if is_digit c then
        (let y = acc * 10 + digit_value c in
         if overflow \<or> (2 ^ 63 - 1) div 10 < acc \<or> 2 ^ 63 < y then leadingFraction acc scale True cs
         else leadingFraction y (scale * 10) False cs)
      else (acc, scale, c # cs))"

definition is_unit_char :: "char \<Rightarrow> bool" where
  "is_unit_char c \<longleftrightarrow> c \<noteq> CHR ''.'' \<and> \<not> is_digit c"

lemma leadingInt_length: "length (snd (leadingInt acc s)) \<le> length s"
  by (induction acc s rule: leadingInt.induct) auto

lemma leadingFraction_length: "length (snd (snd (leadingFraction acc sc ov s))) \<le> length s"
  by (induction acc sc ov s rule: leadingFraction.induct) (auto simp: Let_def)

text \<open>One component \<open>[0-9]*(\.[0-9]*)?unit\<close>: its nanoseconds and the rest of the input.\<close>

definition duration_component :: "string \<Rightarrow> (int \<times> string) option" where
  "duration_component s =
     (if s = [] \<or> \<not> (hd s = CHR ''.'' \<or> is_digit (hd s)) then None
      else (case leadingInt 0 s of (v, s1) \<Rightarrow>
        (let pre = length s1 \<noteq> length s;
             dot = s1 \<noteq> [] \<and> hd s1 = CHR ''.'';
             fr = (if dot then leadingFraction 0 1 False (tl s1) else (0, 1, s1)) in
         case fr of (f, scale, s2) \<Rightarrow>
           (let post = dot \<and> length s2 \<noteq> length (tl s1);
                u = takeWhile is_unit_char s2; s3 = dropWhile is_unit_char s2 in
            if 2 ^ 63 < v then None
            else if \<not> pre \<and> \<not> post then None
            else if u = [] then None
            else (case map_of unitMap u of
                    None \<Rightarrow> None
                  | Some unit \<Rightarrow>
                      if 2 ^ 63 div unit < v then None
                      else (let total = v * unit + (f * unit) div scale in
                            if 2 ^ 63 < total then None else Some (total, s3)))))))"

lemma duration_component_length:
  "duration_component s = Some (v, r) \<Longrightarrow> length r < length s"
proof -
  assume a: "duration_component s = Some (v, r)"
  obtain i s1 where i: "leadingInt 0 s = (i, s1)" by force
  define dot where "dot = (s1 \<noteq> [] \<and> hd s1 = CHR ''.'')"
  obtain f sc s2 where f: "(if dot then leadingFraction 0 1 False (tl s1) else (0, 1, s1)) = (f, sc, s2)"
    by (cases "if dot then leadingFraction 0 1 False (tl s1) else (0, 1, s1)") auto
  have l1: "length s1 \<le> length s" using leadingInt_length [of 0 s] i by simp
  have l2: "length s2 \<le> length s1"
    using f leadingFraction_length [of 0 1 False "tl s1"] by (cases dot) auto
  have u: "takeWhile is_unit_char s2 \<noteq> []" and r: "r = dropWhile is_unit_char s2"
    using a i f [unfolded dot_def] by (auto simp: duration_component_def Let_def split: if_splits option.splits)
  have "length (takeWhile is_unit_char s2) + length (dropWhile is_unit_char s2) = length s2"
    by (metis length_append takeWhile_dropWhile_id)
  then have "length r < length s2" using u r by (cases "takeWhile is_unit_char s2") auto
  then show ?thesis using l1 l2 by simp
qed

function duration_sum :: "int \<Rightarrow> string \<Rightarrow> int option" where
  "duration_sum d s =
     (if s = [] then Some d
      else (case duration_component s of
              None \<Rightarrow> None
            | Some (v, r) \<Rightarrow> if 2 ^ 63 < d + v then None else duration_sum (d + v) r))"
  by pat_completeness auto
termination
  by (relation "measure (\<lambda>(d, s). length s)") (auto dest: duration_component_length)

declare duration_sum.simps [simp del]

definition ParseDuration :: "string \<Rightarrow> i64 option" where
  "ParseDuration s0 =
     (let neg = take 1 s0 = ''-'';
          s = (if take 1 s0 = ''-'' \<or> take 1 s0 = ''+'' then drop 1 s0 else s0) in
      if s = ''0'' then Some 0
      else if s = [] then None
      else (case duration_sum 0 s of
              None \<Rightarrow> None
            | Some d \<Rightarrow>
                if neg then Some (- of_int d)
                else if 2 ^ 63 \<le> d then None else Some (of_int d)))"

section \<open>Flag sets\<close>

datatype 'o flag_kind =
    IntVar "int \<Rightarrow> 'o \<Rightarrow> 'o" | StringVar "string \<Rightarrow> 'o \<Rightarrow> 'o"
  | BoolVar "bool \<Rightarrow> 'o \<Rightarrow> 'o" | DurationVar "i64 \<Rightarrow> 'o \<Rightarrow> 'o"
  | ParsedVar "string \<Rightarrow> ('o \<Rightarrow> 'o) option"

datatype flag_err =
    ErrHelp | BadFlagSyntax string | NotDefined string | NeedsArgument string | InvalidValue string string

type_synonym 'o flag_table = "(string \<times> 'o flag_kind) list"

definition flag_set_value :: "'o flag_kind \<Rightarrow> string \<Rightarrow> 'o \<Rightarrow> 'o option" where
  "flag_set_value k v opt =
     (case k of
        IntVar f \<Rightarrow> map_option (\<lambda>i. f i opt) (ParseInt v)
      | StringVar f \<Rightarrow> Some (f v opt)
      | BoolVar f \<Rightarrow> map_option (\<lambda>b. f b opt) (ParseBool v)
      | DurationVar f \<Rightarrow> map_option (\<lambda>d. f d opt) (ParseDuration v)
      | ParsedVar f \<Rightarrow> map_option (\<lambda>g. g opt) (f v))"

fun is_bool_flag :: "'o flag_kind \<Rightarrow> bool" where
  "is_bool_flag (BoolVar f) = True"
| "is_bool_flag k = False"

text \<open>The name of a flag argument and its value, if it is written \<open>name=value\<close>; an equals sign
  cannot come first.\<close>

definition split_name :: "string \<Rightarrow> string \<times> string option" where
  "split_name name =
     (case IndexByte CHR ''='' (drop 1 name) of
        None \<Rightarrow> (name, None)
      | Some i \<Rightarrow> (take (Suc i) name, Some (drop (Suc (Suc i)) name)))"

text \<open>One round of \<open>parseOne\<close> on the argument \<open>s\<close>, with the arguments after it: no flag (the
  parse stops, keeping or dropping \<open>s\<close>), or a flag seen, with the number of further arguments
  it took.\<close>

datatype 'o flag_round = StopKeep | StopDrop | FlagError flag_err | FlagSeen string "'o option" bool string

definition flag_round :: "'o flag_table \<Rightarrow> string \<Rightarrow> string list \<Rightarrow> 'o \<Rightarrow> 'o flag_round" where
  "flag_round tab s args opt =
     (if length s < 2 \<or> hd s \<noteq> CHR ''-'' then StopKeep
      else if s = ''--'' then StopDrop
      else
        (let name0 = (if s ! 1 = CHR ''-'' then drop 2 s else drop 1 s) in
         if name0 = [] \<or> hd name0 = CHR ''-'' \<or> hd name0 = CHR ''='' then FlagError (BadFlagSyntax s)
         else (case split_name name0 of (name, val) \<Rightarrow>
           (case map_of tab name of
              None \<Rightarrow> FlagError (if name = ''help'' \<or> name = ''h'' then ErrHelp else NotDefined name)
            | Some k \<Rightarrow>
                (case val of
                   Some v \<Rightarrow> FlagSeen name (flag_set_value k v opt) False v
                 | None \<Rightarrow>
                     if is_bool_flag k then FlagSeen name (flag_set_value k ''true'' opt) False ''true''
                     else if args = [] then FlagError (NeedsArgument name)
                     else FlagSeen name (flag_set_value k (hd args) opt) True (hd args))))))"

text \<open>\<open>fs.Parse\<close>: the variables, the names seen and the arguments left over.\<close>

function flag_parse ::
  "'o flag_table \<Rightarrow> string list \<Rightarrow> 'o \<Rightarrow> string set \<Rightarrow> flag_err + ('o \<times> string set \<times> string list)" where
  "flag_parse tab [] opt seen = Inr (opt, seen, [])"
| "flag_parse tab (s # args) opt seen =
     (case flag_round tab s args opt of
        StopKeep \<Rightarrow> Inr (opt, seen, s # args)
      | StopDrop \<Rightarrow> Inr (opt, seen, args)
      | FlagError e \<Rightarrow> Inl e
      | FlagSeen name (Some opt') took v \<Rightarrow>
          flag_parse tab (if took then tl args else args) opt' (insert name seen)
      | FlagSeen name None took v \<Rightarrow> Inl (InvalidValue name v))"
  by pat_completeness auto
termination
  by (relation "measure (\<lambda>(tab, args, opt, seen). length args)") auto

lemma flag_round_name:
  "flag_round tab s args opt = FlagSeen name opt' took v \<Longrightarrow> name \<in> fst ` set tab"
  by (auto simp: flag_round_def Let_def image_iff dest!: map_of_SomeD
      split: if_splits option.splits prod.splits) (metis fst_conv)+

lemma flag_parse_seen:
  "flag_parse tab args opt seen = Inr (opt', seen', rest) \<Longrightarrow> seen \<subseteq> seen' \<and> seen' \<subseteq> seen \<union> fst ` set tab"
proof (induction tab args opt seen arbitrary: opt' seen' rest rule: flag_parse.induct)
  case (2 tab s args opt seen)
  show ?case
  proof (cases "flag_round tab s args opt")
    case (FlagSeen name o1 took v)
    then obtain o2 where o: "o1 = Some o2" using 2(2) by (cases o1) auto
    have p: "flag_parse tab (if took then tl args else args) o2 (insert name seen) = Inr (opt', seen', rest)"
      using 2(2) by (simp only: flag_parse.simps FlagSeen o flag_round.case option.case)
    show ?thesis using 2(1) [OF FlagSeen o p] flag_round_name [OF FlagSeen] by auto
  qed (use 2(2) in auto)
qed simp

section \<open>Paths\<close>

text \<open>\<open>filepath.Clean\<close> on Unix, over the elements of the path, and \<open>filepath.Join\<close>.\<close>

fun clean_elems :: "bool \<Rightarrow> string list \<Rightarrow> string list \<Rightarrow> string list" where
  "clean_elems rooted stack [] = rev stack"
| "clean_elems rooted stack (e # es) =
     (if e = [] \<or> e = ''.'' then clean_elems rooted stack es
      else if e = ''..'' then
        (if stack \<noteq> [] \<and> hd stack \<noteq> ''..'' then clean_elems rooted (tl stack) es
         else if rooted then clean_elems rooted stack es
         else clean_elems rooted (e # stack) es)
      else clean_elems rooted (e # stack) es)"

definition filepath_Clean :: "string \<Rightarrow> string" where
  "filepath_Clean p =
     (let rooted = take 1 p = ''/'';
          out = (if rooted then ''/'' else []) @ Join (clean_elems rooted [] (SplitByte CHR ''/'' p)) ''/'' in
      if out = [] then ''.'' else out)"

definition filepath_Join2 :: "string \<Rightarrow> string \<Rightarrow> string" where
  "filepath_Join2 a b =
     (if a \<noteq> [] then filepath_Clean (a @ ''/'' @ b) else if b \<noteq> [] then filepath_Clean b else [])"

end
