(* ===== verification/Config_Model.thy ===== *)
theory Config_Model
  imports Go_Flags
begin

text \<open>
  The configuration file, config.go: the option records it fills (main.go), the sections of the
  file with their optional fields, the two layouts, the list decoding of a section, and the merge
  of a section into options under the flags given on the command line.  The YAML package is a
  record of parameters (\<open>yaml\<close>): its parser, its printer and its strict decoders, the one for
  the top level being given the two \<open>UnmarshalYAML\<close> callbacks.  The set of names of explicitly
  given flags stands for the map \<open>setFlags\<close>.
\<close>

section \<open>Records\<close>

record options =
  o_listenPort :: int
  o_listenHost :: string
  o_target :: string
  o_mode :: string
  o_proto :: string
  o_reuseAddr :: bool
  o_useSudo :: bool
  o_dialTimeout :: i64
  o_maxConns :: int
  o_idleTimeout :: i64
  o_logLevel :: string
  o_quiet :: bool
  o_showVersion :: bool
  o_configPath :: string
  o_lang :: string
  o_statsAddr :: string
  o_webAddr :: string
  o_webLogMax :: int
  o_webLogMaxSet :: bool

record proxyOptions =
  p_addr :: string
  p_dialTimeout :: i64
  p_maxConns :: int
  p_handshakeTimeout :: i64
  p_idleTimeout :: i64
  p_allowPublic :: bool
  p_upstream :: string
  p_upstreamIdentity :: string
  p_upstreamIdentityPassphrase :: string
  p_upstreamKnownHosts :: string
  p_upstreamInsecure :: bool
  p_upstreamAgent :: bool
  p_upstreamAgentSocket :: string
  p_upstreamKeepalive :: i64
  p_upstreamKeepaliveMaxFailures :: int
  p_showVersion :: bool
  p_configPath :: string
  p_lang :: string
  p_statsAddr :: string
  p_statsAllowPublic :: bool
  p_webAddr :: string
  p_webAllowPublic :: bool
  p_webLogMax :: int
  p_webLogMaxSet :: bool

record ForwardConfig =
  fw_ListenPort :: "int option"
  fw_ListenHost :: "string option"
  fw_Target :: "string option"
  fw_Mode :: "string option"
  fw_Proto :: "string option"
  fw_ReuseAddr :: "bool option"
  fw_Sudo :: "bool option"
  fw_DialTimeout :: "string option"
  fw_MaxConns :: "int option"
  fw_IdleTimeout :: "string option"
  fw_LogLevel :: "string option"
  fw_Quiet :: "bool option"
  fw_StatsAddr :: "string option"
  fw_WebAddr :: "string option"
  fw_WebLogMax :: "int option"

record ProxyConfig =
  px_Addr :: "string option"
  px_DialTimeout :: "string option"
  px_MaxConns :: "int option"
  px_HandshakeTimeout :: "string option"
  px_IdleTimeout :: "string option"
  px_AllowPublic :: "bool option"
  px_Upstream :: "string option"
  px_UpstreamIdentity :: "string option"
  px_UpstreamIdentityPassphrase :: "string option"
  px_UpstreamKnownHosts :: "string option"
  px_UpstreamInsecure :: "bool option"
  px_UpstreamAgent :: "bool option"
  px_UpstreamAgentSocket :: "string option"
  px_UpstreamKeepalive :: "string option"
  px_UpstreamKeepaliveMaxFailures :: "int option"
  px_StatsAddr :: "string option"
  px_StatsAllowPublic :: "bool option"
  px_WebAddr :: "string option"
  px_WebAllowPublic :: "bool option"
  px_WebLogMax :: "int option"

record fileConfig =
  fl_ListenPort :: "int option"
  fl_ListenHost :: "string option"
  fl_Target :: "string option"
  fl_Mode :: "string option"
  fl_Proto :: "string option"
  fl_ReuseAddr :: "bool option"
  fl_Sudo :: "bool option"
  fl_DialTimeout :: "string option"
  fl_MaxConns :: "int option"
  fl_IdleTimeout :: "string option"
  fl_LogLevel :: "string option"
  fl_Quiet :: "bool option"
  fl_StatsAddr :: "string option"
  fl_WebAddr :: "string option"
  fl_WebLogMax :: "int option"
  fl_Lang :: "string option"

text \<open>A section is a list of pointers; \<open>None\<close> is a nil pointer.\<close>

record Config =
  cf_Forward :: "ForwardConfig option list"
  cf_Proxy :: "ProxyConfig option list"
  cf_Lang :: "string option"

definition zero_ForwardConfig :: ForwardConfig where
  "zero_ForwardConfig =
     \<lparr>fw_ListenPort = None, fw_ListenHost = None, fw_Target = None, fw_Mode = None, fw_Proto = None,
      fw_ReuseAddr = None, fw_Sudo = None, fw_DialTimeout = None, fw_MaxConns = None,
      fw_IdleTimeout = None, fw_LogLevel = None, fw_Quiet = None, fw_StatsAddr = None,
      fw_WebAddr = None, fw_WebLogMax = None\<rparr>"

definition zero_ProxyConfig :: ProxyConfig where
  "zero_ProxyConfig =
     \<lparr>px_Addr = None, px_DialTimeout = None, px_MaxConns = None, px_HandshakeTimeout = None,
      px_IdleTimeout = None, px_AllowPublic = None, px_Upstream = None, px_UpstreamIdentity = None,
      px_UpstreamIdentityPassphrase = None, px_UpstreamKnownHosts = None, px_UpstreamInsecure = None,
      px_UpstreamAgent = None, px_UpstreamAgentSocket = None, px_UpstreamKeepalive = None,
      px_UpstreamKeepaliveMaxFailures = None, px_StatsAddr = None, px_StatsAllowPublic = None,
      px_WebAddr = None, px_WebAllowPublic = None, px_WebLogMax = None\<rparr>"

definition zero_fileConfig :: fileConfig where
  "zero_fileConfig =
     \<lparr>fl_ListenPort = None, fl_ListenHost = None, fl_Target = None, fl_Mode = None, fl_Proto = None,
      fl_ReuseAddr = None, fl_Sudo = None, fl_DialTimeout = None, fl_MaxConns = None,
      fl_IdleTimeout = None, fl_LogLevel = None, fl_Quiet = None, fl_StatsAddr = None,
      fl_WebAddr = None, fl_WebLogMax = None, fl_Lang = None\<rparr>"

definition zero_Config :: Config where
  "zero_Config = \<lparr>cf_Forward = [], cf_Proxy = [], cf_Lang = None\<rparr>"

section \<open>YAML nodes and decoding\<close>

datatype node_kind = DocumentNode | SequenceNode | MappingNode | ScalarNode | AliasNode

datatype ynode = YNode (y_Kind: node_kind) (y_Value: string) (y_Line: int) (y_Content: "ynode list")

datatype cfg_err =
    ErrConfigRead string | ErrConfigParse string | ErrNodeKind node_kind int
  | ErrConfigDial string | ErrConfigHandshake string | ErrConfigIdle string | ErrConfigKeepalive string

datatype 'a decoded = Decoded 'a | DecodeEOF | DecodeErr string

record yaml =
  yl_Unmarshal :: "string \<Rightarrow> ynode option"
  yl_Marshal :: "ynode \<Rightarrow> string + string"
  yl_Forward :: "string \<Rightarrow> ForwardConfig decoded"
  yl_Proxy :: "string \<Rightarrow> ProxyConfig decoded"
  yl_File :: "string \<Rightarrow> fileConfig decoded"
  yl_Config ::
    "(ynode \<Rightarrow> cfg_err + ForwardConfig option list) \<Rightarrow> (ynode \<Rightarrow> cfg_err + ProxyConfig option list) \<Rightarrow>
     string \<Rightarrow> Config decoded"

text \<open>\<open>decodeStrict\<close>, with the decoder of the type of \<open>out\<close> and its zero value.\<close>

definition decodeStrict :: "(string \<Rightarrow> 'a decoded) \<Rightarrow> 'a \<Rightarrow> string \<Rightarrow> cfg_err + 'a" where
  "decodeStrict dec zero data =
     (case dec data of
        Decoded v \<Rightarrow> Inr v
      | DecodeEOF \<Rightarrow> Inr zero
      | DecodeErr e \<Rightarrow> Inl (ErrConfigParse e))"

definition decodeNodeStrict ::
  "(ynode \<Rightarrow> string + string) \<Rightarrow> (string \<Rightarrow> 'a decoded) \<Rightarrow> 'a \<Rightarrow> ynode \<Rightarrow> cfg_err + 'a" where
  "decodeNodeStrict marshal dec zero node =
     (case marshal node of
        Inl e \<Rightarrow> Inl (ErrConfigParse e)
      | Inr raw \<Rightarrow> decodeStrict dec zero raw)"

fun decode_items ::
  "(ynode \<Rightarrow> string + string) \<Rightarrow> (string \<Rightarrow> 'a decoded) \<Rightarrow> 'a \<Rightarrow> ynode list \<Rightarrow> cfg_err + 'a option list" where
  "decode_items marshal dec zero [] = Inr []"
| "decode_items marshal dec zero (child # rest) =
     (case decodeNodeStrict marshal dec zero child of
        Inl e \<Rightarrow> Inl e
      | Inr item \<Rightarrow>
          (case decode_items marshal dec zero rest of
             Inl e \<Rightarrow> Inl e
           | Inr items \<Rightarrow> Inr (Some item # items)))"

definition decodeNodeList ::
  "(ynode \<Rightarrow> string + string) \<Rightarrow> (string \<Rightarrow> 'a decoded) \<Rightarrow> 'a \<Rightarrow> ynode \<Rightarrow> cfg_err + 'a option list" where
  "decodeNodeList marshal dec zero node =
     (case y_Kind node of
        MappingNode \<Rightarrow>
          (case decodeNodeStrict marshal dec zero node of
             Inl e \<Rightarrow> Inl e
           | Inr item \<Rightarrow> Inr [Some item])
      | SequenceNode \<Rightarrow> decode_items marshal dec zero (y_Content node)
      | _ \<Rightarrow> Inl (ErrNodeKind (y_Kind node) (y_Line node)))"

definition UnmarshalForward :: "yaml \<Rightarrow> ynode \<Rightarrow> cfg_err + ForwardConfig option list" where
  "UnmarshalForward y = decodeNodeList (yl_Marshal y) (yl_Forward y) zero_ForwardConfig"

definition UnmarshalProxy :: "yaml \<Rightarrow> ynode \<Rightarrow> cfg_err + ProxyConfig option list" where
  "UnmarshalProxy y = decodeNodeList (yl_Marshal y) (yl_Proxy y) zero_ProxyConfig"

text \<open>The keys of a mapping are its children at the even places that have a value after them.\<close>

definition nestedTopKeys :: "string list" where
  "nestedTopKeys = [''forward'', ''proxy'']"

fun has_nested_key :: "ynode list \<Rightarrow> bool" where
  "has_nested_key (k # v # rest) = (y_Value k \<in> set nestedTopKeys \<or> has_nested_key rest)"
| "has_nested_key _ = False"

definition isNestedLayout :: "yaml \<Rightarrow> string \<Rightarrow> bool" where
  "isNestedLayout y data =
     (case yl_Unmarshal y data of
        None \<Rightarrow> False
      | Some doc \<Rightarrow>
          (case y_Content doc of
             [] \<Rightarrow> False
           | m # _ \<Rightarrow> y_Kind m = MappingNode \<and> has_nested_key (y_Content m)))"

definition forward_of_flat :: "fileConfig \<Rightarrow> ForwardConfig" where
  "forward_of_flat flat =
     \<lparr>fw_ListenPort = fl_ListenPort flat, fw_ListenHost = fl_ListenHost flat, fw_Target = fl_Target flat,
      fw_Mode = fl_Mode flat, fw_Proto = fl_Proto flat, fw_ReuseAddr = fl_ReuseAddr flat,
      fw_Sudo = fl_Sudo flat, fw_DialTimeout = fl_DialTimeout flat, fw_MaxConns = fl_MaxConns flat,
      fw_IdleTimeout = fl_IdleTimeout flat, fw_LogLevel = fl_LogLevel flat, fw_Quiet = fl_Quiet flat,
      fw_StatsAddr = fl_StatsAddr flat, fw_WebAddr = fl_WebAddr flat, fw_WebLogMax = fl_WebLogMax flat\<rparr>"

text \<open>\<open>read\<close> is \<open>os.ReadFile\<close>.\<close>

definition loadTopConfig :: "(string \<Rightarrow> string + string) \<Rightarrow> yaml \<Rightarrow> string \<Rightarrow> cfg_err + Config" where
  "loadTopConfig read y path =
     (case read path of
        Inl e \<Rightarrow> Inl (ErrConfigRead e)
      | Inr data \<Rightarrow>
          if isNestedLayout y data
          then decodeStrict (yl_Config y (UnmarshalForward y) (UnmarshalProxy y)) zero_Config data
          else
            (case decodeStrict (yl_File y) zero_fileConfig data of
               Inl e \<Rightarrow> Inl e
             | Inr flat \<Rightarrow>
                 (let cfg = zero_Config\<lparr>cf_Lang := fl_Lang flat\<rparr>;
                      legacy = flat\<lparr>fl_Lang := None\<rparr> in
                  if legacy = zero_fileConfig then Inr cfg
                  else Inr (cfg\<lparr>cf_Forward := [Some (forward_of_flat flat)]\<rparr>))))"

definition flat_of_config :: "Config \<Rightarrow> fileConfig" where
  "flat_of_config cfg =
     (let out = zero_fileConfig\<lparr>fl_Lang := cf_Lang cfg\<rparr> in
      case cf_Forward cfg of
        Some fw # _ \<Rightarrow>
          out\<lparr>fl_ListenPort := fw_ListenPort fw, fl_ListenHost := fw_ListenHost fw,
              fl_Target := fw_Target fw, fl_Mode := fw_Mode fw, fl_Proto := fw_Proto fw,
              fl_ReuseAddr := fw_ReuseAddr fw, fl_Sudo := fw_Sudo fw,
              fl_DialTimeout := fw_DialTimeout fw, fl_MaxConns := fw_MaxConns fw,
              fl_IdleTimeout := fw_IdleTimeout fw, fl_LogLevel := fw_LogLevel fw,
              fl_Quiet := fw_Quiet fw, fl_StatsAddr := fw_StatsAddr fw, fl_WebAddr := fw_WebAddr fw,
              fl_WebLogMax := fw_WebLogMax fw\<rparr>
      | _ \<Rightarrow> out)"

definition loadForwardConfig :: "(string \<Rightarrow> string + string) \<Rightarrow> yaml \<Rightarrow> string \<Rightarrow> cfg_err + fileConfig" where
  "loadForwardConfig read y path =
     (case loadTopConfig read y path of Inl e \<Rightarrow> Inl e | Inr cfg \<Rightarrow> Inr (flat_of_config cfg))"

definition loadConfig :: "(string \<Rightarrow> string + string) \<Rightarrow> yaml \<Rightarrow> string \<Rightarrow> cfg_err + fileConfig" where
  "loadConfig read y path =
     (case read path of
        Inl e \<Rightarrow> Inl (ErrConfigRead e)
      | Inr data \<Rightarrow>
          (case yl_File y data of
             Decoded cfg \<Rightarrow> Inr cfg
           | DecodeEOF \<Rightarrow> Inr zero_fileConfig
           | DecodeErr e \<Rightarrow> Inl (ErrConfigParse e)))"

section \<open>Merging\<close>

text \<open>The value of \<open>*dst\<close> after the call.\<close>

definition applyConfigValue :: "'a \<Rightarrow> 'a option \<Rightarrow> string set \<Rightarrow> string \<Rightarrow> 'a" where
  "applyConfigValue dst src flags name =
     (case src of Some v \<Rightarrow> (if name \<in> flags then dst else v) | None \<Rightarrow> dst)"

definition applyConfigDuration ::
  "i64 \<Rightarrow> string option \<Rightarrow> string set \<Rightarrow> string \<Rightarrow> (string \<Rightarrow> cfg_err) \<Rightarrow> cfg_err + i64" where
  "applyConfigDuration dst src flags name err =
     (case src of
        None \<Rightarrow> Inr dst
      | Some s \<Rightarrow>
          if name \<in> flags then Inr dst
          else (case ParseDuration s of None \<Rightarrow> Inl (err s) | Some v \<Rightarrow> Inr v))"

text \<open>The fields of a forward section that are not durations, in the order of the calls.\<close>

definition apply_forward_values :: "options \<Rightarrow> ForwardConfig \<Rightarrow> string set \<Rightarrow> options" where
  "apply_forward_values opt fc flags =
     opt\<lparr>o_listenPort := applyConfigValue (o_listenPort opt) (fw_ListenPort fc) flags ''listen-port'',
         o_listenHost := applyConfigValue (o_listenHost opt) (fw_ListenHost fc) flags ''listen-host'',
         o_target := applyConfigValue (o_target opt) (fw_Target fc) flags ''target'',
         o_mode := applyConfigValue (o_mode opt) (fw_Mode fc) flags ''mode'',
         o_proto := applyConfigValue (o_proto opt) (fw_Proto fc) flags ''proto'',
         o_reuseAddr := applyConfigValue (o_reuseAddr opt) (fw_ReuseAddr fc) flags ''reuseaddr'',
         o_useSudo := applyConfigValue (o_useSudo opt) (fw_Sudo fc) flags ''sudo'',
         o_maxConns := applyConfigValue (o_maxConns opt) (fw_MaxConns fc) flags ''max-conns'',
         o_logLevel := applyConfigValue (o_logLevel opt) (fw_LogLevel fc) flags ''log-level'',
         o_quiet := applyConfigValue (o_quiet opt) (fw_Quiet fc) flags ''quiet'',
         o_statsAddr := applyConfigValue (o_statsAddr opt) (fw_StatsAddr fc) flags ''stats-addr'',
         o_webAddr := applyConfigValue (o_webAddr opt) (fw_WebAddr fc) flags ''web-addr'',
         o_webLogMax := applyConfigValue (o_webLogMax opt) (fw_WebLogMax fc) flags ''web-log-max''\<rparr>"

definition applyForwardConfig :: "options \<Rightarrow> ForwardConfig option \<Rightarrow> string set \<Rightarrow> cfg_err + options" where
  "applyForwardConfig opt0 fcp flags =
     (case fcp of
        None \<Rightarrow> Inr opt0
      | Some fc \<Rightarrow>
          (let opt = apply_forward_values opt0 fc flags in
           case applyConfigDuration (o_dialTimeout opt) (fw_DialTimeout fc) flags ''dial-timeout'' ErrConfigDial of
             Inl e \<Rightarrow> Inl e
           | Inr d \<Rightarrow>
               (case applyConfigDuration (o_idleTimeout opt) (fw_IdleTimeout fc) flags ''idle-timeout'' ErrConfigIdle of
                  Inl e \<Rightarrow> Inl e
                | Inr i \<Rightarrow> Inr (opt\<lparr>o_dialTimeout := d, o_idleTimeout := i\<rparr>))))"

definition mergeConfig :: "options \<Rightarrow> fileConfig option \<Rightarrow> string set \<Rightarrow> cfg_err + options" where
  "mergeConfig opt0 cfgp flags =
     (case cfgp of
        None \<Rightarrow> Inr opt0
      | Some c \<Rightarrow>
          (let opt = opt0\<lparr>
             o_listenPort := applyConfigValue (o_listenPort opt0) (fl_ListenPort c) flags ''listen-port'',
             o_listenHost := applyConfigValue (o_listenHost opt0) (fl_ListenHost c) flags ''listen-host'',
             o_target := applyConfigValue (o_target opt0) (fl_Target c) flags ''target'',
             o_mode := applyConfigValue (o_mode opt0) (fl_Mode c) flags ''mode'',
             o_proto := applyConfigValue (o_proto opt0) (fl_Proto c) flags ''proto'',
             o_reuseAddr := applyConfigValue (o_reuseAddr opt0) (fl_ReuseAddr c) flags ''reuseaddr'',
             o_useSudo := applyConfigValue (o_useSudo opt0) (fl_Sudo c) flags ''sudo'',
             o_maxConns := applyConfigValue (o_maxConns opt0) (fl_MaxConns c) flags ''max-conns'',
             o_logLevel := applyConfigValue (o_logLevel opt0) (fl_LogLevel c) flags ''log-level'',
             o_quiet := applyConfigValue (o_quiet opt0) (fl_Quiet c) flags ''quiet'',
             o_statsAddr := applyConfigValue (o_statsAddr opt0) (fl_StatsAddr c) flags ''stats-addr'',
             o_webAddr := applyConfigValue (o_webAddr opt0) (fl_WebAddr c) flags ''web-addr'',
             o_webLogMax := applyConfigValue (o_webLogMax opt0) (fl_WebLogMax c) flags ''web-log-max'',
             o_lang := applyConfigValue (o_lang opt0) (fl_Lang c) flags ''lang''\<rparr> in
           case applyConfigDuration (o_dialTimeout opt) (fl_DialTimeout c) flags ''dial-timeout'' ErrConfigDial of
             Inl e \<Rightarrow> Inl e
           | Inr d \<Rightarrow>
               (case applyConfigDuration (o_idleTimeout opt) (fl_IdleTimeout c) flags ''idle-timeout'' ErrConfigIdle of
                  Inl e \<Rightarrow> Inl e
                | Inr i \<Rightarrow> Inr (opt\<lparr>o_dialTimeout := d, o_idleTimeout := i\<rparr>))))"

text \<open>The proxy section; a passphrase has no flag and always comes from the file.\<close>

definition apply_proxy_values :: "proxyOptions \<Rightarrow> ProxyConfig \<Rightarrow> string set \<Rightarrow> proxyOptions" where
  "apply_proxy_values opt pc flags =
     opt\<lparr>p_addr := applyConfigValue (p_addr opt) (px_Addr pc) flags ''addr'',
         p_maxConns := applyConfigValue (p_maxConns opt) (px_MaxConns pc) flags ''max-conns'',
         p_allowPublic := applyConfigValue (p_allowPublic opt) (px_AllowPublic pc) flags ''allow-public'',
         p_upstream := applyConfigValue (p_upstream opt) (px_Upstream pc) flags ''upstream'',
         p_upstreamIdentity := applyConfigValue (p_upstreamIdentity opt) (px_UpstreamIdentity pc) flags ''upstream-identity'',
         p_upstreamIdentityPassphrase :=
           (case px_UpstreamIdentityPassphrase pc of Some v \<Rightarrow> v | None \<Rightarrow> p_upstreamIdentityPassphrase opt),
         p_upstreamKnownHosts := applyConfigValue (p_upstreamKnownHosts opt) (px_UpstreamKnownHosts pc) flags ''upstream-known-hosts'',
         p_upstreamInsecure := applyConfigValue (p_upstreamInsecure opt) (px_UpstreamInsecure pc) flags ''upstream-insecure'',
         p_upstreamAgent := applyConfigValue (p_upstreamAgent opt) (px_UpstreamAgent pc) flags ''upstream-agent'',
         p_upstreamAgentSocket := applyConfigValue (p_upstreamAgentSocket opt) (px_UpstreamAgentSocket pc) flags ''upstream-agent-socket'',
         p_upstreamKeepaliveMaxFailures :=
           applyConfigValue (p_upstreamKeepaliveMaxFailures opt) (px_UpstreamKeepaliveMaxFailures pc) flags ''upstream-keepalive-max-failures'',
         p_statsAddr := applyConfigValue (p_statsAddr opt) (px_StatsAddr pc) flags ''stats-addr'',
         p_statsAllowPublic := applyConfigValue (p_statsAllowPublic opt) (px_StatsAllowPublic pc) flags ''stats-allow-public'',
         p_webAddr := applyConfigValue (p_webAddr opt) (px_WebAddr pc) flags ''web-addr'',
         p_webAllowPublic := applyConfigValue (p_webAllowPublic opt) (px_WebAllowPublic pc) flags ''web-allow-public'',
         p_webLogMax := applyConfigValue (p_webLogMax opt) (px_WebLogMax pc) flags ''web-log-max'',
         p_webLogMaxSet := (if px_WebLogMax pc \<noteq> None \<and> ''web-log-max'' \<notin> flags then True else p_webLogMaxSet opt)\<rparr>"

definition applyProxyConfig :: "proxyOptions \<Rightarrow> ProxyConfig option \<Rightarrow> string set \<Rightarrow> cfg_err + proxyOptions" where
  "applyProxyConfig opt0 pcp flags =
     (case pcp of
        None \<Rightarrow> Inr opt0
      | Some pc \<Rightarrow>
          (case applyConfigDuration (p_dialTimeout opt0) (px_DialTimeout pc) flags ''dial-timeout'' ErrConfigDial of
             Inl e \<Rightarrow> Inl e
           | Inr d \<Rightarrow>
          (case applyConfigDuration (p_handshakeTimeout opt0) (px_HandshakeTimeout pc) flags ''handshake-timeout'' ErrConfigHandshake of
             Inl e \<Rightarrow> Inl e
           | Inr h \<Rightarrow>
          (case applyConfigDuration (p_idleTimeout opt0) (px_IdleTimeout pc) flags ''idle-timeout'' ErrConfigIdle of
             Inl e \<Rightarrow> Inl e
           | Inr i \<Rightarrow>
          (case applyConfigDuration (p_upstreamKeepalive opt0) (px_UpstreamKeepalive pc) flags ''upstream-keepalive'' ErrConfigKeepalive of
             Inl e \<Rightarrow> Inl e
           | Inr k \<Rightarrow>
              Inr ((apply_proxy_values opt0 pc flags)
                     \<lparr>p_dialTimeout := d, p_handshakeTimeout := h, p_idleTimeout := i, p_upstreamKeepalive := k\<rparr>))))))"

definition mergeProxyConfig :: "proxyOptions \<Rightarrow> Config option \<Rightarrow> string set \<Rightarrow> cfg_err + proxyOptions" where
  "mergeProxyConfig opt0 cfgp flags =
     (case cfgp of
        None \<Rightarrow> Inr opt0
      | Some cfg \<Rightarrow>
          (let opt = opt0\<lparr>p_lang := applyConfigValue (p_lang opt0) (cf_Lang cfg) flags ''lang''\<rparr> in
           case cf_Proxy cfg of
             [] \<Rightarrow> Inr opt
           | None # _ \<Rightarrow> Inr opt
           | Some pc # _ \<Rightarrow> applyProxyConfig opt (Some pc) flags))"

section \<open>Facts\<close>

lemma applyConfigDuration_Inr:
  "applyConfigDuration dst src flags name err = Inr v \<longleftrightarrow>
     (if name \<in> flags \<or> src = None then v = dst else ParseDuration (the src) = Some v)"
  by (auto simp: applyConfigDuration_def split: option.splits)

lemma decode_items_length:
  "decode_items marshal dec zero ns = Inr items \<longleftrightarrow>
     length items = length ns \<and>
     (\<forall>i < length ns. \<exists>c. items ! i = Some c \<and> decodeNodeStrict marshal dec zero (ns ! i) = Inr c)"
proof (induction ns arbitrary: items)
  case Nil
  then show ?case by auto
next
  case (Cons n ns)
  show ?case
  proof (cases items)
    case Nil
    then show ?thesis by (auto split: sum.splits)
  next
    case (Cons it its)
    have "(\<forall>i < Suc (length ns). \<exists>c. (it # its) ! i = Some c \<and> decodeNodeStrict marshal dec zero ((n # ns) ! i) = Inr c) \<longleftrightarrow>
      (\<exists>c. it = Some c \<and> decodeNodeStrict marshal dec zero n = Inr c) \<and>
      (\<forall>i < length ns. \<exists>c. its ! i = Some c \<and> decodeNodeStrict marshal dec zero (ns ! i) = Inr c)"
      by (simp only: All_less_Suc2 nth_Cons_0 nth_Cons_Suc)
    then show ?thesis unfolding Cons using Cons.IH [of its] by (auto split: sum.splits)
  qed
qed

lemma applyConfigDuration_Inl:
  "applyConfigDuration dst src flags name err = Inl e \<longleftrightarrow>
     name \<notin> flags \<and> (\<exists>s. src = Some s \<and> ParseDuration s = None \<and> e = err s)"
  by (auto simp: applyConfigDuration_def split: option.splits)

lemma merge_flat_of_config:
  "mergeConfig opt (Some (flat_of_config cfg)) flags =
     map_sum id (\<lambda>o'. o'\<lparr>o_lang := applyConfigValue (o_lang opt) (cf_Lang cfg) flags ''lang''\<rparr>)
       (applyForwardConfig opt (case cf_Forward cfg of [] \<Rightarrow> None | fw # _ \<Rightarrow> fw) flags)"
proof (cases "\<exists>fw rest. cf_Forward cfg = Some fw # rest")
  case True
  then obtain fw rest where f: "cf_Forward cfg = Some fw # rest" by blast
  show ?thesis
    by (simp add: f mergeConfig_def applyForwardConfig_def flat_of_config_def apply_forward_values_def
        zero_fileConfig_def Let_def split: sum.splits)
next
  case False
  then have h: "cf_Forward cfg = [] \<or> (\<exists>rest. cf_Forward cfg = None # rest)"
    by (metis neq_Nil_conv not_Some_eq)
  then have "flat_of_config cfg = zero_fileConfig\<lparr>fl_Lang := cf_Lang cfg\<rparr>"
    by (auto simp: flat_of_config_def)
  then show ?thesis using h
    by (auto simp: mergeConfig_def applyForwardConfig_def zero_fileConfig_def applyConfigValue_def
        applyConfigDuration_def)
qed

text \<open>A section of the file is one object or a list of objects: a mapping gives one instance,
  a sequence gives one instance for each element, in order, each decoded strictly; any other node,
  and any element that does not decode, makes the whole section an error.  No instance is nil.\<close>
theorem section_list_decoding:
  "decodeNodeList marshal dec zero node =
     (let one = (\<lambda>n. decodeNodeStrict marshal dec zero n) in
      case y_Kind node of
        MappingNode \<Rightarrow> map_sum id (\<lambda>c. [Some c]) (one node)
      | SequenceNode \<Rightarrow>
          (case List.find (\<lambda>n. \<exists>e. one n = Inl e) (y_Content node) of
             Some n \<Rightarrow> Inl (projl (one n))
           | None \<Rightarrow> Inr (map (\<lambda>n. Some (projr (one n))) (y_Content node)))
      | _ \<Rightarrow> Inl (ErrNodeKind (y_Kind node) (y_Line node)))"
proof -
  have seq: "decode_items marshal dec zero ns =
     (case List.find (\<lambda>n. \<exists>e. decodeNodeStrict marshal dec zero n = Inl e) ns of
        Some n \<Rightarrow> Inl (projl (decodeNodeStrict marshal dec zero n))
      | None \<Rightarrow> Inr (map (\<lambda>n. Some (projr (decodeNodeStrict marshal dec zero n))) ns))" for ns
    by (induction ns) (auto split: sum.splits option.splits)
  show ?thesis
    by (simp add: decodeNodeList_def Let_def seq split: node_kind.splits sum.splits)
qed

text \<open>The two layouts of the file are the same configuration.  A flat file read through the
  nested model is the file itself; and merging the flat form of a configuration gives exactly
  what applying its first forward section gives, plus the language.\<close>
theorem config_layouts_agree:
  "(\<forall>data. read path = Inr data \<and> \<not> isNestedLayout y data \<longrightarrow>
      loadForwardConfig read y path = loadConfig read y path) \<and>
   mergeConfig opt (Some (flat_of_config cfg)) flags =
     map_sum id (\<lambda>o'. o'\<lparr>o_lang := applyConfigValue (o_lang opt) (cf_Lang cfg) flags ''lang''\<rparr>)
       (applyForwardConfig opt (case cf_Forward cfg of [] \<Rightarrow> None | fw # _ \<Rightarrow> fw) flags)"
proof (intro conjI allI impI merge_flat_of_config)
  fix data
  assume d: "read path = Inr data \<and> \<not> isNestedLayout y data"
  have again: "(if flat\<lparr>fl_Lang := None\<rparr> = zero_fileConfig then flat_of_config (zero_Config\<lparr>cf_Lang := fl_Lang flat\<rparr>)
      else flat_of_config (zero_Config\<lparr>cf_Lang := fl_Lang flat, cf_Forward := [Some (forward_of_flat flat)]\<rparr>)) = flat"
    for flat :: fileConfig
    by (cases flat) (auto simp: flat_of_config_def zero_Config_def zero_fileConfig_def forward_of_flat_def)
  show "loadForwardConfig read y path = loadConfig read y path"
  proof (cases "yl_File y data")
    case (Decoded flat)
    then show ?thesis using d again [of flat]
      by (auto simp: loadForwardConfig_def loadTopConfig_def loadConfig_def decodeStrict_def Let_def split: if_splits)
  next
    case DecodeEOF
    then show ?thesis using d again [of zero_fileConfig]
      by (auto simp: loadForwardConfig_def loadTopConfig_def loadConfig_def decodeStrict_def Let_def split: if_splits)
  qed (use d in \<open>simp add: loadForwardConfig_def loadTopConfig_def loadConfig_def decodeStrict_def\<close>)
qed

definition sample_yaml :: yaml where
  "sample_yaml =
     \<lparr>yl_Unmarshal = \<lambda>_. None, yl_Marshal = \<lambda>n. Inr (y_Value n),
      yl_Forward = \<lambda>s. Decoded (zero_ForwardConfig\<lparr>fw_Target := Some s\<rparr>),
      yl_Proxy = \<lambda>s. Decoded zero_ProxyConfig,
      yl_File = \<lambda>s. Decoded (zero_fileConfig\<lparr>fl_Target := Some s\<rparr>),
      yl_Config = \<lambda>f p s. DecodeEOF\<rparr>"

lemma config_layouts_agree_witness:
  "loadForwardConfig Inr sample_yaml ''h:1'' = Inr (zero_fileConfig\<lparr>fl_Target := Some ''h:1''\<rparr>)"
proof -
  have r: "(Inr ''h:1'' :: string + string) = Inr ''h:1'' \<and> \<not> isNestedLayout sample_yaml ''h:1''"
    by (simp add: isNestedLayout_def sample_yaml_def)
  have "loadForwardConfig Inr sample_yaml ''h:1'' = loadConfig Inr sample_yaml ''h:1''"
    by (rule config_layouts_agree [THEN conjunct1, rule_format, where read = Inr and path = "''h:1''" and data = "''h:1''", OF r])
  then show ?thesis by (simp add: loadConfig_def sample_yaml_def)
qed

end
