(* ===== verification/Socat_Model.thy ===== *)
theory Socat_Model
  imports PM_Prelude
begin

text \<open>
  The fallback on the system's socat, internal/socat/socat.go: the checks of the options, the
  arguments of the command, the command itself with its sudo prefix, the line printed in the log
  and \<open>Run\<close>.  The search of the program in the path and the outcome of the process are
  parameters.
\<close>

record socat_Options =
  so_ListenPort :: int
  so_Target :: string
  so_Proto :: string
  so_Fork :: bool
  so_ReuseAddr :: bool
  so_ListenHost :: string
  so_Sudo :: bool

datatype socat_err =
    ErrSocatProto string | ErrSocatPort int | ErrSocatTarget | ErrSocatNotFound string string | SocatExit string

definition socat_proto :: "socat_Options \<Rightarrow> socat_err + string" where
  "socat_proto so =
     (let p = ToLower (TrimSpace (so_Proto so)) in
      if p = [] \<or> p = ''tcp'' then Inr ''tcp''
      else if p = ''udp'' then Inr ''udp''
      else Inl (ErrSocatProto (so_Proto so)))"

definition socat_Args :: "socat_Options \<Rightarrow> socat_err + string list" where
  "socat_Args so =
     (if so_ListenPort so \<le> 0 \<or> 65535 < so_ListenPort so then Inl (ErrSocatPort (so_ListenPort so))
      else if TrimSpace (so_Target so) = [] then Inl ErrSocatTarget
      else
        (case socat_proto so of
           Inl e \<Rightarrow> Inl e
         | Inr proto \<Rightarrow>
             (let scheme = ToUpper proto;
                  h = TrimSpace (so_ListenHost so);
                  listen = scheme @ ''-LISTEN:'' @ Itoa (so_ListenPort so)
                    @ (if h \<noteq> [] then '',bind='' @ h else [])
                    @ (if so_Fork so then '',fork'' else [])
                    @ (if so_ReuseAddr so then '',reuseaddr'' else []) in
              Inr [listen, scheme @ '':'' @ so_Target so])))"

text \<open>The program and its arguments; the signal sent on cancellation is \<open>SIGTERM\<close>.\<close>

record socat_Cmd =
  sc_name :: string
  sc_args :: "string list"
  sc_cancel_signal :: string

definition setGracefulCancel :: "socat_Cmd \<Rightarrow> socat_Cmd" where
  "setGracefulCancel cmd = cmd\<lparr>sc_cancel_signal := ''SIGTERM''\<rparr>"

definition socat_Command :: "(string \<Rightarrow> string option) \<Rightarrow> socat_Options \<Rightarrow> socat_err + socat_Cmd" where
  "socat_Command lookPathErr so =
     (case socat_Args so of
        Inl e \<Rightarrow> Inl e
      | Inr socatArgs \<Rightarrow>
          (let name = (if so_Sudo so then ''sudo'' else ''socat'');
               args = (if so_Sudo so then ''socat'' # socatArgs else socatArgs) in
           case lookPathErr name of
             Some e \<Rightarrow> Inl (ErrSocatNotFound name e)
           | None \<Rightarrow> Inr (setGracefulCancel \<lparr>sc_name = name, sc_args = args, sc_cancel_signal = ''SIGKILL''\<rparr>)))"

definition socat_String :: "string \<Rightarrow> socat_Options \<Rightarrow> string" where
  "socat_String invalidMsg so =
     (case socat_Args so of
        Inl _ \<Rightarrow> invalidMsg
      | Inr args \<Rightarrow> (if so_Sudo so then ''sudo socat'' else ''socat'') @ '' '' @ Join args '' '')"

definition socat_Run ::
  "(string \<Rightarrow> string option) \<Rightarrow> (socat_Cmd \<Rightarrow> string option) \<Rightarrow> socat_Options \<Rightarrow> socat_err option" where
  "socat_Run lookPathErr exec so =
     (case socat_Command lookPathErr so of
        Inl e \<Rightarrow> Some e
      | Inr cmd \<Rightarrow> map_option SocatExit (exec cmd))"

definition socat_valid :: "socat_Options \<Rightarrow> bool" where
  "socat_valid so \<longleftrightarrow>
     0 < so_ListenPort so \<and> so_ListenPort so \<le> 65535 \<and> TrimSpace (so_Target so) \<noteq> [] \<and>
     ToLower (TrimSpace (so_Proto so)) \<in> {[], ''tcp'', ''udp''}"

lemma socat_Args_Inr: "(\<exists>args. socat_Args so = Inr args) \<longleftrightarrow> socat_valid so"
  by (auto simp: socat_Args_def socat_proto_def socat_valid_def Let_def split: sum.splits)

lemma socat_Args_two: "socat_Args so = Inr args \<Longrightarrow> \<exists>a b. args = [a, b]"
  by (auto simp: socat_Args_def Let_def split: if_splits sum.splits)

text \<open>A process is started exactly for valid options whose program is found, and it is the
  command that was logged: the printed line is the program and its arguments joined by blanks.
  Its two addresses have the same protocol, the listening one carries the port within its range,
  and cancellation asks it to terminate.\<close>
theorem socat_runs_what_it_logs:
  "(\<forall>cmd. socat_Command lookPathErr so = Inr cmd \<longrightarrow>
      socat_valid so \<and> lookPathErr (sc_name cmd) = None \<and>
      socat_String msg so = Join (sc_name cmd # sc_args cmd) '' '' \<and>
      sc_cancel_signal cmd = ''SIGTERM'' \<and>
      (\<exists>proto listen opts. socat_proto so = Inr proto \<and> proto \<in> {''tcp'', ''udp''} \<and>
         listen = ToUpper proto @ ''-LISTEN:'' @ Itoa (so_ListenPort so) @ opts \<and>
         sc_name cmd # sc_args cmd =
           (if so_Sudo so then [''sudo''] else []) @ [''socat'', listen, ToUpper proto @ '':'' @ so_Target so])) \<and>
   ((\<exists>cmd. socat_Command lookPathErr so = Inr cmd) \<longleftrightarrow>
      socat_valid so \<and> lookPathErr (if so_Sudo so then ''sudo'' else ''socat'') = None) \<and>
   (socat_Run lookPathErr exec so = None \<longleftrightarrow>
      (\<exists>cmd. socat_Command lookPathErr so = Inr cmd \<and> exec cmd = None))"
proof (intro conjI allI impI)
  fix cmd
  assume c: "socat_Command lookPathErr so = Inr cmd"
  then obtain args where a: "socat_Args so = Inr args"
    by (auto simp: socat_Command_def split: sum.splits)
  then obtain p where p: "socat_proto so = Inr p"
    by (auto simp: socat_Args_def Let_def split: if_splits sum.splits)
  obtain opts where args: "args = [ToUpper p @ ''-LISTEN:'' @ Itoa (so_ListenPort so) @ opts, ToUpper p @ '':'' @ so_Target so]"
    using a p by (auto simp: socat_Args_def Let_def split: if_splits)
  show "socat_valid so" using a socat_Args_Inr by blast
  show "lookPathErr (sc_name cmd) = None" "sc_cancel_signal cmd = ''SIGTERM''"
    using c a by (auto simp: socat_Command_def setGracefulCancel_def Let_def split: option.splits if_splits)
  show "socat_String msg so = Join (sc_name cmd # sc_args cmd) '' ''"
    using c a by (auto simp: socat_Command_def socat_String_def setGracefulCancel_def Let_def args split: option.splits if_splits)
  have "p \<in> {''tcp'', ''udp''}" using p by (auto simp: socat_proto_def Let_def split: if_splits)
  moreover have "sc_name cmd # sc_args cmd =
      (if so_Sudo so then [''sudo''] else []) @ [''socat'', ToUpper p @ ''-LISTEN:'' @ Itoa (so_ListenPort so) @ opts, ToUpper p @ '':'' @ so_Target so]"
    using c a by (auto simp: socat_Command_def setGracefulCancel_def Let_def args split: option.splits if_splits)
  ultimately show "\<exists>proto listen opts. socat_proto so = Inr proto \<and> proto \<in> {''tcp'', ''udp''} \<and>
         listen = ToUpper proto @ ''-LISTEN:'' @ Itoa (so_ListenPort so) @ opts \<and>
         sc_name cmd # sc_args cmd =
           (if so_Sudo so then [''sudo''] else []) @ [''socat'', listen, ToUpper proto @ '':'' @ so_Target so]"
    using p by blast
next
  show "(\<exists>cmd. socat_Command lookPathErr so = Inr cmd) \<longleftrightarrow>
      socat_valid so \<and> lookPathErr (if so_Sudo so then ''sudo'' else ''socat'') = None"
    unfolding socat_Args_Inr [symmetric]
    by (auto simp: socat_Command_def Let_def split: sum.splits option.splits)
qed (auto simp: socat_Run_def split: sum.splits)

definition sample_socat :: socat_Options where
  "sample_socat = \<lparr>so_ListenPort = 22, so_Target = ''h:1'', so_Proto = '' TCP'', so_Fork = True,
     so_ReuseAddr = True, so_ListenHost = ''::1'', so_Sudo = True\<rparr>"

lemma socat_runs_what_it_logs_witness:
  "socat_String [] sample_socat = ''sudo socat TCP-LISTEN:22,bind=::1,fork,reuseaddr TCP:h:1''"
proof -
  have c: "socat_Command (\<lambda>_. None) sample_socat =
     Inr \<lparr>sc_name = ''sudo'', sc_args = [''socat'', ''TCP-LISTEN:22,bind=::1,fork,reuseaddr'', ''TCP:h:1''],
          sc_cancel_signal = ''SIGTERM''\<rparr>"
    by code_simp
  show ?thesis
    using socat_runs_what_it_logs [THEN conjunct1, rule_format, OF c, where msg = "[]"] by simp
qed

end
