(* ===== verification/Upstream_Config.thy ===== *)
theory Upstream_Config
  imports PM_Prelude
begin

text \<open>
  The upstream of the proxy as it is configured, internal/proxy/upstream.go: the record,
  \<open>ParseUpstreamURL\<close> and the default ports.  What \<open>url.Parse\<close> found in the URL is an input
  (\<open>go_url\<close>): the scheme, the host part and the user information.
\<close>

definition UpstreamSchemeSOCKS5 :: string where "UpstreamSchemeSOCKS5 = ''socks5''"
definition UpstreamSchemeHTTP :: string where "UpstreamSchemeHTTP = ''http''"
definition UpstreamSchemeSSH :: string where "UpstreamSchemeSSH = ''ssh''"

lemmas upstream_schemes = UpstreamSchemeSOCKS5_def UpstreamSchemeHTTP_def UpstreamSchemeSSH_def

record UpstreamConfig =
  uc_Scheme :: string
  uc_Addr :: string
  uc_Username :: string
  uc_Password :: string
  uc_IdentityFile :: string
  uc_IdentityPassphrase :: string
  uc_AgentSocket :: string
  uc_DisableAgent :: bool
  uc_KnownHostsFile :: string
  uc_Insecure :: bool
  uc_KeepaliveInterval :: i64
  uc_KeepaliveMaxFailures :: int

definition zero_UpstreamConfig :: UpstreamConfig where
  "zero_UpstreamConfig =
     \<lparr>uc_Scheme = [], uc_Addr = [], uc_Username = [], uc_Password = [], uc_IdentityFile = [],
      uc_IdentityPassphrase = [], uc_AgentSocket = [], uc_DisableAgent = False, uc_KnownHostsFile = [],
      uc_Insecure = False, uc_KeepaliveInterval = 0, uc_KeepaliveMaxFailures = 0\<rparr>"

definition upstream_describe :: "UpstreamConfig \<Rightarrow> string" where
  "upstream_describe c = uc_Scheme c @ ''://'' @ uc_Addr c"

text \<open>A parsed URL: scheme, host, and the user with an optional password.\<close>

record go_url =
  gu_Scheme :: string
  gu_Host :: string
  gu_User :: "(string \<times> string option) option"

datatype upstream_err = ErrUpstreamParse string | ErrUpstreamScheme string | ErrUpstreamEmptyHost

definition defaultUpstreamPort :: "string \<Rightarrow> string \<Rightarrow> string" where
  "defaultUpstreamPort scheme host =
     (case SplitHostPort host of
        Inr _ \<Rightarrow> host
      | Inl _ \<Rightarrow>
          if scheme = UpstreamSchemeSOCKS5 then JoinHostPort host ''1080''
          else if scheme = UpstreamSchemeHTTP then JoinHostPort host ''3128''
          else if scheme = UpstreamSchemeSSH then JoinHostPort host ''22''
          else host)"

definition ParseUpstreamURL :: "(string \<Rightarrow> string + go_url) \<Rightarrow> string \<Rightarrow> upstream_err + UpstreamConfig" where
  "ParseUpstreamURL url_parse raw =
     (case url_parse raw of
        Inl e \<Rightarrow> Inl (ErrUpstreamParse e)
      | Inr u \<Rightarrow>
          (let scheme = ToLower (gu_Scheme u) in
           if scheme \<notin> {UpstreamSchemeSOCKS5, UpstreamSchemeHTTP, UpstreamSchemeSSH}
           then Inl (ErrUpstreamScheme (gu_Scheme u))
           else if gu_Host u = [] then Inl ErrUpstreamEmptyHost
           else
             (let cfg = zero_UpstreamConfig\<lparr>uc_Scheme := scheme, uc_Addr := defaultUpstreamPort scheme (gu_Host u)\<rparr> in
              case gu_User u of
                None \<Rightarrow> Inr cfg
              | Some (name, pw) \<Rightarrow>
                  (let cfg' = cfg\<lparr>uc_Username := name\<rparr> in
                   case pw of None \<Rightarrow> Inr cfg' | Some p \<Rightarrow> Inr (cfg'\<lparr>uc_Password := p\<rparr>)))))"

lemma SplitHostPort_no_colon: "CHR '':'' \<notin> set host \<Longrightarrow> \<exists>e. SplitHostPort host = Inl e"
  by (simp add: SplitHostPort_def)

lemma defaultUpstreamPort_host:
  assumes "CHR '':'' \<notin> set host" "host \<noteq> []" "CHR ''['' \<notin> set host" "CHR '']'' \<notin> set host"
    and "scheme \<in> {UpstreamSchemeSOCKS5, UpstreamSchemeHTTP, UpstreamSchemeSSH}"
  shows "SplitHostPort (defaultUpstreamPort scheme host) =
     Inr (host, if scheme = UpstreamSchemeSOCKS5 then ''1080'' else if scheme = UpstreamSchemeHTTP then ''3128'' else ''22'')"
proof -
  obtain e where e: "SplitHostPort host = Inl e" using SplitHostPort_no_colon assms(1) by blast
  have j: "SplitHostPort (JoinHostPort host port) = Inr (host, port)"
    if "CHR '':'' \<notin> set port" "CHR ''['' \<notin> set port" "CHR '']'' \<notin> set port" for port
    using assms that by (intro SplitHostPort_JoinHostPort) auto
  show ?thesis using assms(5) by (auto simp: defaultUpstreamPort_def e j upstream_schemes)
qed

end
