(* ===== verification/Upstream_Dial.thy ===== *)
theory Upstream_Dial
  imports Upstream_Config Relay_Model Http_Proxy
begin

text \<open>
  Opening a connection through an upstream proxy, internal/proxy/upstream.go and
  internal/proxy/dialer.go: the direct dialer, the choice of the dialer, the CONNECT handshake of
  \<open>httpConnectDialer\<close> with \<open>prefixConn\<close> and \<open>basicAuth\<close>, the race between a dial and its context
  (\<open>contextDialer\<close>, \<open>dialThrough\<close>), and the emulated deadlines of \<open>sshChanConn\<close>.  A connection is
  the list of chunks its reads return, in this order and then end of file; what \<open>net/http\<close> finds in
  the head of a response is an input.
\<close>

section \<open>Direct connections\<close>

record net_dialer =
  nd_Timeout :: int
  nd_KeepAlive :: int

definition NewDirectDialer :: "int \<Rightarrow> int \<Rightarrow> net_dialer" where
  "NewDirectDialer timeout keepAlive = \<lparr>nd_Timeout = timeout, nd_KeepAlive = keepAlive\<rparr>"

definition directDialer_DialContext :: "(net_dialer \<Rightarrow> string \<Rightarrow> string \<Rightarrow> 'e + 'c) \<Rightarrow> net_dialer \<Rightarrow>
    string \<Rightarrow> string \<Rightarrow> 'e + 'c" where
  "directDialer_DialContext net_dial dd network address = net_dial dd network address"

section \<open>Credentials\<close>

text \<open>\<open>base64.StdEncoding\<close>.\<close>

definition base64_alphabet :: string where
  "base64_alphabet = ''ABCDEFGHIJKLMNOPQRSTUVWXYZabcdefghijklmnopqrstuvwxyz0123456789+/''"

definition base64_digit :: "nat \<Rightarrow> char" where
  "base64_digit n = base64_alphabet ! n"

fun base64_bytes :: "nat list \<Rightarrow> string" where
  "base64_bytes [] = []"
| "base64_bytes [a] = [base64_digit (a div 4), base64_digit (a mod 4 * 16), CHR ''='', CHR ''='']"
| "base64_bytes [a, b] =
     [base64_digit (a div 4), base64_digit (a mod 4 * 16 + b div 16), base64_digit (b mod 16 * 4), CHR ''='']"
| "base64_bytes (a # b # c # r) =
     base64_digit (a div 4) # base64_digit (a mod 4 * 16 + b div 16) #
     base64_digit (b mod 16 * 4 + c div 64) # base64_digit (c mod 64) # base64_bytes r"

definition basicAuth :: "string \<Rightarrow> string \<Rightarrow> string" where
  "basicAuth user pass = base64_bytes (map of_char (user @ '':'' @ pass))"

text \<open>What the proxy at the other end does with them (RFC 4648, RFC 7617): decode, and cut at the
  first colon.\<close>

definition base64_value :: "char \<Rightarrow> nat option" where
  "base64_value c = IndexByte c base64_alphabet"

fun base64_decode :: "string \<Rightarrow> nat list option" where
  "base64_decode [] = Some []"
| "base64_decode (p # q # r # s # rest) =
     (case (base64_value p, base64_value q) of
        (Some p', Some q') \<Rightarrow>
          (if r = CHR ''='' then (if s = CHR ''='' \<and> rest = [] then Some [p' * 4 + q' div 16] else None)
           else (case base64_value r of
              None \<Rightarrow> None
            | Some r' \<Rightarrow>
                (if s = CHR ''='' then
                   (if rest = [] then Some [p' * 4 + q' div 16, q' mod 16 * 16 + r' div 4] else None)
                 else (case (base64_value s, base64_decode rest) of
                    (Some s', Some bs) \<Rightarrow>
                      Some ((p' * 4 + q' div 16) # (q' mod 16 * 16 + r' div 4) # (r' mod 4 * 64 + s') # bs)
                  | _ \<Rightarrow> None))))
      | _ \<Rightarrow> None)"
| "base64_decode _ = None"

definition read_basicAuth :: "string \<Rightarrow> (string \<times> string) option" where
  "read_basicAuth cred =
     (case base64_decode cred of
        None \<Rightarrow> None
      | Some bs \<Rightarrow>
          (let s = map char_of bs in
           map_option (\<lambda>i. (take i s, drop (Suc i) s)) (IndexByte CHR '':'' s)))"

lemma length_base64_alphabet: "length base64_alphabet = 64"
  by (simp add: base64_alphabet_def)

lemma distinct_base64_alphabet: "distinct base64_alphabet"
  by (simp add: base64_alphabet_def)

lemma IndexByte_nth: "distinct s \<Longrightarrow> n < length s \<Longrightarrow> IndexByte (s ! n) s = Some n"
proof (induction s arbitrary: n)
  case (Cons x s)
  then show ?case by (cases n) auto
qed simp

lemma base64_value_digit [simp]: "n < 64 \<Longrightarrow> base64_value (base64_digit n) = Some n"
  by (simp add: base64_value_def base64_digit_def IndexByte_nth length_base64_alphabet distinct_base64_alphabet)

lemma base64_digit_not_pad [simp]: "n < 64 \<Longrightarrow> base64_digit n \<noteq> CHR ''=''"
proof -
  assume "n < 64"
  then have "base64_digit n \<in> set base64_alphabet"
    using length_base64_alphabet by (simp add: base64_digit_def)
  moreover have "CHR ''='' \<notin> set base64_alphabet" by (simp add: base64_alphabet_def)
  ultimately show ?thesis by metis
qed

lemma pack_unpack:
  fixes x y k :: nat
  assumes "y < k" shows "(x * k + y) div k = x" and "(x * k + y) mod k = y"
  using assms by simp_all

lemma base64_sextets:
  fixes a b c :: nat
  assumes "a < 256" "b < 256" "c < 256"
  shows "a div 4 < 64" "a mod 4 * 16 + b div 16 < 64" "b mod 16 * 4 + c div 64 < 64" "c mod 64 < 64"
    and "a div 4 * 4 + (a mod 4 * 16 + b div 16) div 16 = a"
    and "(a mod 4 * 16 + b div 16) mod 16 * 16 + (b mod 16 * 4 + c div 64) div 4 = b"
    and "(b mod 16 * 4 + c div 64) mod 4 * 64 + c mod 64 = c"
proof -
  have d: "a div 4 < 64" "b div 16 < 16" "c div 64 < 4" using assms by linarith+
  note p = pack_unpack [OF d(2)] pack_unpack [OF d(3)]
  show "a div 4 < 64" "c mod 64 < 64" using d by simp_all
  have "a mod 4 < 4" "b mod 16 < 16" by simp_all
  then show "a mod 4 * 16 + b div 16 < 64" "b mod 16 * 4 + c div 64 < 64" using d by linarith+
  show "a div 4 * 4 + (a mod 4 * 16 + b div 16) div 16 = a"
    "(a mod 4 * 16 + b div 16) mod 16 * 16 + (b mod 16 * 4 + c div 64) div 4 = b"
    "(b mod 16 * 4 + c div 64) mod 4 * 64 + c mod 64 = c"
    unfolding p by (rule div_mult_mod_eq)+
qed

lemma base64_roundtrip: "\<forall>b\<in>set bs. b < 256 \<Longrightarrow> base64_decode (base64_bytes bs) = Some bs"
proof (induction bs rule: base64_bytes.induct)
  case (2 a)
  then show ?case using base64_sextets [of a 0 0] by simp
next
  case (3 a b)
  then have "a < 256" "b < 256" by simp_all
  note s = base64_sextets [OF this, of 0, simplified add_0_right div_0 mod_0]
  show ?case using s by (simp only: base64_bytes.simps base64_decode.simps base64_value_digit) (simp del: div_mult_self3 mod_mult_self3)
next
  case (4 a b c r)
  then have "a < 256" "b < 256" "c < 256" by simp_all
  note s = base64_sextets [OF this]
  have "base64_decode (base64_bytes r) = Some r" using 4 by simp
  then show ?case
    by (simp only: base64_bytes.simps base64_decode.simps s base64_value_digit base64_digit_not_pad
        option.case prod.case if_False)
qed simp

section \<open>CONNECT\<close>

record tun_conn =
  tc_in :: "string list"
  tc_out :: string
  tc_deadline :: "int option"
  tc_closed :: bool

text \<open>What \<open>Request.Write\<close> sends for the request \<open>DialContext\<close> builds; it refuses an address with a
  control character.\<close>

definition connect_request :: "UpstreamConfig \<Rightarrow> string \<Rightarrow> string" where
  "connect_request cfg address =
     ''CONNECT '' @ address @ '' HTTP/1.1'' @ [CR, LF] @
     ''Host: '' @ address @ [CR, LF] @
     ''User-Agent: Go-http-client/1.1'' @ [CR, LF] @
     (if uc_Username cfg \<noteq> [] \<or> uc_Password cfg \<noteq> []
      then ''Proxy-Authorization: Basic '' @ basicAuth (uc_Username cfg) (uc_Password cfg) @ [CR, LF] else []) @
     [CR, LF]"

definition is_ctl_byte :: "char \<Rightarrow> bool" where
  "is_ctl_byte c = (let n = of_char c :: nat in n < 32 \<or> n = 127)"

text \<open>The head of a response as \<open>net/http\<close> reads it: status code, status text, and the number of
  body bytes that closing the body discards (none when the body has no length).\<close>

record connect_resp =
  cr_StatusCode :: int
  cr_Status :: string
  cr_discard :: nat

text \<open>\<open>http.ReadResponse\<close> over \<open>bufio.Reader\<close>: chunks are pulled until the buffer holds a blank
  line; the buffered rest and the chunks not yet pulled stay behind.\<close>

fun fill_head :: "string \<Rightarrow> string list \<Rightarrow> (string \<times> string \<times> string list) option" where
  "fill_head buf chunks =
     (case cut_blank [] [] buf of
        Some (head, rest) \<Rightarrow> Some (head, rest, chunks)
      | None \<Rightarrow> (case chunks of [] \<Rightarrow> None | c # cs \<Rightarrow> fill_head (buf @ c) cs))"

fun discard_body :: "nat \<Rightarrow> string \<Rightarrow> string list \<Rightarrow> string \<times> string list" where
  "discard_body n buf chunks =
     (if n \<le> length buf then (drop n buf, chunks)
      else (case chunks of [] \<Rightarrow> ([], []) | c # cs \<Rightarrow> discard_body (n - length buf) c cs))"

declare fill_head.simps [simp del] discard_body.simps [simp del]

definition http_ReadResponse :: "(string \<Rightarrow> string + connect_resp) \<Rightarrow> string list \<Rightarrow>
    string + (connect_resp \<times> string \<times> string list)" where
  "http_ReadResponse parse chunks =
     (case fill_head [] chunks of
        None \<Rightarrow> Inl ''unexpected EOF''
      | Some (head, rest, cs) \<Rightarrow>
          (case parse head of Inl e \<Rightarrow> Inl e | Inr r \<Rightarrow> Inr (r, rest, cs)))"

datatype connect_err = ErrHTTPConnect string string | ErrHTTPStatus string string

text \<open>The connection handed to the caller: the socket itself, or \<open>prefixConn\<close> around it.\<close>

datatype up_conn = RawConn tun_conn | PrefixConn string tun_conn

fun up_socket :: "up_conn \<Rightarrow> tun_conn" where
  "up_socket (RawConn c) = c"
| "up_socket (PrefixConn p c) = c"

text \<open>\<open>httpConnectDialer.DialContext\<close>: the result, and what became of the socket (none when the dial
  to the upstream failed).  \<open>wr\<close> is the outcome of writing the request, \<open>deadline\<close> that of the
  context.\<close>

definition httpConnect_DialContext :: "(string \<Rightarrow> string + tun_conn) \<Rightarrow> nat \<times> string option \<Rightarrow>
    (string \<Rightarrow> string + connect_resp) \<Rightarrow> UpstreamConfig \<Rightarrow> int option \<Rightarrow> string \<Rightarrow>
    (connect_err + up_conn) \<times> tun_conn option" where
  "httpConnect_DialContext base_dial wr parse cfg deadline address =
     (case base_dial (uc_Addr cfg) of
        Inl e \<Rightarrow> (Inl (ErrHTTPConnect address e), None)
      | Inr c0 \<Rightarrow>
          (let c1 = (case deadline of Some d \<Rightarrow> c0\<lparr>tc_deadline := Some d\<rparr> | None \<Rightarrow> c0);
               (sent, failed) = (if list_ex is_ctl_byte address then (0, Some ''can't write control character'') else wr);
               request = connect_request cfg address in
           case failed of
             Some e \<Rightarrow> (Inl (ErrHTTPConnect address e),
               Some (c1\<lparr>tc_out := tc_out c1 @ take sent request, tc_closed := True\<rparr>))
           | None \<Rightarrow>
               (let c2 = c1\<lparr>tc_out := tc_out c1 @ request\<rparr> in
                case http_ReadResponse parse (tc_in c2) of
                  Inl e \<Rightarrow> (Inl (ErrHTTPConnect address e), Some (c2\<lparr>tc_closed := True\<rparr>))
                | Inr (rsp, rest, cs) \<Rightarrow>
                    (let (buffered, cs') = discard_body (cr_discard rsp) rest cs;
                         c3 = c2\<lparr>tc_in := cs'\<rparr> in
                     if cr_StatusCode rsp \<noteq> 200
                     then (Inl (ErrHTTPStatus address (cr_Status rsp)), Some (c3\<lparr>tc_closed := True\<rparr>))
                     else
                       (let c4 = c3\<lparr>tc_deadline := None\<rparr> in
                        if buffered \<noteq> [] then (Inr (PrefixConn buffered c4), Some c4)
                        else (Inr (RawConn c4), Some c4))))))"

text \<open>Reading: one \<open>Read\<close> with a buffer of n bytes.\<close>

definition conn_Read :: "nat \<Rightarrow> tun_conn \<Rightarrow> string \<times> tun_conn" where
  "conn_Read n c =
     (case tc_in c of
        [] \<Rightarrow> ([], c)
      | ch # cs \<Rightarrow> (take n ch, c\<lparr>tc_in := if length ch \<le> n then cs else drop n ch # cs\<rparr>))"

fun up_Read :: "nat \<Rightarrow> up_conn \<Rightarrow> string \<times> up_conn" where
  "up_Read n (RawConn c) = (let (b, c') = conn_Read n c in (b, RawConn c'))"
| "up_Read n (PrefixConn p c) =
     (if p \<noteq> [] then (take n p, PrefixConn (drop n p) c)
      else (let (b, c') = conn_Read n c in (b, PrefixConn p c')))"

fun up_reads :: "nat list \<Rightarrow> up_conn \<Rightarrow> string \<times> up_conn" where
  "up_reads [] u = ([], u)"
| "up_reads (n # ns) u = (let (b, u') = up_Read n u; (bs, u'') = up_reads ns u' in (b @ bs, u''))"

text \<open>\<open>prefixConn\<close> embeds the interface \<open>net.Conn\<close>, which has no \<open>CloseWrite\<close>: only the socket
  itself can be half-closed.\<close>

fun up_half_closer :: "up_conn \<Rightarrow> bool" where
  "up_half_closer (RawConn c) = True"
| "up_half_closer (PrefixConn p c) = False"

fun up_stream :: "up_conn \<Rightarrow> string" where
  "up_stream (RawConn c) = concat (tc_in c)"
| "up_stream (PrefixConn p c) = p @ concat (tc_in c)"

lemma up_Read_stream: "up_Read n u = (b, u') \<Longrightarrow> up_stream u = b @ up_stream u'"
  by (cases u) (auto simp: conn_Read_def split: list.splits if_splits)

lemma up_reads_stream: "up_reads ns u = (b, u') \<Longrightarrow> up_stream u = b @ up_stream u'"
proof (induction ns arbitrary: u b)
  case (Cons n ns)
  obtain b1 u1 where 1: "up_Read n u = (b1, u1)" by (cases "up_Read n u") auto
  obtain b2 u2 where 2: "up_reads ns u1 = (b2, u2)" by (cases "up_reads ns u1") auto
  show ?case using Cons 1 2 up_Read_stream [OF 1] by auto
qed simp

lemma fill_head_stream:
  "fill_head buf chunks = Some (head, rest, cs) \<Longrightarrow> buf @ concat chunks = head @ rest @ concat cs"
proof (induction buf chunks rule: fill_head.induct)
  case (1 buf chunks)
  show ?case
  proof (cases "cut_blank [] [] buf")
    case None
    then show ?thesis using 1 by (auto simp: fill_head.simps [of buf] split: list.splits)
  next
    case (Some p)
    then show ?thesis using 1(2) cut_blank_parts [of "[]" "[]" buf] by (auto simp: fill_head.simps [of buf] split: prod.splits)
  qed
qed

lemma discard_body_stream:
  "discard_body n buf chunks = (b, cs) \<Longrightarrow>
   \<exists>d. buf @ concat chunks = d @ b @ concat cs \<and> length d = min n (length (buf @ concat chunks))"
proof (induction n buf chunks arbitrary: b cs rule: discard_body.induct)
  case (1 n buf chunks)
  show ?case
  proof (cases "n \<le> length buf")
    case True
    then show ?thesis using 1(2) by (intro exI [of _ "take n buf"]) (auto simp: discard_body.simps [of n])
  next
    case False
    show ?thesis
    proof (cases chunks)
      case Nil
      then show ?thesis using False 1(2) by (auto simp: discard_body.simps [of n])
    next
      case (Cons c cs')
      then have "discard_body (n - length buf) c cs' = (b, cs)" using False 1(2) by (simp add: discard_body.simps [of n])
      from 1(1) [OF False Cons this] obtain d where
        "c @ concat cs' = d @ b @ concat cs" "length d = min (n - length buf) (length (c @ concat cs'))" by blast
      then show ?thesis using False Cons by (intro exI [of _ "buf @ d"]) auto
    qed
  qed
qed

lemma cut_blank_append: "cut_blank h l s = Some (a, r) \<Longrightarrow> cut_blank h l (s @ t) = Some (a, r @ t)"
  by (induction h l s rule: cut_blank.induct) (auto split: if_splits)

lemma fill_head_cut:
  "fill_head buf chunks = Some (head, rest, cs) \<Longrightarrow> cut_blank [] [] (buf @ concat chunks) = Some (head, rest @ concat cs)"
proof (induction buf chunks rule: fill_head.induct)
  case (1 buf chunks)
  show ?case
  proof (cases "cut_blank [] [] buf")
    case None
    then show ?thesis using 1 by (auto simp: fill_head.simps [of buf] split: list.splits)
  next
    case (Some p)
    then show ?thesis using 1(2) cut_blank_append by (auto simp: fill_head.simps [of buf] split: prod.splits)
  qed
qed

lemma char_of_of_char_nat [simp]: "char_of (of_char c :: nat) = c"
  by simp

lemma connect_success:
  assumes "httpConnect_DialContext base_dial wr parse cfg deadline address = (Inr u, sock)"
  obtains c0 rsp head rest cs buffered cs' where
    "base_dial (uc_Addr cfg) = Inr c0" "fill_head [] (tc_in c0) = Some (head, rest, cs)" "parse head = Inr rsp"
    "discard_body (cr_discard rsp) rest cs = (buffered, cs')" "cr_StatusCode rsp = 200"
    "up_socket u = c0\<lparr>tc_deadline := None, tc_out := tc_out c0 @ connect_request cfg address, tc_in := cs'\<rparr>"
    "sock = Some (up_socket u)" "up_stream u = buffered @ concat cs'"
  using assms
  by (auto simp: httpConnect_DialContext_def http_ReadResponse_def Let_def
      split: sum.splits option.splits prod.splits if_splits)

section \<open>A dial and its context\<close>

text \<open>\<open>contextDialer.DialContext\<close> (its fallback) and \<open>sshDialer.dialThrough\<close>: a goroutine dials and
  sends its result to a channel of capacity one; the caller waits for the result or for its context,
  and in the latter case leaves a second goroutine behind that closes a late connection.\<close>

datatype dial_go = DgDialling | DgSend bool | DgDone
datatype race_main = RmWait | RmReturned "bool option"
datatype race_reaper = RpNone | RpWait | RpClose bool | RpDone

record race =
  rc_go :: dial_go
  rc_ch :: "bool list"
  rc_ctx :: bool
  rc_main :: race_main
  rc_reaper :: race_reaper
  rc_open :: bool

definition start_race :: race where
  "start_race = \<lparr>rc_go = DgDialling, rc_ch = [], rc_ctx = False, rc_main = RmWait, rc_reaper = RpNone, rc_open = False\<rparr>"

inductive race_step :: "race \<Rightarrow> race \<Rightarrow> bool" where
  rs_opened: "rc_go r = DgDialling \<Longrightarrow> race_step r (r\<lparr>rc_go := DgSend True, rc_open := True\<rparr>)"
| rs_failed: "rc_go r = DgDialling \<Longrightarrow> race_step r (r\<lparr>rc_go := DgSend False\<rparr>)"
| rs_send: "rc_go r = DgSend b \<Longrightarrow> rc_ch r = [] \<Longrightarrow> race_step r (r\<lparr>rc_go := DgDone, rc_ch := [b]\<rparr>)"
| rs_ctx: "\<not> rc_ctx r \<Longrightarrow> race_step r (r\<lparr>rc_ctx := True\<rparr>)"
| rs_cancelled: "rc_main r = RmWait \<Longrightarrow> rc_ctx r \<Longrightarrow>
    race_step r (r\<lparr>rc_main := RmReturned None, rc_reaper := RpWait\<rparr>)"
| rs_result: "rc_main r = RmWait \<Longrightarrow> rc_ch r = [b] \<Longrightarrow> race_step r (r\<lparr>rc_main := RmReturned (Some b), rc_ch := []\<rparr>)"
| rs_reap: "rc_reaper r = RpWait \<Longrightarrow> rc_ch r = [b] \<Longrightarrow> race_step r (r\<lparr>rc_reaper := RpClose b, rc_ch := []\<rparr>)"
| rs_close: "rc_reaper r = RpClose b \<Longrightarrow>
    race_step r (r\<lparr>rc_reaper := RpDone, rc_open := (if b then False else rc_open r)\<rparr>)"

text \<open>A dialer that takes a context itself is used directly.\<close>

definition contextDialer_DialContext :: "(string \<Rightarrow> string \<Rightarrow> 'r) option \<Rightarrow> string \<Rightarrow> string \<Rightarrow> 'r + race" where
  "contextDialer_DialContext ctx_dial network address =
     (case ctx_dial of Some d \<Rightarrow> Inl (d network address) | None \<Rightarrow> Inr start_race)"

definition race_over :: "race \<Rightarrow> bool" where
  "race_over r \<longleftrightarrow> rc_go r = DgDone \<and> rc_main r \<noteq> RmWait \<and> rc_reaper r \<in> {RpNone, RpDone}"

text \<open>Where the result is: not there yet, in the goroutine, in the channel, with the caller or with
  the reaper.\<close>

definition race_inv :: "race \<Rightarrow> bool" where
  "race_inv r \<longleftrightarrow>
     (rc_reaper r = RpNone \<longleftrightarrow> rc_main r \<noteq> RmReturned None) \<and>
     (rc_go r \<noteq> DgDone \<longrightarrow> rc_ch r = [] \<and> rc_main r \<in> {RmWait, RmReturned None} \<and> rc_reaper r \<in> {RpNone, RpWait} \<and>
        (rc_open r \<longleftrightarrow> rc_go r = DgSend True)) \<and>
     (rc_go r = DgDone \<longrightarrow>
        (case rc_ch r of
           [] \<Rightarrow> (case rc_main r of
                   RmWait \<Rightarrow> False
                 | RmReturned (Some b) \<Rightarrow> rc_open r = b
                 | RmReturned None \<Rightarrow> (case rc_reaper r of RpClose b \<Rightarrow> rc_open r = b | RpDone \<Rightarrow> \<not> rc_open r | _ \<Rightarrow> False))
         | [b] \<Rightarrow> rc_open r = b \<and> rc_main r \<in> {RmWait, RmReturned None} \<and> rc_reaper r \<in> {RpNone, RpWait}
         | _ \<Rightarrow> False))"

fun go_rank :: "dial_go \<Rightarrow> nat" where
  "go_rank DgDialling = 2" | "go_rank (DgSend b) = 1" | "go_rank DgDone = 0"

fun reaper_rank :: "race_reaper \<Rightarrow> nat" where
  "reaper_rank RpNone = 0" | "reaper_rank RpWait = 2" | "reaper_rank (RpClose b) = 1" | "reaper_rank RpDone = 0"

definition race_rank :: "race \<Rightarrow> nat" where
  "race_rank r = go_rank (rc_go r) + (if rc_ctx r then 0 else 1) + (if rc_main r = RmWait then 3 else 0)
     + reaper_rank (rc_reaper r)"

inductive_cases race_stepE [step_elims]: "race_step r r'"

lemma race_inv_step: "race_inv r \<Longrightarrow> race_step r r' \<Longrightarrow> race_inv r'"
  by (erule race_stepE) (auto simp: race_inv_def split: list.splits race_main.splits option.splits race_reaper.splits bool.splits)

lemma race_rank_step: "race_inv r \<Longrightarrow> race_step r r' \<Longrightarrow> race_rank r' < race_rank r"
  by (erule race_stepE) (auto simp: race_inv_def race_rank_def split: list.splits race_main.splits option.splits)

lemma race_progress: "race_inv r \<Longrightarrow> \<not> race_over r \<Longrightarrow> \<exists>r'. race_step r r'"
proof (cases "rc_go r")
  case (DgSend b)
  assume "race_inv r"
  then show ?thesis using DgSend by (auto simp: race_inv_def intro: rs_send)
next
  case DgDone
  assume "race_inv r" "\<not> race_over r"
  then show ?thesis using DgDone
    by (auto simp: race_inv_def race_over_def split: list.splits race_main.splits option.splits race_reaper.splits
        intro: race_step.intros)
qed (auto intro: rs_opened)

lemma race_inv_start: "race_inv start_race"
  by (simp add: race_inv_def start_race_def)

interpretation race_sys: ranked_system race_step race_inv race_rank race_over
  by unfold_locales (rule race_inv_step race_rank_step race_progress; assumption)+

section \<open>Deadlines of an SSH channel\<close>

text \<open>\<open>sshChanConn\<close>: a channel has no deadlines of its own, so one timer closes it.  The timer is not
  created yet (\<open>None\<close>), stopped or fired (\<open>Some None\<close>), or armed for a time.  \<open>Advance\<close> lets time
  pass and fires an armed timer that is due.\<close>

record chan_conn =
  sc_timer :: "int option option"
  sc_now :: int
  sc_expired :: bool
  sc_closed :: bool

datatype chan_op =
    ChSetDeadline "int option" | ChSetRead "int option" | ChSetWrite "int option"
  | ChClose | ChCloseWrite bool | ChAdvance nat

definition sshChanConn_SetDeadline :: "int option \<Rightarrow> chan_conn \<Rightarrow> chan_conn" where
  "sshChanConn_SetDeadline t c =
     (let c1 = (if sc_timer c \<noteq> None then c\<lparr>sc_timer := Some None\<rparr> else c) in
      case t of
        None \<Rightarrow> c1
      | Some d \<Rightarrow> c1\<lparr>sc_timer := Some (Some d)\<rparr>)"

definition sshChanConn_SetReadDeadline :: "int option \<Rightarrow> chan_conn \<Rightarrow> chan_conn" where
  "sshChanConn_SetReadDeadline t c = sshChanConn_SetDeadline t c"

definition sshChanConn_SetWriteDeadline :: "int option \<Rightarrow> chan_conn \<Rightarrow> chan_conn" where
  "sshChanConn_SetWriteDeadline t c = sshChanConn_SetDeadline t c"

definition sshChanConn_Close :: "chan_conn \<Rightarrow> chan_conn" where
  "sshChanConn_Close c =
     (let c1 = (if sc_timer c \<noteq> None then c\<lparr>sc_timer := Some None\<rparr> else c) in c1\<lparr>sc_closed := True\<rparr>)"

text \<open>The effect on the channel below: half-closed where it can be, closed otherwise.\<close>

definition sshChanConn_CloseWrite :: "bool \<Rightarrow> chan_conn \<Rightarrow> close_effect option \<times> chan_conn" where
  "sshChanConn_CloseWrite channelHalf c =
     (if channelHalf then (Some HalfClosed, c) else (None, c\<lparr>sc_closed := True\<rparr>))"

definition chan_fire :: "chan_conn \<Rightarrow> chan_conn" where
  "chan_fire c =
     (case sc_timer c of
        Some (Some t) \<Rightarrow>
          (if t \<le> sc_now c then c\<lparr>sc_timer := Some None, sc_expired := True, sc_closed := True\<rparr> else c)
      | _ \<Rightarrow> c)"

fun chan_do :: "chan_op \<Rightarrow> chan_conn \<Rightarrow> chan_conn" where
  "chan_do (ChSetDeadline t) c = sshChanConn_SetDeadline t c"
| "chan_do (ChSetRead t) c = sshChanConn_SetReadDeadline t c"
| "chan_do (ChSetWrite t) c = sshChanConn_SetWriteDeadline t c"
| "chan_do ChClose c = sshChanConn_Close c"
| "chan_do (ChCloseWrite h) c = snd (sshChanConn_CloseWrite h c)"
| "chan_do (ChAdvance d) c = chan_fire (c\<lparr>sc_now := sc_now c + int d\<rparr>)"

definition new_chan :: "int \<Rightarrow> chan_conn" where
  "new_chan now = \<lparr>sc_timer = None, sc_now = now, sc_expired = False, sc_closed = False\<rparr>"

definition chan_run :: "int \<Rightarrow> chan_op list \<Rightarrow> chan_conn" where
  "chan_run now ops = fold chan_do ops (new_chan now)"

text \<open>The deadline of the channel after some operations: the one set last, for whichever direction, none
  after a close; the time is the sum of what has passed.\<close>

definition elapsed :: "chan_op list \<Rightarrow> nat" where
  "elapsed ops = sum_list (map (\<lambda>p. case p of ChAdvance d \<Rightarrow> d | _ \<Rightarrow> 0) ops)"

definition deadline_in_force :: "chan_op list \<Rightarrow> int option" where
  "deadline_in_force ops =
     fold (\<lambda>p cur. case p of ChSetDeadline t \<Rightarrow> t | ChSetRead t \<Rightarrow> t | ChSetWrite t \<Rightarrow> t | ChClose \<Rightarrow> None | _ \<Rightarrow> cur)
       ops None"

text \<open>What \<open>net.Conn\<close> promises instead: a deadline for reads and one for writes, set together or each on
  its own.\<close>

datatype chan_dir = ChanRead | ChanWrite

definition net_deadline :: "chan_dir \<Rightarrow> chan_op list \<Rightarrow> int option" where
  "net_deadline dir ops =
     fold (\<lambda>p cur. case p of ChSetDeadline t \<Rightarrow> t
        | ChSetRead t \<Rightarrow> (if dir = ChanRead then t else cur)
        | ChSetWrite t \<Rightarrow> (if dir = ChanWrite then t else cur)
        | ChClose \<Rightarrow> None | _ \<Rightarrow> cur) ops None"

fun sets_one_direction :: "chan_op \<Rightarrow> bool" where
  "sets_one_direction (ChSetRead t) = True"
| "sets_one_direction (ChSetWrite t) = True"
| "sets_one_direction p = False"

lemma chan_run_snoc: "chan_run now (ops @ [p]) = chan_do p (chan_run now ops)"
  by (simp add: chan_run_def)

lemma deadline_snoc:
  "deadline_in_force (ops @ [p]) =
     (case p of ChSetDeadline t \<Rightarrow> t | ChSetRead t \<Rightarrow> t | ChSetWrite t \<Rightarrow> t | ChClose \<Rightarrow> None | _ \<Rightarrow> deadline_in_force ops)"
  by (cases p) (simp_all add: deadline_in_force_def)

lemma net_deadline_shared:
  "\<forall>p\<in>set ops. \<not> sets_one_direction p \<Longrightarrow> net_deadline dir ops = deadline_in_force ops"
proof (induction ops rule: rev_induct)
  case (snoc p ops)
  then show ?case by (cases p) (simp_all add: net_deadline_def deadline_in_force_def)
qed (simp add: net_deadline_def deadline_in_force_def)

lemmas chan_setters = sshChanConn_SetDeadline_def sshChanConn_SetReadDeadline_def sshChanConn_SetWriteDeadline_def

lemma elapsed_snoc: "elapsed (ops @ [p]) = elapsed ops + (case p of ChAdvance d \<Rightarrow> d | _ \<Rightarrow> 0)"
  by (simp add: elapsed_def)

lemma chan_now: "sc_now (chan_run now ops) = now + int (elapsed ops)"
proof (induction ops rule: rev_induct)
  case (snoc p ops)
  then show ?case
    by (cases p) (auto simp: chan_run_snoc elapsed_snoc chan_setters sshChanConn_Close_def
        sshChanConn_CloseWrite_def chan_fire_def Let_def split: option.splits)
qed (simp add: chan_run_def new_chan_def elapsed_def)

text \<open>A deadline was missed: time passed it while it was in force.\<close>

definition missed :: "int \<Rightarrow> chan_op list \<Rightarrow> bool" where
  "missed now ops \<longleftrightarrow>
     (\<exists>before d after t. ops = before @ ChAdvance d # after \<and>
        deadline_in_force before = Some t \<and> t \<le> now + int (elapsed before + d))"

lemma missed_snoc:
  "missed now (ops @ [p]) \<longleftrightarrow> missed now ops \<or>
     (\<exists>d t. p = ChAdvance d \<and> deadline_in_force ops = Some t \<and> t \<le> now + int (elapsed ops + d))"
proof
  assume "missed now (ops @ [p])"
  then obtain before d after t where m: "ops @ [p] = before @ ChAdvance d # after"
      "deadline_in_force before = Some t" "t \<le> now + int (elapsed before + d)"
    unfolding missed_def by blast
  show "missed now ops \<or> (\<exists>d t. p = ChAdvance d \<and> deadline_in_force ops = Some t \<and> t \<le> now + int (elapsed ops + d))"
  proof (cases after rule: rev_cases)
    case Nil
    then show ?thesis using m by auto
  next
    case (snoc ys y)
    then have "ops = before @ ChAdvance d # ys" using m(1) by (metis append.assoc append_Cons butlast_snoc)
    then show ?thesis using m unfolding missed_def by blast
  qed
next
  assume "missed now ops \<or> (\<exists>d t. p = ChAdvance d \<and> deadline_in_force ops = Some t \<and> t \<le> now + int (elapsed ops + d))"
  then show "missed now (ops @ [p])" unfolding missed_def by (metis append.assoc append_Cons append_Nil)
qed

lemma missed_append: "missed now ops \<Longrightarrow> missed now (ops @ later)"
  unfolding missed_def by (metis append.assoc append_Cons)

lemma chan_timer:
  "(case sc_timer (chan_run now ops) of
      Some (Some t) \<Rightarrow> deadline_in_force ops = Some t
    | _ \<Rightarrow> deadline_in_force ops = None \<or> missed now ops) \<and>
   sc_expired (chan_run now ops) = missed now ops"
proof (induction ops rule: rev_induct)
  case Nil
  then show ?case by (simp add: chan_run_def new_chan_def deadline_in_force_def missed_def)
next
  case (snoc p ops)
  show ?case
  proof (cases p)
    case (ChAdvance d)
    then show ?thesis using snoc
      by (auto simp: chan_run_snoc deadline_snoc missed_snoc chan_fire_def chan_now split: option.splits)
  qed (use snoc in \<open>auto simp: chan_run_snoc deadline_snoc missed_snoc chan_setters
        sshChanConn_Close_def sshChanConn_CloseWrite_def Let_def split: option.splits\<close>)
qed

lemma chan_closed:
  "sc_closed (chan_run now ops) \<longleftrightarrow> missed now ops \<or> ChClose \<in> set ops \<or> ChCloseWrite False \<in> set ops"
proof (induction ops rule: rev_induct)
  case Nil
  then show ?case by (simp add: chan_run_def new_chan_def missed_def)
next
  case (snoc p ops)
  note e = chan_timer [where now = now and ops = "ops @ [p]"]
  show ?case using snoc e chan_timer [where now = now and ops = ops]
    by (cases p) (auto simp: chan_run_snoc missed_snoc chan_setters
        sshChanConn_Close_def sshChanConn_CloseWrite_def chan_fire_def Let_def split: option.splits if_splits)
qed

section \<open>Properties\<close>

text \<open>The credentials of an HTTP upstream reach it unchanged: what \<open>basicAuth\<close> encodes, a server that
  decodes base64 and cuts at the first colon reads as the same user and password, for every password
  and every user without a colon.\<close>

theorem upstream_credentials_roundtrip:
  assumes "CHR '':'' \<notin> set user"
  shows "read_basicAuth (basicAuth user pass) = Some (user, pass)"
proof -
  have bytes: "\<forall>b\<in>set (map of_char (user @ '':'' @ pass)). (b :: nat) < 256"
    by auto
  have colon: "char_of (58 :: nat) = CHR '':''" by code_simp
  from base64_roundtrip [OF bytes] show ?thesis
    using IndexByte_append [OF assms, of pass]
    by (simp add: read_basicAuth_def basicAuth_def comp_def colon)
qed

theorem upstream_credentials_roundtrip_witness:
  "read_basicAuth (basicAuth ''al'' ''p:w'') = Some (''al'', ''p:w'') \<and> basicAuth ''al'' ''p:w'' = ''YWw6cDp3''"
proof -
  have "basicAuth ''al'' ''p:w'' = ''YWw6cDp3''" by code_simp
  then show ?thesis using upstream_credentials_roundtrip [of "''al''" "''p:w''"] by simp
qed

text \<open>C25: A tunnel through an HTTP upstream is transparent: when \<open>DialContext\<close> succeeds, the request was
  sent whole, the upstream's response head (everything to its first blank line) was a 200, the
  deadline of the handshake is gone, and for every chunking of the upstream's bytes and every
  sequence of read sizes the caller reads exactly the bytes after the head (and the body bytes that
  closing the body discards), in order, without loss or repetition.\<close>

theorem connect_tunnel_transparent:
  assumes "httpConnect_DialContext base_dial wr parse cfg deadline address = (Inr u, sock)"
    and "up_reads ns u = (got, u')"
  shows "\<exists>c0 rsp head body. base_dial (uc_Addr cfg) = Inr c0 \<and>
    cut_blank [] [] (concat (tc_in c0)) = Some (head, body @ got @ up_stream u') \<and>
    parse head = Inr rsp \<and> cr_StatusCode rsp = 200 \<and> length body \<le> cr_discard rsp \<and>
    sock = Some (up_socket u) \<and> tc_out (up_socket u) = tc_out c0 @ connect_request cfg address \<and>
    tc_deadline (up_socket u) = None \<and> tc_closed (up_socket u) = tc_closed c0"
proof -
  obtain c0 rsp head rest cs buffered cs' where c: "base_dial (uc_Addr cfg) = Inr c0"
    "fill_head [] (tc_in c0) = Some (head, rest, cs)" "parse head = Inr rsp"
    "discard_body (cr_discard rsp) rest cs = (buffered, cs')" "cr_StatusCode rsp = 200"
    "up_socket u = c0\<lparr>tc_deadline := None, tc_out := tc_out c0 @ connect_request cfg address, tc_in := cs'\<rparr>"
    "sock = Some (up_socket u)" "up_stream u = buffered @ concat cs'"
    by (rule connect_success [OF assms(1)])
  obtain body where b: "rest @ concat cs = body @ buffered @ concat cs'" "length body \<le> cr_discard rsp"
    using discard_body_stream [OF c(4)] by auto
  have "cut_blank [] [] (concat (tc_in c0)) = Some (head, body @ got @ up_stream u')"
    using fill_head_cut [OF c(2)] b(1) c(8) up_reads_stream [OF assms(2)] by simp
  then show ?thesis using c b(2) by (intro exI [of _ c0] exI [of _ rsp] exI [of _ head] exI [of _ body]) simp
qed

definition demo_head :: string where
  "demo_head = ''HTTP/1.1 200 OK'' @ [CR, LF, CR, LF]"

definition demo_parse :: "string \<Rightarrow> string + connect_resp" where
  "demo_parse head = (if take 12 head = ''HTTP/1.1 200'' then Inr \<lparr>cr_StatusCode = 200, cr_Status = ''200 OK'', cr_discard = 0\<rparr>
     else Inr \<lparr>cr_StatusCode = 403, cr_Status = ''403 Forbidden'', cr_discard = 0\<rparr>)"

definition demo_conn :: "string list \<Rightarrow> tun_conn" where
  "demo_conn chunks = \<lparr>tc_in = chunks, tc_out = [], tc_deadline = None, tc_closed = False\<rparr>"

definition demo_connect :: "string list \<Rightarrow> (connect_err + up_conn) \<times> tun_conn option" where
  "demo_connect chunks =
     httpConnect_DialContext (\<lambda>_. Inr (demo_conn chunks)) (0, None) demo_parse zero_UpstreamConfig (Some 5) ''h:1''"

text \<open>Witness: the head arrives in two pieces, the second with three bytes of the tunnel.\<close>

theorem connect_tunnel_transparent_witness:
  "\<exists>u u'. demo_connect [take 5 demo_head, drop 5 demo_head @ ''abc'', ''de''] = (Inr u, Some (up_socket u)) \<and>
     up_reads [2, 9, 9] u = (''abcde'', u') \<and> tc_deadline (up_socket u) = None"
proof -
  define u where "u = PrefixConn ''abc'' \<lparr>tc_in = [''de''], tc_out = connect_request zero_UpstreamConfig ''h:1'',
      tc_deadline = None, tc_closed = False\<rparr>"
  define u' where "u' = PrefixConn [] \<lparr>tc_in = [], tc_out = connect_request zero_UpstreamConfig ''h:1'',
      tc_deadline = None, tc_closed = False\<rparr>"
  have d: "demo_connect [take 5 demo_head, drop 5 demo_head @ ''abc'', ''de''] = (Inr u, Some (up_socket u))"
    unfolding u_def by code_simp
  have r: "up_reads [2, 9, 9] u = (''abcde'', u')" unfolding u_def u'_def by code_simp
  show ?thesis using connect_tunnel_transparent [OF d [unfolded demo_connect_def] r] d r by blast
qed

text \<open>A failed CONNECT leaves nothing open: either the upstream could not be dialled, or the socket
  has been closed; a status other than 200 is reported with its text, and every other failure with
  the address.\<close>

theorem connect_errors_close:
  assumes "httpConnect_DialContext base_dial wr parse cfg deadline address = (Inl e, sock)"
  shows "case sock of
      None \<Rightarrow> \<exists>m. base_dial (uc_Addr cfg) = Inl m \<and> e = ErrHTTPConnect address m
    | Some c \<Rightarrow> tc_closed c \<and> (\<exists>c0. base_dial (uc_Addr cfg) = Inr c0 \<and>
        (list_ex is_ctl_byte address \<or> snd wr \<noteq> None \<longrightarrow> (\<exists>m. e = ErrHTTPConnect address m)) \<and>
        (\<forall>st. e = ErrHTTPStatus address st \<longleftrightarrow>
           \<not> list_ex is_ctl_byte address \<and> snd wr = None \<and>
           (\<exists>rsp rest cs. http_ReadResponse parse (tc_in c0) = Inr (rsp, rest, cs) \<and>
              cr_StatusCode rsp \<noteq> 200 \<and> st = cr_Status rsp)))"
proof (cases "base_dial (uc_Addr cfg)")
  case (Inl m)
  then show ?thesis using assms by (auto simp: httpConnect_DialContext_def)
next
  case (Inr c0)
  let ?c = "case deadline of Some d \<Rightarrow> c0\<lparr>tc_deadline := Some d\<rparr> | None \<Rightarrow> c0"
  have i: "tc_in ?c = tc_in c0" by (simp split: option.split)
  show ?thesis
  proof (cases "list_ex is_ctl_byte address \<or> snd wr \<noteq> None")
    case True
    then show ?thesis using assms Inr by (cases wr) (auto simp: httpConnect_DialContext_def Let_def split: if_splits)
  next
    case False
    then obtain n where w: "wr = (n, None)" by (cases wr) auto
    show ?thesis using assms Inr False w i
      by (auto simp: httpConnect_DialContext_def Let_def split: sum.splits prod.splits if_splits)
  qed
qed

text \<open>Witness: an upstream that refuses the tunnel.\<close>

theorem connect_errors_close_witness:
  "\<exists>e c. demo_connect [''HTTP/1.1 403 Forbidden'' @ [CR, LF, CR, LF]] = (Inl e, Some c) \<and>
     e = ErrHTTPStatus ''h:1'' ''403 Forbidden'' \<and> tc_closed c"
proof -
  let ?in = "[''HTTP/1.1 403 Forbidden'' @ [CR, LF, CR, LF]]"
  obtain c where d: "demo_connect ?in = (Inl (ErrHTTPStatus ''h:1'' ''403 Forbidden''), Some c)"
  proof
    show "demo_connect ?in = (Inl (ErrHTTPStatus ''h:1'' ''403 Forbidden''),
      Some \<lparr>tc_in = [], tc_out = connect_request zero_UpstreamConfig ''h:1'', tc_deadline = Some 5, tc_closed = True\<rparr>)"
      by code_simp
  qed
  show ?thesis using connect_errors_close [OF d [unfolded demo_connect_def]] d by auto
qed

text \<open>C26: Whether a client's half-close can reach the upstream depends on packet boundaries: of the same
  bytes, a head that arrives alone gives the socket, which \<open>closeWrite\<close> half-closes, and a head that
  arrives with the first bytes of the tunnel gives a \<open>prefixConn\<close>, on which \<open>closeWrite\<close> only sets an
  immediate read deadline, so the other direction is cut off.\<close>

theorem connect_half_close_depends_on_chunks:
  assumes "cut_blank [] [] head = Some (head, [])" "parse head = Inr rsp"
    and "cr_StatusCode rsp = 200" "cr_discard rsp = 0" "early \<noteq> []" "\<not> list_ex is_ctl_byte address"
  shows "\<exists>u1 u2.
    fst (httpConnect_DialContext (\<lambda>_. Inr (demo_conn [head, early])) (n, None) parse cfg deadline address) = Inr u1 \<and>
    fst (httpConnect_DialContext (\<lambda>_. Inr (demo_conn [head @ early])) (n, None) parse cfg deadline address) = Inr u2 \<and>
    up_stream u1 = early \<and> up_stream u2 = early \<and>
    closeWrite (up_half_closer u1) = HalfClosed \<and> closeWrite (up_half_closer u2) = ReadDeadlineNow"
proof -
  have h1: "fill_head [] [head, early] = Some (head, [], [early])"
    using assms(1) by (simp add: fill_head.simps)
  have h2: "fill_head [] [head @ early] = Some (head, early, [])"
    using cut_blank_append [OF assms(1), of early] by (simp add: fill_head.simps)
  have d: "discard_body 0 r cs = (r, cs)" for r cs
    by (simp add: discard_body.simps)
  let ?c = "\<lambda>cs. \<lparr>tc_in = cs, tc_out = connect_request cfg address, tc_deadline = None, tc_closed = False\<rparr>"
  show ?thesis
    by (rule exI [of _ "RawConn (?c [early])"], rule exI [of _ "PrefixConn early (?c [])"], cases deadline)
      (use assms h1 h2 d in \<open>simp_all add: httpConnect_DialContext_def http_ReadResponse_def demo_conn_def
        closeWrite_def Let_def\<close>)
qed

theorem connect_half_close_depends_on_chunks_witness:
  "\<exists>u1 u2. fst (demo_connect [demo_head, ''abc'']) = Inr u1 \<and> fst (demo_connect [demo_head @ ''abc'']) = Inr u2 \<and>
     up_stream u1 = up_stream u2 \<and> closeWrite (up_half_closer u1) \<noteq> closeWrite (up_half_closer u2)"
proof -
  have p: "demo_parse demo_head = Inr \<lparr>cr_StatusCode = 200, cr_Status = ''200 OK'', cr_discard = 0\<rparr>"
    and c: "cut_blank [] [] demo_head = Some (demo_head, [])" and a: "\<not> list_ex is_ctl_byte ''h:1''"
    by code_simp+
  have "\<exists>u1 u2. fst (demo_connect [demo_head, ''abc'']) = Inr u1 \<and> fst (demo_connect [demo_head @ ''abc'']) = Inr u2 \<and>
     up_stream u1 = ''abc'' \<and> up_stream u2 = ''abc'' \<and>
     closeWrite (up_half_closer u1) = HalfClosed \<and> closeWrite (up_half_closer u2) = ReadDeadlineNow"
    unfolding demo_connect_def by (rule connect_half_close_depends_on_chunks [where head = demo_head and parse = demo_parse, OF c p _ _ _ a]) simp_all
  then show ?thesis by (elim exE conjE) (intro exI conjI, assumption+, simp_all)
qed

text \<open>A dial that races with its context leaks nothing and always ends: at most six steps, always a
  way to finish; a caller that was given a connection has an open one, and once everything is over
  a connection is open exactly if the caller was given it, so one that arrives late was closed.\<close>

theorem dial_race_leaks_nothing:
  assumes "(race_step ^^ n) start_race r"
  shows "n \<le> 6 \<and> (\<exists>t. race_step\<^sup>*\<^sup>* r t \<and> race_over t) \<and>
    (rc_main r = RmReturned (Some True) \<longrightarrow> rc_open r) \<and>
    (race_over r \<longrightarrow> (rc_open r \<longleftrightarrow> rc_main r = RmReturned (Some True)))"
proof -
  have b: "race_inv r \<and> n + race_rank r \<le> race_rank start_race"
    by (rule race_sys.run_bound [OF assms race_inv_start])
  then have i: "race_inv r" and n: "n \<le> 6" by (simp_all add: race_rank_def start_race_def)
  have "rc_main r = RmReturned (Some True) \<longrightarrow> rc_open r" "race_over r \<longrightarrow> (rc_open r \<longleftrightarrow> rc_main r = RmReturned (Some True))"
    using i by (auto simp: race_inv_def race_over_def split: list.splits race_main.splits option.splits)
  then show ?thesis using race_sys.can_finish [OF i] n by blast
qed

text \<open>Witness: the context ends first, the connection arrives late and is closed.\<close>

theorem dial_race_leaks_nothing_witness:
  "\<exists>r. (race_step ^^ 6) start_race r \<and> race_over r \<and> rc_main r = RmReturned None \<and> \<not> rc_open r"
proof -
  define r where "r = \<lparr>rc_go = DgDone, rc_ch = [], rc_ctx = True, rc_main = RmReturned None, rc_reaper = RpDone, rc_open = False\<rparr>"
  note d = start_race_def
  have "(race_step ^^ 0) start_race start_race" by simp
  note relpowp_Suc_I [OF this rs_ctx]
  note relpowp_Suc_I [OF this rs_cancelled]
  note relpowp_Suc_I [OF this rs_opened]
  note relpowp_Suc_I [OF this rs_send]
  note relpowp_Suc_I [OF this rs_reap]
  note relpowp_Suc_I [OF this rs_close]
  then have R: "(race_step ^^ 6) start_race r" by (simp add: d r_def numeral_eq_Suc)
  show ?thesis
    by (rule exI [of _ r]) (use R dial_race_leaks_nothing [OF R] in \<open>simp add: r_def race_over_def\<close>)
qed

text \<open>C29: What the one timer of an SSH channel gives, whatever is set, cleared, extended and closed in
  whatever order.  The channel expires exactly when time passes the deadline set last, by
  \<open>SetDeadline\<close>, \<open>SetReadDeadline\<close> or \<open>SetWriteDeadline\<close>; it is closed exactly by that, by a close, or by a
  half-close of a channel that has none, and stays closed.  As long as deadlines are set for both
  directions together, that deadline is the one \<open>net.Conn\<close> promises for each of them.  Set for one
  direction it holds for both, and replaces what was set for the other, also an earlier deadline:
  the two directions share the timer.\<close>

theorem ssh_channel_deadlines:
  "(sc_expired (chan_run now ops) \<longleftrightarrow> missed now ops) \<and>
   (sc_closed (chan_run now ops) \<longleftrightarrow> missed now ops \<or> ChClose \<in> set ops \<or> ChCloseWrite False \<in> set ops) \<and>
   (sc_closed (chan_run now ops) \<longrightarrow> sc_closed (chan_run now (ops @ later))) \<and>
   ((\<forall>p\<in>set ops. \<not> sets_one_direction p) \<longrightarrow>
      (\<forall>dir. net_deadline dir ops = deadline_in_force ops)) \<and>
   (sc_closed (chan_run now (ops @ [ChSetWrite (Some w), ChSetRead (Some r), ChAdvance d])) \<longleftrightarrow>
      sc_closed (chan_run now ops) \<or> r \<le> now + int (elapsed ops + d)) \<and>
   (sc_closed (chan_run now (ops @ [ChSetRead (Some r), ChSetWrite (Some w), ChAdvance d])) \<longleftrightarrow>
      sc_closed (chan_run now ops) \<or> w \<le> now + int (elapsed ops + d))"
proof (intro conjI)
  show "sc_closed (chan_run now ops) \<longrightarrow> sc_closed (chan_run now (ops @ later))"
    unfolding chan_closed using missed_append by auto
  show "(\<forall>p\<in>set ops. \<not> sets_one_direction p) \<longrightarrow> (\<forall>dir. net_deadline dir ops = deadline_in_force ops)"
    using net_deadline_shared by blast
  have three: "missed now (ops @ [p, q, ChAdvance d]) \<longleftrightarrow>
      missed now ops \<or> (\<exists>t. deadline_in_force (ops @ [p, q]) = Some t \<and> t \<le> now + int (elapsed ops + d))"
    if "sets_one_direction p" "sets_one_direction q" for p q
    using that missed_snoc [of now "ops @ [p, q]"] missed_snoc [of now "ops @ [p]" q] missed_snoc [of now ops p]
      elapsed_snoc [of "ops @ [p]" q] elapsed_snoc [of ops p]
    by (cases p; cases q) simp_all
  show "sc_closed (chan_run now (ops @ [ChSetWrite (Some w), ChSetRead (Some r), ChAdvance d])) \<longleftrightarrow>
      sc_closed (chan_run now ops) \<or> r \<le> now + int (elapsed ops + d)"
    using three [of "ChSetWrite (Some w)" "ChSetRead (Some r)"] deadline_snoc [of "ops @ [ChSetWrite (Some w)]" "ChSetRead (Some r)"]
    by (auto simp: chan_closed)
  show "sc_closed (chan_run now (ops @ [ChSetRead (Some r), ChSetWrite (Some w), ChAdvance d])) \<longleftrightarrow>
      sc_closed (chan_run now ops) \<or> w \<le> now + int (elapsed ops + d)"
    using three [of "ChSetRead (Some r)" "ChSetWrite (Some w)"] deadline_snoc [of "ops @ [ChSetRead (Some r)]" "ChSetWrite (Some w)"]
    by (auto simp: chan_closed)
qed (use chan_timer chan_closed in blast)+

text \<open>The witness: a deadline set for both directions passes, and a later extension does not reopen
  the channel.\<close>

lemma ssh_channel_deadlines_witness:
  "sc_closed (chan_run 0 ([ChSetDeadline (Some 5), ChAdvance 6] @ [ChSetDeadline (Some 20)])) \<and>
   net_deadline ChanRead [ChSetDeadline (Some 5), ChAdvance 6] = Some 5"
proof
  have "sc_closed (chan_run 0 [ChSetDeadline (Some 5), ChAdvance 6])" by code_simp
  then show "sc_closed (chan_run 0 ([ChSetDeadline (Some 5), ChAdvance 6] @ [ChSetDeadline (Some 20)]))"
    using ssh_channel_deadlines [of 0 "[ChSetDeadline (Some 5), ChAdvance 6]" "[ChSetDeadline (Some 20)]"] by blast
  have "\<forall>p\<in>set [ChSetDeadline (Some 5), ChAdvance 6]. \<not> sets_one_direction p" by simp
  moreover have "deadline_in_force [ChSetDeadline (Some 5), ChAdvance 6] = Some 5" by (simp add: deadline_in_force_def)
  ultimately show "net_deadline ChanRead [ChSetDeadline (Some 5), ChAdvance 6] = Some 5"
    using ssh_channel_deadlines [of 0 "[ChSetDeadline (Some 5), ChAdvance 6]" "[]"] by metis
qed

end
