(* ===== verification/Thread_Pool.thy ===== *)
theory Thread_Pool
  imports PM_Prelude
begin

text \<open>
  Goroutines that share a state.  A program gives, for a choice of the environment, the next stage
  of a goroutine, the goroutines it starts and the new shared state; \<open>pool_step\<close> lets any goroutine
  of the pool take its next action.  Three contracts of such programs: a condition of the shared
  state and of each goroutine that every action keeps (\<open>pool_invariant\<close>), a resource that is in
  the hands of some goroutine as long as the shared state does not keep it (\<open>pool_resources\<close>), and
  a rank that every action lowers (\<open>pool_rank\<close>).
\<close>

inductive pool_step :: "('ch \<Rightarrow> 't \<Rightarrow> 'c \<Rightarrow> ('t \<times> 't list \<times> 'c) option) \<Rightarrow> 'c \<times> 't list \<Rightarrow> 'c \<times> 't list \<Rightarrow> bool"
  for act where
  pool_stepI: "i < length ts \<Longrightarrow> act ch (ts ! i) c = Some (t', sp, c') \<Longrightarrow>
     pool_step act (c, ts) (c', ts[i := t'] @ sp)"

inductive_cases pool_stepE [step_elims]: "pool_step act (c, ts) s'"

text \<open>A run along a schedule of goroutines and choices.\<close>

fun pool_run :: "('ch \<Rightarrow> 't \<Rightarrow> 'c \<Rightarrow> ('t \<times> 't list \<times> 'c) option) \<Rightarrow> (nat \<times> 'ch) list \<Rightarrow> 'c \<times> 't list \<Rightarrow> ('c \<times> 't list) option" where
  "pool_run act [] s = Some s"
| "pool_run act ((i, ch) # sched) (c, ts) =
     (if i < length ts then
        (case act ch (ts ! i) c of
           Some (t', sp, c') \<Rightarrow> pool_run act sched (c', ts[i := t'] @ sp)
         | None \<Rightarrow> None)
      else None)"

lemma pool_run_steps: "pool_run act sched s = Some s' \<Longrightarrow> (pool_step act ^^ length sched) s s'"
proof (induction act sched s rule: pool_run.induct)
  case (2 act i ch sched c ts)
  then obtain t' sp c' where a: "i < length ts" "act ch (ts ! i) c = Some (t', sp, c')"
      "pool_run act sched (c', ts[i := t'] @ sp) = Some s'"
    by (auto split: if_splits option.splits)
  have "pool_step act (c, ts) (c', ts[i := t'] @ sp)" using a by (intro pool_stepI)
  then show ?case using relpowp_Suc_I2 2(1) [OF a(1,2) refl refl a(3)] by fastforce
qed simp

text \<open>Goroutines hold exclusive tokens (\<open>claims\<close>): a place that only one of them can be at.  An
  action keeps the tokens of the others apart from its own, knowing what fits the others.\<close>

locale pool_invariant =
  fixes act :: "'ch \<Rightarrow> 't \<Rightarrow> 'c \<Rightarrow> ('t \<times> 't list \<times> 'c) option"
    and good :: "'c \<Rightarrow> bool"
    and fits :: "'c \<Rightarrow> 't \<Rightarrow> bool"
    and claims :: "'t \<Rightarrow> 'k set"
  assumes act_good: "act ch t c = Some (t', sp, c') \<Longrightarrow> good c \<Longrightarrow> fits c t \<Longrightarrow> good c'"
    and act_fits: "act ch t c = Some (t', sp, c') \<Longrightarrow> good c \<Longrightarrow> fits c t \<Longrightarrow> fits c' t' \<and> (\<forall>u\<in>set sp. fits c' u)"
    and act_own: "act ch t c = Some (t', sp, c') \<Longrightarrow> good c \<Longrightarrow> fits c t \<Longrightarrow>
      sp = [] \<or> (\<exists>v. sp = [v] \<and> claims t' \<inter> claims v = {})"
    and others_fit: "act ch t c = Some (t', sp, c') \<Longrightarrow> good c \<Longrightarrow> fits c t \<Longrightarrow> fits c u \<Longrightarrow>
      claims t \<inter> claims u = {} \<Longrightarrow> fits c' u"
    and others_apart: "act ch t c = Some (t', sp, c') \<Longrightarrow> good c \<Longrightarrow> fits c t \<Longrightarrow> fits c u \<Longrightarrow>
      claims t \<inter> claims u = {} \<Longrightarrow> v = t' \<or> v \<in> set sp \<Longrightarrow> claims v \<inter> claims u = {}"
begin

definition exclusive :: "'t list \<Rightarrow> bool" where
  "exclusive ts \<longleftrightarrow> (\<forall>i<length ts. \<forall>j<length ts. i \<noteq> j \<longrightarrow> claims (ts ! i) \<inter> claims (ts ! j) = {})"

definition pool_ok :: "'c \<times> 't list \<Rightarrow> bool" where
  "pool_ok s \<longleftrightarrow> good (fst s) \<and> (\<forall>t\<in>set (snd s). fits (fst s) t) \<and> exclusive (snd s)"

lemma exclusiveD: "exclusive ts \<Longrightarrow> i < length ts \<Longrightarrow> j < length ts \<Longrightarrow> i \<noteq> j \<Longrightarrow> claims (ts ! i) \<inter> claims (ts ! j) = {}"
  unfolding exclusive_def by blast

lemma exclusive_update:
  assumes "exclusive ts" "i < length ts" "\<forall>j<length ts. j \<noteq> i \<longrightarrow> claims t' \<inter> claims (ts ! j) = {}"
  shows "exclusive (ts[i := t'])"
proof -
  have "claims (ts[i := t'] ! a) \<inter> claims (ts[i := t'] ! b) = {}"
    if "a < length ts" "b < length ts" "a \<noteq> b" for a b
    using that assms(3) exclusiveD [OF assms(1) that] by (cases "a = i"; cases "b = i") (auto simp: Int_commute)
  then show ?thesis by (simp add: exclusive_def)
qed

lemma exclusive_snoc:
  assumes "exclusive ts" "\<forall>u\<in>set ts. claims v \<inter> claims u = {}"
  shows "exclusive (ts @ [v])"
proof -
  have "claims ((ts @ [v]) ! a) \<inter> claims ((ts @ [v]) ! b) = {}"
    if "a < length (ts @ [v])" "b < length (ts @ [v])" "a \<noteq> b" for a b
  proof (cases "a < length ts \<and> b < length ts")
    case True
    then show ?thesis using exclusiveD [OF assms(1)] that(3) by (simp add: nth_append)
  next
    case False
    then have "a = length ts \<and> b < length ts \<or> b = length ts \<and> a < length ts" using that by simp linarith
    then show ?thesis using assms(2) nth_mem by (elim disjE) (force simp: nth_append)+
  qed
  then show ?thesis by (simp add: exclusive_def)
qed

lemma exclusive_cnt: "exclusive ts \<Longrightarrow> cnt (\<lambda>t. k \<in> claims t) ts \<le> 1"
proof -
  assume e: "exclusive ts"
  let ?I = "{i. i < length ts \<and> k \<in> claims (ts ! i)}"
  have "\<forall>i\<in>?I. \<forall>j\<in>?I. i = j" using exclusiveD [OF e] by blast
  then have "card ?I \<le> Suc 0" using card_le_Suc0_iff_eq [of ?I] by simp
  then show ?thesis by (simp add: length_filter_conv_card)
qed

lemma pool_ok_step:
  assumes "pool_ok s" "pool_step act s s'"
  shows "pool_ok s'"
proof -
  obtain i ts ch c t' sp c' where s: "s = (c, ts)" "s' = (c', ts[i := t'] @ sp)" "i < length ts"
      "act ch (ts ! i) c = Some (t', sp, c')"
    using assms(2) by (cases rule: pool_step.cases) blast
  have g: "good c" "fits c (ts ! i)" and x: "exclusive ts" and f: "\<forall>u\<in>set ts. fits c u"
    using assms(1) s(1,3) nth_mem by (auto simp: pool_ok_def)
  have o: "claims (ts ! i) \<inter> claims (ts ! j) = {}" "fits c (ts ! j)" if "j < length ts" "j \<noteq> i" for j
    using exclusiveD [OF x s(3) that(1)] that f nth_mem by auto
  have u: "fits c' (ts ! j)" if "j < length ts" "j \<noteq> i" for j
    using others_fit [OF s(4) g o(2) [OF that] o(1) [OF that]] .
  have a: "claims v \<inter> claims (ts ! j) = {}" if "j < length ts" "j \<noteq> i" "v = t' \<or> v \<in> set sp" for j v
    using others_apart [OF s(4) g o(2) o(1) that(3)] that(1,2) by blast
  have x': "exclusive (ts[i := t'])" by (rule exclusive_update [OF x s(3)]) (use a in blast)
  have e: "exclusive (ts[i := t'] @ sp)"
    using act_own [OF s(4) g]
  proof (elim disjE exE conjE)
    fix v assume v: "sp = [v]" "claims t' \<inter> claims v = {}"
    have "\<forall>w\<in>set (ts[i := t']). claims v \<inter> claims w = {}"
    proof
      fix w assume "w \<in> set (ts[i := t'])"
      then obtain j where "j < length ts" "w = ts[i := t'] ! j" by (auto simp: in_set_conv_nth)
      then show "claims v \<inter> claims w = {}" using a [of j v] v by (cases "j = i") auto
    qed
    then show ?thesis using exclusive_snoc [OF x'] v(1) by simp
  qed (use x' in simp)
  have "\<forall>w\<in>set (ts[i := t'] @ sp). fits c' w"
  proof
    fix w assume "w \<in> set (ts[i := t'] @ sp)"
    then have "w \<in> set (ts[i := t']) \<or> w \<in> set sp" by simp
    then show "fits c' w"
    proof
      assume "w \<in> set (ts[i := t'])"
      then obtain j where "j < length ts" "w = ts[i := t'] ! j" by (auto simp: in_set_conv_nth)
      then show ?thesis using act_fits [OF s(4) g] u by (cases "j = i") auto
    qed (use act_fits [OF s(4) g] in blast)
  qed
  then show ?thesis using act_good [OF s(4) g] e s(2) by (simp add: pool_ok_def)
qed

lemma pool_ok_reach: "pool_ok s \<Longrightarrow> (pool_step act)\<^sup>*\<^sup>* s s' \<Longrightarrow> pool_ok s'"
  by (rotate_tac, induction rule: rtranclp_induct) (auto intro: pool_ok_step)

end

locale pool_resources = pool_invariant act good fits claims
  for act :: "'ch \<Rightarrow> 't \<Rightarrow> 'c \<Rightarrow> ('t \<times> 't list \<times> 'c) option"
    and good :: "'c \<Rightarrow> bool" and fits :: "'c \<Rightarrow> 't \<Rightarrow> bool" and claims :: "'t \<Rightarrow> 'k set" +
  fixes loose :: "'c \<Rightarrow> 'r set"
    and own :: "'t \<Rightarrow> 'r set"
  assumes hand_over: "act ch t c = Some (t', sp, c') \<Longrightarrow> good c \<Longrightarrow> fits c t \<Longrightarrow>
      loose c' \<subseteq> (loose c - own t) \<union> own t' \<union> \<Union> (own ` set sp)"
begin

definition accounted :: "'c \<times> 't list \<Rightarrow> bool" where
  "accounted s \<longleftrightarrow> loose (fst s) \<subseteq> \<Union> (own ` set (snd s))"

lemma accounted_step:
  assumes "accounted s" "pool_ok s" "pool_step act s s'"
  shows "accounted s'"
proof -
  obtain i ts ch c t' sp c' where s: "s = (c, ts)" "s' = (c', ts[i := t'] @ sp)" "i < length ts"
      "act ch (ts ! i) c = Some (t', sp, c')"
    using assms(3) by (cases rule: pool_step.cases) blast
  have g: "good c" "fits c (ts ! i)" using assms(2) s(1,3) nth_mem by (auto simp: pool_ok_def)
  have "x \<in> \<Union> (own ` set (ts[i := t'] @ sp))" if "x \<in> loose c'" for x
  proof -
    have "x \<in> (loose c - own (ts ! i)) \<union> own t' \<union> \<Union> (own ` set sp)"
      using hand_over [OF s(4) g] that by (rule subsetD)
    then show ?thesis
    proof (elim UnE DiffE)
      assume x: "x \<in> loose c" "x \<notin> own (ts ! i)"
      have "x \<in> \<Union> (own ` set ts)"
        using assms(1) x(1) s(1) by (simp only: accounted_def fst_conv snd_conv) (rule subsetD)
      then obtain j where j: "j < length ts" "x \<in> own (ts ! j)" by (auto simp: in_set_conv_nth)
      with x have "ts[i := t'] ! j = ts ! j" by (metis nth_list_update_neq)
      then have "ts ! j \<in> set (ts[i := t'])" using j by (metis length_list_update nth_mem)
      then show ?thesis using j(2) by auto
    next
      assume x: "x \<in> own t'"
      have "t' \<in> set (ts[i := t'])" using s(3) by (rule set_update_memI)
      with x show ?thesis by auto
    next
      assume "x \<in> \<Union> (own ` set sp)"
      then show ?thesis by auto
    qed
  qed
  then show ?thesis using s(2) by (auto simp: accounted_def)
qed

lemma accounted_reach:
  assumes "(pool_step act)\<^sup>*\<^sup>* s s'" "accounted s" "pool_ok s"
  shows "accounted s'"
  using assms
proof (induction rule: rtranclp_induct)
  case (step u v)
  then show ?case using accounted_step [of u v] pool_ok_reach [of s u] by blast
qed

end

locale pool_rank = pool_invariant act good fits claims
  for act :: "'ch \<Rightarrow> 't \<Rightarrow> 'c \<Rightarrow> ('t \<times> 't list \<times> 'c) option"
    and good :: "'c \<Rightarrow> bool" and fits :: "'c \<Rightarrow> 't \<Rightarrow> bool" and claims :: "'t \<Rightarrow> 'k set" +
  fixes ending :: "'c \<Rightarrow> bool"
    and crank :: "'c \<Rightarrow> nat"
    and trank :: "'t \<Rightarrow> nat"
  assumes act_keep: "act ch t c = Some (t', sp, c') \<Longrightarrow> good c \<Longrightarrow> fits c t \<Longrightarrow> ending c \<Longrightarrow> ending c'"
    and act_less: "act ch t c = Some (t', sp, c') \<Longrightarrow> good c \<Longrightarrow> fits c t \<Longrightarrow> ending c \<Longrightarrow>
      trank t' + sum_list (map trank sp) + crank c' < trank t + crank c"
    and act_able: "good c \<Longrightarrow> fits c t \<Longrightarrow> ending c \<Longrightarrow> trank t \<noteq> 0 \<Longrightarrow> \<exists>ch t' sp c'. act ch t c = Some (t', sp, c')"
begin

definition total_rank :: "'c \<times> 't list \<Rightarrow> nat" where
  "total_rank s = sum_list (map trank (snd s)) + crank (fst s)"

definition all_ended :: "'c \<times> 't list \<Rightarrow> bool" where
  "all_ended s \<longleftrightarrow> (\<forall>t\<in>set (snd s). trank t = 0)"

lemma total_rank_step:
  assumes "pool_ok s" "ending (fst s)" "pool_step act s s'"
  shows "ending (fst s') \<and> total_rank s' < total_rank s"
proof -
  obtain i ts ch c t' sp c' where s: "s = (c, ts)" "s' = (c', ts[i := t'] @ sp)" "i < length ts"
      "act ch (ts ! i) c = Some (t', sp, c')"
    using assms(3) by (cases rule: pool_step.cases) blast
  have g: "good c" "fits c (ts ! i)" "ending c" using assms(1,2) s(1,3) nth_mem by (auto simp: pool_ok_def)
  show ?thesis
    using act_keep [OF s(4) g] act_less [OF s(4) g] sum_list_map_update [OF s(3), of trank t'] s(1,2)
    by (simp add: total_rank_def)
qed

lemma pool_able:
  assumes "pool_ok s" "ending (fst s)" "\<not> all_ended s"
  shows "\<exists>s'. pool_step act s s'"
proof -
  obtain i where i: "i < length (snd s)" "trank (snd s ! i) \<noteq> 0"
    using assms(3) by (auto simp: all_ended_def in_set_conv_nth)
  have "good (fst s)" "fits (fst s) (snd s ! i)" using assms(1) i(1) nth_mem by (auto simp: pool_ok_def)
  then obtain ch t' sp c' where "act ch (snd s ! i) (fst s) = Some (t', sp, c')"
    using act_able assms(2) i(2) by blast
  then show ?thesis using pool_stepI [OF i(1)] by (metis prod.collapse)
qed

end

sublocale pool_rank \<subseteq> ranked: ranked_system "pool_step act" "\<lambda>s. pool_ok s \<and> ending (fst s)" total_rank all_ended
  by unfold_locales (use total_rank_step pool_able pool_ok_step in blast)+

end
