(* ===== verification/Ssh_Auth.thy ===== *)
theory Ssh_Auth
  imports Upstream_Dial Go_Flags Thread_Pool
begin

text \<open>
  Building the dialer of an upstream, internal/proxy/upstream.go: \<open>NewUpstreamDialer\<close>,
  \<open>newSOCKS5Dialer\<close>, the private key, the agent, the host key check and \<open>newSSHDialer\<close>, and the
  connections to the agent (\<open>agentKeyring\<close>), whose callbacks and \<open>Close\<close> run concurrently.  Files,
  the environment, the agent's socket and the parsers of golang.org/x/crypto are inputs (\<open>ssh_env\<close>).
\<close>

section \<open>What the dialer is built from\<close>

datatype key_err = PassphraseMissing | KeyErr string

datatype ssh_new_err = ErrSSHIdentity string string | ErrSSHParseKey key_err | ErrSSHPassphraseMissing
  | ErrSSHNoAuth | ErrSSHKnownHosts string string

text \<open>\<open>se_Agent\<close> says whether a socket can be dialled and takes a deadline.\<close>

record 'k ssh_env =
  se_ReadFile :: "string \<Rightarrow> string + string"
  se_ParsePrivateKey :: "string \<Rightarrow> key_err + 'k"
  se_ParsePrivateKeyWithPassphrase :: "string \<Rightarrow> string \<Rightarrow> key_err + 'k"
  se_Agent :: "string \<Rightarrow> bool"
  se_AuthSock :: string
  se_HomeDir :: "string option"
  se_KnownHosts :: "string \<Rightarrow> string option"

datatype 'k auth_method = AuthAgent string | AuthKey 'k | AuthPassword string

datatype hostkey_check = InsecureIgnoreHostKey | KnownHostsFile string

datatype ssh_log = LogSSHAgent string | LogSSHAgentSkipKey string | LogInsecure

definition parsePrivateKey :: "('k, 'a) ssh_env_scheme \<Rightarrow> string \<Rightarrow> string \<Rightarrow> ssh_new_err + 'k" where
  "parsePrivateKey env key passphrase =
     (if passphrase \<noteq> [] then
        (case se_ParsePrivateKeyWithPassphrase env key passphrase of
           Inl e \<Rightarrow> Inl (ErrSSHParseKey e)
         | Inr k \<Rightarrow> Inr k)
      else
        (case se_ParsePrivateKey env key of
           Inl PassphraseMissing \<Rightarrow> Inl ErrSSHPassphraseMissing
         | Inl e \<Rightarrow> Inl (ErrSSHParseKey e)
         | Inr k \<Rightarrow> Inr k))"

text \<open>The socket of the agent, when it is enabled, configured and can be reached.\<close>

definition newAgentKeyringWithTimeout :: "('k, 'a) ssh_env_scheme \<Rightarrow> UpstreamConfig \<Rightarrow> string option" where
  "newAgentKeyringWithTimeout env cfg =
     (if uc_DisableAgent cfg then None
      else
        (let configured = TrimSpace (uc_AgentSocket cfg);
             socket = (if configured = [] then TrimSpace (se_AuthSock env) else configured) in
         if socket = [] then None
         else if \<not> se_Agent env socket then None
         else Some socket))"

definition sshHostKeyCallback :: "('k, 'a) ssh_env_scheme \<Rightarrow> UpstreamConfig \<Rightarrow> ssh_log list \<times> (ssh_new_err + hostkey_check)" where
  "sshHostKeyCallback env cfg =
     (if uc_Insecure cfg then ([LogInsecure], Inr InsecureIgnoreHostKey)
      else
        (let path = (if uc_KnownHostsFile cfg = [] then
               (case se_HomeDir env of Some home \<Rightarrow> filepath_Join2 (filepath_Join2 home ''.ssh'') ''known_hosts'' | None \<Rightarrow> [])
               else uc_KnownHostsFile cfg) in
         case se_KnownHosts env path of
           Some e \<Rightarrow> ([], Inl (ErrSSHKnownHosts path e))
         | None \<Rightarrow> ([], Inr (KnownHostsFile path))))"

definition second :: int where "second = 1000000000"
definition defaultKeepaliveInterval :: int where "defaultKeepaliveInterval = 30 * second"
definition defaultKeepaliveMaxFailures :: int where "defaultKeepaliveMaxFailures = 3"
definition defaultMinBackoff :: int where "defaultMinBackoff = 1 * second"
definition defaultMaxBackoff :: int where "defaultMaxBackoff = 30 * second"

lemmas ssh_defaults = second_def defaultKeepaliveInterval_def defaultKeepaliveMaxFailures_def
  defaultMinBackoff_def defaultMaxBackoff_def

record 'k ssh_dialer =
  sd_cfg :: UpstreamConfig
  sd_timeout :: int
  sd_keyring :: "string option"
  sd_auth :: "'k auth_method list"
  sd_hostKey :: hostkey_check
  sd_keepaliveInterval :: int
  sd_keepaliveMaxFailures :: int
  sd_minBackoff :: int
  sd_maxBackoff :: int

text \<open>The identity file: the key, nothing (no file configured, or an encrypted key without its
  passphrase beside a working agent), or an error.\<close>

definition ssh_identity :: "('k, 'a) ssh_env_scheme \<Rightarrow> UpstreamConfig \<Rightarrow> string option \<Rightarrow>
    ssh_log list \<times> (ssh_new_err + 'k auth_method list)" where
  "ssh_identity env cfg keyring =
     (if uc_IdentityFile cfg = [] then ([], Inr [])
      else
        (case se_ReadFile env (uc_IdentityFile cfg) of
           Inl e \<Rightarrow> ([], Inl (ErrSSHIdentity (uc_IdentityFile cfg) e))
         | Inr key \<Rightarrow>
             (case parsePrivateKey env key (uc_IdentityPassphrase cfg) of
                Inr signer \<Rightarrow> ([], Inr [AuthKey signer])
              | Inl err \<Rightarrow>
                  (if keyring \<noteq> None \<and> err = ErrSSHPassphraseMissing
                   then ([LogSSHAgentSkipKey (uc_IdentityFile cfg)], Inr [])
                   else ([], Inl err)))))"

definition newSSHDialer :: "('k, 'a) ssh_env_scheme \<Rightarrow> UpstreamConfig \<Rightarrow> int \<Rightarrow>
    ssh_log list \<times> (ssh_new_err + 'k ssh_dialer)" where
  "newSSHDialer env cfg timeout =
     (let keyring = newAgentKeyringWithTimeout env cfg;
          agent = (case keyring of Some socket \<Rightarrow> [AuthAgent socket] | None \<Rightarrow> []);
          log1 = (case keyring of Some socket \<Rightarrow> [LogSSHAgent socket] | None \<Rightarrow> []);
          (log2, identity) = ssh_identity env cfg keyring in
      case identity of
        Inl e \<Rightarrow> (log1 @ log2, Inl e)
      | Inr keys \<Rightarrow>
          (let methods = agent @ keys @ (if uc_Password cfg \<noteq> [] then [AuthPassword (uc_Password cfg)] else []) in
           if methods = [] then (log1 @ log2, Inl ErrSSHNoAuth)
           else
             (case sshHostKeyCallback env cfg of
                (log3, Inl e) \<Rightarrow> (log1 @ log2 @ log3, Inl e)
              | (log3, Inr check) \<Rightarrow>
                  (log1 @ log2 @ log3, Inr
                     \<lparr>sd_cfg = cfg, sd_timeout = timeout, sd_keyring = keyring, sd_auth = methods, sd_hostKey = check,
                      sd_keepaliveInterval = (let iv = sint (uc_KeepaliveInterval cfg) in
                        if iv = 0 then defaultKeepaliveInterval else iv),
                      sd_keepaliveMaxFailures = (if uc_KeepaliveMaxFailures cfg \<le> 0
                        then defaultKeepaliveMaxFailures else uc_KeepaliveMaxFailures cfg),
                      sd_minBackoff = defaultMinBackoff, sd_maxBackoff = defaultMaxBackoff\<rparr>))))"

definition healthProbeTimeout :: "'k ssh_dialer \<Rightarrow> int" where
  "healthProbeTimeout d = (if sd_timeout d > 0 then sd_timeout d else defaultKeepaliveInterval)"

section \<open>The choice of the dialer\<close>

datatype 'k upstream_dialer = SocksUpstream string "(string \<times> string) option" net_dialer
  | ConnectUpstream UpstreamConfig net_dialer | SshUpstream "'k ssh_dialer"

datatype upstream_new_err = NewScheme string | NewSocks5 string | NewSsh ssh_new_err

text \<open>\<open>socks5_new\<close> is the constructor of golang.org/x/net/proxy: the message it fails with, if any.\<close>

definition newSOCKS5Dialer :: "(string \<Rightarrow> (string \<times> string) option \<Rightarrow> string option) \<Rightarrow> UpstreamConfig \<Rightarrow> net_dialer \<Rightarrow>
    upstream_new_err + 'k upstream_dialer" where
  "newSOCKS5Dialer socks5_new cfg base =
     (let auth = (if uc_Username cfg \<noteq> [] \<or> uc_Password cfg \<noteq> []
                  then Some (uc_Username cfg, uc_Password cfg) else None) in
      case socks5_new (uc_Addr cfg) auth of
        Some e \<Rightarrow> Inl (NewSocks5 e)
      | None \<Rightarrow> Inr (SocksUpstream (uc_Addr cfg) auth base))"

definition NewUpstreamDialer :: "(string \<Rightarrow> (string \<times> string) option \<Rightarrow> string option) \<Rightarrow> ('k, 'a) ssh_env_scheme \<Rightarrow>
    UpstreamConfig \<Rightarrow> int \<Rightarrow> int \<Rightarrow> ssh_log list \<times> (upstream_new_err + 'k upstream_dialer)" where
  "NewUpstreamDialer socks5_new env cfg timeout keepAlive =
     (let base = \<lparr>nd_Timeout = timeout, nd_KeepAlive = keepAlive\<rparr> in
      if uc_Scheme cfg = UpstreamSchemeSOCKS5 then ([], newSOCKS5Dialer socks5_new cfg base)
      else if uc_Scheme cfg = UpstreamSchemeHTTP then ([], Inr (ConnectUpstream cfg base))
      else if uc_Scheme cfg = UpstreamSchemeSSH then
        (case newSSHDialer env cfg timeout of
           (log, Inl e) \<Rightarrow> (log, Inl (NewSsh e))
         | (log, Inr d) \<Rightarrow> (log, Inr (SshUpstream d)))
      else ([], Inl (NewScheme (uc_Scheme cfg))))"

section \<open>Connections to the agent\<close>

record keyring =
  kr_conn :: "nat option"
  kr_closed :: bool
  kr_open :: "nat set"
  kr_next :: nat

definition new_keyring :: keyring where
  "new_keyring = \<lparr>kr_conn = None, kr_closed = False, kr_open = {}, kr_next = 0\<rparr>"

text \<open>The stages of a call of \<open>signers\<close> (check, \<open>dial\<close> with its deadline, the request to the agent,
  \<open>swap\<close>, the close of the connection that is no longer needed) and of \<open>Close\<close>.\<close>

datatype kr_call = KrCheck | KrDial | KrDeadline nat | KrSigners nat | KrAbort nat | KrSwap nat
  | KrCloseOld nat | KrDropNew nat | KrReturned bool | KrClose | KrCloseConn nat | KrClosed

definition kr_drop :: "nat \<Rightarrow> keyring \<Rightarrow> keyring" where
  "kr_drop c k = k\<lparr>kr_open := kr_open k - {c}\<rparr>"

fun kr_act :: "bool \<Rightarrow> kr_call \<Rightarrow> keyring \<Rightarrow> (kr_call \<times> kr_call list \<times> keyring) option" where
  "kr_act ok KrCheck k = Some (if kr_closed k then KrReturned False else KrDial, [], k)"
| "kr_act ok KrDial k =
     (if ok then Some (KrDeadline (kr_next k), [], k\<lparr>kr_open := insert (kr_next k) (kr_open k), kr_next := Suc (kr_next k)\<rparr>)
      else Some (KrReturned False, [], k))"
| "kr_act ok (KrDeadline c) k = Some (if ok then KrSigners c else KrAbort c, [], k)"
| "kr_act ok (KrSigners c) k = Some (if ok then KrSwap c else KrAbort c, [], k)"
| "kr_act ok (KrAbort c) k = Some (KrReturned False, [], kr_drop c k)"
| "kr_act ok (KrSwap c) k =
     (if kr_closed k then Some (KrDropNew c, [], k)
      else Some (case kr_conn k of Some old \<Rightarrow> KrCloseOld old | None \<Rightarrow> KrReturned True, [], k\<lparr>kr_conn := Some c\<rparr>))"
| "kr_act ok (KrCloseOld c) k = Some (KrReturned True, [], kr_drop c k)"
| "kr_act ok (KrDropNew c) k = Some (KrReturned False, [], kr_drop c k)"
| "kr_act ok KrClose k =
     Some (case kr_conn k of Some c \<Rightarrow> KrCloseConn c | None \<Rightarrow> KrClosed, [], k\<lparr>kr_conn := None, kr_closed := True\<rparr>)"
| "kr_act ok (KrCloseConn c) k = Some (KrClosed, [], kr_drop c k)"
| "kr_act ok (KrReturned r) k = None"
| "kr_act ok KrClosed k = None"

definition kr_loose :: "keyring \<Rightarrow> nat set" where
  "kr_loose k = kr_open k - set_option (kr_conn k)"

fun kr_own :: "kr_call \<Rightarrow> nat set" where
  "kr_own (KrDeadline c) = {c}" | "kr_own (KrSigners c) = {c}" | "kr_own (KrAbort c) = {c}"
| "kr_own (KrSwap c) = {c}" | "kr_own (KrCloseOld c) = {c}" | "kr_own (KrDropNew c) = {c}"
| "kr_own (KrCloseConn c) = {c}" | "kr_own _ = {}"

fun kr_rank :: "kr_call \<Rightarrow> nat" where
  "kr_rank KrCheck = 6" | "kr_rank KrDial = 5" | "kr_rank (KrDeadline c) = 4" | "kr_rank (KrSigners c) = 3"
| "kr_rank (KrAbort c) = 1" | "kr_rank (KrSwap c) = 2" | "kr_rank (KrCloseOld c) = 1" | "kr_rank (KrDropNew c) = 1"
| "kr_rank (KrReturned r) = 0" | "kr_rank KrClose = 2" | "kr_rank (KrCloseConn c) = 1" | "kr_rank KrClosed = 0"

interpretation kr_inv: pool_invariant kr_act "\<lambda>k. kr_closed k \<longrightarrow> kr_conn k = None" "\<lambda>_ _. True" "\<lambda>_. {} :: nat set"
proof unfold_locales
  fix ok t k t' sp k'
  assume "kr_act ok t k = Some (t', sp, k')" "kr_closed k \<longrightarrow> kr_conn k = None"
  then show "kr_closed k' \<longrightarrow> kr_conn k' = None"
    by (cases t) (auto simp: kr_drop_def split: if_splits option.splits)
next
  fix ok t k t' sp k'
  assume "kr_act ok t k = Some (t', sp, k')"
  then show "sp = [] \<or> (\<exists>v. sp = [v] \<and> {} \<inter> {} = ({} :: nat set))"
    by (cases t) (auto split: if_splits)
qed simp_all

interpretation kr_res: pool_resources kr_act "\<lambda>k. kr_closed k \<longrightarrow> kr_conn k = None" "\<lambda>_ _. True" "\<lambda>_. {} :: nat set" kr_loose kr_own
proof unfold_locales
  fix ok t k t' sp k'
  assume "kr_act ok t k = Some (t', sp, k')"
  then show "kr_loose k' \<subseteq> (kr_loose k - kr_own t) \<union> kr_own t' \<union> \<Union> (kr_own ` set sp)"
    by (cases t) (auto simp: kr_loose_def kr_drop_def split: if_splits option.splits)
qed

interpretation kr_fin: pool_rank kr_act "\<lambda>k. kr_closed k \<longrightarrow> kr_conn k = None" "\<lambda>_ _. True" "\<lambda>_. {} :: nat set"
    "\<lambda>_. True" "\<lambda>_. 0" kr_rank
proof unfold_locales
  fix ok t k t' sp k'
  assume "kr_act ok t k = Some (t', sp, k')"
  then show "kr_rank t' + sum_list (map kr_rank sp) + 0 < kr_rank t + 0"
    by (cases t) (auto split: if_splits option.splits)
next
  fix t k
  assume "kr_rank t \<noteq> 0"
  then show "\<exists>ok t' sp k'. kr_act ok t k = Some (t', sp, k')" by (cases t) (auto split: if_splits)
qed simp_all

section \<open>Properties\<close>

lemma keyring_Some:
  "newAgentKeyringWithTimeout env cfg = Some socket \<Longrightarrow> \<not> uc_DisableAgent cfg \<and> socket \<noteq> [] \<and> se_Agent env socket"
  by (auto simp: newAgentKeyringWithTimeout_def Let_def split: if_splits)

lemma hostKey_Inr:
  "sshHostKeyCallback env cfg = (log, Inr check) \<Longrightarrow>
     (if uc_Insecure cfg then check = InsecureIgnoreHostKey \<and> log = [LogInsecure]
      else log = [] \<and> (\<exists>path. check = KnownHostsFile path \<and> se_KnownHosts env path = None))"
  by (auto simp: sshHostKeyCallback_def Let_def split: if_splits option.splits)

text \<open>What an identity file contributes: nothing when none is configured, its key when it parses,
  and nothing, with a warning, when only its passphrase is missing and there is an agent.\<close>

definition identity_used :: "('k, 'a) ssh_env_scheme \<Rightarrow> UpstreamConfig \<Rightarrow> string option \<Rightarrow> ssh_log list \<Rightarrow>
    'k auth_method list \<Rightarrow> bool" where
  "identity_used env cfg keyring log keys \<longleftrightarrow>
     (if uc_IdentityFile cfg = [] then keys = []
      else (case se_ReadFile env (uc_IdentityFile cfg) of
          Inl e \<Rightarrow> False
        | Inr key \<Rightarrow> (case parsePrivateKey env key (uc_IdentityPassphrase cfg) of
            Inr signer \<Rightarrow> keys = [AuthKey signer]
          | Inl e \<Rightarrow> e = ErrSSHPassphraseMissing \<and> keys = [] \<and> keyring \<noteq> None \<and>
              LogSSHAgentSkipKey (uc_IdentityFile cfg) \<in> set log)))"

lemma ssh_identity_Inr: "ssh_identity env cfg keyring = (log, Inr keys) \<Longrightarrow> identity_used env cfg keyring log keys"
  by (auto simp: ssh_identity_def identity_used_def split: if_splits sum.splits)

lemma identity_used_more: "identity_used env cfg keyring log keys \<Longrightarrow> set log \<subseteq> set log' \<Longrightarrow> identity_used env cfg keyring log' keys"
  by (auto simp: identity_used_def split: if_splits sum.splits)

lemma newSSHDialer_Inr:
  assumes "newSSHDialer env cfg timeout = (log, Inr d)"
  obtains log2 keys log3 where "ssh_identity env cfg (sd_keyring d) = (log2, Inr keys)"
    "sshHostKeyCallback env cfg = (log3, Inr (sd_hostKey d))"
    "sd_keyring d = newAgentKeyringWithTimeout env cfg"
    "sd_auth d = (case sd_keyring d of Some socket \<Rightarrow> [AuthAgent socket] | None \<Rightarrow> []) @ keys @
       (if uc_Password cfg \<noteq> [] then [AuthPassword (uc_Password cfg)] else [])"
    "sd_auth d \<noteq> []" "set log2 \<union> set log3 \<subseteq> set log"
    "sd_keepaliveInterval d \<noteq> 0" "0 < sd_keepaliveMaxFailures d"
    "sd_cfg d = cfg"
proof -
  let ?k = "newAgentKeyringWithTimeout env cfg"
  obtain log2 identity where i: "ssh_identity env cfg ?k = (log2, identity)" by (cases "ssh_identity env cfg ?k") auto
  obtain log3 check where h: "sshHostKeyCallback env cfg = (log3, check)" by (cases "sshHostKeyCallback env cfg") auto
  obtain keys where k: "identity = Inr keys"
    using assms by (cases identity) (simp_all add: newSSHDialer_def Let_def i)
  let ?m = "(case ?k of Some socket \<Rightarrow> [AuthAgent socket] | None \<Rightarrow> []) @ keys @
     (if uc_Password cfg \<noteq> [] then [AuthPassword (uc_Password cfg)] else [])"
  note e = assms [unfolded newSSHDialer_def Let_def i k prod.case sum.case h]
  have m: "?m \<noteq> []" by (rule notI) (use e in \<open>simp split: if_splits\<close>)
  obtain c where c: "check = Inr c" using e m by (cases check) (simp_all split: if_splits)
  note d = e [unfolded if_not_P [OF m] c sum.case]
  show ?thesis
    by (rule that [of log2 keys log3]) (use d i k h c m in \<open>auto simp: ssh_defaults split: if_splits\<close>)
qed

text \<open>C28: An SSH upstream is built only with a way to authenticate and with host keys checked: the
  methods are the agent, the identity file and the password, in this order and each exactly when it
  is configured and usable; an encrypted key without its passphrase is passed over, with a warning,
  only beside a working agent; the host key check is dropped only by the insecure option, with a
  warning; and the keepalive interval is never zero, the number of failures it tolerates positive.\<close>

theorem ssh_dialer_authentication:
  assumes "newSSHDialer env cfg timeout = (log, Inr d)"
  shows "\<exists>keys. sd_auth d = (case sd_keyring d of Some socket \<Rightarrow> [AuthAgent socket] | None \<Rightarrow> []) @ keys @
      (if uc_Password cfg \<noteq> [] then [AuthPassword (uc_Password cfg)] else []) \<and> sd_auth d \<noteq> [] \<and>
    (\<forall>socket. sd_keyring d = Some socket \<longrightarrow> \<not> uc_DisableAgent cfg \<and> se_Agent env socket) \<and>
    identity_used env cfg (sd_keyring d) log keys \<and>
    (if uc_Insecure cfg then sd_hostKey d = InsecureIgnoreHostKey \<and> LogInsecure \<in> set log
     else \<exists>path. sd_hostKey d = KnownHostsFile path \<and> se_KnownHosts env path = None) \<and>
    sd_keepaliveInterval d \<noteq> 0 \<and> 0 < sd_keepaliveMaxFailures d"
proof -
  obtain log2 keys log3 where d: "ssh_identity env cfg (sd_keyring d) = (log2, Inr keys)"
    "sshHostKeyCallback env cfg = (log3, Inr (sd_hostKey d))"
    "sd_keyring d = newAgentKeyringWithTimeout env cfg"
    "sd_auth d = (case sd_keyring d of Some socket \<Rightarrow> [AuthAgent socket] | None \<Rightarrow> []) @ keys @
       (if uc_Password cfg \<noteq> [] then [AuthPassword (uc_Password cfg)] else [])"
    "sd_auth d \<noteq> []" "set log2 \<union> set log3 \<subseteq> set log"
    "sd_keepaliveInterval d \<noteq> 0" "0 < sd_keepaliveMaxFailures d"
    by (rule newSSHDialer_Inr [OF assms])
  have i: "identity_used env cfg (sd_keyring d) log keys"
    using identity_used_more [OF ssh_identity_Inr [OF d(1)]] d(6) by simp
  have h: "if uc_Insecure cfg then sd_hostKey d = InsecureIgnoreHostKey \<and> LogInsecure \<in> set log
     else \<exists>path. sd_hostKey d = KnownHostsFile path \<and> se_KnownHosts env path = None"
    using hostKey_Inr [OF d(2)] d(6) by (simp split: if_splits)
  show ?thesis using d(4,5,7,8) i h keyring_Some [of env cfg] d(3) by (intro exI [of _ keys] conjI) auto
qed

definition demo_env :: "string ssh_env" where
  "demo_env = \<lparr>se_ReadFile = (\<lambda>_. Inr ''ENCRYPTED''), se_ParsePrivateKey = (\<lambda>_. Inl PassphraseMissing),
     se_ParsePrivateKeyWithPassphrase = (\<lambda>key pw. if pw = ''open'' then Inr key else Inl (KeyErr ''decrypt'')),
     se_Agent = (\<lambda>socket. socket = ''/agent''), se_AuthSock = ''/agent'', se_HomeDir = Some ''/home/u'',
     se_KnownHosts = (\<lambda>path. if path = ''/home/u/.ssh/known_hosts'' then None else Some ''no such file'')\<rparr>"

definition demo_ssh_cfg :: UpstreamConfig where
  "demo_ssh_cfg = zero_UpstreamConfig\<lparr>uc_Scheme := ''ssh'', uc_Addr := ''bastion:22'', uc_Username := ''al'',
     uc_IdentityFile := ''/key'', uc_KeepaliveInterval := -1\<rparr>"

text \<open>Witness: an encrypted key without its passphrase beside a working agent.\<close>

theorem ssh_dialer_authentication_witness:
  "\<exists>d. newSSHDialer demo_env demo_ssh_cfg 5 = ([LogSSHAgent ''/agent'', LogSSHAgentSkipKey ''/key''], Inr d) \<and>
     sd_auth d = [AuthAgent ''/agent''] \<and> sd_hostKey d = KnownHostsFile ''/home/u/.ssh/known_hosts'' \<and>
     sd_keepaliveInterval d \<noteq> 0"
proof -
  define d :: "string ssh_dialer" where "d = \<lparr>sd_cfg = demo_ssh_cfg, sd_timeout = 5, sd_keyring = Some ''/agent'', sd_auth = [AuthAgent ''/agent''],
    sd_hostKey = KnownHostsFile ''/home/u/.ssh/known_hosts'', sd_keepaliveInterval = -1,
    sd_keepaliveMaxFailures = 3, sd_minBackoff = defaultMinBackoff, sd_maxBackoff = defaultMaxBackoff\<rparr>"
  have "newSSHDialer demo_env demo_ssh_cfg 5 = ([LogSSHAgent ''/agent'', LogSSHAgentSkipKey ''/key''], Inr d)"
    unfolding d_def by code_simp
  then show ?thesis using ssh_dialer_authentication [of demo_env demo_ssh_cfg 5 _ d] by (auto simp: d_def)
qed

text \<open>What \<open>ParseUpstreamURL\<close> accepts, \<open>NewUpstreamDialer\<close> understands: it never reports an unknown
  scheme, the dialer and the errors are those of the scheme, and it is built for the parsed address
  with the parsed credentials.\<close>

theorem parsed_upstream_is_understood:
  assumes "ParseUpstreamURL url_parse raw = Inr cfg"
  shows "case snd (NewUpstreamDialer socks5_new env cfg timeout keepAlive) of
      Inl (NewScheme s) \<Rightarrow> False
    | Inl (NewSocks5 e) \<Rightarrow> uc_Scheme cfg = UpstreamSchemeSOCKS5
    | Inl (NewSsh e) \<Rightarrow> uc_Scheme cfg = UpstreamSchemeSSH
    | Inr (SocksUpstream addr auth base) \<Rightarrow> uc_Scheme cfg = UpstreamSchemeSOCKS5 \<and> addr = uc_Addr cfg \<and>
        auth = (if uc_Username cfg = [] \<and> uc_Password cfg = [] then None else Some (uc_Username cfg, uc_Password cfg))
    | Inr (ConnectUpstream c base) \<Rightarrow> uc_Scheme cfg = UpstreamSchemeHTTP \<and> c = cfg
    | Inr (SshUpstream d) \<Rightarrow> uc_Scheme cfg = UpstreamSchemeSSH \<and> sd_cfg d = cfg"
proof -
  have "uc_Scheme cfg \<in> {UpstreamSchemeSOCKS5, UpstreamSchemeHTTP, UpstreamSchemeSSH}"
    using assms by (auto simp: ParseUpstreamURL_def Let_def split: sum.splits if_splits option.splits)
  moreover have "sd_cfg d = cfg" if "newSSHDialer env cfg timeout = (log, Inr d)" for log d
    by (rule newSSHDialer_Inr [OF that])
  ultimately show ?thesis
    by (auto simp: NewUpstreamDialer_def newSOCKS5Dialer_def Let_def upstream_schemes
        split: prod.splits sum.splits option.splits)
qed

theorem parsed_upstream_is_understood_witness:
  "\<exists>cfg base. ParseUpstreamURL (\<lambda>_. Inr \<lparr>gu_Scheme = ''SOCKS5'', gu_Host = ''up'', gu_User = Some (''al'', Some ''pw'')\<rparr>) ''u'' = Inr cfg \<and>
     snd (NewUpstreamDialer (\<lambda>_ _. None) demo_env cfg 5 7) = Inr (SocksUpstream ''up:1080'' (Some (''al'', ''pw'')) base) \<and>
     uc_Scheme cfg = UpstreamSchemeSOCKS5"
proof -
  define cfg where "cfg = zero_UpstreamConfig\<lparr>uc_Scheme := ''socks5'', uc_Addr := ''up:1080'', uc_Username := ''al'', uc_Password := ''pw''\<rparr>"
  have p: "ParseUpstreamURL (\<lambda>_. Inr \<lparr>gu_Scheme = ''SOCKS5'', gu_Host = ''up'', gu_User = Some (''al'', Some ''pw'')\<rparr>) ''u'' = Inr cfg"
    unfolding cfg_def by code_simp
  have n: "snd (NewUpstreamDialer (\<lambda>_ _. None) demo_env cfg 5 7) =
      Inr (SocksUpstream ''up:1080'' (Some (''al'', ''pw'')) \<lparr>nd_Timeout = 5, nd_KeepAlive = 7\<rparr>)"
    unfolding cfg_def by code_simp
  show ?thesis using parsed_upstream_is_understood [OF p, of "\<lambda>_ _. None" demo_env 5 7] p n by auto
qed

text \<open>C27: The connections to the agent: for any number of concurrent callbacks and any calls of \<open>Close\<close>,
  every call ends (at most six actions each) with nothing left open but the connection the keyring
  keeps, and none once it was closed.\<close>

theorem agent_connections_closed:
  assumes "(pool_step kr_act ^^ n) (new_keyring, calls) (k, calls')" "set calls \<subseteq> {KrCheck, KrClose}"
  shows "n \<le> 6 * length calls \<and>
    (\<exists>s. (pool_step kr_act)\<^sup>*\<^sup>* (k, calls') s \<and> kr_fin.all_ended s) \<and>
    (kr_fin.all_ended (k, calls') \<longrightarrow> kr_open k \<subseteq> set_option (kr_conn k) \<and> (kr_closed k \<longrightarrow> kr_open k = {}))"
proof -
  have reach: "(pool_step kr_act)\<^sup>*\<^sup>* (new_keyring, calls) (k, calls')" using assms(1) by (rule relpowp_imp_rtranclp)
  have start: "kr_inv.pool_ok (new_keyring, calls)"
    by (simp add: kr_inv.pool_ok_def kr_inv.exclusive_def new_keyring_def)
  have ok: "kr_inv.pool_ok (k, calls')" by (rule kr_inv.pool_ok_reach [OF start reach])
  then have c: "kr_closed k \<longrightarrow> kr_conn k = None" by (simp add: kr_inv.pool_ok_def)
  have a: "kr_loose k \<subseteq> \<Union> (kr_own ` set calls')"
    using kr_res.accounted_reach [OF reach _ start] by (simp add: kr_res.accounted_def kr_loose_def new_keyring_def)
  have own: "kr_own t = {}" if "kr_rank t = 0" for t using that by (cases t) auto
  have "n \<le> kr_fin.total_rank (new_keyring, calls)"
    using kr_fin.ranked.run_bound [OF assms(1)] start by simp
  also have "\<dots> \<le> 6 * length calls"
    using assms(2) by (induction calls) (auto simp: kr_fin.total_rank_def)
  finally show ?thesis
    using kr_fin.ranked.can_finish [of "(k, calls')"] ok a c own
    by (auto simp: kr_fin.all_ended_def kr_loose_def)
qed

text \<open>Witness: \<open>Close\<close> comes between a callback's request and its \<open>swap\<close>.\<close>

theorem agent_connections_closed_witness:
  "\<exists>k calls. (pool_step kr_act ^^ 7) (new_keyring, [KrCheck, KrClose]) (k, calls) \<and>
     calls = [KrReturned False, KrClosed] \<and> kr_open k = {} \<and> 7 \<le> 6 * length [KrCheck, KrClose]"
proof -
  define k where "k = \<lparr>kr_conn = None, kr_closed = True, kr_open = {} :: nat set, kr_next = 1\<rparr>"
  have "pool_run kr_act [(0, True), (0, True), (0, True), (0, True), (1, True), (0, True), (0, True)]
      (new_keyring, [KrCheck, KrClose]) = Some (k, [KrReturned False, KrClosed])"
    by (simp add: new_keyring_def k_def kr_drop_def)
  from pool_run_steps [OF this]
  have r: "(pool_step kr_act ^^ 7) (new_keyring, [KrCheck, KrClose]) (k, [KrReturned False, KrClosed])"
    by (simp add: numeral_eq_Suc)
  have "kr_fin.all_ended (k, [KrReturned False, KrClosed])" "kr_closed k"
    by (simp_all add: kr_fin.all_ended_def k_def)
  with agent_connections_closed [OF r] have "kr_open k = {}" "7 \<le> 6 * length [KrCheck, KrClose]" by simp_all
  then show ?thesis using r by blast
qed

end
