(* ===== verification/Ssh_Model.thy ===== *)
theory Ssh_Model
  imports Ssh_Auth
begin

text \<open>
  The SSH upstream at run time, \<open>sshDialer\<close> of internal/proxy/upstream.go: one cached client shared
  by all callers, dialled by one of them while the others wait, replaced when its transport is found
  dead, watched by one supervisor that probes it and reconnects with a growing delay, and probed
  once more after a caller's timeout when there is no supervisor.  Every locked section, every
  blocking operation and every \<open>Close\<close> of a client is one action of a goroutine; callers, the
  supervisor, the probes and calls of \<open>Close\<close> interleave freely (theory \<open>Thread_Pool\<close>).  What the
  network does is a choice: a handshake, a channel or a probe succeeds or fails, a transport ends, a
  context is done.
\<close>

section \<open>State\<close>

text \<open>Clients and the channels \<open>dialing\<close> are numbered.  \<open>sc_live\<close> are the clients that have not been
  closed, \<open>sc_suspect\<close> those that failed to answer a probe or whose transport ended (an observation,
  not part of the code), \<open>sc_ticks\<close> the ticks the keepalive ticker still delivers in the run.\<close>

record ssh_core =
  sc_interval :: int
  sc_maxFailures :: nat
  sc_minBackoff :: int
  sc_maxBackoff :: int
  sc_client :: "nat option"
  sc_dialing :: "nat option"
  sc_isClosed :: bool
  sc_revalidating :: "nat option"
  sc_supervised :: bool
  sc_done :: bool
  sc_cancelled :: bool
  sc_agentClosed :: bool
  sc_live :: "nat set"
  sc_nextClient :: nat
  sc_suspect :: "nat set"
  sc_signalled :: "nat set"
  sc_nextDialing :: nat
  sc_ticks :: nat

definition start_ssh :: "'k ssh_dialer \<Rightarrow> nat \<Rightarrow> ssh_core" where
  "start_ssh d ticks =
     \<lparr>sc_interval = sd_keepaliveInterval d, sc_maxFailures = nat (sd_keepaliveMaxFailures d),
      sc_minBackoff = sd_minBackoff d, sc_maxBackoff = sd_maxBackoff d,
      sc_client = None, sc_dialing = None, sc_isClosed = False, sc_revalidating = None, sc_supervised = False,
      sc_done = False, sc_cancelled = False, sc_agentClosed = False, sc_live = {}, sc_nextClient = 0,
      sc_suspect = {}, sc_signalled = {}, sc_nextDialing = 0, sc_ticks = ticks\<rparr>"

text \<open>Who calls \<open>getClient\<close>: the first or the second attempt of a \<open>DialContext\<close>, or the supervisor in
  \<open>reconnect\<close>, with its current delay.\<close>

datatype purpose = PFirst | PRetry | PSuper int

datatype ssh_result = ResConn | ResErr | ResCtx | ResClosed

datatype ssh_stage =
  GLock purpose | GWait purpose nat | GDial purpose nat | GPublish purpose nat "nat option"
| GDrop purpose "nat option" | GStarted purpose nat
| DThrough bool nat | DReval nat | DProbe nat | DDiscard ssh_result nat | DClose ssh_result nat | DReturned ssh_result
| VProbe nat | VDiscard nat | VClose nat | VClear nat
| SSelect nat nat | SProbe nat nat | SDiscard nat | SClose nat | SLoop int | SBackoff int
| CLock | CSignal "nat option" | CCancel "nat option" | CKeyring "nat option" | CClient nat | Ended

text \<open>A goroutine: whether its caller's context is done, and its stage.\<close>

type_synonym ssh_thread = "bool \<times> ssh_stage"

datatype choice = ChOk | ChErr | ChCtx | ChDone | ChDead | ChTick | ChTimeout | ChCancel

section \<open>Operations\<close>

definition drop_client :: "nat \<Rightarrow> ssh_core \<Rightarrow> ssh_core" where
  "drop_client c s = s\<lparr>sc_live := sc_live s - {c}\<rparr>"

definition suspect :: "nat \<Rightarrow> ssh_core \<Rightarrow> ssh_core" where
  "suspect c s = s\<lparr>sc_suspect := insert c (sc_suspect s)\<rparr>"

text \<open>The locked section of \<open>discard\<close>; the close of the client is the action after it.\<close>

definition discard_locked :: "nat \<Rightarrow> ssh_core \<Rightarrow> ssh_core" where
  "discard_locked c s = (if sc_client s = Some c then s\<lparr>sc_client := None\<rparr> else s)"

definition is_caller :: "purpose \<Rightarrow> bool" where
  "is_caller p = (case p of PSuper b \<Rightarrow> False | _ \<Rightarrow> True)"

definition got_client :: "purpose \<Rightarrow> nat \<Rightarrow> ssh_stage" where
  "got_client p c = (case p of PFirst \<Rightarrow> DThrough False c | PRetry \<Rightarrow> DThrough True c | PSuper b \<Rightarrow> SSelect c 0)"

definition got_error :: "purpose \<Rightarrow> ssh_result \<Rightarrow> ssh_stage" where
  "got_error p r = (case p of PSuper b \<Rightarrow> SBackoff b | _ \<Rightarrow> DReturned r)"

text \<open>\<open>getClient\<close>: the head of its loop, the wait for another caller's handshake, the end of the own
  handshake, and the start of the supervisor.\<close>

definition getClient_lock :: "purpose \<Rightarrow> ssh_core \<Rightarrow> ssh_stage \<times> ssh_core" where
  "getClient_lock p s =
     (if sc_isClosed s then (got_error p ResClosed, s)
      else (case sc_client s of
              Some c \<Rightarrow> (got_client p c, s)
            | None \<Rightarrow> (case sc_dialing s of
                Some d \<Rightarrow> (GWait p d, s)
              | None \<Rightarrow> (GDial p (sc_nextDialing s),
                  s\<lparr>sc_dialing := Some (sc_nextDialing s), sc_nextDialing := Suc (sc_nextDialing s)\<rparr>))))"

definition getClient_wait :: "choice \<Rightarrow> bool \<Rightarrow> purpose \<Rightarrow> nat \<Rightarrow> ssh_core \<Rightarrow> ssh_stage option" where
  "getClient_wait ch ctx p d s =
     (case ch of
        ChCtx \<Rightarrow> if is_caller p \<and> ctx then Some (got_error p ResCtx) else None
      | ChDone \<Rightarrow> if sc_done s then Some (got_error p ResClosed) else None
      | ChOk \<Rightarrow> if d \<in> sc_signalled s then Some (GLock p) else None
      | _ \<Rightarrow> None)"

definition getClient_publish :: "purpose \<Rightarrow> nat \<Rightarrow> nat option \<Rightarrow> ssh_core \<Rightarrow> ssh_stage \<times> ssh_core" where
  "getClient_publish p d res s =
     (let s1 = (if res \<noteq> None \<and> \<not> sc_isClosed s then s\<lparr>sc_client := res\<rparr> else s);
          s2 = s1\<lparr>sc_dialing := None, sc_signalled := insert d (sc_signalled s1)\<rparr> in
      if sc_isClosed s then (GDrop p res, s2)
      else (case res of None \<Rightarrow> (got_error p ResErr, s2) | Some c \<Rightarrow> (GStarted p c, s2)))"

definition getClient_started :: "purpose \<Rightarrow> nat \<Rightarrow> ssh_core \<Rightarrow> ssh_stage \<times> ssh_stage list \<times> ssh_core" where
  "getClient_started p c s =
     (if sc_interval s > 0 \<and> \<not> sc_supervised s
      then (got_client p c, [SSelect c 0], s\<lparr>sc_supervised := True\<rparr>)
      else (got_client p c, [], s))"

text \<open>\<open>DialContext\<close> after \<open>dialThrough\<close> has failed: the caller's context is looked at first, then the
  transport is probed.\<close>

definition dial_failed :: "bool \<Rightarrow> nat \<Rightarrow> ssh_core \<Rightarrow> ssh_stage" where
  "dial_failed ctx c s = (if ctx then (if sc_interval s < 0 then DReval c else DReturned ResCtx) else DProbe c)"

definition DialContext_through :: "choice \<Rightarrow> bool \<Rightarrow> bool \<Rightarrow> nat \<Rightarrow> ssh_core \<Rightarrow> ssh_stage option" where
  "DialContext_through ch ctx again c s =
     (case ch of
        ChOk \<Rightarrow> Some (DReturned ResConn)
      | ChErr \<Rightarrow> Some (if again then DReturned ResErr else dial_failed ctx c s)
      | ChCtx \<Rightarrow> if ctx then Some (if again then DReturned ResCtx else dial_failed ctx c s) else None
      | _ \<Rightarrow> None)"

definition revalidateAfterTimeout :: "nat \<Rightarrow> ssh_core \<Rightarrow> ssh_stage list \<times> ssh_core" where
  "revalidateAfterTimeout c s =
     (if sc_isClosed s \<or> sc_client s \<noteq> Some c \<or> sc_revalidating s = Some c then ([], s)
      else ([VProbe c], s\<lparr>sc_revalidating := Some c\<rparr>))"

definition DialContext_probe :: "choice \<Rightarrow> bool \<Rightarrow> nat \<Rightarrow> ssh_core \<Rightarrow> (ssh_stage \<times> ssh_core) option" where
  "DialContext_probe ch ctx c s =
     (case ch of
        ChOk \<Rightarrow> Some (DReturned ResErr, s)
      | ChErr \<Rightarrow> Some (DDiscard (if ctx then ResCtx else ResErr) c, suspect c s)
      | ChCtx \<Rightarrow> if ctx then Some (DDiscard ResCtx c, suspect c s) else None
      | _ \<Rightarrow> None)"

text \<open>\<open>superviseClient\<close>: its select, and what follows a probe.\<close>

definition supervise_select :: "choice \<Rightarrow> nat \<Rightarrow> nat \<Rightarrow> ssh_core \<Rightarrow> (ssh_stage \<times> ssh_core) option" where
  "supervise_select ch c failures s =
     (case ch of
        ChDone \<Rightarrow> if sc_done s then Some (Ended, s) else None
      | ChDead \<Rightarrow> Some (SDiscard c, suspect c s)
      | ChTick \<Rightarrow> if sc_ticks s > 0 then Some (SProbe c failures, s\<lparr>sc_ticks := sc_ticks s - 1\<rparr>) else None
      | _ \<Rightarrow> None)"

definition supervise_probe :: "choice \<Rightarrow> nat \<Rightarrow> nat \<Rightarrow> ssh_core \<Rightarrow> (ssh_stage \<times> ssh_core) option" where
  "supervise_probe ch c failures s =
     (let failed = (\<lambda>f. if f < sc_maxFailures s then (SSelect c f, s) else (SDiscard c, suspect c s)) in
      case ch of
        ChOk \<Rightarrow> Some (SSelect c 0, s)
      | ChErr \<Rightarrow> Some (failed (Suc failures))
      | ChTimeout \<Rightarrow> Some (failed (sc_maxFailures s))
      | _ \<Rightarrow> None)"

text \<open>\<open>reconnect\<close>: the check before an attempt, and the wait after a failed one.\<close>

definition reconnect_try :: "int \<Rightarrow> ssh_core \<Rightarrow> ssh_stage" where
  "reconnect_try b s = (if sc_done s then Ended else GLock (PSuper b))"

declare reconnect_try_def [simp]

definition next_backoff :: "ssh_core \<Rightarrow> int \<Rightarrow> int" where
  "next_backoff s b = (if b * 2 > sc_maxBackoff s then sc_maxBackoff s else b * 2)"

definition reconnect_wait :: "choice \<Rightarrow> int \<Rightarrow> ssh_core \<Rightarrow> ssh_stage option" where
  "reconnect_wait ch b s =
     (case ch of
        ChDone \<Rightarrow> if sc_done s then Some Ended else None
      | ChTimeout \<Rightarrow> Some (SLoop (next_backoff s b))
      | _ \<Rightarrow> None)"

definition Close_locked :: "ssh_core \<Rightarrow> ssh_stage \<times> ssh_core" where
  "Close_locked s =
     (if sc_isClosed s then CKeyring (sc_client s) else CSignal (sc_client s),
      s\<lparr>sc_client := None, sc_isClosed := True\<rparr>)"

text \<open>One action of a goroutine.  \<open>ChCancel\<close> is the end of its caller's context.\<close>

definition goon :: "bool \<Rightarrow> ssh_core \<Rightarrow> ssh_stage \<Rightarrow> (ssh_thread \<times> ssh_thread list \<times> ssh_core) option" where
  "goon ctx s st = Some ((ctx, st), [], s)"

definition goon2 :: "bool \<Rightarrow> ssh_stage \<times> ssh_core \<Rightarrow> (ssh_thread \<times> ssh_thread list \<times> ssh_core) option" where
  "goon2 ctx r = Some ((ctx, fst r), [], snd r)"

fun stage_act :: "choice \<Rightarrow> bool \<Rightarrow> ssh_stage \<Rightarrow> ssh_core \<Rightarrow> (ssh_thread \<times> ssh_thread list \<times> ssh_core) option" where
  "stage_act ch ctx (GLock p) s = goon2 ctx (getClient_lock p s)"
| "stage_act ch ctx (GWait p d) s = Option.bind (getClient_wait ch ctx p d s) (goon ctx s)"
| "stage_act ch ctx (GDial p d) s =
     (case ch of
        ChOk \<Rightarrow> goon ctx (s\<lparr>sc_live := insert (sc_nextClient s) (sc_live s), sc_nextClient := Suc (sc_nextClient s)\<rparr>)
          (GPublish p d (Some (sc_nextClient s)))
      | ChErr \<Rightarrow> goon ctx s (GPublish p d None)
      | _ \<Rightarrow> None)"
| "stage_act ch ctx (GPublish p d res) s = goon2 ctx (getClient_publish p d res s)"
| "stage_act ch ctx (GDrop p res) s =
     goon ctx (case res of Some c \<Rightarrow> drop_client c s | None \<Rightarrow> s) (got_error p ResClosed)"
| "stage_act ch ctx (GStarted p c) s =
     (case getClient_started p c s of (st, sp, s') \<Rightarrow> Some ((ctx, st), map (Pair False) sp, s'))"
| "stage_act ch ctx (DThrough again c) s = Option.bind (DialContext_through ch ctx again c s) (goon ctx s)"
| "stage_act ch ctx (DReval c) s =
     (case revalidateAfterTimeout c s of (sp, s') \<Rightarrow> Some ((ctx, DReturned ResCtx), map (Pair False) sp, s'))"
| "stage_act ch ctx (DProbe c) s = Option.bind (DialContext_probe ch ctx c s) (goon2 ctx)"
| "stage_act ch ctx (DDiscard r c) s = goon ctx (discard_locked c s) (DClose r c)"
| "stage_act ch ctx (DClose r c) s =
     goon ctx (drop_client c s) (if r = ResCtx then DReturned ResCtx else GLock PRetry)"
| "stage_act ch ctx (DReturned r) s = None"
| "stage_act ch ctx (VProbe c) s =
     (case ch of
        ChOk \<Rightarrow> goon ctx s (VClear c)
      | ChErr \<Rightarrow> goon ctx (suspect c s) (VDiscard c)
      | _ \<Rightarrow> None)"
| "stage_act ch ctx (VDiscard c) s = goon ctx (discard_locked c s) (VClose c)"
| "stage_act ch ctx (VClose c) s = goon ctx (drop_client c s) (VClear c)"
| "stage_act ch ctx (VClear c) s =
     goon ctx (if sc_revalidating s = Some c then s\<lparr>sc_revalidating := None\<rparr> else s) Ended"
| "stage_act ch ctx (SSelect c f) s = Option.bind (supervise_select ch c f s) (goon2 ctx)"
| "stage_act ch ctx (SProbe c f) s = Option.bind (supervise_probe ch c f s) (goon2 ctx)"
| "stage_act ch ctx (SDiscard c) s = goon ctx (discard_locked c s) (SClose c)"
| "stage_act ch ctx (SClose c) s = goon ctx (drop_client c s) (SLoop (sc_minBackoff s))"
| "stage_act ch ctx (SLoop b) s = goon ctx s (reconnect_try b s)"
| "stage_act ch ctx (SBackoff b) s = Option.bind (reconnect_wait ch b s) (goon ctx s)"
| "stage_act ch ctx CLock s = goon2 ctx (Close_locked s)"
| "stage_act ch ctx (CSignal cl) s = goon ctx (s\<lparr>sc_done := True\<rparr>) (CCancel cl)"
| "stage_act ch ctx (CCancel cl) s = goon ctx (s\<lparr>sc_cancelled := True\<rparr>) (CKeyring cl)"
| "stage_act ch ctx (CKeyring cl) s =
     goon ctx (s\<lparr>sc_agentClosed := True\<rparr>) (case cl of Some c \<Rightarrow> CClient c | None \<Rightarrow> Ended)"
| "stage_act ch ctx (CClient c) s = goon ctx (drop_client c s) Ended"
| "stage_act ch ctx Ended s = None"

definition ssh_act :: "choice \<Rightarrow> ssh_thread \<Rightarrow> ssh_core \<Rightarrow> (ssh_thread \<times> ssh_thread list \<times> ssh_core) option" where
  "ssh_act ch t s =
     (if ch = ChCancel then (if fst t then None else Some ((True, snd t), [], s))
      else stage_act ch (fst t) (snd t) s)"

section \<open>Invariant\<close>

text \<open>Places that only one goroutine can be at: the handshake, the supervision, the close of \<open>done\<close>,
  and for each client its revalidation (a client not published yet counts as well).\<close>

datatype token = THandshake | TSupervisor | TSignal | TWatch nat

definition purpose_claims :: "purpose \<Rightarrow> token set" where
  "purpose_claims p = (if is_caller p then {} else {TSupervisor})"

fun stage_claims :: "ssh_stage \<Rightarrow> token set" where
  "stage_claims (GLock p) = purpose_claims p"
| "stage_claims (GWait p d) = purpose_claims p"
| "stage_claims (GDial p d) = insert THandshake (purpose_claims p)"
| "stage_claims (GPublish p d res) = insert THandshake (purpose_claims p \<union> TWatch ` set_option res)"
| "stage_claims (GDrop p res) = purpose_claims p"
| "stage_claims (GStarted p c) = purpose_claims p"
| "stage_claims (VProbe c) = {TWatch c}"
| "stage_claims (VDiscard c) = {TWatch c}"
| "stage_claims (VClose c) = {TWatch c}"
| "stage_claims (VClear c) = {TWatch c}"
| "stage_claims (SSelect c f) = {TSupervisor}"
| "stage_claims (SProbe c f) = {TSupervisor}"
| "stage_claims (SDiscard c) = {TSupervisor}"
| "stage_claims (SClose c) = {TSupervisor}"
| "stage_claims (SLoop b) = {TSupervisor}"
| "stage_claims (SBackoff b) = {TSupervisor}"
| "stage_claims (CSignal cl) = {TSignal}"
| "stage_claims _ = {}"

definition ssh_good :: "ssh_core \<Rightarrow> bool" where
  "ssh_good s \<longleftrightarrow>
     (sc_isClosed s \<longrightarrow> sc_client s = None) \<and> (sc_dialing s \<noteq> None \<longrightarrow> sc_client s = None) \<and>
     (sc_done s \<longrightarrow> sc_isClosed s) \<and>
     (\<forall>d < sc_nextDialing s. sc_dialing s = Some d \<or> d \<in> sc_signalled s) \<and>
     (\<forall>d\<in>set_option (sc_dialing s). d < sc_nextDialing s) \<and>
     (\<forall>c\<in>set_option (sc_client s). c < sc_nextClient s) \<and>
     (\<forall>c < sc_nextClient s. c \<in> sc_live s \<or> c \<in> sc_suspect s \<or> sc_isClosed s) \<and>
     0 < sc_minBackoff s \<and> sc_minBackoff s \<le> sc_maxBackoff s"

definition backoff_fits :: "ssh_core \<Rightarrow> int \<Rightarrow> bool" where
  "backoff_fits s b \<longleftrightarrow> sc_minBackoff s \<le> b \<and> b \<le> sc_maxBackoff s"

definition purpose_fits :: "ssh_core \<Rightarrow> purpose \<Rightarrow> bool" where
  "purpose_fits s p \<longleftrightarrow> (case p of PSuper b \<Rightarrow> sc_supervised s \<and> backoff_fits s b | _ \<Rightarrow> True)"

definition watch_fits :: "ssh_core \<Rightarrow> nat \<Rightarrow> bool" where
  "watch_fits s c \<longleftrightarrow> c < sc_nextClient s \<and> (sc_revalidating s = Some c \<or> sc_client s \<noteq> Some c)"

fun stage_fits :: "ssh_core \<Rightarrow> ssh_stage \<Rightarrow> bool" where
  "stage_fits s (GLock p) = purpose_fits s p"
| "stage_fits s (GWait p d) = (purpose_fits s p \<and> d < sc_nextDialing s)"
| "stage_fits s (GDial p d) = (purpose_fits s p \<and> sc_dialing s = Some d)"
| "stage_fits s (GPublish p d res) = (purpose_fits s p \<and> sc_dialing s = Some d \<and> (\<forall>c\<in>set_option res. c < sc_nextClient s))"
| "stage_fits s (GDrop p res) = (purpose_fits s p \<and> sc_isClosed s)"
| "stage_fits s (GStarted p c) = (purpose_fits s p \<and> c < sc_nextClient s)"
| "stage_fits s (DThrough again c) = (c < sc_nextClient s)"
| "stage_fits s (DReval c) = (c < sc_nextClient s)"
| "stage_fits s (DProbe c) = (c < sc_nextClient s)"
| "stage_fits s (DDiscard r c) = (c \<in> sc_suspect s)"
| "stage_fits s (DClose r c) = (c \<in> sc_suspect s)"
| "stage_fits s (VProbe c) = watch_fits s c"
| "stage_fits s (VDiscard c) = (watch_fits s c \<and> c \<in> sc_suspect s)"
| "stage_fits s (VClose c) = (watch_fits s c \<and> c \<in> sc_suspect s)"
| "stage_fits s (VClear c) = watch_fits s c"
| "stage_fits s (SSelect c f) = sc_supervised s"
| "stage_fits s (SProbe c f) = sc_supervised s"
| "stage_fits s (SDiscard c) = (sc_supervised s \<and> c \<in> sc_suspect s)"
| "stage_fits s (SClose c) = (sc_supervised s \<and> c \<in> sc_suspect s)"
| "stage_fits s (SLoop b) = (sc_supervised s \<and> backoff_fits s b)"
| "stage_fits s (SBackoff b) = (sc_supervised s \<and> backoff_fits s b)"
| "stage_fits s (CSignal cl) = (sc_isClosed s \<and> \<not> sc_done s)"
| "stage_fits s (CCancel cl) = sc_done s"
| "stage_fits s (CKeyring cl) = sc_isClosed s"
| "stage_fits s (CClient c) = sc_isClosed s"
| "stage_fits s _ = True"

definition thread_claims :: "ssh_thread \<Rightarrow> token set" where
  "thread_claims t = stage_claims (snd t)"

definition thread_fits :: "ssh_core \<Rightarrow> ssh_thread \<Rightarrow> bool" where
  "thread_fits s t \<longleftrightarrow> stage_fits s (snd t)"

lemmas ssh_act_defs = goon_def goon2_def getClient_lock_def getClient_wait_def getClient_publish_def getClient_started_def
  dial_failed_def DialContext_through_def revalidateAfterTimeout_def DialContext_probe_def supervise_select_def
  supervise_probe_def reconnect_wait_def Close_locked_def drop_client_def suspect_def discard_locked_def
  got_client_def got_error_def is_caller_def Let_def

lemmas ssh_splits = if_splits option.splits purpose.splits choice.splits prod.splits

lemma ssh_actE:
  assumes "ssh_act ch t s = Some (t', sp, s')"
  obtains (cancel) "ch = ChCancel" "t' = (True, snd t)" "sp = []" "s' = s"
  | (act) st where "stage_act ch (fst t) (snd t) s = Some ((fst t, st), sp, s')" "t' = (fst t, st)"
proof (cases "ch = ChCancel")
  case True
  then show ?thesis using assms cancel by (auto simp: ssh_act_def split: if_splits)
next
  case False
  then have a: "stage_act ch (fst t) (snd t) s = Some (t', sp, s')" using assms by (simp add: ssh_act_def)
  moreover
  have "fst t' = fst t" using a by (cases "snd t") (auto simp: ssh_act_defs bind_eq_Some_conv split: ssh_splits)
  then have "t' = (fst t, snd t')" by (simp add: prod_eq_iff)
  ultimately show ?thesis using act by metis
qed

text \<open>The changes an action can make to the shared state, with the tokens its goroutine holds.\<close>

inductive effect :: "token set \<Rightarrow> ssh_core \<Rightarrow> ssh_core \<Rightarrow> bool" for T s where
  e_none: "effect T s s"
| e_suspect: "effect T s (suspect c s)"
| e_drop: "c \<in> sc_suspect s \<or> sc_isClosed s \<Longrightarrow> effect T s (drop_client c s)"
| e_discard: "effect T s (s\<lparr>sc_client := None\<rparr>)"
| e_begin: "sc_client s = None \<Longrightarrow> sc_dialing s = None \<Longrightarrow>
    effect T s (s\<lparr>sc_dialing := Some (sc_nextDialing s), sc_nextDialing := Suc (sc_nextDialing s)\<rparr>)"
| e_dialled: "effect T s (s\<lparr>sc_live := insert (sc_nextClient s) (sc_live s), sc_nextClient := Suc (sc_nextClient s)\<rparr>)"
| e_publish: "THandshake \<in> T \<Longrightarrow> TWatch c \<in> T \<Longrightarrow> \<not> sc_isClosed s \<Longrightarrow> c < sc_nextClient s \<Longrightarrow> sc_dialing s = Some d \<Longrightarrow>
    effect T s (s\<lparr>sc_client := Some c, sc_dialing := None, sc_signalled := insert d (sc_signalled s)\<rparr>)"
| e_failed: "THandshake \<in> T \<Longrightarrow> sc_dialing s = Some d \<Longrightarrow>
    effect T s (s\<lparr>sc_dialing := None, sc_signalled := insert d (sc_signalled s)\<rparr>)"
| e_supervised: "effect T s (s\<lparr>sc_supervised := True\<rparr>)"
| e_revalidate: "sc_client s = Some c \<Longrightarrow> effect T s (s\<lparr>sc_revalidating := Some c\<rparr>)"
| e_revalidated: "TWatch c \<in> T \<Longrightarrow> sc_revalidating s = Some c \<Longrightarrow> effect T s (s\<lparr>sc_revalidating := None\<rparr>)"
| e_tick: "effect T s (s\<lparr>sc_ticks := n\<rparr>)"
| e_close: "effect T s (s\<lparr>sc_client := None, sc_isClosed := True\<rparr>)"
| e_done: "TSignal \<in> T \<Longrightarrow> sc_isClosed s \<Longrightarrow> effect T s (s\<lparr>sc_done := True\<rparr>)"
| e_cancel: "effect T s (s\<lparr>sc_cancelled := True\<rparr>)"
| e_agent: "effect T s (s\<lparr>sc_agentClosed := True\<rparr>)"

lemma effect_good: "effect T s s' \<Longrightarrow> ssh_good s \<Longrightarrow> ssh_good s'"
  by (erule effect.cases) (auto simp: ssh_good_def suspect_def drop_client_def less_Suc_eq)

lemma effect_discard: "effect T s (discard_locked c s)"
  by (simp add: discard_locked_def e_none e_discard)

lemma stage_effect:
  assumes "stage_act ch ctx st s = Some (t', sp, s')" "stage_fits s st"
  shows "effect (stage_claims st) s s'"
proof (cases st)
  case (GLock p)
  then show ?thesis using assms by (auto simp: goon2_def getClient_lock_def intro: effect.intros split: if_splits option.splits)
next
  case (GPublish p d res)
  show ?thesis
  proof (cases "res = None \<or> sc_isClosed s")
    case True
    then show ?thesis using assms GPublish
      by (auto simp: goon2_def getClient_publish_def Let_def intro!: e_failed split: option.splits)
  next
    case False
    then show ?thesis using assms GPublish
      by (auto simp: goon2_def getClient_publish_def Let_def intro!: e_publish)
  qed
next
  case (GDrop p res)
  then show ?thesis using assms by (auto simp: goon_def intro: effect.intros split: option.splits)
next
  case (GDial p d)
  then show ?thesis using assms by (auto simp: goon_def intro: effect.intros split: choice.splits)
next
  case (GStarted p c)
  then show ?thesis using assms by (auto simp: getClient_started_def intro: effect.intros split: if_splits)
next
  case (DReval c)
  then show ?thesis using assms by (auto simp: revalidateAfterTimeout_def intro: effect.intros split: if_splits)
next
  case (DProbe c)
  then show ?thesis using assms
    by (auto simp: bind_eq_Some_conv goon2_def DialContext_probe_def intro: effect.intros split: choice.splits if_splits)
next
  case (VProbe c)
  then show ?thesis using assms by (auto simp: goon_def intro: effect.intros split: choice.splits)
next
  case (VClear c)
  then show ?thesis using assms by (auto simp: goon_def intro: effect.intros split: if_splits)
next
  case (SSelect c f)
  then show ?thesis using assms
    by (auto simp: bind_eq_Some_conv goon2_def supervise_select_def intro: effect.intros split: choice.splits if_splits)
next
  case (SProbe c f)
  then show ?thesis using assms
    by (auto simp: bind_eq_Some_conv goon2_def supervise_probe_def Let_def intro: effect.intros split: choice.splits if_splits)
qed (use assms in \<open>auto simp: bind_eq_Some_conv goon_def goon2_def Close_locked_def effect_discard intro: effect.intros\<close>)

lemma effect_fits:
  assumes "effect T s s'" "ssh_good s" "stage_fits s u" "T \<inter> stage_claims u = {}"
  shows "stage_fits s' u"
  using assms(1)
proof cases
  case (e_publish c d)
  then show ?thesis using assms(2-4)
    by (cases u) (auto simp: purpose_fits_def backoff_fits_def watch_fits_def split: purpose.splits)
next
  case (e_failed d)
  then show ?thesis using assms(2-4)
    by (cases u) (auto simp: purpose_fits_def backoff_fits_def watch_fits_def split: purpose.splits)
next
  case (e_revalidate c)
  then show ?thesis using assms(2-4)
    by (cases u) (auto simp: purpose_fits_def backoff_fits_def watch_fits_def split: purpose.splits)
next
  case (e_revalidated c)
  then show ?thesis using assms(2-4)
    by (cases u) (auto simp: purpose_fits_def backoff_fits_def watch_fits_def split: purpose.splits)
next
  case e_begin
  then show ?thesis using assms(2-4)
    by (cases u) (auto simp: purpose_fits_def backoff_fits_def watch_fits_def split: purpose.splits)
qed (use assms(3,4) in \<open>(cases u; auto simp: purpose_fits_def backoff_fits_def watch_fits_def suspect_def drop_client_def
      less_SucI split: purpose.splits)+\<close>)

lemma got_fits:
  "purpose_fits s p \<Longrightarrow> stage_fits s (got_error p r)"
  "purpose_fits s p \<Longrightarrow> c < sc_nextClient s \<Longrightarrow> stage_fits s (got_client p c)"
  by (auto simp: purpose_fits_def got_error_def got_client_def split: purpose.splits)

lemma purpose_fits_frame [simp]:
  "purpose_fits (suspect c s) p = purpose_fits s p"
  "purpose_fits (drop_client c s) p = purpose_fits s p"
  "purpose_fits (s\<lparr>sc_client := x\<rparr>) p = purpose_fits s p"
  "purpose_fits (s\<lparr>sc_dialing := y\<rparr>) p = purpose_fits s p"
  "purpose_fits (s\<lparr>sc_signalled := z\<rparr>) p = purpose_fits s p"
  "purpose_fits (s\<lparr>sc_nextDialing := n\<rparr>) p = purpose_fits s p"
  "purpose_fits (s\<lparr>sc_live := l\<rparr>) p = purpose_fits s p"
  "purpose_fits (s\<lparr>sc_nextClient := n\<rparr>) p = purpose_fits s p"
  by (auto simp: purpose_fits_def backoff_fits_def suspect_def drop_client_def split: purpose.splits)

lemma purpose_supervised: "purpose_fits s p \<Longrightarrow> purpose_fits (s\<lparr>sc_supervised := True\<rparr>) p"
  by (auto simp: purpose_fits_def backoff_fits_def split: purpose.splits)

lemma watch_fits_frame [simp]:
  "watch_fits (suspect c s) d = watch_fits s d"
  "watch_fits (drop_client c s) d = watch_fits s d"
  "watch_fits s d \<Longrightarrow> watch_fits (discard_locked c s) d"
  by (auto simp: watch_fits_def suspect_def drop_client_def discard_locked_def)

lemma suspect_sel [simp]:
  "sc_suspect (suspect c s) = insert c (sc_suspect s)" "sc_supervised (suspect c s) = sc_supervised s"
  "sc_suspect (drop_client c s) = sc_suspect s" "sc_supervised (drop_client c s) = sc_supervised s"
  "sc_suspect (discard_locked c s) = sc_suspect s" "sc_supervised (discard_locked c s) = sc_supervised s"
  by (simp_all add: suspect_def drop_client_def discard_locked_def)

lemma backoff_fits_frame [simp]:
  "backoff_fits (drop_client c s) b = backoff_fits s b"
  by (simp add: backoff_fits_def drop_client_def)

lemma backoff_next: "ssh_good s \<Longrightarrow> backoff_fits s b \<Longrightarrow> backoff_fits s (next_backoff s b)"
  by (auto simp: ssh_good_def backoff_fits_def next_backoff_def)

lemma backoff_min: "ssh_good s \<Longrightarrow> backoff_fits s (sc_minBackoff s)"
  by (simp add: ssh_good_def backoff_fits_def)

lemma stage_next:
  assumes "stage_act ch ctx st s = Some (t', sp, s')" "ssh_good s" "stage_fits s st"
  shows "stage_fits s' (snd t') \<and> (\<forall>u\<in>set sp. stage_fits s' (snd u))"
proof (cases st)
  case (GLock p)
  then show ?thesis using assms
    by (auto simp: goon2_def getClient_lock_def got_fits ssh_good_def split: if_splits option.splits)
next
  case (GWait p d)
  then show ?thesis using assms
    by (auto simp: bind_eq_Some_conv goon_def getClient_wait_def got_fits split: choice.splits if_splits)
next
  case (GDial p d)
  then show ?thesis using assms by (auto simp: goon_def split: choice.splits)
next
  case (GPublish p d res)
  then show ?thesis using assms
    by (auto simp: goon2_def getClient_publish_def Let_def got_fits split: option.splits if_splits)
next
  case (GDrop p res)
  then show ?thesis using assms by (auto simp: goon_def got_fits split: option.splits)
next
  case (GStarted p c)
  then show ?thesis using assms
    by (auto simp: getClient_started_def got_fits purpose_supervised split: if_splits)
next
  case (DThrough again c)
  then show ?thesis using assms
    by (auto simp: bind_eq_Some_conv goon_def DialContext_through_def dial_failed_def split: choice.splits if_splits)
next
  case (DReval c)
  then show ?thesis using assms by (auto simp: revalidateAfterTimeout_def watch_fits_def split: if_splits)
next
  case (DProbe c)
  then show ?thesis using assms
    by (auto simp: bind_eq_Some_conv goon2_def DialContext_probe_def split: choice.splits if_splits)
next
  case (DClose r c)
  then show ?thesis using assms by (auto simp: goon_def purpose_fits_def)
next
  case (VProbe c)
  then show ?thesis using assms by (auto simp: goon_def split: choice.splits)
next
  case (SSelect c f)
  then show ?thesis using assms
    by (auto simp: bind_eq_Some_conv goon2_def supervise_select_def split: choice.splits if_splits)
next
  case (SProbe c f)
  then show ?thesis using assms
    by (auto simp: bind_eq_Some_conv goon2_def supervise_probe_def Let_def split: choice.splits if_splits)
next
  case (SLoop b)
  then show ?thesis using assms by (auto simp: goon_def purpose_fits_def)
next
  case (SBackoff b)
  then show ?thesis using assms
    by (auto simp: bind_eq_Some_conv goon_def reconnect_wait_def backoff_next split: choice.splits if_splits)
next
  case (SClose c)
  then show ?thesis using assms by (auto simp: goon_def backoff_min)
next
  case CLock
  then show ?thesis using assms by (auto simp: goon2_def Close_locked_def ssh_good_def)
next
  case (CCancel cl)
  then show ?thesis using assms by (auto simp: goon_def ssh_good_def)
next
  case (CKeyring cl)
  then show ?thesis using assms by (auto simp: goon_def split: option.splits)
qed (use assms in \<open>auto simp: goon_def goon2_def\<close>)

text \<open>Tokens come into being only where nobody holds them.\<close>

definition fresh :: "ssh_core \<Rightarrow> token \<Rightarrow> bool" where
  "fresh s k \<longleftrightarrow>
     (case k of
        THandshake \<Rightarrow> sc_dialing s = None
      | TSupervisor \<Rightarrow> \<not> sc_supervised s
      | TSignal \<Rightarrow> \<not> sc_isClosed s
      | TWatch c \<Rightarrow> sc_nextClient s \<le> c \<or> sc_client s = Some c \<and> sc_revalidating s \<noteq> Some c)"

lemma claims_not_fresh:
  assumes "ssh_good s" "stage_fits s u" "k \<in> stage_claims u"
  shows "\<not> fresh s k"
  using assms
  by (cases u) (auto simp: fresh_def purpose_claims_def purpose_fits_def watch_fits_def is_caller_def ssh_good_def
      split: token.splits purpose.splits if_splits)

lemma got_claims [simp]:
  "stage_claims (got_error p r) = purpose_claims p"
  "stage_claims (got_client p c) = purpose_claims p"
  by (auto simp: got_error_def got_client_def purpose_claims_def is_caller_def split: purpose.splits)

lemma stage_tokens:
  assumes "stage_act ch ctx st s = Some (t', sp, s')" "k \<in> stage_claims (snd t') \<or> (\<exists>v\<in>set sp. k \<in> stage_claims (snd v))"
  shows "k \<in> stage_claims st \<or> fresh s k"
proof (cases st)
  case (GLock p)
  then show ?thesis using assms
    by (auto simp: goon2_def getClient_lock_def fresh_def split: if_splits option.splits)
next
  case (GWait p d)
  then show ?thesis using assms
    by (auto simp: bind_eq_Some_conv goon_def getClient_wait_def split: choice.splits if_splits)
next
  case (GDial p d)
  then show ?thesis using assms by (auto simp: goon_def fresh_def split: choice.splits)
next
  case (GPublish p d res)
  then show ?thesis using assms by (auto simp: goon2_def getClient_publish_def Let_def split: option.splits if_splits)
next
  case (GStarted p c)
  then show ?thesis using assms by (auto simp: getClient_started_def fresh_def split: if_splits)
next
  case (DThrough again c)
  then show ?thesis using assms
    by (auto simp: bind_eq_Some_conv goon_def DialContext_through_def dial_failed_def split: choice.splits if_splits)
next
  case (DReval c)
  then show ?thesis using assms by (auto simp: revalidateAfterTimeout_def fresh_def split: if_splits)
next
  case (DProbe c)
  then show ?thesis using assms
    by (auto simp: bind_eq_Some_conv goon2_def DialContext_probe_def split: choice.splits if_splits)
next
  case (DClose r c)
  then show ?thesis using assms by (auto simp: goon_def purpose_claims_def is_caller_def split: if_splits)
next
  case (VProbe c)
  then show ?thesis using assms by (auto simp: goon_def split: choice.splits)
next
  case (SSelect c f)
  then show ?thesis using assms
    by (auto simp: bind_eq_Some_conv goon2_def supervise_select_def split: choice.splits if_splits)
next
  case (SProbe c f)
  then show ?thesis using assms
    by (auto simp: bind_eq_Some_conv goon2_def supervise_probe_def Let_def split: choice.splits if_splits)
next
  case (SLoop b)
  then show ?thesis using assms by (auto simp: goon_def purpose_claims_def is_caller_def split: if_splits)
next
  case (SBackoff b)
  then show ?thesis using assms
    by (auto simp: bind_eq_Some_conv goon_def reconnect_wait_def split: choice.splits if_splits)
next
  case CLock
  then show ?thesis using assms by (auto simp: goon2_def Close_locked_def fresh_def split: if_splits)
next
  case (CKeyring cl)
  then show ?thesis using assms by (auto simp: goon_def split: option.splits)
qed (use assms in \<open>auto simp: goon_def goon2_def\<close>)

lemma stage_spawns:
  assumes "stage_act ch ctx st s = Some (t', sp, s')" "ssh_good s" "stage_fits s st"
  shows "sp = [] \<or> (\<exists>v. sp = [v] \<and> stage_claims (snd t') \<inter> stage_claims (snd v) = {})"
proof (cases st)
  case (GStarted p c)
  then show ?thesis using assms
    by (auto simp: getClient_started_def purpose_claims_def purpose_fits_def is_caller_def split: if_splits purpose.splits)
next
  case (DReval c)
  then show ?thesis using assms by (auto simp: revalidateAfterTimeout_def split: if_splits)
qed (use assms in \<open>auto simp: goon_def goon2_def bind_eq_Some_conv split: choice.splits\<close>)

interpretation ssh_inv: pool_invariant ssh_act ssh_good thread_fits thread_claims
proof unfold_locales
  fix ch t s t' sp s'
  assume a: "ssh_act ch t s = Some (t', sp, s')" "ssh_good s" "thread_fits s t"
  from a(1) show "ssh_good s'"
  proof (cases rule: ssh_actE)
    case (act st)
    then show ?thesis using effect_good [OF stage_effect [OF act(1)]] a(2,3) by (simp add: thread_fits_def)
  qed (use a(2) in simp)
  from a(1) show "thread_fits s' t' \<and> (\<forall>u\<in>set sp. thread_fits s' u)"
  proof (cases rule: ssh_actE)
    case (act st)
    then show ?thesis using stage_next [OF act(1)] a(2,3) by (simp add: thread_fits_def)
  qed (use a(3) in \<open>simp add: thread_fits_def\<close>)
  from a(1) show "sp = [] \<or> (\<exists>v. sp = [v] \<and> thread_claims t' \<inter> thread_claims v = {})"
  proof (cases rule: ssh_actE)
    case (act st)
    then show ?thesis using stage_spawns [OF act(1)] a(2,3) by (simp add: thread_fits_def thread_claims_def)
  qed simp
  fix u
  assume u: "thread_fits s u" "thread_claims t \<inter> thread_claims u = {}"
  from a(1) show "thread_fits s' u"
  proof (cases rule: ssh_actE)
    case (act st)
    then show ?thesis using effect_fits [OF stage_effect [OF act(1)]] a(2,3) u by (simp add: thread_fits_def thread_claims_def)
  qed (use u(1) in simp)
  fix v
  assume v: "v = t' \<or> v \<in> set sp"
  from a(1) show "thread_claims v \<inter> thread_claims u = {}"
  proof (cases rule: ssh_actE)
    case cancel
    then show ?thesis using u v by (simp add: thread_claims_def)
  next
    case (act st)
    have "k \<notin> stage_claims (snd u)" if "k \<in> stage_claims (snd v)" for k
    proof -
      have "k \<in> stage_claims (snd t') \<or> (\<exists>w\<in>set sp. k \<in> stage_claims (snd w))" using v that by blast
      then have "k \<in> stage_claims (snd t) \<or> fresh s k" using stage_tokens [OF act(1)] act(2) by simp
      then show ?thesis using u claims_not_fresh [OF a(2)] by (auto simp: thread_fits_def thread_claims_def)
    qed
    then show ?thesis by (auto simp: thread_claims_def)
  qed
qed

section \<open>Who closes what\<close>

text \<open>A client that is open but not cached is in the hands of a goroutine that will close it (or has
  just dialled it); so are the two halves of the shutdown signal and the close of the agent.\<close>

datatype duty = OwnClient nat | OwnSignal | OwnCancel | OwnAgent

definition ssh_loose :: "ssh_core \<Rightarrow> duty set" where
  "ssh_loose s = OwnClient ` (sc_live s - set_option (sc_client s)) \<union>
     (if sc_isClosed s \<and> \<not> sc_done s then {OwnSignal} else {}) \<union>
     (if sc_done s \<and> \<not> sc_cancelled s then {OwnCancel} else {}) \<union>
     (if sc_cancelled s \<and> \<not> sc_agentClosed s then {OwnAgent} else {})"

fun stage_own :: "ssh_stage \<Rightarrow> duty set" where
  "stage_own (GPublish p d res) = OwnClient ` set_option res"
| "stage_own (GDrop p res) = OwnClient ` set_option res"
| "stage_own (DClose r c) = {OwnClient c}"
| "stage_own (VClose c) = {OwnClient c}"
| "stage_own (SClose c) = {OwnClient c}"
| "stage_own (CSignal cl) = insert OwnSignal (OwnClient ` set_option cl)"
| "stage_own (CCancel cl) = insert OwnCancel (OwnClient ` set_option cl)"
| "stage_own (CKeyring cl) = insert OwnAgent (OwnClient ` set_option cl)"
| "stage_own (CClient c) = {OwnClient c}"
| "stage_own _ = {}"

definition thread_own :: "ssh_thread \<Rightarrow> duty set" where
  "thread_own t = stage_own (snd t)"

lemma loose_mem [simp]:
  "OwnClient c \<in> ssh_loose s \<longleftrightarrow> c \<in> sc_live s \<and> sc_client s \<noteq> Some c"
  "OwnSignal \<in> ssh_loose s \<longleftrightarrow> sc_isClosed s \<and> \<not> sc_done s"
  "OwnCancel \<in> ssh_loose s \<longleftrightarrow> sc_done s \<and> \<not> sc_cancelled s"
  "OwnAgent \<in> ssh_loose s \<longleftrightarrow> sc_cancelled s \<and> \<not> sc_agentClosed s"
  by (auto simp: ssh_loose_def)

lemma loose_frame [simp]:
  "ssh_loose (suspect c s) = ssh_loose s"
  "ssh_loose (s\<lparr>sc_ticks := n\<rparr>) = ssh_loose s"
  "ssh_loose (s\<lparr>sc_supervised := b\<rparr>) = ssh_loose s"
  "ssh_loose (s\<lparr>sc_revalidating := r\<rparr>) = ssh_loose s"
  "ssh_loose (s\<lparr>sc_dialing := x\<rparr>) = ssh_loose s"
  "ssh_loose (s\<lparr>sc_signalled := y\<rparr>) = ssh_loose s"
  "ssh_loose (s\<lparr>sc_nextDialing := n\<rparr>) = ssh_loose s"
  by (simp_all add: ssh_loose_def suspect_def)

lemma loose_drop: "ssh_loose (drop_client c s) = ssh_loose s - {OwnClient c}"
  by (auto simp: ssh_loose_def drop_client_def)

lemma loose_discard: "x \<in> ssh_loose (discard_locked c s) \<Longrightarrow> x = OwnClient c \<or> x \<in> ssh_loose s"
  by (auto simp: ssh_loose_def discard_locked_def split: if_splits)

lemma stage_hand_over:
  assumes "stage_act ch ctx st s = Some (t', sp, s')" "ssh_good s" "stage_fits s st" "x \<in> ssh_loose s'"
  shows "x \<in> ssh_loose s \<and> x \<notin> stage_own st \<or> x \<in> stage_own (snd t')"
proof (cases st)
  case (GLock p)
  then show ?thesis using assms by (auto simp: goon2_def getClient_lock_def split: if_splits option.splits)
next
  case (GDial p d)
  then show ?thesis using assms by (cases x) (auto simp: goon_def split: choice.splits)
next
  case (GPublish p d res)
  then show ?thesis using assms
    by (cases x) (auto simp: goon2_def getClient_publish_def Let_def ssh_good_def split: option.splits if_splits)
next
  case (GDrop p res)
  then show ?thesis using assms by (auto simp: goon_def loose_drop split: option.splits)
next
  case (GStarted p c)
  then show ?thesis using assms by (auto simp: getClient_started_def split: if_splits)
next
  case (DReval c)
  then show ?thesis using assms by (auto simp: revalidateAfterTimeout_def split: if_splits)
next
  case (DProbe c)
  then show ?thesis using assms
    by (auto simp: bind_eq_Some_conv goon2_def DialContext_probe_def split: choice.splits if_splits)
next
  case (VProbe c)
  then show ?thesis using assms by (auto simp: goon_def split: choice.splits)
next
  case (VClear c)
  then show ?thesis using assms by (auto simp: goon_def split: if_splits)
next
  case (SSelect c f)
  then show ?thesis using assms
    by (auto simp: bind_eq_Some_conv goon2_def supervise_select_def split: choice.splits if_splits)
next
  case (SProbe c f)
  then show ?thesis using assms
    by (auto simp: bind_eq_Some_conv goon2_def supervise_probe_def Let_def split: choice.splits if_splits)
next
  case CLock
  then show ?thesis using assms by (cases x) (auto simp: goon2_def Close_locked_def split: if_splits)
next
  case (CSignal cl)
  then show ?thesis using assms by (cases x) (auto simp: goon_def)
next
  case (CCancel cl)
  then show ?thesis using assms by (cases x) (auto simp: goon_def)
next
  case (CKeyring cl)
  then show ?thesis using assms by (cases x) (auto simp: goon_def split: option.splits)
qed (use assms in \<open>auto simp: bind_eq_Some_conv goon_def goon2_def loose_drop dest: loose_discard\<close>)

interpretation ssh_res: pool_resources ssh_act ssh_good thread_fits thread_claims ssh_loose thread_own
proof unfold_locales
  fix ch t s t' sp s'
  assume a: "ssh_act ch t s = Some (t', sp, s')" "ssh_good s" "thread_fits s t"
  from a(1) show "ssh_loose s' \<subseteq> (ssh_loose s - thread_own t) \<union> thread_own t' \<union> \<Union> (thread_own ` set sp)"
  proof (cases rule: ssh_actE)
    case cancel
    then show ?thesis by (auto simp: thread_own_def)
  next
    case (act st)
    then show ?thesis using stage_hand_over [OF act(1)] a(2,3) by (auto simp: thread_fits_def thread_own_def)
  qed
qed

section \<open>After Close\<close>

fun stage_rank :: "ssh_stage \<Rightarrow> nat" where
  "stage_rank (GLock p) = 3" | "stage_rank (GWait p d) = 4" | "stage_rank (GDial p d) = 5"
| "stage_rank (GPublish p d res) = 4" | "stage_rank (GDrop p res) = 3" | "stage_rank (GStarted p c) = 13"
| "stage_rank (DThrough again c) = 7" | "stage_rank (DReval c) = 1" | "stage_rank (DProbe c) = 6"
| "stage_rank (DDiscard r c) = 5" | "stage_rank (DClose r c) = 4" | "stage_rank (DReturned r) = 0"
| "stage_rank (VProbe c) = 4" | "stage_rank (VDiscard c) = 3" | "stage_rank (VClose c) = 2" | "stage_rank (VClear c) = 1"
| "stage_rank (SSelect c f) = 4" | "stage_rank (SProbe c f) = 5" | "stage_rank (SDiscard c) = 3"
| "stage_rank (SClose c) = 2" | "stage_rank (SLoop b) = 1" | "stage_rank (SBackoff b) = 2"
| "stage_rank CLock = 5" | "stage_rank (CSignal cl) = 4" | "stage_rank (CCancel cl) = 3"
| "stage_rank (CKeyring cl) = 2" | "stage_rank (CClient c) = 1" | "stage_rank Ended = 0"

definition thread_rank :: "ssh_thread \<Rightarrow> nat" where
  "thread_rank t = stage_rank (snd t) + (if fst t then 0 else 1)"

lemma got_rank:
  "stage_rank (got_error p r) \<le> 2" "stage_rank (got_client p c) \<le> 7"
  by (auto simp: got_error_def got_client_def split: purpose.splits)

lemma stage_less:
  assumes "stage_act ch ctx st s = Some (t', sp, s')" "sc_done s" "sc_isClosed s"
  shows "stage_rank (snd t') + sum_list (map thread_rank sp) + 2 * sc_ticks s' < stage_rank st + 2 * sc_ticks s"
proof (cases st)
  case (GLock p)
  then show ?thesis using assms got_rank(1) [of p ResClosed] by (auto simp: goon2_def getClient_lock_def)
next
  case (GWait p d)
  then show ?thesis using assms got_rank(1) [of p ResClosed] got_rank(1) [of p ResCtx]
    by (auto simp: bind_eq_Some_conv goon_def getClient_wait_def split: choice.splits if_splits)
next
  case (GDial p d)
  then show ?thesis using assms by (auto simp: goon_def split: choice.splits)
next
  case (GPublish p d res)
  then show ?thesis using assms by (auto simp: goon2_def getClient_publish_def Let_def)
next
  case (GDrop p res)
  then show ?thesis using assms got_rank(1) [of p ResClosed] by (auto simp: goon_def drop_client_def split: option.splits)
next
  case (GStarted p c)
  then show ?thesis using assms got_rank(2) [of p c]
    by (auto simp: getClient_started_def thread_rank_def split: if_splits)
next
  case (DThrough again c)
  then show ?thesis using assms
    by (auto simp: bind_eq_Some_conv goon_def DialContext_through_def dial_failed_def split: choice.splits if_splits)
next
  case (DReval c)
  then show ?thesis using assms by (auto simp: revalidateAfterTimeout_def)
next
  case (DProbe c)
  then show ?thesis using assms
    by (auto simp: bind_eq_Some_conv goon2_def DialContext_probe_def suspect_def split: choice.splits if_splits)
next
  case (VProbe c)
  then show ?thesis using assms by (auto simp: goon_def suspect_def split: choice.splits)
next
  case (SSelect c f)
  then show ?thesis using assms
    by (auto simp: bind_eq_Some_conv goon2_def supervise_select_def suspect_def split: choice.splits if_splits)
next
  case (SProbe c f)
  then show ?thesis using assms
    by (auto simp: bind_eq_Some_conv goon2_def supervise_probe_def suspect_def Let_def split: choice.splits if_splits)
next
  case (SBackoff b)
  then show ?thesis using assms
    by (auto simp: bind_eq_Some_conv goon_def reconnect_wait_def split: choice.splits if_splits)
next
  case (CKeyring cl)
  then show ?thesis using assms by (auto simp: goon_def split: option.splits)
qed (use assms in \<open>auto simp: goon_def goon2_def Close_locked_def drop_client_def discard_locked_def\<close>)

lemma stage_keeps_closed:
  assumes "effect T s s'" "sc_done s \<and> sc_isClosed s"
  shows "sc_done s' \<and> sc_isClosed s'"
  using assms by cases (auto simp: suspect_def drop_client_def)

text \<open>The choices under which a goroutine can always go on once \<open>done\<close> is closed.\<close>

lemma stage_able:
  assumes "sc_done s" "stage_rank st \<noteq> 0"
  shows "\<exists>ch t' sp s'. ch \<noteq> ChCancel \<and> stage_act ch ctx st s = Some (t', sp, s')"
proof (cases st)
  case (GWait p d)
  then show ?thesis using assms by (intro exI [of _ ChDone]) (simp add: getClient_wait_def goon_def)
next
  case (SSelect c f)
  then show ?thesis using assms by (intro exI [of _ ChDone]) (simp add: supervise_select_def goon2_def)
next
  case (SBackoff b)
  then show ?thesis using assms by (intro exI [of _ ChDone]) (simp add: reconnect_wait_def goon_def)
next
  case (DReval c)
  then show ?thesis by (intro exI [of _ ChOk]) (auto split: prod.splits)
next
  case (GStarted p c)
  then show ?thesis by (intro exI [of _ ChOk]) (auto split: prod.splits)
qed (use assms in \<open>auto simp: goon_def goon2_def DialContext_through_def DialContext_probe_def supervise_probe_def
      Let_def intro!: exI [of _ ChOk]\<close>)

interpretation ssh_fin: pool_rank ssh_act ssh_good thread_fits thread_claims sc_done "\<lambda>s. 2 * sc_ticks s" thread_rank
proof unfold_locales
  fix ch t s t' sp s'
  assume a: "ssh_act ch t s = Some (t', sp, s')" "ssh_good s" "thread_fits s t" "sc_done s"
  have closed: "sc_isClosed s" using a(2,4) by (simp add: ssh_good_def)
  from a(1) show "sc_done s'"
  proof (cases rule: ssh_actE)
    case (act st)
    then show ?thesis using stage_keeps_closed [OF stage_effect [OF act(1)]] a(3,4) closed by (simp add: thread_fits_def)
  qed (use a(4) in simp)
  show "thread_rank t' + sum_list (map thread_rank sp) + 2 * sc_ticks s' < thread_rank t + 2 * sc_ticks s"
  proof (cases "ch = ChCancel")
    case True
    then show ?thesis using a(1) by (auto simp: ssh_act_def thread_rank_def split: if_splits)
  next
    case False
    from a(1) show ?thesis
    proof (cases rule: ssh_actE)
      case (act st)
      then show ?thesis using stage_less [OF act(1) a(4) closed] by (simp add: thread_rank_def)
    qed (use False in simp)
  qed
next
  fix s :: ssh_core and t :: ssh_thread
  assume a: "sc_done s" "thread_rank t \<noteq> 0"
  show "\<exists>ch t' sp s'. ssh_act ch t s = Some (t', sp, s')"
  proof (cases "fst t")
    case True
    then have "stage_rank (snd t) \<noteq> 0" using a(2) by (simp add: thread_rank_def)
    from stage_able [OF a(1) this] obtain ch t' sp s' where
      "ch \<noteq> ChCancel" "stage_act ch (fst t) (snd t) s = Some (t', sp, s')" by blast
    then have "ssh_act ch t s = Some (t', sp, s')" by (simp add: ssh_act_def)
    then show ?thesis by blast
  next
    case False
    then have "ssh_act ChCancel t s = Some ((True, snd t), [], s)" by (simp add: ssh_act_def)
    then show ?thesis by blast
  qed
qed

section \<open>The handshake\<close>

record raw_conn =
  rw_deadline :: "int option"
  rw_closed :: bool

text \<open>\<open>dialClient\<close>: the TCP dial, the deadline of the handshake, the handshake itself, and whether
  the context ended meanwhile (\<open>stopHandshake\<close> reports it too late).\<close>

definition dialClient :: "string + raw_conn \<Rightarrow> int option \<Rightarrow> int \<Rightarrow> int \<Rightarrow> bool \<Rightarrow> string option \<Rightarrow>
    string option \<times> raw_conn option" where
  "dialClient dialled ctxDeadline timeout now cancelled handshake =
     (case dialled of
        Inl e \<Rightarrow> (Some e, None)
      | Inr raw0 \<Rightarrow>
          (let raw1 = (case ctxDeadline of
               Some d \<Rightarrow> raw0\<lparr>rw_deadline := Some d\<rparr>
             | None \<Rightarrow> if timeout > 0 then raw0\<lparr>rw_deadline := Some (now + timeout)\<rparr> else raw0);
               raw2 = (if cancelled then raw1\<lparr>rw_closed := True\<rparr> else raw1) in
           case handshake of
             Some e \<Rightarrow> (Some e, Some (raw2\<lparr>rw_closed := True\<rparr>))
           | None \<Rightarrow> (None, Some (raw2\<lparr>rw_deadline := None\<rparr>))))"

lemma dialClient_socket:
  "dialClient dialled ctxDeadline timeout now cancelled handshake = (err, sock) \<Longrightarrow>
     (err \<noteq> None \<longrightarrow> (\<forall>r\<in>set_option sock. rw_closed r)) \<and>
     (err = None \<longrightarrow> (\<exists>r0. dialled = Inr r0 \<and> handshake = None \<and>
        sock = Some (r0\<lparr>rw_deadline := None, rw_closed := cancelled \<or> rw_closed r0\<rparr>)))"
  by (auto simp: dialClient_def Let_def split: sum.splits option.splits if_splits)

section \<open>Properties\<close>

text \<open>Calls of \<open>DialContext\<close> and of \<open>Close\<close> on a dialer as \<open>newSSHDialer\<close> builds it; everything else
  is started by them.\<close>

definition ssh_calls :: "ssh_thread list \<Rightarrow> bool" where
  "ssh_calls ts \<longleftrightarrow> (\<forall>t\<in>set ts. snd t \<in> {GLock PFirst, CLock})"

definition finished :: "ssh_thread list \<Rightarrow> bool" where
  "finished ts \<longleftrightarrow> (\<forall>t\<in>set ts. case snd t of DReturned r \<Rightarrow> True | Ended \<Rightarrow> True | _ \<Rightarrow> False)"

definition ssh_reaches :: "'k ssh_dialer \<Rightarrow> nat \<Rightarrow> ssh_thread list \<Rightarrow> ssh_core \<Rightarrow> ssh_thread list \<Rightarrow> bool" where
  "ssh_reaches d ticks ts s ts' \<longleftrightarrow> ssh_calls ts \<and> (pool_step ssh_act)\<^sup>*\<^sup>* (start_ssh d ticks, ts) (s, ts')"

lemma newSSHDialer_backoff: "newSSHDialer env cfg timeout = (log, Inr d) \<Longrightarrow>
    sd_minBackoff d = defaultMinBackoff \<and> sd_maxBackoff d = defaultMaxBackoff"
  by (auto simp: newSSHDialer_def Let_def split: prod.splits sum.splits if_splits)

lemma ssh_start_ok:
  assumes "ssh_calls ts" "sd_minBackoff d = defaultMinBackoff" "sd_maxBackoff d = defaultMaxBackoff"
  shows "ssh_inv.pool_ok (start_ssh d ticks, ts)" "ssh_res.accounted (start_ssh d ticks, ts)"
proof -
  have t: "thread_claims t = {}" "thread_fits s t" if "t \<in> set ts" for t s
    using assms(1) that by (auto simp: ssh_calls_def thread_claims_def thread_fits_def purpose_claims_def is_caller_def purpose_fits_def)
  have "ssh_good (start_ssh d ticks)"
    using assms(2,3) by (simp add: ssh_good_def start_ssh_def ssh_defaults)
  then show "ssh_inv.pool_ok (start_ssh d ticks, ts)"
    using t by (simp add: ssh_inv.pool_ok_def ssh_inv.exclusive_def)
  show "ssh_res.accounted (start_ssh d ticks, ts)"
    by (simp add: ssh_res.accounted_def ssh_loose_def start_ssh_def)
qed

text \<open>The backoff bounds never change.\<close>

lemma effect_backoff:
  "effect T s s' \<Longrightarrow> sc_minBackoff s' = sc_minBackoff s \<and> sc_maxBackoff s' = sc_maxBackoff s"
  by (erule effect.cases) (auto simp: suspect_def drop_client_def)

lemma ssh_reach_facts:
  assumes "newSSHDialer env cfg timeout = (log, Inr d)" "ssh_reaches d ticks ts s ts'"
  shows "ssh_inv.pool_ok (s, ts')" "ssh_res.accounted (s, ts')"
    "sc_minBackoff s = defaultMinBackoff" "sc_maxBackoff s = defaultMaxBackoff"
proof -
  note b = newSSHDialer_backoff [OF assms(1)]
  have calls: "ssh_calls ts" and r: "(pool_step ssh_act)\<^sup>*\<^sup>* (start_ssh d ticks, ts) (s, ts')"
    using assms(2) by (simp_all add: ssh_reaches_def)
  have start: "ssh_inv.pool_ok (start_ssh d ticks, ts)" "ssh_res.accounted (start_ssh d ticks, ts)"
    using ssh_start_ok [OF calls] b by blast+
  show "ssh_inv.pool_ok (s, ts')" by (rule ssh_inv.pool_ok_reach [OF start(1) r])
  show "ssh_res.accounted (s, ts')" by (rule ssh_res.accounted_reach [OF r start(2,1)])
  have "ssh_inv.pool_ok u \<and> sc_minBackoff (fst u) = defaultMinBackoff \<and> sc_maxBackoff (fst u) = defaultMaxBackoff"
    if "(pool_step ssh_act)\<^sup>*\<^sup>* (start_ssh d ticks, ts) u" for u
    using that
  proof (induction rule: rtranclp_induct)
    case base
    then show ?case using start(1) b by (simp add: start_ssh_def)
  next
    case (step u v)
    obtain i ts0 ch c t' sp c' where u: "u = (c, ts0)" "v = (c', ts0[i := t'] @ sp)" "i < length ts0"
        "ssh_act ch (ts0 ! i) c = Some (t', sp, c')"
      using step(2) by (cases rule: pool_step.cases) blast
    have "thread_fits c (ts0 ! i)" using step(3) u(1,3) nth_mem by (auto simp: ssh_inv.pool_ok_def)
    with u(4) have "sc_minBackoff c' = sc_minBackoff c \<and> sc_maxBackoff c' = sc_maxBackoff c"
    proof (cases rule: ssh_actE)
      case (act st)
      then show ?thesis using effect_backoff [OF stage_effect [OF act(1)]] \<open>thread_fits c (ts0 ! i)\<close>
        by (simp add: thread_fits_def)
    qed simp
    then show ?case using ssh_inv.pool_ok_step [of u v] step u by simp
  qed
  from this [OF r] show "sc_minBackoff s = defaultMinBackoff" "sc_maxBackoff s = defaultMaxBackoff" by simp_all
qed

lemma finished_rank: "finished ts \<longleftrightarrow> (\<forall>t\<in>set ts. stage_rank (snd t) = 0)"
proof -
  have "(case st of DReturned r \<Rightarrow> True | Ended \<Rightarrow> True | _ \<Rightarrow> False) \<longleftrightarrow> stage_rank st = 0" for st
    by (cases st) auto
  then show ?thesis by (simp add: finished_def)
qed

lemma finished_owns_nothing:
  assumes "ssh_res.accounted (s, ts)" "finished ts"
  shows "ssh_loose s = {}"
proof -
  have "stage_own (snd t) = {}" if "t \<in> set ts" for t
    using assms(2) that unfolding finished_rank by (cases "snd t") fastforce+
  then show ?thesis using assms(1) by (auto simp: ssh_res.accounted_def thread_own_def)
qed

text \<open>A dialer as it is built for the sample configuration, with the default keepalive, and a run of
  two callers and a \<open>Close\<close>: the second caller waits for the first one's handshake, its channel
  fails when the dialer is closed, and the supervisor ends.\<close>

definition demo_dialer :: "string ssh_dialer" where
  "demo_dialer = \<lparr>sd_cfg = demo_ssh_cfg\<lparr>uc_KeepaliveInterval := 0\<rparr>, sd_timeout = 5, sd_keyring = Some ''/agent'',
     sd_auth = [AuthAgent ''/agent''], sd_hostKey = KnownHostsFile ''/home/u/.ssh/known_hosts'',
     sd_keepaliveInterval = defaultKeepaliveInterval, sd_keepaliveMaxFailures = 3,
     sd_minBackoff = defaultMinBackoff, sd_maxBackoff = defaultMaxBackoff\<rparr>"

lemma demo_dialer_built:
  "newSSHDialer demo_env (demo_ssh_cfg\<lparr>uc_KeepaliveInterval := 0\<rparr>) 5 =
     ([LogSSHAgent ''/agent'', LogSSHAgentSkipKey ''/key''], Inr demo_dialer)"
  unfolding demo_dialer_def by code_simp

definition demo_calls :: "ssh_thread list" where
  "demo_calls = [(False, GLock PFirst), (False, GLock PFirst), (False, CLock)]"

definition demo_core :: "nat option \<Rightarrow> bool \<Rightarrow> bool \<Rightarrow> nat set \<Rightarrow> nat set \<Rightarrow> nat set \<Rightarrow> ssh_core" where
  "demo_core client closed supervised live suspects signalled = (start_ssh demo_dialer 1)\<lparr>
     sc_client := client, sc_isClosed := closed, sc_supervised := supervised, sc_done := closed,
     sc_cancelled := closed, sc_agentClosed := closed, sc_live := live, sc_nextClient := 1,
     sc_suspect := suspects, sc_signalled := signalled, sc_nextDialing := 1\<rparr>"

definition demo_opening :: "(nat \<times> choice) list" where
  "demo_opening = [(0, ChOk), (1, ChOk), (0, ChOk), (0, ChOk), (1, ChOk), (1, ChOk), (0, ChOk), (0, ChOk)]"

definition demo_closing :: "(nat \<times> choice) list" where
  "demo_closing = [(2, ChOk), (2, ChOk), (2, ChOk), (2, ChOk), (2, ChOk)]"

definition demo_end :: "(nat \<times> choice) list" where
  "demo_end = [(1, ChErr), (1, ChErr), (1, ChOk), (1, ChOk), (1, ChOk), (3, ChDone)]"

definition demo_open_threads :: "ssh_thread list" where
  "demo_open_threads = [(False, DReturned ResConn), (False, DThrough False 0), (False, CLock), (False, SSelect 0 0)]"

definition demo_closed_threads :: "ssh_thread list" where
  "demo_closed_threads = [(False, DReturned ResConn), (False, DThrough False 0), (False, Ended), (False, SSelect 0 0)]"

definition demo_end_threads :: "ssh_thread list" where
  "demo_end_threads = [(False, DReturned ResConn), (False, DReturned ResClosed), (False, Ended), (False, Ended)]"

lemmas demo_defs = demo_core_def demo_opening_def demo_closing_def demo_end_def demo_calls_def
  demo_open_threads_def demo_closed_threads_def demo_end_threads_def demo_dialer_def start_ssh_def

lemma demo_runs:
  "pool_run ssh_act demo_opening (start_ssh demo_dialer 1, demo_calls) =
     Some (demo_core (Some 0) False True {0} {} {0}, demo_open_threads)"
  "pool_run ssh_act demo_closing (demo_core (Some 0) False True {0} {} {0}, demo_open_threads) =
     Some (demo_core None True True {} {} {0}, demo_closed_threads)"
  "pool_run ssh_act demo_end (demo_core None True True {} {} {0}, demo_closed_threads) =
     Some (demo_core None True True {} {0} {0}, demo_end_threads)"
  by (simp_all add: demo_defs ssh_act_def ssh_act_defs ssh_defaults)

lemma demo_reaches:
  "ssh_reaches demo_dialer 1 demo_calls (demo_core (Some 0) False True {0} {} {0}) demo_open_threads"
  "ssh_reaches demo_dialer 1 demo_calls (demo_core None True True {} {} {0}) demo_closed_threads"
  "ssh_reaches demo_dialer 1 demo_calls (demo_core None True True {} {0} {0}) demo_end_threads"
proof -
  have c: "ssh_calls demo_calls" by (simp add: ssh_calls_def demo_calls_def)
  note r = demo_runs [THEN pool_run_steps, THEN relpowp_imp_rtranclp]
  show "ssh_reaches demo_dialer 1 demo_calls (demo_core (Some 0) False True {0} {} {0}) demo_open_threads"
    "ssh_reaches demo_dialer 1 demo_calls (demo_core None True True {} {} {0}) demo_closed_threads"
    "ssh_reaches demo_dialer 1 demo_calls (demo_core None True True {} {0} {0}) demo_end_threads"
    unfolding ssh_reaches_def using c r(1) rtranclp_trans [OF r(1,2)] rtranclp_trans [OF rtranclp_trans [OF r(1,2)] r(3)]
    by simp_all
qed

text \<open>C1: However many callers, timeouts, failed probes, dead transports and calls of \<open>Close\<close> interleave: at
  most one SSH handshake runs at a time, there is at most one supervisor, at most one revalidation
  of a client, the channel \<open>done\<close> is closed at most once, and every delay between two attempts of
  the supervisor is between one and thirty seconds.\<close>

theorem ssh_one_of_each:
  assumes "newSSHDialer env cfg timeout = (log, Inr d)" "ssh_reaches d ticks ts s ts'"
  shows "cnt (\<lambda>t. THandshake \<in> thread_claims t) ts' \<le> 1 \<and> cnt (\<lambda>t. TSupervisor \<in> thread_claims t) ts' \<le> 1 \<and>
    cnt (\<lambda>t. TWatch c \<in> thread_claims t) ts' \<le> 1 \<and> cnt (\<lambda>t. TSignal \<in> thread_claims t) ts' \<le> 1 \<and>
    (\<forall>ctx cl. (ctx, CSignal cl) \<in> set ts' \<longrightarrow> \<not> sc_done s) \<and>
    (\<forall>ctx b. (ctx, SBackoff b) \<in> set ts' \<longrightarrow> 1 * second \<le> b \<and> b \<le> 30 * second)"
proof -
  note f = ssh_reach_facts [OF assms]
  have e: "ssh_inv.exclusive ts'" and fits: "\<And>t. t \<in> set ts' \<Longrightarrow> thread_fits s t"
    using f(1) by (simp_all add: ssh_inv.pool_ok_def)
  have "\<not> sc_done s" if "(ctx, CSignal cl) \<in> set ts'" for ctx cl
    using fits [OF that] by (simp add: thread_fits_def)
  moreover have "1 * second \<le> b \<and> b \<le> 30 * second" if "(ctx, SBackoff b) \<in> set ts'" for ctx b
    using fits [OF that] f(3,4) by (simp add: thread_fits_def backoff_fits_def ssh_defaults)
  ultimately show ?thesis using ssh_inv.exclusive_cnt [OF e] by blast
qed

theorem ssh_one_of_each_witness:
  "cnt (\<lambda>t. TSupervisor \<in> thread_claims t) demo_open_threads = 1 \<and>
   cnt (\<lambda>t. TSupervisor \<in> thread_claims t) demo_open_threads \<le> 1"
  using ssh_one_of_each [OF demo_dialer_built demo_reaches(1), of 0]
  by (simp add: demo_open_threads_def thread_claims_def)

text \<open>C2: No SSH connection leaks: once no goroutine is left the only client that can be open is the
  cached one, and after a \<open>Close\<close> none is, \<open>done\<close> is closed, the lifecycle context is cancelled and
  the connection to the agent is closed.  A client that was dialled is open until it fails a probe,
  its transport ends, or the dialer is closed.\<close>

theorem ssh_close_leaks_nothing:
  assumes "newSSHDialer env cfg timeout = (log, Inr d)" "ssh_reaches d ticks ts s ts'"
  shows "(finished ts' \<longrightarrow> sc_live s \<subseteq> set_option (sc_client s) \<and>
      (sc_isClosed s \<longrightarrow> sc_live s = {} \<and> sc_client s = None \<and> sc_done s \<and> sc_cancelled s \<and> sc_agentClosed s)) \<and>
    (\<forall>c < sc_nextClient s. c \<in> sc_live s \<or> c \<in> sc_suspect s \<or> sc_isClosed s)"
proof -
  note f = ssh_reach_facts [OF assms]
  have g: "ssh_good s" using f(1) by (simp add: ssh_inv.pool_ok_def)
  have "sc_live s \<subseteq> set_option (sc_client s) \<and>
      (sc_isClosed s \<longrightarrow> sc_live s = {} \<and> sc_client s = None \<and> sc_done s \<and> sc_cancelled s \<and> sc_agentClosed s)"
    if "finished ts'"
  proof -
    have "x \<notin> ssh_loose s" for x using finished_owns_nothing [OF f(2) that] by simp
    then have "\<forall>c. \<not> (c \<in> sc_live s \<and> sc_client s \<noteq> Some c)" "\<not> (sc_isClosed s \<and> \<not> sc_done s)"
      "\<not> (sc_done s \<and> \<not> sc_cancelled s)" "\<not> (sc_cancelled s \<and> \<not> sc_agentClosed s)"
      using loose_mem by blast+
    then show ?thesis using g by (auto simp: ssh_good_def)
  qed
  then show ?thesis using g by (simp add: ssh_good_def)
qed

theorem ssh_close_leaks_nothing_witness:
  "finished demo_end_threads \<and> sc_live (demo_core None True True {} {0} {0}) = {}"
proof -
  have "finished demo_end_threads" "sc_isClosed (demo_core None True True {} {0} {0})"
    by (simp_all add: finished_def demo_end_threads_def demo_core_def)
  then show ?thesis using ssh_close_leaks_nothing [OF demo_dialer_built demo_reaches(3)] by blast
qed

text \<open>C3: Closing ends everything: from the moment \<open>done\<close> is closed, the callers, the supervisor, the
  probes and the other calls of \<open>Close\<close> take at most fourteen actions each (and two for every tick
  still to come), never wait for each other, and can come to an end with no client open.\<close>

theorem ssh_close_ends_everything:
  assumes "newSSHDialer env cfg timeout = (log, Inr d)" "ssh_reaches d ticks ts s ts'" "sc_done s"
    and "(pool_step ssh_act ^^ n) (s, ts') u"
  shows "n \<le> 14 * length ts' + 2 * sc_ticks s \<and>
    (\<exists>v. (pool_step ssh_act)\<^sup>*\<^sup>* u v \<and> finished (snd v) \<and> sc_live (fst v) = {})"
proof -
  note f = ssh_reach_facts [OF assms(1,2)]
  have i: "ssh_inv.pool_ok (s, ts') \<and> sc_done (fst (s, ts'))" using f(1) assms(3) by simp
  from ssh_fin.ranked.run_bound [OF assms(4) i]
  have u: "ssh_inv.pool_ok u \<and> sc_done (fst u)" and n: "n \<le> ssh_fin.total_rank (s, ts')" by simp_all
  have "thread_rank t \<le> 14" for t by (cases "snd t") (simp_all add: thread_rank_def)
  then have "sum_list (map thread_rank ts') \<le> 14 * length ts'" by (induction ts') (auto intro: add_mono)
  then have bound: "n \<le> 14 * length ts' + 2 * sc_ticks s" using n by (simp add: ssh_fin.total_rank_def)
  obtain v where v: "(pool_step ssh_act)\<^sup>*\<^sup>* u v" "ssh_fin.all_ended v"
    using ssh_fin.ranked.can_finish [OF u] by blast
  have uv: "(pool_step ssh_act)\<^sup>*\<^sup>* (s, ts') v" using relpowp_imp_rtranclp [OF assms(4)] v(1) by simp
  have fin: "finished (snd v)" using v(2) by (auto simp: finished_rank ssh_fin.all_ended_def thread_rank_def)
  have acc: "ssh_res.accounted (fst v, snd v)" using ssh_res.accounted_reach [OF uv f(2,1)] by simp
  have vi: "ssh_good (fst v) \<and> sc_done (fst v)"
  proof -
    have "ssh_inv.pool_ok w \<and> sc_done (fst w)" if "(pool_step ssh_act)\<^sup>*\<^sup>* (s, ts') w" for w
      using that i by (induction rule: rtranclp_induct) (use ssh_fin.ranked.keep in blast)+
    then show ?thesis using uv by (auto simp: ssh_inv.pool_ok_def)
  qed
  have "sc_client (fst v) = None" using vi by (auto simp: ssh_good_def)
  moreover have "OwnClient c \<notin> ssh_loose (fst v)" for c using finished_owns_nothing [OF acc fin] by simp
  ultimately have "sc_live (fst v) = {}" using loose_mem(1) by auto
  then show ?thesis using bound v(1) fin by blast
qed

theorem ssh_close_ends_everything_witness:
  "\<exists>v. (pool_step ssh_act ^^ 6) (demo_core None True True {} {} {0}, demo_closed_threads) v \<and>
     6 \<le> 14 * length demo_closed_threads + 2 * (1 :: nat) \<and> finished (snd v)"
proof -
  let ?s = "demo_core None True True {} {} {0}" and ?v = "(demo_core None True True {} {0} {0}, demo_end_threads)"
  have "(pool_step ssh_act ^^ length demo_end) (?s, demo_closed_threads) ?v"
    by (rule pool_run_steps [OF demo_runs(3)])
  then have run: "(pool_step ssh_act ^^ 6) (?s, demo_closed_threads) ?v" by (simp add: demo_end_def numeral_eq_Suc)
  have "sc_done ?s" "sc_ticks ?s = 1" by (simp_all add: demo_core_def start_ssh_def)
  with ssh_close_ends_everything [OF demo_dialer_built demo_reaches(2) _ run]
  have "6 \<le> 14 * length demo_closed_threads + 2 * (1 :: nat)" by simp
  moreover have "finished demo_end_threads" by (simp add: finished_def demo_end_threads_def)
  ultimately show ?thesis using run by (intro exI [of _ ?v]) simp
qed

end
