(* ===== verification/Ssh_Probe.thy ===== *)
theory Ssh_Probe
  imports PM_Prelude
begin

text \<open>
  The health probe of an SSH transport, \<open>sshClientHealthy\<close> of internal/proxy/upstream.go, with its
  goroutine.  \<open>SendRequest\<close> cannot be cancelled: it ends with a reply or with the transport, so each of
  the probe's three callers closes a transport whose probe ended by its context.  \<open>Ssh_Model\<close> takes a
  probe as one action with a chosen outcome; here is the race behind that outcome.
\<close>

text \<open>The goroutine: in \<open>SendRequest\<close>, about to send its result (\<open>True\<close>: a reply came, whatever it
  says), and ended.\<close>

datatype probe_go = Asking | Answered bool | Reported bool

text \<open>The prober: in its select, or returned because of a result or of its context.\<close>

datatype probe_main = Selecting | GotResult bool | Expired

record probe =
  pb_go :: probe_go
  pb_result :: "bool list"
  pb_ctx :: bool
  pb_main :: probe_main
  pb_open :: bool

definition sshClientHealthy :: probe where
  "sshClientHealthy = \<lparr>pb_go = Asking, pb_result = [], pb_ctx = False, pb_main = Selecting, pb_open = True\<rparr>"

text \<open>What the call returns, once it does.\<close>

fun probe_verdict :: "probe_main \<Rightarrow> bool option" where
  "probe_verdict Selecting = None"
| "probe_verdict (GotResult ok) = Some ok"
| "probe_verdict Expired = Some False"

text \<open>The last rule is the caller's: \<open>discard\<close> after an expired probe.  The transport may also end by itself.\<close>

inductive probe_step :: "probe \<Rightarrow> probe \<Rightarrow> bool" where
  pb_reply: "pb_go p = Asking \<Longrightarrow> pb_open p \<Longrightarrow> probe_step p (p\<lparr>pb_go := Answered True\<rparr>)"
| pb_broken: "pb_go p = Asking \<Longrightarrow> \<not> pb_open p \<Longrightarrow> probe_step p (p\<lparr>pb_go := Answered False\<rparr>)"
| pb_send: "pb_go p = Answered ok \<Longrightarrow> pb_result p = [] \<Longrightarrow>
    probe_step p (p\<lparr>pb_go := Reported ok, pb_result := [ok]\<rparr>)"
| pb_receive: "pb_main p = Selecting \<Longrightarrow> pb_result p = [ok] \<Longrightarrow>
    probe_step p (p\<lparr>pb_main := GotResult ok, pb_result := []\<rparr>)"
| pb_expire: "pb_main p = Selecting \<Longrightarrow> pb_ctx p \<Longrightarrow> probe_step p (p\<lparr>pb_main := Expired\<rparr>)"
| pb_done: "\<not> pb_ctx p \<Longrightarrow> probe_step p (p\<lparr>pb_ctx := True\<rparr>)"
| pb_ended: "pb_open p \<Longrightarrow> pb_main p \<noteq> Expired \<Longrightarrow> probe_step p (p\<lparr>pb_open := False\<rparr>)"
| pb_discard: "pb_open p \<Longrightarrow> pb_main p = Expired \<Longrightarrow> probe_step p (p\<lparr>pb_open := False\<rparr>)"

inductive_cases probe_stepE [step_elims]: "probe_step p q"

definition probe_over :: "probe \<Rightarrow> bool" where
  "probe_over p \<longleftrightarrow> (\<exists>ok. pb_go p = Reported ok) \<and> pb_main p \<noteq> Selecting \<and> (pb_main p = Expired \<longrightarrow> \<not> pb_open p)"

section \<open>Lemmas\<close>

text \<open>The result is in the goroutine, then in the channel, then with the prober.\<close>

definition probe_inv :: "probe \<Rightarrow> bool" where
  "probe_inv p \<longleftrightarrow>
     (case pb_go p of
        Reported ok \<Rightarrow> (if pb_main p = GotResult ok then pb_result p = [] else pb_result p = [ok] \<and> (\<forall>b. pb_main p \<noteq> GotResult b))
      | _ \<Rightarrow> pb_result p = [] \<and> (\<forall>b. pb_main p \<noteq> GotResult b)) \<and>
     (pb_main p = Expired \<longrightarrow> pb_ctx p) \<and>
     (pb_go p \<in> {Answered False, Reported False} \<longrightarrow> \<not> pb_open p)"

fun probe_go_rank :: "probe_go \<Rightarrow> nat" where
  "probe_go_rank Asking = 2" | "probe_go_rank (Answered ok) = 1" | "probe_go_rank (Reported ok) = 0"

definition probe_rank :: "probe \<Rightarrow> nat" where
  "probe_rank p = probe_go_rank (pb_go p) + (if pb_ctx p then 0 else 1) + (if pb_main p = Selecting then 1 else 0) +
     (if pb_open p then 1 else 0)"

lemma probe_inv_step: "probe_inv p \<Longrightarrow> probe_step p q \<Longrightarrow> probe_inv q"
  by (erule probe_stepE) (auto simp: probe_inv_def split: probe_go.splits if_splits)

lemma probe_rank_step: "probe_inv p \<Longrightarrow> probe_step p q \<Longrightarrow> probe_rank q < probe_rank p"
  by (erule probe_stepE) (auto simp: probe_rank_def)

lemma probe_progress: "probe_inv p \<Longrightarrow> \<not> probe_over p \<Longrightarrow> \<exists>q. probe_step p q"
proof (cases "pb_go p")
  case Asking
  then show ?thesis by (blast intro: pb_reply pb_broken)
next
  case (Answered ok)
  moreover assume "probe_inv p"
  ultimately show ?thesis by (auto simp: probe_inv_def intro: pb_send)
next
  case (Reported ok)
  assume "probe_inv p" "\<not> probe_over p"
  then show ?thesis using Reported
    by (cases "pb_main p") (auto simp: probe_inv_def probe_over_def split: if_splits intro: probe_step.intros)
qed

interpretation probe_sys: ranked_system probe_step probe_inv probe_rank probe_over
  by unfold_locales (rule probe_inv_step probe_rank_step probe_progress; assumption)+

lemma probe_inv_start: "probe_inv sshClientHealthy"
  by (simp add: probe_inv_def sshClientHealthy_def)

text \<open>Once the transport is closed the goroutine ends by itself: \<open>SendRequest\<close> fails and the buffered
  channel takes the result, whether anybody receives it or not.\<close>

lemma probe_can_report:
  assumes "probe_inv p" "\<not> pb_open p"
  shows "\<exists>k \<le> 2. \<exists>ok q. (probe_step ^^ k) p q \<and> pb_go q = Reported ok"
proof (cases "pb_go p")
  case Asking
  then have empty: "pb_result p = []" using assms(1) by (simp add: probe_inv_def)
  let ?q = "p\<lparr>pb_go := Answered False\<rparr>"
  have "probe_step p ?q" by (rule pb_broken [OF Asking assms(2)])
  moreover have "probe_step ?q (?q\<lparr>pb_go := Reported False, pb_result := [False]\<rparr>)"
    by (rule pb_send) (simp_all add: empty)
  ultimately have "(probe_step ^^ 2) p (?q\<lparr>pb_go := Reported False, pb_result := [False]\<rparr>)"
    by (auto simp: numeral_2_eq_2)
  moreover have "pb_go (?q\<lparr>pb_go := Reported False, pb_result := [False]\<rparr>) = Reported False" by simp
  ultimately show ?thesis by blast
next
  case (Answered ok)
  then have "pb_result p = []" using assms(1) by (simp add: probe_inv_def)
  then have "(probe_step ^^ 1) p (p\<lparr>pb_go := Reported ok, pb_result := [ok]\<rparr>)" 
    using pb_send [OF Answered] by auto
  moreover have "pb_go (p\<lparr>pb_go := Reported ok, pb_result := [ok]\<rparr>) = Reported ok" by simp
  ultimately show ?thesis by (metis one_le_numeral)
next
  case (Reported ok)
  then show ?thesis by (intro exI [of _ 0]) auto
qed

section \<open>Properties\<close>

text \<open>A health probe tells a dead transport from a slow one and leaves no goroutine behind.  It takes at
  most five steps; it calls a transport healthy only when a reply came, and its goroutine has ended by
  then; it calls one unhealthy only when the transport had ended or the context had; and an expired
  probe whose transport its caller has closed needs nothing from the network any more to end.\<close>

theorem ssh_probe_never_lingers:
  assumes "(probe_step ^^ n) sshClientHealthy p"
  shows "n \<le> 5 \<and> (\<exists>q. probe_step\<^sup>*\<^sup>* p q \<and> probe_over q) \<and>
    (probe_verdict (pb_main p) = Some True \<longrightarrow> pb_go p = Reported True \<and> pb_result p = []) \<and>
    (probe_verdict (pb_main p) = Some False \<longrightarrow> \<not> pb_open p \<or> pb_ctx p) \<and>
    (pb_main p = Expired \<and> \<not> pb_open p \<longrightarrow>
       (\<exists>k \<le> 2. \<exists>ok q. (probe_step ^^ k) p q \<and> pb_go q = Reported ok))"
proof -
  have b: "probe_inv p \<and> n + probe_rank p \<le> probe_rank sshClientHealthy"
    by (rule probe_sys.run_bound [OF assms probe_inv_start])
  then have i: "probe_inv p" and n: "n \<le> 5" by (simp_all add: probe_rank_def sshClientHealthy_def)
  have healthy: "probe_verdict (pb_main p) = Some True \<longrightarrow> pb_go p = Reported True \<and> pb_result p = []"
    using i by (cases "pb_main p") (auto simp: probe_inv_def split: probe_go.splits if_splits)
  have unhealthy: "probe_verdict (pb_main p) = Some False \<longrightarrow> \<not> pb_open p \<or> pb_ctx p"
    using i by (cases "pb_main p") (auto simp: probe_inv_def split: probe_go.splits if_splits)
  have ends: "\<exists>k \<le> 2. \<exists>ok q. (probe_step ^^ k) p q \<and> pb_go q = Reported ok"
    if "pb_main p = Expired \<and> \<not> pb_open p"
    using probe_can_report [OF i] that by blast
  show ?thesis using n healthy unhealthy ends probe_sys.can_finish [OF i] by blast
qed

text \<open>Witness: the context ends first, the caller closes the transport and the goroutine reports.\<close>

theorem ssh_probe_never_lingers_witness:
  "\<exists>p. (probe_step ^^ 5) sshClientHealthy p \<and> pb_main p = Expired \<and> probe_over p"
proof -
  define p where "p = \<lparr>pb_go = Reported False, pb_result = [False], pb_ctx = True, pb_main = Expired, pb_open = False\<rparr>"
  have "(probe_step ^^ 0) sshClientHealthy sshClientHealthy" by simp
  note relpowp_Suc_I [OF this pb_done]
  note relpowp_Suc_I [OF this pb_expire]
  note relpowp_Suc_I [OF this pb_discard]
  note relpowp_Suc_I [OF this pb_broken]
  note relpowp_Suc_I [OF this pb_send [where ok = False]]
  then have R: "(probe_step ^^ 5) sshClientHealthy p" by (simp add: sshClientHealthy_def p_def numeral_eq_Suc)
  show ?thesis
    by (rule exI [of _ p]) (use R ssh_probe_never_lingers [OF R] in \<open>auto simp: p_def probe_over_def\<close>)
qed

end
