(* ===== verification/Http_Trailer.thy ===== *)
theory Http_Trailer
  imports Http_Proxy
begin

text \<open>
  Trailers of a relayed message, internal/proxy/http.go: \<open>filterTrailers\<close> with its
  \<open>trailerFilteringBody\<close>, and what \<open>net/http\<close> does around them.  A trailer is a Go map, shared by
  reference between the message, the filter and the writer that sends the message on: the model keeps
  the maps in a heap, so that a filter that holds a nil map or another map than the message is what it
  is in the code.  Unlike the headers of \<open>Http_Proxy\<close>, a declared name without values differs from
  an absent one here.
\<close>

section \<open>Go maps by reference\<close>

type_synonym trailer_map = "string \<rightharpoonup> string list"

text \<open>The heap of trailer maps, the message's \<open>Trailer\<close> field (\<open>None\<close>: nil), and the next free address.\<close>

record trailer_heap =
  th_maps :: "nat \<Rightarrow> trailer_map"
  th_field :: "nat option"
  th_next :: nat

definition read_map :: "trailer_heap \<Rightarrow> nat option \<Rightarrow> trailer_map" where
  "read_map s r = (case r of None \<Rightarrow> Map.empty | Some a \<Rightarrow> th_maps s a)"

text \<open>\<open>delete\<close> on a nil map does nothing.\<close>

definition on_map :: "(trailer_map \<Rightarrow> trailer_map) \<Rightarrow> nat option \<Rightarrow> trailer_heap \<Rightarrow> trailer_heap" where
  "on_map f r s = (case r of None \<Rightarrow> s | Some a \<Rightarrow> s\<lparr>th_maps := (th_maps s)(a := f (th_maps s a))\<rparr>)"

definition as_header :: "trailer_map \<Rightarrow> header" where
  "as_header m x = (case m x of None \<Rightarrow> [] | Some vs \<Rightarrow> vs)"

definition map_Del :: "string \<Rightarrow> trailer_map \<Rightarrow> trailer_map" where
  "map_Del k m = m(CanonicalKey k := None)"

definition map_dels :: "string list \<Rightarrow> trailer_map \<Rightarrow> trailer_map" where
  "map_dels ks m = fold map_Del ks m"

text \<open>The closure \<open>filter\<close> of \<open>filterTrailers\<close>: the options of the message's Connection header, then
  those the trailer itself names, then the hop-by-hop names.\<close>

definition trailer_filter :: "string list \<Rightarrow> trailer_map \<Rightarrow> trailer_map" where
  "trailer_filter connectionOptions m =
     (let m' = map_dels connectionOptions m in
      map_dels hopByHopHeaders (map_dels (connectionOptionNames (as_header m')) m'))"

section \<open>The body and its wrapper\<close>

text \<open>What one \<open>Read\<close> of the message's body comes to: bytes, the end of the body with the trailer
  that stood behind it, if any, or another error.  The body reports its end again when it is read again.\<close>

datatype body_read = BodyBytes string | BodyEnd string "trailer_map option" | BodyFail string

datatype body_err = BodyEOF | BodyBroken

text \<open>At the end of a chunked body \<open>net/http\<close> merges the trailer into the message's field: into
  the map that is there, or, when the field is nil, by storing a new map in it.\<close>

definition mergeSetHeader :: "trailer_map \<Rightarrow> trailer_heap \<Rightarrow> trailer_heap" where
  "mergeSetHeader new s =
     (case th_field s of
        Some a \<Rightarrow> s\<lparr>th_maps := (th_maps s)(a := th_maps s a ++ new)\<rparr>
      | None \<Rightarrow> s\<lparr>th_maps := (th_maps s)(th_next s := new), th_field := Some (th_next s),
                 th_next := th_next s + 1\<rparr>)"

fun body_Read :: "body_read list \<Rightarrow> trailer_heap \<Rightarrow> string \<times> body_err option \<times> body_read list \<times> trailer_heap" where
  "body_Read [] s = ([], Some BodyEOF, [], s)"
| "body_Read (BodyBytes b # rs) s = (b, None, rs, s)"
| "body_Read (BodyEnd b t # rs) s =
     (b, Some BodyEOF, [], (case t of None \<Rightarrow> s | Some new \<Rightarrow> mergeSetHeader new s))"
| "body_Read (BodyFail b # rs) s = (b, Some BodyBroken, BodyFail [] # rs, s)"

text \<open>The body a message carries on: the one it came with, or the wrapper with its filter, which is
  dropped (\<open>b.filter = nil\<close>) once it has run.\<close>

record wrapped_body =
  wb_reads :: "body_read list"
  wb_filter :: "(string list \<times> nat option) option"

definition trailerFilteringBody_Read ::
    "wrapped_body \<Rightarrow> trailer_heap \<Rightarrow> string \<times> body_err option \<times> wrapped_body \<times> trailer_heap" where
  "trailerFilteringBody_Read b s =
     (case body_Read (wb_reads b) s of
        (n, err, rs, s') \<Rightarrow>
          (case (err, wb_filter b) of
             (Some e, Some (opts, r)) \<Rightarrow> (n, err, \<lparr>wb_reads = rs, wb_filter = None\<rparr>, on_map (trailer_filter opts) r s')
           | _ \<Rightarrow> (n, err, b\<lparr>wb_reads := rs\<rparr>, s')))"

text \<open>\<open>filterTrailers\<close>: filter at once, and wrap a body that can still bring a trailer.\<close>

definition filterTrailers_body :: "body_read list option \<Rightarrow> nat option \<Rightarrow> string list \<Rightarrow> trailer_heap \<Rightarrow>
    wrapped_body option \<times> trailer_heap" where
  "filterTrailers_body body trailer connectionOptions s =
     (map_option (\<lambda>rs. \<lparr>wb_reads = rs, wb_filter = Some (connectionOptions, trailer)\<rparr>) body,
      on_map (trailer_filter connectionOptions) trailer s)"

section \<open>Writing the message on\<close>

text \<open>\<open>Request.Write\<close> and \<open>Response.Write\<close> take the trailer map when they start, announce the names in
  it, copy the body to its end and then write the values the same map has by then.  A body that fails
  ends the message without a trailer.\<close>

record sent_message =
  sm_announced :: "string set"
  sm_body :: string
  sm_trailer :: "header option"

fun body_reads :: "body_read list \<Rightarrow> nat" where
  "body_reads [] = 1"
| "body_reads (BodyBytes b # rs) = Suc (body_reads rs)"
| "body_reads (r # rs) = 1"

function copy_body :: "wrapped_body \<Rightarrow> trailer_heap \<Rightarrow> string \<times> bool \<times> wrapped_body \<times> trailer_heap" where
  "copy_body b s =
     (case trailerFilteringBody_Read b s of
        (n, None, b', s') \<Rightarrow> (case copy_body b' s' of (rest, ok, b'', s'') \<Rightarrow> (n @ rest, ok, b'', s''))
      | (n, Some e, b', s') \<Rightarrow> (n, e = BodyEOF, b', s'))"
  by pat_completeness auto

text \<open>Only the bytes of a body let the copy go on, and a script has finitely many.\<close>

fun_cases body_Read_goes_onE: "body_Read rs s = (n, None, rs', s')"

lemma trailer_read_goes_on:
  "trailerFilteringBody_Read b s = (n, None, b', s') \<Longrightarrow>
   wb_reads b = BodyBytes n # wb_reads b' \<and> wb_filter b' = wb_filter b \<and> s' = s"
  by (auto simp: trailerFilteringBody_Read_def split: prod.splits option.splits elim!: body_Read_goes_onE)

termination copy_body
  by (relation "measure (\<lambda>(b, s). body_reads (wb_reads b))") (auto dest: trailer_read_goes_on [OF sym])

declare copy_body.simps [simp del]

definition write_message :: "wrapped_body option \<Rightarrow> trailer_heap \<Rightarrow> sent_message \<times> trailer_heap" where
  "write_message body s =
     (let t = th_field s; announced = dom (read_map s t) in
      case body of
        None \<Rightarrow> (\<lparr>sm_announced = announced, sm_body = [], sm_trailer = Some (as_header (read_map s t))\<rparr>, s)
      | Some b \<Rightarrow>
          (case copy_body b s of
             (bytes, ok, b', s') \<Rightarrow>
               (\<lparr>sm_announced = announced, sm_body = bytes,
                 sm_trailer = (if ok then Some (as_header (read_map s' t)) else None)\<rparr>, s')))"

text \<open>A message relayed: the names its \<open>Trailer\<close> header declared, without values yet (\<open>None\<close>: it
  declared none and its map is nil), the options of its Connection header, and its body.\<close>

definition declared_trailer :: "string list \<Rightarrow> trailer_map" where
  "declared_trailer names = (\<lambda>k. if k \<in> set (map CanonicalKey names) then Some [] else None)"

definition message_heap :: "string list option \<Rightarrow> trailer_heap" where
  "message_heap names =
     \<lparr>th_maps = (\<lambda>_. case names of None \<Rightarrow> Map.empty | Some ns \<Rightarrow> declared_trailer ns),
      th_field = map_option (\<lambda>_. 0) names, th_next = 1\<rparr>"

definition relay_trailers :: "string list \<Rightarrow> string list option \<Rightarrow> body_read list option \<Rightarrow> sent_message" where
  "relay_trailers opts names body =
     (let s = message_heap names in
      case filterTrailers_body body (th_field s) opts s of
        (body', s') \<Rightarrow> fst (write_message body' s'))"

section \<open>Lemmas\<close>

text \<open>The maps refine the headers of \<open>Http_Proxy\<close>: an absent name reads as no values.\<close>

lemma as_header_Del: "as_header (map_Del k m) = Header_Del k (as_header m)"
  by (auto simp: as_header_def map_Del_def Header_Del_def)

lemma as_header_dels: "as_header (map_dels ks m) = del_keys ks (as_header m)"
  unfolding map_dels_def del_keys_def by (induction ks arbitrary: m) (simp_all add: as_header_Del)

lemma as_header_filter: "as_header (trailer_filter opts m) = filterTrailers opts (as_header m)"
  by (simp add: trailer_filter_def filterTrailers_def stripHopByHopHeaders_def Let_def as_header_dels)

lemma as_header_empty [simp]: "as_header Map.empty = (\<lambda>_. [])"
  by (auto simp: as_header_def)

lemma as_header_declared: "as_header (declared_trailer names) = (\<lambda>_. [])"
  by (auto simp: as_header_def declared_trailer_def)

lemma connectionOptionNames_nothing: "connectionOptionNames (\<lambda>_. []) = []"
  by (simp add: connectionOptionNames_def Header_Values_def)

lemma del_keys_nothing: "del_keys ks (\<lambda>_. []) = (\<lambda>_. [])"
  by (simp add: fun_eq_iff del_keys_apply)

lemma filterTrailers_nothing: "filterTrailers opts (\<lambda>_. []) = (\<lambda>_. [])"
  by (simp add: filterTrailers_def stripHopByHopHeaders_def connectionOptionNames_nothing del_keys_nothing)

lemma dom_map_dels: "dom (map_dels ks m) = dom m - CanonicalKey ` set ks"
  unfolding map_dels_def by (induction ks arbitrary: m) (auto simp: map_Del_def split: if_splits)

lemma dom_filtered_declaration:
  "dom (trailer_filter opts (declared_trailer names)) =
     CanonicalKey ` set names - set hopByHopHeaders - CanonicalKey ` set opts"
proof -
  have hop: "CanonicalKey ` set hopByHopHeaders = set hopByHopHeaders" using canonical_hop by (metis set_map)
  have none: "as_header (map_dels opts (declared_trailer names)) = (\<lambda>_. [])"
    by (simp add: as_header_dels as_header_declared del_keys_nothing)
  have dom: "dom (declared_trailer names) = CanonicalKey ` set names"
    by (auto simp: declared_trailer_def split: if_splits)
  show ?thesis
    by (auto simp: trailer_filter_def Let_def none connectionOptionNames_nothing dom_map_dels hop dom)
qed

text \<open>Names without values leave what is merged over them as it is.\<close>

lemma as_header_merge: "as_header m = (\<lambda>_. []) \<Longrightarrow> as_header (m ++ new) = as_header new"
  by (auto simp: as_header_def fun_eq_iff map_add_def split: option.splits)

lemma copy_body_bytes:
  "copy_body \<lparr>wb_reads = map BodyBytes cs @ rs, wb_filter = f\<rparr> s =
     (case copy_body \<lparr>wb_reads = rs, wb_filter = f\<rparr> s of (n, ok, b, s') \<Rightarrow> (concat cs @ n, ok, b, s'))"
  by (induction cs)
    (simp_all add: copy_body.simps [of "\<lparr>wb_reads = BodyBytes _ # _, wb_filter = _\<rparr>"]
      trailerFilteringBody_Read_def split: prod.splits option.splits)

text \<open>The copy of a body that ends, and of one that breaks; the filter sees the map it was given.\<close>

lemma copy_body_end:
  "copy_body \<lparr>wb_reads = map BodyBytes cs @ BodyEnd c t # rs, wb_filter = Some (opts, r)\<rparr> s =
     (concat cs @ c, True, \<lparr>wb_reads = [], wb_filter = None\<rparr>,
      on_map (trailer_filter opts) r (case t of None \<Rightarrow> s | Some new \<Rightarrow> mergeSetHeader new s))"
  by (simp add: copy_body_bytes copy_body.simps [of "\<lparr>wb_reads = BodyEnd _ _ # _, wb_filter = _\<rparr>"]
      trailerFilteringBody_Read_def)

lemma copy_body_fail:
  "copy_body \<lparr>wb_reads = map BodyBytes cs @ BodyFail c # rs, wb_filter = Some (opts, r)\<rparr> s =
     (concat cs @ c, False, \<lparr>wb_reads = BodyFail [] # rs, wb_filter = None\<rparr>, on_map (trailer_filter opts) r s)"
  by (simp add: copy_body_bytes copy_body.simps [of "\<lparr>wb_reads = BodyFail _ # _, wb_filter = _\<rparr>"]
      trailerFilteringBody_Read_def)

lemma as_header_first_filter: "as_header (trailer_filter opts (declared_trailer names)) = (\<lambda>_. [])"
  by (simp add: as_header_filter as_header_declared filterTrailers_nothing)

lemmas relay_defs = relay_trailers_def message_heap_def filterTrailers_body_def write_message_def Let_def
  read_map_def on_map_def mergeSetHeader_def copy_body_end copy_body_fail

definition trailer_behind :: "trailer_map option \<Rightarrow> header" where
  "trailer_behind t = (case t of None \<Rightarrow> (\<lambda>_. []) | Some new \<Rightarrow> as_header new)"

section \<open>Properties\<close>

text \<open>C35: The trailer of a relayed message is filtered in both places where it could leak: the names
  announced are the declared ones without the hop-by-hop names and the options of the message, and the
  values written after the body are \<open>filterTrailers\<close> of what stood behind the body, whether declared or
  not.  A message that declared no trailer gets none, a broken body is followed by none, and the body
  passes through the filter unchanged however it is cut into reads.\<close>

theorem trailers_filtered_twice:
  "relay_trailers opts (Some names) (Some (map BodyBytes cs @ BodyEnd c t # rs)) =
      \<lparr>sm_announced = CanonicalKey ` set names - set hopByHopHeaders - CanonicalKey ` set opts,
       sm_body = concat cs @ c, sm_trailer = Some (filterTrailers opts (trailer_behind t))\<rparr> \<and>
    relay_trailers opts (Some names) (Some (map BodyBytes cs @ BodyFail c # rs)) =
      \<lparr>sm_announced = CanonicalKey ` set names - set hopByHopHeaders - CanonicalKey ` set opts,
       sm_body = concat cs @ c, sm_trailer = None\<rparr> \<and>
    relay_trailers opts None (Some (map BodyBytes cs @ BodyEnd c t # rs)) =
      \<lparr>sm_announced = {}, sm_body = concat cs @ c, sm_trailer = Some (\<lambda>_. [])\<rparr>"
proof (intro conjI)
  have merged: "as_header (trailer_filter opts (declared_trailer names) ++ new) = as_header new" for new
    by (rule as_header_merge) (rule as_header_first_filter)
  show "relay_trailers opts (Some names) (Some (map BodyBytes cs @ BodyEnd c t # rs)) =
      \<lparr>sm_announced = CanonicalKey ` set names - set hopByHopHeaders - CanonicalKey ` set opts,
       sm_body = concat cs @ c, sm_trailer = Some (filterTrailers opts (trailer_behind t))\<rparr>"
    by (cases t) (simp_all add: relay_defs dom_filtered_declaration as_header_filter merged trailer_behind_def
        as_header_declared filterTrailers_nothing)
  show "relay_trailers opts (Some names) (Some (map BodyBytes cs @ BodyFail c # rs)) =
      \<lparr>sm_announced = CanonicalKey ` set names - set hopByHopHeaders - CanonicalKey ` set opts,
       sm_body = concat cs @ c, sm_trailer = None\<rparr>"
    by (simp add: relay_defs dom_filtered_declaration)
  show "relay_trailers opts None (Some (map BodyBytes cs @ BodyEnd c t # rs)) =
      \<lparr>sm_announced = {}, sm_body = concat cs @ c, sm_trailer = Some (\<lambda>_. [])\<rparr>"
    by (cases t) (simp_all add: relay_defs)
qed

end
