(* ===== verification/Go_Duration.thy ===== *)
theory Go_Duration
  imports Go_Flags
begin

text \<open>
  How durations are printed: \<open>time.Duration.String\<close> and \<open>Duration.Round\<close>, which the effective
  configuration (main.go), the status line (signals_unix.go) and the text report of the load test
  (cmd/loadtest/main.go) use.  A duration is an integer in the range of \<open>int64\<close>.  The main fact is that
  \<open>ParseDuration\<close> reads every printed duration back.
\<close>

section \<open>Printing\<close>

text \<open>\<open>fmtFrac\<close>: the last \<open>prec\<close> digits without trailing zeros behind a point, and what is left
  of them; the buffer is filled from its end.\<close>

fun fmtFrac :: "nat \<Rightarrow> nat \<Rightarrow> bool \<Rightarrow> string \<Rightarrow> string \<times> nat" where
  "fmtFrac v 0 print buf = ((if print then CHR ''.'' # buf else buf), v)"
| "fmtFrac v (Suc prec) print buf =
     (let digit = v mod 10; print' = (print \<or> digit \<noteq> 0) in
      fmtFrac (v div 10) prec print' (if print' then digit_char digit # buf else buf))"

definition duration_text :: "nat \<Rightarrow> string" where
  "duration_text u =
     (if u < 1000000000 then
        (if u = 0 then ''0s''
         else if u < 1000 then show_nat u @ ''ns''
         else if u < 1000000 then
           (case fmtFrac u 3 False [] of (f, v) \<Rightarrow> show_nat v @ f @ [CHR 0xC2, CHR 0xB5, CHR ''s''])
         else (case fmtFrac u 6 False [] of (f, v) \<Rightarrow> show_nat v @ f @ ''ms''))
      else
        (case fmtFrac u 9 False [] of (f, v) \<Rightarrow>
           (let s = show_nat (v mod 60) @ f @ ''s''; m = v div 60 in
            if m = 0 then s
            else (let ms = show_nat (m mod 60) @ ''m'' @ s; h = m div 60 in
                  if h = 0 then ms else show_nat h @ ''h'' @ ms))))"

definition Duration_String :: "int \<Rightarrow> string" where
  "Duration_String d = (if d < 0 then ''-'' @ duration_text (nat (- d)) else duration_text (nat d))"

text \<open>\<open>Round\<close> to a multiple of \<open>m\<close>, halves away from zero, saturating at the ends of \<open>int64\<close>.\<close>

definition Duration_Round :: "int \<Rightarrow> int \<Rightarrow> int" where
  "Duration_Round d m =
     (if m \<le> 0 then d
      else if d < 0 then
        (let r = (- d) mod m in
         if r + r < m then d + r
         else (let d1 = d - m + r in if - (2 ^ 63) \<le> d1 then d1 else - (2 ^ 63)))
      else
        (let r = d mod m in
         if r + r < m then d - r
         else (let d1 = d + m - r in if d1 < 2 ^ 63 then d1 else 2 ^ 63 - 1)))"

section \<open>Reading digits back\<close>

definition digits_value :: "string \<Rightarrow> int" where
  "digits_value ds = foldl (\<lambda>acc c. acc * 10 + digit_value c) 0 ds"

abbreviation no_digit :: "string \<Rightarrow> bool" where
  "no_digit r \<equiv> r = [] \<or> \<not> is_digit (hd r)"

lemma of_char_digit_char: "d < 10 \<Longrightarrow> (of_char (digit_char d) :: int) = 48 + int d"
proof -
  assume "d < 10"
  then have "int (of_char (digit_char d) :: nat) = 48 + int d" by (simp add: digit_char_def)
  then show ?thesis by (simp only: of_nat_of_char)
qed

lemma is_digit_digit_char [simp]: "d < 10 \<Longrightarrow> is_digit (digit_char d)"
  by (simp add: is_digit_def of_char_digit_char)

lemma digit_value_digit_char [simp]: "d < 10 \<Longrightarrow> digit_value (digit_char d) = int d"
  by (simp add: digit_value_def of_char_digit_char)

lemma digits_value_snoc [simp]: "digits_value (ds @ [c]) = digits_value ds * 10 + digit_value c"
  by (simp add: digits_value_def)

lemma digits_value_Nil [simp]: "digits_value [] = 0"
  by (simp add: digits_value_def)

lemma show_nat_digits: "list_all is_digit (show_nat n) \<and> show_nat n \<noteq> [] \<and> digits_value (show_nat n) = int n"
proof (induction n rule: show_nat.induct)
  case (1 n)
  show ?case
  proof (cases "n < 10")
    case True
    then show ?thesis by (simp add: show_nat.simps [of n] digits_value_def)
  next
    case False
    have "int (n div 10) * 10 + int (n mod 10) = int n" by (simp add: zdiv_int zmod_int)
    with False 1 show ?thesis by (simp add: show_nat.simps [of n])
  qed
qed

lemma leadingInt_digits:
  "list_all is_digit ds \<Longrightarrow> no_digit r \<Longrightarrow>
   leadingInt acc (ds @ r) = (foldl (\<lambda>acc c. acc * 10 + digit_value c) acc ds, r)"
proof (induction ds arbitrary: acc)
  case Nil
  then show ?case by (cases r) auto
qed simp

lemma leadingInt_show: "no_digit r \<Longrightarrow> leadingInt 0 (show_nat n @ r) = (int n, r)"
  using leadingInt_digits [of "show_nat n" r 0] show_nat_digits [of n] by (simp add: digits_value_def)

lemma digit_value_bounds: "is_digit c \<Longrightarrow> 0 \<le> digit_value c \<and> digit_value c \<le> 9"
  by (simp add: is_digit_def digit_value_def)

text \<open>Up to eighteen digits cannot overflow.\<close>

lemma leadingFraction_digits:
  assumes "list_all is_digit ds" "no_digit r" "0 \<le> acc" "acc < 10 ^ k" "k + length ds \<le> 18"
  shows "leadingFraction acc scale False (ds @ r) =
    (foldl (\<lambda>acc c. acc * 10 + digit_value c) acc ds, scale * 10 ^ length ds, r)"
  using assms
proof (induction ds arbitrary: acc scale k)
  case Nil
  then show ?case by (cases r) auto
next
  case (Cons c ds)
  have c: "0 \<le> digit_value c" "digit_value c \<le> 9" using Cons.prems digit_value_bounds by auto
  have y: "acc * 10 + digit_value c < 10 ^ Suc k" using Cons.prems(4) c by simp
  have "(10 :: int) ^ k \<le> 10 ^ 17" using Cons.prems by (intro power_increasing) auto
  then have "acc < 10 ^ 17" using Cons.prems(4) by linarith
  then have b: "acc \<le> (2 ^ 63 - 1) div 10" "acc * 10 + digit_value c \<le> 2 ^ 63" using c by auto
  have "leadingFraction (acc * 10 + digit_value c) (scale * 10) False (ds @ r) =
      (foldl (\<lambda>acc c. acc * 10 + digit_value c) (acc * 10 + digit_value c) ds, scale * 10 * 10 ^ length ds, r)"
    by (rule Cons.IH [of _ "Suc k"]) (use Cons.prems c y in auto)
  then show ?case using b Cons.prems by (simp add: Let_def)
qed

lemma mod_power_Suc: "v mod 10 ^ Suc p = 10 * (v div 10 mod 10 ^ p) + v mod (10 :: nat)"
  by (simp add: mod_mult2_eq)

text \<open>What \<open>fmtFrac\<close> puts before the buffer: digits whose value, scaled to \<open>prec\<close> digits, are the
  last \<open>prec\<close> digits of the number.\<close>

lemma fmtFrac_digits:
  assumes "print \<or> buf = []"
  shows "\<exists>ds. list_all is_digit ds \<and> length ds \<le> prec \<and> (print \<longrightarrow> length ds = prec) \<and>
     fmtFrac v prec print buf = ((if print \<or> ds \<noteq> [] then CHR ''.'' # ds @ buf else []), v div 10 ^ prec) \<and>
     digits_value ds * 10 ^ (prec - length ds) = int (v mod 10 ^ prec)"
  using assms
proof (induction prec arbitrary: v print buf)
  case 0
  then show ?case by (intro exI [of _ "[]"]) auto
next
  case (Suc prec)
  define print' where "print' \<longleftrightarrow> print \<or> v mod 10 \<noteq> 0"
  define buf' where "buf' = (if print' then digit_char (v mod 10) # buf else buf)"
  have step: "fmtFrac v (Suc prec) print buf = fmtFrac (v div 10) prec print' buf'"
    by (simp add: print'_def buf'_def Let_def)
  have "print' \<or> buf' = []" using Suc.prems by (auto simp: buf'_def print'_def)
  from Suc.IH [OF this, of "v div 10"] obtain ds where ds: "list_all is_digit ds" "length ds \<le> prec"
      "print' \<longrightarrow> length ds = prec"
      "fmtFrac (v div 10) prec print' buf' =
        ((if print' \<or> ds \<noteq> [] then CHR ''.'' # ds @ buf' else []), v div 10 div 10 ^ prec)"
      "digits_value ds * 10 ^ (prec - length ds) = int (v div 10 mod 10 ^ prec)" by blast
  have dv: "v div 10 div 10 ^ prec = v div 10 ^ Suc prec" by (simp add: div_mult2_eq)
  show ?case
  proof (cases print')
    case True
    then have "digits_value (ds @ [digit_char (v mod 10)]) = int (v mod 10 ^ Suc prec)"
      using ds by (simp add: mod_power_Suc del: power_Suc)
    then show ?thesis using True ds step dv Suc.prems
      by (intro exI [of _ "ds @ [digit_char (v mod 10)]"]) (auto simp: buf'_def simp del: power_Suc)
  next
    case False
    then have z: "v mod 10 = 0" "\<not> print" "buf = []" using Suc.prems by (auto simp: print'_def)
    have "digits_value ds * 10 ^ (Suc prec - length ds) = int (v mod 10 ^ Suc prec)"
      using ds z by (simp add: mod_power_Suc Suc_diff_le del: power_Suc) simp
    then show ?thesis using False z ds step dv
      by (intro exI [of _ ds]) (auto simp: buf'_def simp del: power_Suc)
  qed
qed

section \<open>Reading durations back\<close>

text \<open>The units the printer writes.\<close>

definition printed_unit :: "string \<Rightarrow> int \<Rightarrow> bool" where
  "printed_unit w unit \<longleftrightarrow> map_of unitMap w = Some unit \<and> w \<noteq> [] \<and> list_all is_unit_char w \<and> 0 < unit"

lemma printed_units:
  "printed_unit ''ns'' 1" "printed_unit [CHR 0xC2, CHR 0xB5, CHR ''s''] 1000" "printed_unit ''ms'' 1000000"
  "printed_unit ''s'' 1000000000" "printed_unit ''m'' 60000000000" "printed_unit ''h'' 3600000000000"
  by code_simp+

lemma cut_unit:
  assumes "list_all is_unit_char w" "rest = [] \<or> is_digit (hd rest)"
  shows "takeWhile is_unit_char (w @ rest) = w \<and> dropWhile is_unit_char (w @ rest) = rest"
proof -
  have "takeWhile is_unit_char rest = [] \<and> dropWhile is_unit_char rest = rest"
    using assms(2) by (cases rest) (auto simp: is_unit_char_def)
  moreover have "\<forall>c\<in>set w. is_unit_char c" using assms(1) by (simp add: list_all_iff)
  ultimately show ?thesis by (simp add: takeWhile_append2 dropWhile_append2)
qed

lemma show_nat_hd: "is_digit (hd (show_nat v @ r))"
  using show_nat_digits [of v] by (cases "show_nat v") auto

text \<open>One printed component: digits, perhaps a point and more digits, and a unit.\<close>

lemma duration_component_printed:
  assumes w: "printed_unit w unit" and rest: "rest = [] \<or> is_digit (hd rest)"
    and f: "f = [] \<and> ds = [] \<or> f = CHR ''.'' # ds" and ds: "list_all is_digit ds" "length ds \<le> 18"
    and bound: "int v * unit + digits_value ds * unit div 10 ^ length ds \<le> 2 ^ 63" and pos: "0 \<le> digits_value ds"
  shows "duration_component (show_nat v @ f @ w @ rest) =
    Some (int v * unit + digits_value ds * unit div 10 ^ length ds, rest)"
proof -
  note u = w [unfolded printed_unit_def]
  have wc: "no_digit (w @ rest)" "hd (w @ rest) \<noteq> CHR ''.''" "w @ rest \<noteq> []"
    using u by (cases w; auto simp: is_unit_char_def)+
  have fr: "leadingFraction 0 1 False (ds @ w @ rest) = (digits_value ds, 10 ^ length ds, w @ rest)"
    using leadingFraction_digits [of ds "w @ rest" 0 0 1] ds wc by (simp add: digits_value_def)
  have li: "leadingInt 0 (show_nat v @ f @ w @ rest) = (int v, f @ w @ rest)"
    using f wc by (intro leadingInt_show) (auto simp: is_digit_def)
  have vb: "int v * unit \<le> 2 ^ 63" using bound pos u by (smt (verit) pos_imp_zdiv_nonneg_iff mult_nonneg_nonneg zero_less_power)
  then have "int v * unit div unit \<le> 2 ^ 63 div unit" using u by (intro zdiv_mono1) auto
  then have "int v \<le> 2 ^ 63 div unit" using u by simp
  moreover have "int v \<le> int v * unit" using u by (simp add: mult_le_cancel_left1)
  then have "int v \<le> 2 ^ 63" using vb by linarith
  moreover have "show_nat v \<noteq> []" using show_nat_digits by blast
  ultimately show ?thesis
    using f u cut_unit [OF _ rest, of w] bound wc fr li show_nat_hd [of v]
    by (auto simp: duration_component_def Let_def)
qed

lemma duration_component_whole:
  assumes "printed_unit w unit" "rest = [] \<or> is_digit (hd rest)" "int v * unit \<le> 2 ^ 63"
  shows "duration_component (show_nat v @ w @ rest) = Some (int v * unit, rest)"
  using duration_component_printed [OF assms(1,2), of "[]" "[]" v] assms(3) by simp

lemma duration_component_frac:
  assumes f: "fmtFrac u p False [] = (f, v)" and w: "printed_unit w (10 ^ p)" and rest: "rest = [] \<or> is_digit (hd rest)"
    and p: "p \<le> 9" and bound: "int v' * 10 ^ p + int (u mod 10 ^ p) \<le> 2 ^ 63"
  shows "duration_component (show_nat v' @ f @ w @ rest) = Some (int v' * 10 ^ p + int (u mod 10 ^ p), rest)"
proof -
  from fmtFrac_digits [of False "[]" p u] obtain ds where ds: "list_all is_digit ds" "length ds \<le> p"
      "fmtFrac u p False [] = ((if ds \<noteq> [] then CHR ''.'' # ds else []), u div 10 ^ p)"
      "digits_value ds * 10 ^ (p - length ds) = int (u mod 10 ^ p)" by auto
  have "digits_value ds * 10 ^ p = int (u mod 10 ^ p) * 10 ^ length ds"
    using ds by (metis le_add_diff_inverse2 mult.assoc power_add)
  then have val: "digits_value ds * 10 ^ p div 10 ^ length ds = int (u mod 10 ^ p)" by simp
  have "0 \<le> digits_value ds * 10 ^ (p - length ds)" unfolding ds(4) by simp
  moreover have "(0 :: int) < 10 ^ (p - length ds)" by simp
  ultimately have pos: "0 \<le> digits_value ds" by (simp only: zero_le_mult_iff) linarith
  have fd: "f = [] \<and> ds = [] \<or> f = CHR ''.'' # ds" using f ds(3) by (auto split: if_splits)
  show ?thesis
    using duration_component_printed [OF w rest fd ds(1), of v'] ds(2) p bound pos unfolding val by simp
qed

lemma fmtFrac_rest: "fmtFrac u p False [] = (f, v) \<Longrightarrow> v = u div 10 ^ p"
  using fmtFrac_digits [of False "[]" p u] by auto

lemma duration_sum_component:
  "duration_component s = Some (v, r) \<Longrightarrow> d + v \<le> 2 ^ 63 \<Longrightarrow> duration_sum d s = duration_sum (d + v) r"
proof -
  assume a: "duration_component s = Some (v, r)" and b: "d + v \<le> 2 ^ 63"
  have "s \<noteq> []" using a by (auto simp: duration_component_def)
  then show ?thesis using a b by (simp add: duration_sum.simps [of d s])
qed

lemma duration_sum_end [simp]: "duration_sum d [] = Some d"
  by (simp add: duration_sum.simps)

text \<open>Hours, minutes and seconds add up to the duration.\<close>

lemma clock_split:
  fixes u :: nat
  shows "int (u div 1000000000 div 60 div 60) * 3600000000000 + int (u div 1000000000 div 60 mod 60) * 60000000000 +
    (int (u div 1000000000 mod 60) * 1000000000 + int (u mod 1000000000)) = int u"
proof -
  have "u = u div 1000000000 * 1000000000 + u mod 1000000000" by simp
  moreover have "u div 1000000000 = u div 1000000000 div 60 * 60 + u div 1000000000 mod 60" by simp
  moreover have "u div 1000000000 div 60 = u div 1000000000 div 60 div 60 * 60 + u div 1000000000 div 60 mod 60" by simp
  ultimately show ?thesis by linarith
qed

lemma duration_sum_clock:
  assumes "1000000000 \<le> u" and u: "int u \<le> 2 ^ 63"
  shows "duration_sum 0 (duration_text u) = Some (int u)"
proof -
  obtain f v where f: "fmtFrac u 9 False [] = (f, v)" by force
  then have v: "v = u div 1000000000" using fmtFrac_rest [OF f] by simp
  define S where "S = int (v mod 60) * 1000000000 + int (u mod 1000000000)"
  define M where "M = int (v div 60 mod 60) * 60000000000"
  define H where "H = int (v div 60 div 60) * 3600000000000"
  define s where "s = show_nat (v mod 60) @ f @ ''s''"
  have sum: "H + M + S = int u" using clock_split [of u] by (simp add: v H_def M_def S_def)
  have nonneg: "0 \<le> H" "0 \<le> M" "0 \<le> S" by (simp_all add: H_def M_def S_def)
  have "duration_component (show_nat (v mod 60) @ f @ ''s'' @ []) = Some (S, [])"
    using duration_component_frac [OF f, of "''s''" "[]" "v mod 60"] printed_units(4) sum nonneg u by (simp add: S_def)
  then have s: "duration_sum d s = Some (d + S)" if "d + S \<le> 2 ^ 63" for d
    using duration_sum_component that by (simp add: s_def)
  have sd: "is_digit (hd (s @ r))" for r by (simp add: s_def show_nat_hd)
  have "duration_component (show_nat (v div 60 mod 60) @ ''m'' @ s) = Some (M, s)"
    unfolding M_def by (rule duration_component_whole [OF printed_units(5)])
      (use sd [of "[]"] sum nonneg u in \<open>auto simp: M_def\<close>)
  then have m: "duration_sum d (show_nat (v div 60 mod 60) @ ''m'' @ s) = Some (d + M + S)" if "d + M + S \<le> 2 ^ 63" for d
    using duration_sum_component [of _ M s d] s [of "d + M"] that nonneg by simp
  have "duration_component (show_nat (v div 60 div 60) @ ''h'' @ show_nat (v div 60 mod 60) @ ''m'' @ s) =
      Some (H, show_nat (v div 60 mod 60) @ ''m'' @ s)"
    unfolding H_def by (rule duration_component_whole [OF printed_units(6)])
      (use show_nat_hd sum nonneg u in \<open>auto simp: H_def\<close>)
  then have h: "duration_sum 0 (show_nat (v div 60 div 60) @ ''h'' @ show_nat (v div 60 mod 60) @ ''m'' @ s) = Some (int u)"
    using duration_sum_component [of _ H _ 0] m [of H] sum nonneg u by simp
  have shown: "duration_text u =
      (if v div 60 = 0 then s else if v div 60 div 60 = 0 then show_nat (v div 60 mod 60) @ ''m'' @ s
       else show_nat (v div 60 div 60) @ ''h'' @ show_nat (v div 60 mod 60) @ ''m'' @ s)"
    using assms(1) f by (simp add: duration_text_def Let_def s_def)
  consider "v div 60 = 0" | "v div 60 \<noteq> 0" "v div 60 div 60 = 0" | "v div 60 div 60 \<noteq> 0" by auto
  then show ?thesis
  proof cases
    case 1
    then have "S = int u" using sum by (simp add: H_def M_def)
    then show ?thesis using shown 1 s [of 0] u by simp
  next
    case 2
    then have "M + S = int u" using sum by (simp add: H_def)
    then show ?thesis using shown 2 m [of 0] u by simp
  next
    case 3
    then show ?thesis using shown h by fastforce
  qed
qed

lemma duration_sum_text:
  assumes u: "int u \<le> 2 ^ 63"
  shows "duration_sum 0 (duration_text u) = Some (int u)"
proof -
  have one: ?thesis if "duration_component (duration_text u) = Some (int u, [])"
    using duration_sum_component [OF that, of 0] u by simp
  have small: "duration_component (show_nat v @ f @ w @ []) = Some (int u, [])"
    if "fmtFrac u p False [] = (f, v)" "printed_unit w (10 ^ p)" "p \<le> 9" for p f v w
  proof -
    have v: "int v * 10 ^ p + int (u mod 10 ^ p) = int u"
      unfolding fmtFrac_rest [OF that(1)]
      using arg_cong [OF div_mult_mod_eq [of u "10 ^ p"], of int]
      by (simp only: of_nat_add of_nat_mult of_nat_power of_nat_numeral)
    have "duration_component (show_nat v @ f @ w @ []) = Some (int v * 10 ^ p + int (u mod 10 ^ p), [])"
      by (rule duration_component_frac [OF that(1,2) _ that(3)]) (simp_all only: v u simp_thms)
    then show ?thesis by (simp only: v)
  qed
  consider "u = 0" | "0 < u" "u < 1000" | "1000 \<le> u" "u < 1000000" | "1000000 \<le> u" "u < 1000000000" | "1000000000 \<le> u"
    by linarith
  then show ?thesis
  proof cases
    case 1
    have "duration_component ''0s'' = Some (0, [])" by code_simp
    then show ?thesis using one 1 by (simp add: duration_text_def)
  next
    case 2
    then show ?thesis
      using one duration_component_whole [OF printed_units(1), of "[]" u] u by (simp add: duration_text_def)
  next
    case 3
    obtain f v where f: "fmtFrac u 3 False [] = (f, v)" by force
    show ?thesis
      using one small [OF f, of "[CHR 0xC2, CHR 0xB5, CHR ''s'']"] printed_units(2) 3 f by (simp add: duration_text_def)
  next
    case 4
    obtain f v where f: "fmtFrac u 6 False [] = (f, v)" by force
    show ?thesis using one small [OF f, of "''ms''"] printed_units(3) 4 f by (simp add: duration_text_def)
  next
    case 5
    show ?thesis by (rule duration_sum_clock [OF 5 u])
  qed
qed

lemma is_digit_0: "is_digit CHR ''0''"
  by (simp add: is_digit_def)

lemma duration_text_shape: "duration_text u \<noteq> [] \<and> is_digit (hd (duration_text u)) \<and> last (duration_text u) = CHR ''s''"
proof -
  have d: "is_digit (hd (show_nat v @ r))" and n: "show_nat v \<noteq> []" for v r
    using show_nat_hd show_nat_digits by blast+
  show ?thesis
    using d by (auto simp: duration_text_def Let_def n is_digit_0 split: prod.splits simp del: fmtFrac.simps)
qed

text \<open>\<open>ParseDuration\<close> reads back what \<open>String\<close> prints, for every duration there is.\<close>

lemma ParseDuration_String: "ParseDuration (Duration_String (sint d)) = Some d" for d :: i64
proof (cases "sint d < 0")
  case True
  let ?t = "duration_text (nat (- sint d))"
  have "duration_sum 0 ?t = Some (- sint d)" using duration_sum_text [of "nat (- sint d)"] True sint_i64_range [of d] by simp
  then show ?thesis
    using True duration_text_shape [of "nat (- sint d)"] by (auto simp: Duration_String_def ParseDuration_def Let_def)
next
  case False
  let ?t = "duration_text (nat (sint d))"
  have sum: "duration_sum 0 ?t = Some (sint d)" using duration_sum_text [of "nat (sint d)"] False sint_i64_range [of d] by simp
  have "take 1 ?t \<noteq> ''-'' \<and> take 1 ?t \<noteq> ''+''"
    using duration_text_shape [of "nat (sint d)"] by (cases ?t) (auto simp: is_digit_def)
  moreover have "?t \<noteq> ''0''" using duration_text_shape [of "nat (sint d)"] by auto
  ultimately show ?thesis
    using False sum duration_text_shape [of "nat (sint d)"] sint_i64_range [of d]
    by (auto simp: Duration_String_def ParseDuration_def Let_def)
qed

text \<open>\<open>Round\<close> moves a duration by at most half a unit, also where it saturates.\<close>

lemma Duration_Round_close:
  assumes "0 < m" "- (2 ^ 63) \<le> d" "d < 2 ^ 63"
  shows "2 * \<bar>Duration_Round d m - d\<bar> \<le> m"
proof -
  define p n where "p = d mod m" and "n = (- d) mod m"
  have "0 \<le> p" "p < m" "0 \<le> n" "n < m" using assms(1) by (simp_all add: p_def n_def)
  then show ?thesis using assms unfolding Duration_Round_def Let_def p_def [symmetric] n_def [symmetric] by auto
qed

end
