(* ===== verification/Cli_Summary.thy ===== *)
theory Cli_Summary
  imports Config_Model Go_Duration Net_IP
begin

text \<open>
  The line in which the forward command shows the options in force, \<open>options.String\<close> of main.go: what
  it prints is what was set, so the line can be read back (durations by theory \<open>Go_Duration\<close>).
\<close>

section \<open>options.String\<close>

definition show_bool :: "bool \<Rightarrow> string" where
  "show_bool b = (if b then ''true'' else ''false'')"

definition options_String :: "options \<Rightarrow> string" where
  "options_String opt =
     (let listen = JoinHostPort (o_listenHost opt) (Itoa (o_listenPort opt)) in
      ''mode='' @ o_mode opt @ '' proto='' @ o_proto opt @ '' listen='' @ listen @ '' target='' @ o_target opt @
      '' reuseaddr='' @ show_bool (o_reuseAddr opt) @
      '' dial-timeout='' @ Duration_String (sint (o_dialTimeout opt)) @ '' max-conns='' @ Itoa (o_maxConns opt) @
      '' idle-timeout='' @ Duration_String (sint (o_idleTimeout opt)) @ '' log-level='' @ o_logLevel opt @
      '' quiet='' @ show_bool (o_quiet opt) @ '' sudo='' @ show_bool (o_useSudo opt))"

section \<open>Reading the line\<close>

text \<open>The words of a line as pairs of what stands before and behind the first \<open>=\<close>.\<close>

definition line_fields :: "string \<Rightarrow> (string \<times> string) list" where
  "line_fields line =
     map (\<lambda>w. (takeWhile (\<lambda>c. c \<noteq> CHR ''='') w, drop 1 (dropWhile (\<lambda>c. c \<noteq> CHR ''='') w))) (SplitByte CHR '' '' line)"

lemma no_space_show_nat: "CHR '' '' \<notin> set (show_nat n)"
  by (rule show_nat_not_in, rule digit_char_not, simp_all)

lemma no_space_Itoa: "CHR '' '' \<notin> set (Itoa i)"
  by (simp add: Itoa_def no_space_show_nat)

lemma no_space_fmtFrac: "CHR '' '' \<notin> set buf \<Longrightarrow> CHR '' '' \<notin> set (fst (fmtFrac v p print buf))"
proof (induction v p print buf rule: fmtFrac.induct)
  case (2 v prec print buf)
  have "digit_char (v mod 10) \<noteq> CHR '' ''" by (rule digit_char_not) simp_all
  then show ?case using 2 by (auto simp: Let_def)
qed simp

lemma no_space_duration: "CHR '' '' \<notin> set (Duration_String d)"
proof -
  have f: "CHR '' '' \<notin> set f" if "(f, v) = fmtFrac u p False []" for u p f v
    using no_space_fmtFrac [of "[]" u p False] arg_cong [OF that, of fst] by simp
  have "CHR '' '' \<notin> set (duration_text u)" for u
    by (auto simp: duration_text_def Let_def no_space_show_nat split: prod.splits simp del: fmtFrac.simps dest: f)
  then show ?thesis by (simp add: Duration_String_def)
qed

lemma no_space_show_bool: "CHR '' '' \<notin> set (show_bool b)"
  by (simp add: show_bool_def)

lemma ParseBool_show: "ParseBool (show_bool b) = Some b"
  by (simp add: ParseBool_def show_bool_def)

lemma no_space_JoinHostPort:
  "CHR '' '' \<notin> set h \<Longrightarrow> CHR '' '' \<notin> set p \<Longrightarrow> CHR '' '' \<notin> set (JoinHostPort h p)"
  by (simp add: JoinHostPort_def)

text \<open>Integers are read back by the parser of the flags, which takes a leading zero for an octal prefix.\<close>

lemma parse_digits_decimal:
  "list_all is_digit ds \<Longrightarrow> parse_digits 10 acc ds = Some (foldl (\<lambda>acc c. acc * 10 + digit_value c) acc ds)"
proof (induction ds arbitrary: acc)
  case (Cons c ds)
  then show ?case using digit_value_bounds [of c] by (auto simp: base_digit_def is_digit_def)
qed simp

lemma show_nat_first: "0 < n \<Longrightarrow> take 1 (show_nat n) \<noteq> ''0''"
proof (induction n rule: show_nat.induct)
  case (1 n)
  show ?case
  proof (cases "n < 10")
    case True
    have "digit_char n \<noteq> CHR ''0''" if "0 < n" using digit_value_digit_char [OF True] that by (auto simp: digit_value_def)
    then show ?thesis using True 1 by (simp add: show_nat.simps [of n])
  next
    case False
    have "take 1 (show_nat n) = take 1 (show_nat (n div 10))"
      using False show_nat_digits [of "n div 10"] by (cases "show_nat (n div 10)") (simp_all add: show_nat.simps [of n])
    then show ?thesis using False 1 by simp
  qed
qed

lemma ParseUint_show: "ParseUint (show_nat n) = Some (int n)"
proof (cases "n = 0")
  case True
  have "ParseUint ''0'' = Some 0" by code_simp
  moreover have "show_nat 0 = ''0''" by code_simp
  ultimately show ?thesis using True by simp
next
  case False
  then have "base_prefix (show_nat n) = (10, show_nat n, False)" using show_nat_first by (simp add: base_prefix_def)
  moreover have "CHR ''_'' \<notin> set (show_nat n)" by (rule show_nat_not_in, rule digit_char_not, simp_all)
  ultimately show ?thesis
    using show_nat_digits [of n] by (simp add: ParseUint_def parse_digits_decimal digits_value_def)
qed

lemma ParseInt_Itoa:
  assumes "- (2 ^ 63) \<le> i" "i < 2 ^ 63"
  shows "ParseInt (Itoa i) = Some i"
proof (cases "i < 0")
  case True
  then show ?thesis using assms by (simp add: Itoa_def ParseInt_def ParseUint_show)
next
  case False
  have "take 1 (show_nat n) \<noteq> ''-'' \<and> take 1 (show_nat n) \<noteq> ''+''" for n
    using show_nat_digits [of n] by (cases "show_nat n") (auto simp: is_digit_def)
  then show ?thesis using False assms by (simp add: Itoa_def ParseInt_def Let_def ParseUint_show)
qed

section \<open>Properties\<close>

text \<open>C21: The line of the effective configuration says exactly which options are in force: as long as no
  text among them holds a space, every field of the line is the text that was set, or is read back to the
  value that was set by the parser of the corresponding flag (durations, numbers, switches and the
  listening address).\<close>

theorem effective_config_line_reads_back:
  assumes "\<forall>t\<in>{o_mode opt, o_proto opt, o_listenHost opt, o_target opt, o_logLevel opt}. CHR '' '' \<notin> set t"
    and "- (2 ^ 63) \<le> o_maxConns opt" "o_maxConns opt < 2 ^ 63" "0 \<le> o_listenPort opt"
    and "CHR ''['' \<notin> set (o_listenHost opt)" "CHR '']'' \<notin> set (o_listenHost opt)"
  shows "map_of (line_fields (options_String opt)) ''mode'' = Some (o_mode opt) \<and>
    map_of (line_fields (options_String opt)) ''proto'' = Some (o_proto opt) \<and>
    map_option SplitHostPort (map_of (line_fields (options_String opt)) ''listen'') =
      Some (Inr (o_listenHost opt, Itoa (o_listenPort opt))) \<and>
    map_of (line_fields (options_String opt)) ''target'' = Some (o_target opt) \<and>
    Option.bind (map_of (line_fields (options_String opt)) ''reuseaddr'') ParseBool = Some (o_reuseAddr opt) \<and>
    Option.bind (map_of (line_fields (options_String opt)) ''dial-timeout'') ParseDuration = Some (o_dialTimeout opt) \<and>
    Option.bind (map_of (line_fields (options_String opt)) ''max-conns'') ParseInt = Some (o_maxConns opt) \<and>
    Option.bind (map_of (line_fields (options_String opt)) ''idle-timeout'') ParseDuration = Some (o_idleTimeout opt) \<and>
    map_of (line_fields (options_String opt)) ''log-level'' = Some (o_logLevel opt) \<and>
    Option.bind (map_of (line_fields (options_String opt)) ''quiet'') ParseBool = Some (o_quiet opt) \<and>
    Option.bind (map_of (line_fields (options_String opt)) ''sudo'') ParseBool = Some (o_useSudo opt)"
proof -
  have port: "Itoa (o_listenPort opt) = show_nat (nat (o_listenPort opt))" using assms(4) by (simp add: Itoa_def)
  have listen: "SplitHostPort (JoinHostPort (o_listenHost opt) (Itoa (o_listenPort opt))) =
      Inr (o_listenHost opt, Itoa (o_listenPort opt))"
    using assms(5,6) port by (intro SplitHostPort_JoinHostPort) simp_all
  have fields: "line_fields (options_String opt) =
      [(''mode'', o_mode opt), (''proto'', o_proto opt),
       (''listen'', JoinHostPort (o_listenHost opt) (Itoa (o_listenPort opt))), (''target'', o_target opt),
       (''reuseaddr'', show_bool (o_reuseAddr opt)), (''dial-timeout'', Duration_String (sint (o_dialTimeout opt))),
       (''max-conns'', Itoa (o_maxConns opt)), (''idle-timeout'', Duration_String (sint (o_idleTimeout opt))),
       (''log-level'', o_logLevel opt), (''quiet'', show_bool (o_quiet opt)), (''sudo'', show_bool (o_useSudo opt))]"
    using assms(1)
    by (simp add: options_String_def line_fields_def Let_def SplitByte_append SplitByte_single no_space_JoinHostPort
        no_space_Itoa no_space_duration no_space_show_bool)
  show ?thesis
    unfolding fields by (simp add: listen ParseBool_show ParseDuration_String ParseInt_Itoa [OF assms(2,3)])
qed

definition summary_example :: options where
  "summary_example =
     \<lparr>o_listenPort = 8080, o_listenHost = ''::1'', o_target = ''127.0.0.1:80'', o_mode = ''go'', o_proto = ''tcp'',
      o_reuseAddr = True, o_useSudo = False, o_dialTimeout = 1500000000, o_maxConns = 256, o_idleTimeout = 300000000000,
      o_logLevel = ''info'', o_quiet = False, o_showVersion = False, o_configPath = [], o_lang = [], o_statsAddr = [],
      o_webAddr = [], o_webLogMax = 0, o_webLogMaxSet = False\<rparr>"

lemma digit_chars:
  "digit_char 0 = CHR ''0''" "digit_char 1 = CHR ''1''" "digit_char 2 = CHR ''2''" "digit_char 3 = CHR ''3''"
  "digit_char 4 = CHR ''4''" "digit_char 5 = CHR ''5''" "digit_char 6 = CHR ''6''" "digit_char 7 = CHR ''7''"
  "digit_char 8 = CHR ''8''" "digit_char 9 = CHR ''9''" "digit_char (Suc 0) = CHR ''1''"
  by code_simp+

lemma fmtFrac_numeral:
  "fmtFrac v (numeral k) print buf =
     (let digit = v mod 10; print' = (print \<or> digit \<noteq> 0) in
      fmtFrac (v div 10) (pred_numeral k) print' (if print' then digit_char digit # buf else buf))"
  by (simp only: numeral_eq_Suc fmtFrac.simps)

lemma example_durations: "Duration_String 1500000000 = ''1.5s''" "Duration_String 300000000000 = ''5m0s''"
  by (simp_all add: Duration_String_def duration_text_def Let_def fmtFrac_numeral show_nat.simps digit_chars)

theorem effective_config_line_reads_back_witness:
  "options_String summary_example =
     ''mode=go proto=tcp listen=[::1]:8080 target=127.0.0.1:80 reuseaddr=true dial-timeout=1.5s max-conns=256 '' @
     ''idle-timeout=5m0s log-level=info quiet=false sudo=false'' \<and>
   Option.bind (map_of (line_fields (options_String summary_example)) ''dial-timeout'') ParseDuration = Some 1500000000"
proof
  show "options_String summary_example =
     ''mode=go proto=tcp listen=[::1]:8080 target=127.0.0.1:80 reuseaddr=true dial-timeout=1.5s max-conns=256 '' @
     ''idle-timeout=5m0s log-level=info quiet=false sudo=false''"
    by (simp add: options_String_def summary_example_def example_durations Let_def show_bool_def JoinHostPort_def
        Itoa_def show_nat.simps digit_chars)
  show "Option.bind (map_of (line_fields (options_String summary_example)) ''dial-timeout'') ParseDuration = Some 1500000000"
    using effective_config_line_reads_back [of summary_example] by (simp add: summary_example_def)
qed

end
