(* ===== verification/Cli_Options.thy ===== *)
theory Cli_Options
  imports Config_Model Upstream_Config "HOL-Library.Multiset"
begin

text \<open>
  The options of the two commands once they are merged, main.go: their validation, the defaults,
  the flags that stay global when a section has several instances, the key of a listener and the
  consolidation of the process-wide admin endpoints.  The locale \<open>consensus\<close> is the contract of
  that consolidation: every instance may declare a setting, and all that do must agree.
\<close>

section \<open>Errors and validation\<close>

datatype opt_err =
    ErrListenPort int | ErrTargetEmpty | ErrProto string | ErrMode string | ErrIdleNeg i64
  | ErrMaxConnsNeg int | ErrDialNeg i64 | ErrLogLevel string | ErrProxyHandshakeNeg i64

datatype conf_val = ConfStr string | ConfBool bool | ConfInt int

datatype cli_err =
    CliFlag flag_err | CliConfig cfg_err | CliOption opt_err | CliUpstream upstream_err
  | ErrUnknownSub string | ErrConfigSectionEmpty string | ErrMultiForwardMode string
  | ErrDuplicateListen string | ErrConflictingMultiOption string conf_val conf_val

definition defaultForwardMaxConns :: int where "defaultForwardMaxConns = 256"
definition defaultForwardIdleTimeout :: i64 where "defaultForwardIdleTimeout = 300000000000"

definition defaultForwardOptions :: options where
  "defaultForwardOptions =
     \<lparr>o_listenPort = 22, o_listenHost = [], o_target = ''127.0.0.1:2222'', o_mode = ''go'', o_proto = ''tcp'',
      o_reuseAddr = True, o_useSudo = False, o_dialTimeout = 10000000000,
      o_maxConns = defaultForwardMaxConns, o_idleTimeout = defaultForwardIdleTimeout,
      o_logLevel = ''info'', o_quiet = False, o_showVersion = False, o_configPath = [], o_lang = [],
      o_statsAddr = [], o_webAddr = [], o_webLogMax = 1000, o_webLogMaxSet = False\<rparr>"

definition validateForwardOptions :: "options \<Rightarrow> opt_err + options" where
  "validateForwardOptions opt =
     (if o_listenPort opt \<le> 0 \<or> 65535 < o_listenPort opt then Inl (ErrListenPort (o_listenPort opt))
      else if TrimSpace (o_target opt) = [] then Inl ErrTargetEmpty
      else
        (let proto = ToLower (TrimSpace (o_proto opt)) in
         if proto \<noteq> ''tcp'' \<and> proto \<noteq> ''udp'' then Inl (ErrProto (o_proto opt))
         else
           (let opt1 = opt\<lparr>o_proto := proto\<rparr> in
            if sint (o_idleTimeout opt1) < 0 then Inl (ErrIdleNeg (o_idleTimeout opt1))
            else if o_maxConns opt1 < 0 then Inl (ErrMaxConnsNeg (o_maxConns opt1))
            else if sint (o_dialTimeout opt1) < 0 then Inl (ErrDialNeg (o_dialTimeout opt1))
            else
              (let logLevel = ToLower (TrimSpace (o_logLevel opt1)) in
               if logLevel \<noteq> ''info'' \<and> logLevel \<noteq> ''debug'' then Inl (ErrLogLevel (o_logLevel opt1))
               else Inr (opt1\<lparr>o_logLevel := logLevel\<rparr>)))))"

definition normalizeForwardOptions :: "options \<Rightarrow> opt_err + options" where
  "normalizeForwardOptions opt =
     (if o_listenPort opt \<le> 0 \<or> 65535 < o_listenPort opt then Inl (ErrListenPort (o_listenPort opt))
      else if TrimSpace (o_target opt) = [] then Inl ErrTargetEmpty
      else
        (let proto = ToLower (TrimSpace (o_proto opt)) in
         if proto \<noteq> ''tcp'' \<and> proto \<noteq> ''udp'' then Inl (ErrProto (o_proto opt))
         else
           (let opt1 = opt\<lparr>o_proto := proto\<rparr>;
                mode = ToLower (TrimSpace (o_mode opt1)) in
            if mode \<noteq> ''go'' \<and> mode \<noteq> ''socat'' then Inl (ErrMode (o_mode opt1))
            else
              (let opt2 = opt1\<lparr>o_mode := mode\<rparr> in
               if sint (o_idleTimeout opt2) < 0 then Inl (ErrIdleNeg (o_idleTimeout opt2))
               else if o_maxConns opt2 < 0 then Inl (ErrMaxConnsNeg (o_maxConns opt2))
               else if sint (o_dialTimeout opt2) < 0 then Inl (ErrDialNeg (o_dialTimeout opt2))
               else
                 (let logLevel = ToLower (TrimSpace (o_logLevel opt2)) in
                  if logLevel \<noteq> ''info'' \<and> logLevel \<noteq> ''debug'' then Inl (ErrLogLevel (o_logLevel opt2))
                  else Inr (opt2\<lparr>o_logLevel := logLevel\<rparr>))))))"

definition forwardListenAddr :: "options \<Rightarrow> string" where
  "forwardListenAddr opt = JoinHostPort (o_listenHost opt) (Itoa (o_listenPort opt))"

definition forwardInstanceKey :: "options \<Rightarrow> string" where
  "forwardInstanceKey opt = o_proto opt @ ''://'' @ forwardListenAddr opt"

definition applyForwardGlobalFlags :: "options \<Rightarrow> options \<Rightarrow> string set \<Rightarrow> options" where
  "applyForwardGlobalFlags opt0 base flags =
     (let opt1 = (if ''stats-addr'' \<in> flags then opt0\<lparr>o_statsAddr := o_statsAddr base\<rparr> else opt0);
          opt2 = (if ''web-addr'' \<in> flags then opt1\<lparr>o_webAddr := o_webAddr base\<rparr> else opt1) in
      if ''web-log-max'' \<in> flags then opt2\<lparr>o_webLogMax := o_webLogMax base, o_webLogMaxSet := True\<rparr> else opt2)"

definition defaultProxyOptions :: proxyOptions where
  "defaultProxyOptions =
     \<lparr>p_addr = ''127.0.0.1:1080'', p_dialTimeout = 30000000000, p_maxConns = 256,
      p_handshakeTimeout = 10000000000, p_idleTimeout = 300000000000, p_allowPublic = False,
      p_upstream = [], p_upstreamIdentity = [], p_upstreamIdentityPassphrase = [],
      p_upstreamKnownHosts = [], p_upstreamInsecure = False, p_upstreamAgent = True,
      p_upstreamAgentSocket = [], p_upstreamKeepalive = 0, p_upstreamKeepaliveMaxFailures = 0,
      p_showVersion = False, p_configPath = [], p_lang = [], p_statsAddr = [],
      p_statsAllowPublic = False, p_webAddr = [], p_webAllowPublic = False, p_webLogMax = 1000,
      p_webLogMaxSet = False\<rparr>"

text \<open>\<open>None\<close> is a nil error.\<close>

definition validateProxyOptions :: "proxyOptions \<Rightarrow> opt_err option" where
  "validateProxyOptions opt =
     (if TrimSpace (p_addr opt) = [] then Some ErrTargetEmpty
      else if sint (p_dialTimeout opt) < 0 then Some (ErrDialNeg (p_dialTimeout opt))
      else if p_maxConns opt < 0 then Some (ErrMaxConnsNeg (p_maxConns opt))
      else if sint (p_handshakeTimeout opt) < 0 then Some (ErrProxyHandshakeNeg (p_handshakeTimeout opt))
      else if sint (p_idleTimeout opt) < 0 then Some (ErrIdleNeg (p_idleTimeout opt))
      else None)"

definition applyProxyAdminFlags :: "proxyOptions \<Rightarrow> proxyOptions \<Rightarrow> string set \<Rightarrow> proxyOptions" where
  "applyProxyAdminFlags opt0 base flags =
     (let opt1 = (if ''stats-addr'' \<in> flags then opt0\<lparr>p_statsAddr := p_statsAddr base\<rparr> else opt0);
          opt2 = (if ''stats-allow-public'' \<in> flags then opt1\<lparr>p_statsAllowPublic := p_statsAllowPublic base\<rparr> else opt1);
          opt3 = (if ''web-addr'' \<in> flags then opt2\<lparr>p_webAddr := p_webAddr base\<rparr> else opt2);
          opt4 = (if ''web-allow-public'' \<in> flags then opt3\<lparr>p_webAllowPublic := p_webAllowPublic base\<rparr> else opt3) in
      if ''web-log-max'' \<in> flags then opt4\<lparr>p_webLogMax := p_webLogMax base, p_webLogMaxSet := True\<rparr> else opt4)"

section \<open>The admin endpoints of several instances\<close>

record forwardAdminOptions =
  fa_statsAddr :: string
  fa_webAddr :: string
  fa_webLogMax :: int

text \<open>The capacity of the shared log: the value, whether one was declared, and a declaration that
  differs from the first.\<close>

record log_max_state =
  lm_value :: int
  lm_set :: bool
  lm_conflict :: "int option"

definition merge_log_max :: "log_max_state \<Rightarrow> bool \<Rightarrow> int \<Rightarrow> log_max_state" where
  "merge_log_max st declared v =
     (if declared then
        (if lm_set st \<and> lm_value st \<noteq> v then st\<lparr>lm_conflict := Some v\<rparr>
         else st\<lparr>lm_value := v, lm_set := True\<rparr>)
      else st)"

text \<open>\<open>addr\<close> is what the instances before declared; it is empty when none did.\<close>

definition merge_forward_addr :: "string \<Rightarrow> string \<Rightarrow> string \<Rightarrow> cli_err + string" where
  "merge_forward_addr name addr v =
     (let a = TrimSpace v in
      if a \<noteq> [] then
        (if addr \<noteq> [] \<and> addr \<noteq> a then Inl (ErrConflictingMultiOption name (ConfStr addr) (ConfStr a)) else Inr a)
      else Inr addr)"

fun collect_forward ::
  "string \<Rightarrow> string \<Rightarrow> log_max_state \<Rightarrow> options list \<Rightarrow> cli_err + (string \<times> string \<times> log_max_state)" where
  "collect_forward statsAddr webAddr lm [] = Inr (statsAddr, webAddr, lm)"
| "collect_forward statsAddr webAddr lm (opt # opts) =
     (case merge_forward_addr ''stats_addr'' statsAddr (o_statsAddr opt) of
        Inl e \<Rightarrow> Inl e
      | Inr s \<Rightarrow>
          (case merge_forward_addr ''web_addr'' webAddr (o_webAddr opt) of
             Inl e \<Rightarrow> Inl e
           | Inr w \<Rightarrow> collect_forward s w (merge_log_max lm (o_webLogMaxSet opt) (o_webLogMax opt)) opts))"

definition log_max_init :: log_max_state where
  "log_max_init = \<lparr>lm_value = 1000, lm_set = False, lm_conflict = None\<rparr>"

definition collectForwardAdminOptions :: "options list \<Rightarrow> cli_err + forwardAdminOptions" where
  "collectForwardAdminOptions instances =
     (case collect_forward [] [] log_max_init instances of
        Inl e \<Rightarrow> Inl e
      | Inr (statsAddr, webAddr, lm) \<Rightarrow>
          (case lm_conflict lm of
             Some c \<Rightarrow>
               if webAddr \<noteq> []
               then Inl (ErrConflictingMultiOption ''web_log_max'' (ConfInt (lm_value lm)) (ConfInt c))
               else Inr \<lparr>fa_statsAddr = statsAddr, fa_webAddr = webAddr, fa_webLogMax = lm_value lm\<rparr>
           | None \<Rightarrow> Inr \<lparr>fa_statsAddr = statsAddr, fa_webAddr = webAddr, fa_webLogMax = lm_value lm\<rparr>))"

record proxyAdminOptions =
  pa_statsAddr :: string
  pa_statsAllowPublic :: bool
  pa_webAddr :: string
  pa_webAllowPublic :: bool
  pa_webLogMax :: int

text \<open>The three variables one endpoint is merged into: address, public, configured.\<close>

definition mergeProxyAdminEndpoint ::
  "string \<times> bool \<times> bool \<Rightarrow> string \<Rightarrow> bool \<Rightarrow> string \<Rightarrow> cli_err + string \<times> bool \<times> bool" where
  "mergeProxyAdminEndpoint st value0 allow name =
     (case st of (addr, public, configured) \<Rightarrow>
        (let value = TrimSpace value0 in
         if value = [] then Inr st
         else if configured \<and> addr \<noteq> value
         then Inl (ErrConflictingMultiOption (name @ ''_addr'') (ConfStr addr) (ConfStr value))
         else if configured \<and> public \<noteq> allow
         then Inl (ErrConflictingMultiOption (name @ ''_allow_public'') (ConfBool public) (ConfBool allow))
         else Inr (value, allow, True)))"

fun collect_proxy ::
  "string \<times> bool \<times> bool \<Rightarrow> string \<times> bool \<times> bool \<Rightarrow> log_max_state \<Rightarrow> proxyOptions list \<Rightarrow>
   cli_err + ((string \<times> bool \<times> bool) \<times> (string \<times> bool \<times> bool) \<times> log_max_state)" where
  "collect_proxy st wb lm [] = Inr (st, wb, lm)"
| "collect_proxy st wb lm (opt # opts) =
     (case mergeProxyAdminEndpoint st (p_statsAddr opt) (p_statsAllowPublic opt) ''stats'' of
        Inl e \<Rightarrow> Inl e
      | Inr st' \<Rightarrow>
          (case mergeProxyAdminEndpoint wb (p_webAddr opt) (p_webAllowPublic opt) ''web'' of
             Inl e \<Rightarrow> Inl e
           | Inr wb' \<Rightarrow> collect_proxy st' wb' (merge_log_max lm (p_webLogMaxSet opt) (p_webLogMax opt)) opts))"

definition collectProxyAdminOptions :: "proxyOptions list \<Rightarrow> cli_err + proxyAdminOptions" where
  "collectProxyAdminOptions instances =
     (case collect_proxy ([], False, False) ([], False, False) log_max_init instances of
        Inl e \<Rightarrow> Inl e
      | Inr ((sa, sp, _), (wa, wp, _), lm) \<Rightarrow>
          (let out = \<lparr>pa_statsAddr = sa, pa_statsAllowPublic = sp, pa_webAddr = wa, pa_webAllowPublic = wp,
                      pa_webLogMax = lm_value lm\<rparr> in
           case lm_conflict lm of
             Some c \<Rightarrow>
               if wa \<noteq> [] then Inl (ErrConflictingMultiOption ''web_log_max'' (ConfInt (lm_value lm)) (ConfInt c))
               else Inr out
           | None \<Rightarrow> Inr out))"

section \<open>Agreement\<close>

text \<open>A setting is merged over the instances: \<open>key\<close> is what an instance declares, \<open>view\<close> what the
  merged variables say, and \<open>merge\<close> fails exactly on a disagreement.\<close>

locale consensus =
  fixes key :: "'i \<Rightarrow> 'k option"
    and view :: "'s \<Rightarrow> 'k option"
    and merge :: "'s \<Rightarrow> 'i \<Rightarrow> 'e + 's"
  assumes merge_none: "key i = None \<Longrightarrow> merge s i = Inr s"
    and merge_some: "key i = Some k \<Longrightarrow> view s = None \<or> view s = Some k \<Longrightarrow> \<exists>s'. merge s i = Inr s' \<and> view s' = Some k"
    and merge_clash: "key i = Some k \<Longrightarrow> view s = Some k' \<Longrightarrow> k \<noteq> k' \<Longrightarrow> \<exists>e. merge s i = Inl e"
begin

fun merge_all :: "'s \<Rightarrow> 'i list \<Rightarrow> 'e + 's" where
  "merge_all s [] = Inr s"
| "merge_all s (i # is) = (case merge s i of Inl e \<Rightarrow> Inl e | Inr s' \<Rightarrow> merge_all s' is)"

definition declared :: "'s \<Rightarrow> 'i list \<Rightarrow> 'k set" where
  "declared s is = set_option (view s) \<union> {k. \<exists>i\<in>set is. key i = Some k}"

lemma merge_all_ok:
  "(\<exists>s'. merge_all s is = Inr s') \<longleftrightarrow> (\<forall>k\<in>declared s is. \<forall>k'\<in>declared s is. k = k')"
proof (induction "is" arbitrary: s)
  case Nil
  then show ?case by (cases "view s") (auto simp: declared_def)
next
  case (Cons i "is")
  show ?case
  proof (cases "key i")
    case None
    then show ?thesis using Cons.IH [of s] by (simp add: merge_none declared_def)
  next
    case (Some k)
    show ?thesis
    proof (cases "view s = None \<or> view s = Some k")
      case True
      then obtain s1 where s1: "merge s i = Inr s1" "view s1 = Some k" using merge_some Some by blast
      have "declared s1 is = declared s (i # is)" using True Some s1 by (auto simp: declared_def)
      then show ?thesis using Cons.IH [of s1] s1 by simp
    next
      case False
      then obtain k' where k': "view s = Some k'" "k \<noteq> k'" by (cases "view s") auto
      obtain e where e: "merge s i = Inl e" using merge_clash [OF Some k'] by blast
      have m: "k \<in> declared s (i # is)" "k' \<in> declared s (i # is)"
        by (simp_all add: declared_def Some k'(1))
      have "\<not> (\<forall>k\<in>declared s (i # is). \<forall>k'\<in>declared s (i # is). k = k')"
      proof
        assume "\<forall>k\<in>declared s (i # is). \<forall>k'\<in>declared s (i # is). k = k'"
        then have "k = k'" using m by blast
        then show False using k'(2) by simp
      qed
      moreover have "\<not> (\<exists>s'. merge_all s (i # is) = Inr s')" using e by simp
      ultimately show ?thesis by blast
    qed
  qed
qed

lemma merge_all_view:
  "merge_all s is = Inr s' \<Longrightarrow> set_option (view s') = declared s is"
proof (induction "is" arbitrary: s)
  case (Cons i "is")
  obtain s1 where s1: "merge s i = Inr s1" "merge_all s1 is = Inr s'"
    using Cons.prems by (auto split: sum.splits)
  have "declared s1 is = declared s (i # is)"
  proof (cases "key i")
    case None
    then show ?thesis using s1(1) by (simp add: merge_none declared_def)
  next
    case (Some k)
    have "view s = None \<or> view s = Some k" using merge_clash [OF Some] s1(1) by (cases "view s") fastforce+
    then show ?thesis using Some s1(1) merge_some [OF Some, of s] by (auto simp: declared_def)
  qed
  then show ?case using Cons.IH [OF s1(2)] by simp
qed (simp add: declared_def)

lemma merge_all_mset:
  assumes "mset is = mset is'"
  shows "(\<exists>s1. merge_all s is = Inr s1) = (\<exists>s2. merge_all s is' = Inr s2)"
    and "merge_all s is = Inr s1 \<Longrightarrow> merge_all s is' = Inr s2 \<Longrightarrow> view s1 = view s2"
proof -
  have d: "declared s is = declared s is'" by (simp add: declared_def mset_eq_setD [OF assms])
  show "(\<exists>s1. merge_all s is = Inr s1) = (\<exists>s2. merge_all s is' = Inr s2)" by (simp add: merge_all_ok d)
  assume "merge_all s is = Inr s1" "merge_all s is' = Inr s2"
  then have "set_option (view s1) = set_option (view s2)" using merge_all_view d by metis
  then show "view s1 = view s2" by (cases "view s1"; cases "view s2") auto
qed

end

definition forward_stats_key :: "options \<Rightarrow> string option" where
  "forward_stats_key opt = (let a = TrimSpace (o_statsAddr opt) in if a = [] then None else Some a)"

definition forward_web_key :: "options \<Rightarrow> string option" where
  "forward_web_key opt = (let a = TrimSpace (o_webAddr opt) in if a = [] then None else Some a)"

definition addr_view :: "string \<Rightarrow> string option" where
  "addr_view a = (if a = [] then None else Some a)"

definition proxy_stats_key :: "proxyOptions \<Rightarrow> (string \<times> bool) option" where
  "proxy_stats_key opt = (let a = TrimSpace (p_statsAddr opt) in if a = [] then None else Some (a, p_statsAllowPublic opt))"

definition proxy_web_key :: "proxyOptions \<Rightarrow> (string \<times> bool) option" where
  "proxy_web_key opt = (let a = TrimSpace (p_webAddr opt) in if a = [] then None else Some (a, p_webAllowPublic opt))"

definition endpoint_view :: "string \<times> bool \<times> bool \<Rightarrow> (string \<times> bool) option" where
  "endpoint_view st = (case st of (a, p, configured) \<Rightarrow> if configured then Some (a, p) else None)"

interpretation fstats: consensus forward_stats_key addr_view
  "\<lambda>s opt. merge_forward_addr ''stats_addr'' s (o_statsAddr opt)"
  by unfold_locales (auto simp: forward_stats_key_def addr_view_def merge_forward_addr_def Let_def split: if_splits)

interpretation fweb: consensus forward_web_key addr_view
  "\<lambda>s opt. merge_forward_addr ''web_addr'' s (o_webAddr opt)"
  by unfold_locales (auto simp: forward_web_key_def addr_view_def merge_forward_addr_def Let_def split: if_splits)

interpretation pstats: consensus proxy_stats_key endpoint_view
  "\<lambda>s opt. mergeProxyAdminEndpoint s (p_statsAddr opt) (p_statsAllowPublic opt) ''stats''"
  by unfold_locales
    (auto simp: proxy_stats_key_def endpoint_view_def mergeProxyAdminEndpoint_def Let_def split: if_splits prod.splits)

interpretation pweb: consensus proxy_web_key endpoint_view
  "\<lambda>s opt. mergeProxyAdminEndpoint s (p_webAddr opt) (p_webAllowPublic opt) ''web''"
  by unfold_locales
    (auto simp: proxy_web_key_def endpoint_view_def mergeProxyAdminEndpoint_def Let_def split: if_splits prod.splits)

section \<open>Consolidation is agreement\<close>

text \<open>The instances agree on a setting: no two declare different values.\<close>

definition agree :: "('i \<Rightarrow> 'k option) \<Rightarrow> 'i list \<Rightarrow> bool" where
  "agree key is \<longleftrightarrow> (\<forall>i\<in>set is. \<forall>j\<in>set is. key i \<noteq> None \<and> key j \<noteq> None \<longrightarrow> key i = key j)"

definition forward_log_key :: "options \<Rightarrow> int option" where
  "forward_log_key opt = (if o_webLogMaxSet opt then Some (o_webLogMax opt) else None)"

definition proxy_log_key :: "proxyOptions \<Rightarrow> int option" where
  "proxy_log_key opt = (if p_webLogMaxSet opt then Some (p_webLogMax opt) else None)"

text \<open>The merge of the log capacity over a list of declarations.\<close>

definition log_step :: "log_max_state \<Rightarrow> int option \<Rightarrow> log_max_state" where
  "log_step st d = merge_log_max st (d \<noteq> None) (case d of Some v \<Rightarrow> v | None \<Rightarrow> 0)"

definition log_declared :: "log_max_state \<Rightarrow> int option list \<Rightarrow> int set" where
  "log_declared st ds = (if lm_set st then {lm_value st} else {}) \<union> {v. Some v \<in> set ds}"

lemma log_fold:
  "(lm_conflict (foldl log_step st ds) = None \<longleftrightarrow>
      lm_conflict st = None \<and> (\<forall>v\<in>log_declared st ds. \<forall>w\<in>log_declared st ds. v = w)) \<and>
   (lm_conflict (foldl log_step st ds) = None \<longrightarrow>
      log_declared st ds \<subseteq> {lm_value (foldl log_step st ds)}) \<and>
   (log_declared st ds = {} \<longrightarrow> lm_value (foldl log_step st ds) = lm_value st)"
proof (induction ds arbitrary: st)
  case Nil
  then show ?case by (simp add: log_declared_def)
next
  case (Cons d ds)
  show ?case
  proof (cases d)
    case None
    have "log_declared st (d # ds) = log_declared st ds" "log_step st d = st"
      by (auto simp: None log_declared_def log_step_def merge_log_max_def)
    then show ?thesis using Cons.IH [of st] by simp
  next
    case (Some v)
    show ?thesis
    proof (cases "lm_set st \<and> lm_value st \<noteq> v")
      case True
      then have st: "log_step st d = st\<lparr>lm_conflict := Some v\<rparr>" by (simp add: Some log_step_def merge_log_max_def)
      have v: "v \<in> log_declared st (d # ds)" "lm_value st \<in> log_declared st (d # ds)"
        using True by (auto simp: Some log_declared_def)
      have c: "lm_conflict (foldl log_step st (d # ds)) \<noteq> None"
        using Cons.IH [of "st\<lparr>lm_conflict := Some v\<rparr>"] st by simp
      have "\<not> (\<forall>v\<in>log_declared st (d # ds). \<forall>w\<in>log_declared st (d # ds). v = w)" using v True by blast
      then show ?thesis using c v by blast
    next
      case False
      then have st: "log_step st d = st\<lparr>lm_value := v, lm_set := True\<rparr>"
        by (auto simp: Some log_step_def merge_log_max_def)
      have "log_declared (st\<lparr>lm_value := v, lm_set := True\<rparr>) ds = log_declared st (d # ds)"
        using False by (auto simp: Some log_declared_def)
      moreover have "v \<in> log_declared st (d # ds)" by (simp add: Some log_declared_def)
      ultimately show ?thesis using Cons.IH [of "st\<lparr>lm_value := v, lm_set := True\<rparr>"] st by auto
    qed
  qed
qed

lemma merge_log_max_key:
  "merge_log_max lm (o_webLogMaxSet opt) (o_webLogMax opt) = log_step lm (forward_log_key opt)"
  "merge_log_max lm (p_webLogMaxSet popt) (p_webLogMax popt) = log_step lm (proxy_log_key popt)"
  by (simp_all add: log_step_def forward_log_key_def proxy_log_key_def merge_log_max_def)

lemma collect_forward_eq:
  "collect_forward s w lm is = Inr r \<longleftrightarrow>
     (\<exists>s' w'. fstats.merge_all s is = Inr s' \<and> fweb.merge_all w is = Inr w' \<and>
        r = (s', w', foldl log_step lm (map forward_log_key is)))"
  by (induction s w lm "is" rule: collect_forward.induct) (auto simp: merge_log_max_key split: sum.splits)

lemma collect_proxy_eq:
  "collect_proxy s w lm is = Inr r \<longleftrightarrow>
     (\<exists>s' w'. pstats.merge_all s is = Inr s' \<and> pweb.merge_all w is = Inr w' \<and>
        r = (s', w', foldl log_step lm (map proxy_log_key is)))"
  by (induction s w lm "is" rule: collect_proxy.induct) (auto simp: merge_log_max_key split: sum.splits)

text \<open>What the consensus locale gives when nothing was declared before.\<close>

lemma agree_declared:
  "(\<forall>k\<in>{k. \<exists>i\<in>set is. key i = Some k}. \<forall>k'\<in>{k. \<exists>i\<in>set is. key i = Some k}. k = k') \<longleftrightarrow> agree key is"
  unfolding agree_def by (fastforce simp: not_None_eq)

lemma merge_from_nothing:
  shows "(\<exists>s. fstats.merge_all [] is = Inr s) \<longleftrightarrow> agree forward_stats_key is"
    and "(\<exists>s. fweb.merge_all [] is = Inr s) \<longleftrightarrow> agree forward_web_key is"
    and "(\<exists>s. pstats.merge_all ([], False, False) ps = Inr s) \<longleftrightarrow> agree proxy_stats_key ps"
    and "(\<exists>s. pweb.merge_all ([], False, False) ps = Inr s) \<longleftrightarrow> agree proxy_web_key ps"
  unfolding fstats.merge_all_ok fweb.merge_all_ok pstats.merge_all_ok pweb.merge_all_ok
    fstats.declared_def fweb.declared_def pstats.declared_def pweb.declared_def
  by (simp_all add: addr_view_def endpoint_view_def agree_declared [symmetric])

lemma log_fold_init:
  "(lm_conflict (foldl log_step log_max_init (map key is)) = None) \<longleftrightarrow> agree key is"
  "agree key is \<Longrightarrow> i \<in> set is \<Longrightarrow> key i = Some v \<Longrightarrow> lm_value (foldl log_step log_max_init (map key is)) = v"
  "\<forall>i\<in>set is. key i = None \<Longrightarrow> lm_value (foldl log_step log_max_init (map key is)) = 1000"
proof -
  have d: "log_declared log_max_init (map key is) = {k. \<exists>i\<in>set is. key i = Some k}"
    by (force simp: log_declared_def log_max_init_def image_iff)
  show c: "(lm_conflict (foldl log_step log_max_init (map key is)) = None) \<longleftrightarrow> agree key is"
    using log_fold [of log_max_init "map key is"]
    by (simp only: d agree_declared) (simp add: log_max_init_def)
  show "agree key is \<Longrightarrow> i \<in> set is \<Longrightarrow> key i = Some v \<Longrightarrow> lm_value (foldl log_step log_max_init (map key is)) = v"
    using log_fold [of log_max_init "map key is"] c by (simp add: d) blast
  show "\<forall>i\<in>set is. key i = None \<Longrightarrow> lm_value (foldl log_step log_max_init (map key is)) = 1000"
    using log_fold [of log_max_init "map key is"] unfolding d by (auto simp: log_max_init_def)
qed

lemma collectForward_Inr:
  "collectForwardAdminOptions is = Inr out \<longleftrightarrow>
     (\<exists>s w. fstats.merge_all [] is = Inr s \<and> fweb.merge_all [] is = Inr w \<and>
        (w \<noteq> [] \<longrightarrow> agree forward_log_key is) \<and>
        out = \<lparr>fa_statsAddr = s, fa_webAddr = w,
               fa_webLogMax = lm_value (foldl log_step log_max_init (map forward_log_key is))\<rparr>)"
  (is "_ \<longleftrightarrow> ?R")
proof (cases "collect_forward [] [] log_max_init is")
  case (Inl e)
  then have "\<not> ?R" by (metis (no_types, lifting) collect_forward_eq sum.distinct(1))
  then show ?thesis using Inl by (simp add: collectForwardAdminOptions_def)
next
  case (Inr r)
  then obtain s w where e: "fstats.merge_all [] is = Inr s" "fweb.merge_all [] is = Inr w"
     "r = (s, w, foldl log_step log_max_init (map forward_log_key is))"
    using collect_forward_eq [of "[]" "[]" log_max_init "is" r] by blast
  show ?thesis
    using Inr e log_fold_init(1) [of forward_log_key "is"]
    by (auto simp: collectForwardAdminOptions_def split: option.splits if_splits)
qed

lemma collectProxy_Inr:
  "collectProxyAdminOptions is = Inr out \<longleftrightarrow>
     (\<exists>sa sp sc wa wp wc. pstats.merge_all ([], False, False) is = Inr (sa, sp, sc) \<and>
        pweb.merge_all ([], False, False) is = Inr (wa, wp, wc) \<and>
        (wa \<noteq> [] \<longrightarrow> agree proxy_log_key is) \<and>
        out = \<lparr>pa_statsAddr = sa, pa_statsAllowPublic = sp, pa_webAddr = wa, pa_webAllowPublic = wp,
               pa_webLogMax = lm_value (foldl log_step log_max_init (map proxy_log_key is))\<rparr>)"
  (is "_ \<longleftrightarrow> ?R")
proof (cases "collect_proxy ([], False, False) ([], False, False) log_max_init is")
  case (Inl e)
  then have "\<not> ?R" by (metis (no_types, lifting) collect_proxy_eq sum.distinct(1))
  then show ?thesis using Inl by (simp add: collectProxyAdminOptions_def)
next
  case (Inr r)
  then obtain s w where e: "pstats.merge_all ([], False, False) is = Inr s" "pweb.merge_all ([], False, False) is = Inr w"
     "r = (s, w, foldl log_step log_max_init (map proxy_log_key is))"
    using collect_proxy_eq [of "([], False, False)" "([], False, False)" log_max_init "is" r] by blast
  obtain sa sp sc wa wp wc where sw: "s = (sa, sp, sc)" "w = (wa, wp, wc)" by (metis prod_cases3)
  show ?thesis
    using Inr e log_fold_init(1) [of proxy_log_key "is"]
    by (auto simp: collectProxyAdminOptions_def sw Let_def split: option.splits if_splits)
qed

text \<open>An endpoint that nobody configured keeps its zero values, a configured one has an address.\<close>

definition endpoint_clean :: "string \<times> bool \<times> bool \<Rightarrow> bool" where
  "endpoint_clean st = (case st of (a, p, c) \<Rightarrow> if c then a \<noteq> [] else a = [] \<and> \<not> p)"

lemma endpoint_clean_merge:
  "endpoint_clean st \<Longrightarrow> mergeProxyAdminEndpoint st v al n = Inr st' \<Longrightarrow> endpoint_clean st'"
  by (auto simp: endpoint_clean_def mergeProxyAdminEndpoint_def Let_def split: if_splits prod.splits)

lemma endpoint_clean_all:
  "pstats.merge_all st is = Inr st' \<Longrightarrow> endpoint_clean st \<Longrightarrow> endpoint_clean st'"
  "pweb.merge_all wb is = Inr wb' \<Longrightarrow> endpoint_clean wb \<Longrightarrow> endpoint_clean wb'"
  by (induction "is" arbitrary: st wb) (auto split: sum.splits dest: endpoint_clean_merge)

lemma endpoint_clean_view:
  "endpoint_clean s \<Longrightarrow> endpoint_clean t \<Longrightarrow> endpoint_view s = endpoint_view t \<Longrightarrow> s = t"
  by (auto simp: endpoint_clean_def endpoint_view_def split: if_splits prod.splits)

lemma addr_view_inj: "addr_view s = addr_view t \<Longrightarrow> s = t"
  by (auto simp: addr_view_def split: if_splits)

lemma all_views:
  "fstats.merge_all [] is = Inr s \<Longrightarrow> {k. \<exists>i\<in>set is. forward_stats_key i = Some k} = set_option (addr_view s)"
  "fweb.merge_all [] is = Inr s \<Longrightarrow> {k. \<exists>i\<in>set is. forward_web_key i = Some k} = set_option (addr_view s)"
  "pstats.merge_all ([], False, False) ps = Inr e \<Longrightarrow> {k. \<exists>i\<in>set ps. proxy_stats_key i = Some k} = set_option (endpoint_view e)"
  "pweb.merge_all ([], False, False) ps = Inr e \<Longrightarrow> {k. \<exists>i\<in>set ps. proxy_web_key i = Some k} = set_option (endpoint_view e)"
  using fstats.merge_all_view [of "[]" "is" s] fweb.merge_all_view [of "[]" "is" s]
    pstats.merge_all_view [of "([], False, False)" ps e] pweb.merge_all_view [of "([], False, False)" ps e]
  by (simp_all add: fstats.declared_def fweb.declared_def pstats.declared_def pweb.declared_def)
    (simp_all add: addr_view_def endpoint_view_def)

lemma in_view: "{k. \<exists>i\<in>S. key i = Some k} = set_option v \<Longrightarrow> i \<in> S \<Longrightarrow> key i \<in> {None, v}"
  by (cases "key i"; cases v) auto

lemma declared_views:
  "fstats.merge_all [] is = Inr s \<Longrightarrow> i \<in> set is \<Longrightarrow> forward_stats_key i \<in> {None, Some s}"
  "fweb.merge_all [] is = Inr s \<Longrightarrow> i \<in> set is \<Longrightarrow> forward_web_key i \<in> {None, Some s}"
  "pstats.merge_all ([], False, False) ps = Inr (a, b, c) \<Longrightarrow> j \<in> set ps \<Longrightarrow> proxy_stats_key j \<in> {None, Some (a, b)}"
  "pweb.merge_all ([], False, False) ps = Inr (a, b, c) \<Longrightarrow> j \<in> set ps \<Longrightarrow> proxy_web_key j \<in> {None, Some (a, b)}"
  using in_view [OF all_views(1), of "is" s i] in_view [OF all_views(2), of "is" s i]
    in_view [OF all_views(3), of ps "(a, b, c)" j] in_view [OF all_views(4), of ps "(a, b, c)" j]
  by (simp_all add: addr_view_def endpoint_view_def split: if_splits)

lemma some_declared: "(\<exists>i\<in>S. key i \<noteq> None) \<longleftrightarrow> {k. \<exists>i\<in>S. key i = Some k} \<noteq> {}"
  by auto

lemma web_declared_iff:
  "fweb.merge_all [] is = Inr w \<Longrightarrow> w \<noteq> [] \<longleftrightarrow> (\<exists>i\<in>set is. forward_web_key i \<noteq> None)"
  "pweb.merge_all ([], False, False) ps = Inr (a, b, c) \<Longrightarrow> a \<noteq> [] \<longleftrightarrow> (\<exists>i\<in>set ps. proxy_web_key i \<noteq> None)"
proof -
  assume "fweb.merge_all [] is = Inr w"
  from all_views(2) [OF this] show "w \<noteq> [] \<longleftrightarrow> (\<exists>i\<in>set is. forward_web_key i \<noteq> None)"
    unfolding some_declared by (simp add: addr_view_def)
next
  assume m: "pweb.merge_all ([], False, False) ps = Inr (a, b, c)"
  have "endpoint_clean (a, b, c)" using endpoint_clean_all(2) [OF m] by (simp add: endpoint_clean_def)
  with all_views(4) [OF m] show "a \<noteq> [] \<longleftrightarrow> (\<exists>i\<in>set ps. proxy_web_key i \<noteq> None)"
    unfolding some_declared by (simp add: endpoint_view_def endpoint_clean_def split: if_splits)
qed

lemma agree_mset: "mset is = mset is' \<Longrightarrow> agree key is = agree key is'"
  by (simp add: agree_def mset_eq_setD [of "is" is'])

lemma log_value_mset:
  assumes "mset is = mset is'" "agree key is"
  shows "lm_value (foldl log_step log_max_init (map key is)) = lm_value (foldl log_step log_max_init (map key is'))"
proof (cases "\<exists>i\<in>set is. key i \<noteq> None")
  case True
  then obtain i v where "i \<in> set is" "key i = Some v" by auto
  then show ?thesis
    using log_fold_init(2) [of key] assms agree_mset [OF assms(1), of key] mset_eq_setD [OF assms(1)] by metis
next
  case False
  then show ?thesis using log_fold_init(3) [of "is" key] log_fold_init(3) [of is' key] mset_eq_setD [OF assms(1)] by simp
qed

lemma collectForward_ok:
  "(\<exists>out. collectForwardAdminOptions is = Inr out) \<longleftrightarrow>
     agree forward_stats_key is \<and> agree forward_web_key is \<and>
     ((\<exists>i\<in>set is. forward_web_key i \<noteq> None) \<longrightarrow> agree forward_log_key is)"
  unfolding collectForward_Inr merge_from_nothing(1,2) [symmetric] using web_declared_iff(1) [of "is"] by blast

lemma collectProxy_ok:
  "(\<exists>out. collectProxyAdminOptions is = Inr out) \<longleftrightarrow>
     agree proxy_stats_key is \<and> agree proxy_web_key is \<and>
     ((\<exists>i\<in>set is. proxy_web_key i \<noteq> None) \<longrightarrow> agree proxy_log_key is)"
proof -
  have "(\<exists>s. pstats.merge_all ([], False, False) is = Inr s) \<longleftrightarrow> (\<exists>sa sp sc. pstats.merge_all ([], False, False) is = Inr (sa, sp, sc))"
    "(\<exists>s. pweb.merge_all ([], False, False) is = Inr s) \<longleftrightarrow> (\<exists>sa sp sc. pweb.merge_all ([], False, False) is = Inr (sa, sp, sc))"
    by auto
  then show ?thesis
    unfolding collectProxy_Inr merge_from_nothing(3,4) [symmetric] using web_declared_iff(2) [of "is"] by (simp only:) blast
qed

text \<open>The instances of a section share one statistics and one web endpoint, by consensus: the
  consolidation succeeds exactly when all instances that declare an endpoint agree on it (for the
  proxy, on its address and on whether it may be public) and, if there is a web endpoint, on the
  capacity of its log; every declaration is then the one in force.\<close>
theorem admin_settings_by_consensus:
  "((\<exists>out. collectForwardAdminOptions is = Inr out) \<longleftrightarrow>
      agree forward_stats_key is \<and> agree forward_web_key is \<and>
      ((\<exists>i\<in>set is. forward_web_key i \<noteq> None) \<longrightarrow> agree forward_log_key is)) \<and>
   ((\<exists>out. collectProxyAdminOptions ps = Inr out) \<longleftrightarrow>
      agree proxy_stats_key ps \<and> agree proxy_web_key ps \<and>
      ((\<exists>i\<in>set ps. proxy_web_key i \<noteq> None) \<longrightarrow> agree proxy_log_key ps)) \<and>
   (\<forall>out. \<forall>i\<in>set is. collectForwardAdminOptions is = Inr out \<longrightarrow>
      forward_stats_key i \<in> {None, Some (fa_statsAddr out)} \<and>
      forward_web_key i \<in> {None, Some (fa_webAddr out)} \<and>
      (fa_webAddr out \<noteq> [] \<longrightarrow> forward_log_key i \<in> {None, Some (fa_webLogMax out)})) \<and>
   (\<forall>out. \<forall>i\<in>set ps. collectProxyAdminOptions ps = Inr out \<longrightarrow>
      proxy_stats_key i \<in> {None, Some (pa_statsAddr out, pa_statsAllowPublic out)} \<and>
      proxy_web_key i \<in> {None, Some (pa_webAddr out, pa_webAllowPublic out)} \<and>
      (pa_webAddr out \<noteq> [] \<longrightarrow> proxy_log_key i \<in> {None, Some (pa_webLogMax out)}))"
proof (intro conjI [OF collectForward_ok] conjI [OF collectProxy_ok] conjI allI ballI impI)
  fix out i
  assume i: "i \<in> set is" and c: "collectForwardAdminOptions is = Inr out"
  show "forward_stats_key i \<in> {None, Some (fa_statsAddr out)}" "forward_web_key i \<in> {None, Some (fa_webAddr out)}"
    using c declared_views(1,2) [OF _ i] unfolding collectForward_Inr by (elim exE conjE, simp)+
  show "forward_log_key i \<in> {None, Some (fa_webLogMax out)}" if "fa_webAddr out \<noteq> []"
    using c i that log_fold_init(2) [of forward_log_key "is" i] by (cases "forward_log_key i") (auto simp: collectForward_Inr)
next
  fix out i
  assume i: "i \<in> set ps" and c: "collectProxyAdminOptions ps = Inr out"
  show "proxy_stats_key i \<in> {None, Some (pa_statsAddr out, pa_statsAllowPublic out)}"
    "proxy_web_key i \<in> {None, Some (pa_webAddr out, pa_webAllowPublic out)}"
    using c declared_views(3,4) [OF _ i] unfolding collectProxy_Inr by (elim exE conjE, simp)+
  show "proxy_log_key i \<in> {None, Some (pa_webLogMax out)}" if "pa_webAddr out \<noteq> []"
    using c i that log_fold_init(2) [of proxy_log_key ps i] by (cases "proxy_log_key i") (auto simp: collectProxy_Inr)
qed

definition inst1 :: options where
  "inst1 = defaultForwardOptions\<lparr>o_statsAddr := ''127.0.0.1:9 '', o_webAddr := '':8'', o_webLogMax := 5, o_webLogMaxSet := True\<rparr>"

definition inst2 :: options where
  "inst2 = defaultForwardOptions\<lparr>o_listenPort := 23, o_webAddr := '' :8''\<rparr>"

lemma inst_collect:
  "collectForwardAdminOptions [inst1, inst2] =
     Inr \<lparr>fa_statsAddr = ''127.0.0.1:9'', fa_webAddr = '':8'', fa_webLogMax = 5\<rparr>"
  by code_simp

lemma admin_settings_by_consensus_witness:
  "agree forward_web_key [inst1, inst2] \<and> forward_stats_key inst1 \<in> {None, Some ''127.0.0.1:9''}"
proof
  have "\<exists>out. collectForwardAdminOptions [inst1, inst2] = Inr out" using inst_collect by blast
  then show "agree forward_web_key [inst1, inst2]"
    using admin_settings_by_consensus [of "[inst1, inst2]" "[]"] by blast
  have "inst1 \<in> set [inst1, inst2]" by simp
  from admin_settings_by_consensus [of "[inst1, inst2]" "[]", THEN conjunct2, THEN conjunct2, THEN conjunct1,
      rule_format, OF this inst_collect]
  show "forward_stats_key inst1 \<in> {None, Some ''127.0.0.1:9''}" by simp
qed

text \<open>Each of the two collections depends on the multiset of its instances only.\<close>

lemma collectForward_mset:
  assumes m: "mset is = mset is'"
  shows "(\<exists>out. collectForwardAdminOptions is = Inr out) = (\<exists>out. collectForwardAdminOptions is' = Inr out)"
    "collectForwardAdminOptions is = Inr out \<and> collectForwardAdminOptions is' = Inr out' \<Longrightarrow>
       fa_statsAddr out = fa_statsAddr out' \<and> fa_webAddr out = fa_webAddr out' \<and> (fa_webAddr out \<noteq> [] \<longrightarrow> out = out')"
proof -
  show "(\<exists>out. collectForwardAdminOptions is = Inr out) = (\<exists>out. collectForwardAdminOptions is' = Inr out)"
    unfolding collectForward_ok by (simp only: agree_mset [OF m] mset_eq_setD [OF m])
next
  assume "collectForwardAdminOptions is = Inr out \<and> collectForwardAdminOptions is' = Inr out'"
  then obtain s w s' w' where s: "fstats.merge_all [] is = Inr s" "fstats.merge_all [] is' = Inr s'"
    and w: "fweb.merge_all [] is = Inr w" "fweb.merge_all [] is' = Inr w'" and a: "w \<noteq> [] \<longrightarrow> agree forward_log_key is"
    and o: "out = \<lparr>fa_statsAddr = s, fa_webAddr = w, fa_webLogMax = lm_value (foldl log_step log_max_init (map forward_log_key is))\<rparr>"
      "out' = \<lparr>fa_statsAddr = s', fa_webAddr = w', fa_webLogMax = lm_value (foldl log_step log_max_init (map forward_log_key is'))\<rparr>"
    by (auto simp: collectForward_Inr)
  have e: "s = s'" "w = w'"
    using addr_view_inj fstats.merge_all_mset(2) [OF m s] fweb.merge_all_mset(2) [OF m w] by blast+
  show "fa_statsAddr out = fa_statsAddr out' \<and> fa_webAddr out = fa_webAddr out' \<and> (fa_webAddr out \<noteq> [] \<longrightarrow> out = out')"
    using e a log_value_mset [OF m, of forward_log_key] by (simp_all add: o)
qed

lemma collectProxy_mset:
  assumes m: "mset ps = mset ps'"
  shows "(\<exists>out. collectProxyAdminOptions ps = Inr out) = (\<exists>out. collectProxyAdminOptions ps' = Inr out)"
    "collectProxyAdminOptions ps = Inr out \<and> collectProxyAdminOptions ps' = Inr out' \<Longrightarrow>
       pa_statsAddr out = pa_statsAddr out' \<and> pa_statsAllowPublic out = pa_statsAllowPublic out' \<and>
       pa_webAddr out = pa_webAddr out' \<and> pa_webAllowPublic out = pa_webAllowPublic out' \<and>
       (pa_webAddr out \<noteq> [] \<longrightarrow> out = out')"
proof -
  show "(\<exists>out. collectProxyAdminOptions ps = Inr out) = (\<exists>out. collectProxyAdminOptions ps' = Inr out)"
    unfolding collectProxy_ok by (simp only: agree_mset [OF m] mset_eq_setD [OF m])
next
  assume c: "collectProxyAdminOptions ps = Inr out \<and> collectProxyAdminOptions ps' = Inr out'"
  then obtain sa sp sc wa wp wc where
    s1: "pstats.merge_all ([], False, False) ps = Inr (sa, sp, sc)"
    and w1: "pweb.merge_all ([], False, False) ps = Inr (wa, wp, wc)"
    and a: "wa \<noteq> [] \<longrightarrow> agree proxy_log_key ps"
    and o1: "out = \<lparr>pa_statsAddr = sa, pa_statsAllowPublic = sp, pa_webAddr = wa, pa_webAllowPublic = wp, pa_webLogMax = lm_value (foldl log_step log_max_init (map proxy_log_key ps))\<rparr>"
    unfolding collectProxy_Inr by blast
  from c obtain sa' sp' sc' wa' wp' wc' where
    s2: "pstats.merge_all ([], False, False) ps' = Inr (sa', sp', sc')"
    and w2: "pweb.merge_all ([], False, False) ps' = Inr (wa', wp', wc')"
    and o2: "out' = \<lparr>pa_statsAddr = sa', pa_statsAllowPublic = sp', pa_webAddr = wa', pa_webAllowPublic = wp', pa_webLogMax = lm_value (foldl log_step log_max_init (map proxy_log_key ps'))\<rparr>"
    unfolding collectProxy_Inr by blast
  note s = s1 s2 and w = w1 w2 and o = o1 o2
  have z: "endpoint_clean ([], False, False)" by (simp add: endpoint_clean_def)
  have e: "(sa, sp, sc) = (sa', sp', sc')" "(wa, wp, wc) = (wa', wp', wc')"
    using endpoint_clean_view pstats.merge_all_mset(2) [OF m s] pweb.merge_all_mset(2) [OF m w]
      endpoint_clean_all(1) [OF s(1) z] endpoint_clean_all(1) [OF s(2) z]
      endpoint_clean_all(2) [OF w(1) z] endpoint_clean_all(2) [OF w(2) z] by blast+
  show "pa_statsAddr out = pa_statsAddr out' \<and> pa_statsAllowPublic out = pa_statsAllowPublic out' \<and>
       pa_webAddr out = pa_webAddr out' \<and> pa_webAllowPublic out = pa_webAllowPublic out' \<and>
       (pa_webAddr out \<noteq> [] \<longrightarrow> out = out')"
    using e a log_value_mset [OF m, of proxy_log_key] by (simp_all add: o)
qed

text \<open>The admin endpoints do not depend on the order of the instances in the file: any
  reordering succeeds or fails alike and gives the same addresses, the same permission to be
  public and, when there is a web endpoint, the same log capacity.\<close>
theorem admin_settings_ignore_order:
  "(mset is = mset is' \<longrightarrow>
     (\<exists>out. collectForwardAdminOptions is = Inr out) = (\<exists>out. collectForwardAdminOptions is' = Inr out) \<and>
     (\<forall>out out'. collectForwardAdminOptions is = Inr out \<and> collectForwardAdminOptions is' = Inr out' \<longrightarrow>
        fa_statsAddr out = fa_statsAddr out' \<and> fa_webAddr out = fa_webAddr out' \<and>
        (fa_webAddr out \<noteq> [] \<longrightarrow> out = out'))) \<and>
   (mset ps = mset ps' \<longrightarrow>
     (\<exists>out. collectProxyAdminOptions ps = Inr out) = (\<exists>out. collectProxyAdminOptions ps' = Inr out) \<and>
     (\<forall>out out'. collectProxyAdminOptions ps = Inr out \<and> collectProxyAdminOptions ps' = Inr out' \<longrightarrow>
        pa_statsAddr out = pa_statsAddr out' \<and> pa_statsAllowPublic out = pa_statsAllowPublic out' \<and>
        pa_webAddr out = pa_webAddr out' \<and> pa_webAllowPublic out = pa_webAllowPublic out' \<and>
        (pa_webAddr out \<noteq> [] \<longrightarrow> out = out')))"
  using collectForward_mset [of "is" is'] collectProxy_mset [of ps ps'] by blast

lemma admin_settings_ignore_order_witness:
  "\<exists>out. collectForwardAdminOptions [inst2, inst1] = Inr out \<and> fa_webLogMax out = 5"
proof -
  have m: "mset [inst1, inst2] = mset [inst2, inst1]" by simp
  note t = admin_settings_ignore_order [of "[inst1, inst2]" "[inst2, inst1]" "[]" "[]", THEN conjunct1, rule_format, OF m]
  have "\<exists>out. collectForwardAdminOptions [inst1, inst2] = Inr out" using inst_collect by blast
  then obtain out where o: "collectForwardAdminOptions [inst2, inst1] = Inr out" using t by blast
  have "\<lparr>fa_statsAddr = ''127.0.0.1:9'', fa_webAddr = '':8'', fa_webLogMax = 5\<rparr> = out"
    using t inst_collect o by (metis forwardAdminOptions.select_convs(2) list.distinct(1))
  then show ?thesis using o by (metis forwardAdminOptions.select_convs(3))
qed

end
