(* ===== verification/Cli_Model.thy ===== *)
theory Cli_Model
  imports Cli_Options I18n_Model Socat_Model Fwd_Config
begin

text \<open>
  The command line, main.go: the subcommands, the flag tables of the two commands, the loading of
  the configuration for a command, the path from the arguments to the options of one instance or
  of several.  What the process reads from outside is a record of
  parameters (\<open>cli_env\<close>): files, the YAML package, URL parsing, the environment, the home
  directory, the agent socket and the terminal.  \<open>runForward\<close> and \<open>runProxy\<close> end in a plan:
  the outcome before anything is started, or what is started.
\<close>

record cli_env =
  ce_read :: "string \<Rightarrow> string + string"
  ce_yaml :: yaml
  ce_url :: "string \<Rightarrow> string + go_url"
  ce_getenv :: "string \<Rightarrow> string"
  ce_home :: "string option"
  ce_dialUnix :: "string \<Rightarrow> bool"
  ce_stdinTTY :: bool
  ce_readPassword :: "string option"

section \<open>Subcommands and the early look at the language\<close>

definition subcommands :: "string list" where
  "subcommands = [''forward'', ''proxy'', ''version'']"

definition splitSubcommand :: "string list \<Rightarrow> string \<times> string list" where
  "splitSubcommand argv =
     (case argv of
        [] \<Rightarrow> (''forward'', argv)
      | first # rest \<Rightarrow>
          if take 1 first = ''-'' then (''forward'', argv)
          else if first \<in> set subcommands then (first, rest)
          else (''forward'', argv))"

fun pre_scan :: "string list \<Rightarrow> string" where
  "pre_scan [] = []"
| "pre_scan (a # rest) =
     (if a = ''--'' then []
      else
        (let name = trim_left (\<lambda>c. c = CHR ''-'') a in
         if name = ''lang'' then (case rest of [] \<Rightarrow> [] | v # _ \<Rightarrow> v)
         else if take 5 name = ''lang='' then drop 5 name
         else pre_scan rest))"

definition preScanLang :: "string list \<Rightarrow> string" where
  "preScanLang argv =
     (case argv of
        [] \<Rightarrow> pre_scan []
      | first # rest \<Rightarrow>
          if take 1 first \<noteq> ''-'' \<and> first \<in> set subcommands then pre_scan rest else pre_scan argv)"

text \<open>\<open>i18n.SetLang\<close> on a code that parses.\<close>

definition set_lang_code :: "string \<Rightarrow> lang_state \<Rightarrow> lang_state" where
  "set_lang_code code st = (case ParseLang code of (l, ok) \<Rightarrow> if ok then SetLang l st else st)"

section \<open>Flags\<close>

definition forward_flag_defaults :: options where
  "forward_flag_defaults =
     \<lparr>o_listenPort = 22, o_listenHost = [], o_target = ''127.0.0.1:2222'', o_mode = ''go'', o_proto = ''tcp'',
      o_reuseAddr = True, o_useSudo = False, o_dialTimeout = 10000000000,
      o_maxConns = defaultForwardMaxConns, o_idleTimeout = defaultForwardIdleTimeout,
      o_logLevel = ''info'', o_quiet = False, o_showVersion = False, o_configPath = [], o_lang = [],
      o_statsAddr = [], o_webAddr = [], o_webLogMax = 1000, o_webLogMaxSet = False\<rparr>"

definition forward_flags :: "options flag_table" where
  "forward_flags =
     [(''listen-port'', IntVar (\<lambda>v opt. opt\<lparr>o_listenPort := v\<rparr>)),
      (''listen-host'', StringVar (\<lambda>v opt. opt\<lparr>o_listenHost := v\<rparr>)),
      (''target'', StringVar (\<lambda>v opt. opt\<lparr>o_target := v\<rparr>)),
      (''mode'', StringVar (\<lambda>v opt. opt\<lparr>o_mode := v\<rparr>)),
      (''proto'', StringVar (\<lambda>v opt. opt\<lparr>o_proto := v\<rparr>)),
      (''reuseaddr'', BoolVar (\<lambda>v opt. opt\<lparr>o_reuseAddr := v\<rparr>)),
      (''sudo'', BoolVar (\<lambda>v opt. opt\<lparr>o_useSudo := v\<rparr>)),
      (''dial-timeout'', DurationVar (\<lambda>v opt. opt\<lparr>o_dialTimeout := v\<rparr>)),
      (''max-conns'', IntVar (\<lambda>v opt. opt\<lparr>o_maxConns := v\<rparr>)),
      (''idle-timeout'', DurationVar (\<lambda>v opt. opt\<lparr>o_idleTimeout := v\<rparr>)),
      (''log-level'', StringVar (\<lambda>v opt. opt\<lparr>o_logLevel := v\<rparr>)),
      (''quiet'', BoolVar (\<lambda>v opt. opt\<lparr>o_quiet := v\<rparr>)),
      (''version'', BoolVar (\<lambda>v opt. opt\<lparr>o_showVersion := v\<rparr>)),
      (''config'', StringVar (\<lambda>v opt. opt\<lparr>o_configPath := v\<rparr>)),
      (''lang'', StringVar (\<lambda>v opt. opt\<lparr>o_lang := v\<rparr>)),
      (''stats-addr'', StringVar (\<lambda>v opt. opt\<lparr>o_statsAddr := v\<rparr>)),
      (''web-addr'', StringVar (\<lambda>v opt. opt\<lparr>o_webAddr := v\<rparr>)),
      (''web-log-max'', IntVar (\<lambda>v opt. opt\<lparr>o_webLogMax := v\<rparr>))]"

definition proxy_flag_defaults :: proxyOptions where
  "proxy_flag_defaults =
     \<lparr>p_addr = ''127.0.0.1:1080'', p_dialTimeout = 30000000000, p_maxConns = 256,
      p_handshakeTimeout = 10000000000, p_idleTimeout = 300000000000, p_allowPublic = False,
      p_upstream = [], p_upstreamIdentity = [], p_upstreamIdentityPassphrase = [],
      p_upstreamKnownHosts = [], p_upstreamInsecure = False, p_upstreamAgent = True,
      p_upstreamAgentSocket = [], p_upstreamKeepalive = 0, p_upstreamKeepaliveMaxFailures = 0,
      p_showVersion = False, p_configPath = [], p_lang = [], p_statsAddr = [],
      p_statsAllowPublic = False, p_webAddr = [], p_webAllowPublic = False, p_webLogMax = 1000,
      p_webLogMaxSet = False\<rparr>"

definition proxy_flags :: "proxyOptions flag_table" where
  "proxy_flags =
     [(''addr'', StringVar (\<lambda>v opt. opt\<lparr>p_addr := v\<rparr>)),
      (''dial-timeout'', DurationVar (\<lambda>v opt. opt\<lparr>p_dialTimeout := v\<rparr>)),
      (''max-conns'', IntVar (\<lambda>v opt. opt\<lparr>p_maxConns := v\<rparr>)),
      (''handshake-timeout'', DurationVar (\<lambda>v opt. opt\<lparr>p_handshakeTimeout := v\<rparr>)),
      (''idle-timeout'', DurationVar (\<lambda>v opt. opt\<lparr>p_idleTimeout := v\<rparr>)),
      (''allow-public'', BoolVar (\<lambda>v opt. opt\<lparr>p_allowPublic := v\<rparr>)),
      (''upstream'', StringVar (\<lambda>v opt. opt\<lparr>p_upstream := v\<rparr>)),
      (''upstream-identity'', StringVar (\<lambda>v opt. opt\<lparr>p_upstreamIdentity := v\<rparr>)),
      (''upstream-known-hosts'', StringVar (\<lambda>v opt. opt\<lparr>p_upstreamKnownHosts := v\<rparr>)),
      (''upstream-insecure'', BoolVar (\<lambda>v opt. opt\<lparr>p_upstreamInsecure := v\<rparr>)),
      (''upstream-agent'', BoolVar (\<lambda>v opt. opt\<lparr>p_upstreamAgent := v\<rparr>)),
      (''upstream-agent-socket'', StringVar (\<lambda>v opt. opt\<lparr>p_upstreamAgentSocket := v\<rparr>)),
      (''upstream-keepalive'', DurationVar (\<lambda>v opt. opt\<lparr>p_upstreamKeepalive := v\<rparr>)),
      (''upstream-keepalive-max-failures'', IntVar (\<lambda>v opt. opt\<lparr>p_upstreamKeepaliveMaxFailures := v\<rparr>)),
      (''version'', BoolVar (\<lambda>v opt. opt\<lparr>p_showVersion := v\<rparr>)),
      (''config'', StringVar (\<lambda>v opt. opt\<lparr>p_configPath := v\<rparr>)),
      (''lang'', StringVar (\<lambda>v opt. opt\<lparr>p_lang := v\<rparr>)),
      (''stats-addr'', StringVar (\<lambda>v opt. opt\<lparr>p_statsAddr := v\<rparr>)),
      (''stats-allow-public'', BoolVar (\<lambda>v opt. opt\<lparr>p_statsAllowPublic := v\<rparr>)),
      (''web-addr'', StringVar (\<lambda>v opt. opt\<lparr>p_webAddr := v\<rparr>)),
      (''web-allow-public'', BoolVar (\<lambda>v opt. opt\<lparr>p_webAllowPublic := v\<rparr>)),
      (''web-log-max'', IntVar (\<lambda>v opt. opt\<lparr>p_webLogMax := v\<rparr>))]"

section \<open>The configuration of a command\<close>

definition hasCommandInstances :: "Config \<Rightarrow> string \<Rightarrow> bool" where
  "hasCommandInstances cfg section =
     (if section = ''forward'' then
        cf_Forward cfg \<noteq> [] \<and> (\<forall>i\<in>set (cf_Forward cfg). \<not> (i = None \<or> i = Some zero_ForwardConfig))
      else
        cf_Proxy cfg \<noteq> [] \<and> (\<forall>i\<in>set (cf_Proxy cfg). \<not> (i = None \<or> i = Some zero_ProxyConfig)))"

definition loadCommandConfig ::
  "cli_env \<Rightarrow> string \<Rightarrow> bool \<Rightarrow> string \<Rightarrow> lang_state \<Rightarrow> (cli_err + Config option) \<times> lang_state" where
  "loadCommandConfig env path langSet section st =
     (if path = [] then (Inr None, st)
      else
        (case loadTopConfig (ce_read env) (ce_yaml env) path of
           Inl e \<Rightarrow> (Inl (CliConfig e), st)
         | Inr cfg \<Rightarrow>
             (let st' = (case cf_Lang cfg of
                           Some l \<Rightarrow> if langSet then st else set_lang_code l st
                         | None \<Rightarrow> st) in
              if \<not> hasCommandInstances cfg section then (Inl (ErrConfigSectionEmpty section), st')
              else (Inr (Some cfg), st'))))"

text \<open>The names of given flags that have no meaning for several instances, as they are logged.\<close>

definition forwardPerInstanceFlags :: "string list" where
  "forwardPerInstanceFlags =
     [''listen-port'', ''listen-host'', ''target'', ''mode'', ''proto'', ''reuseaddr'', ''sudo'',
      ''dial-timeout'', ''max-conns'', ''idle-timeout'', ''log-level'', ''quiet'']"

definition proxyPerInstanceFlags :: "string list" where
  "proxyPerInstanceFlags =
     [''addr'', ''dial-timeout'', ''max-conns'', ''handshake-timeout'', ''idle-timeout'', ''allow-public'',
      ''upstream'', ''upstream-identity'', ''upstream-known-hosts'', ''upstream-insecure'',
      ''upstream-agent'', ''upstream-agent-socket'', ''upstream-keepalive'',
      ''upstream-keepalive-max-failures'']"

definition ignored_flags :: "string list \<Rightarrow> string set \<Rightarrow> string list" where
  "ignored_flags names setFlags = map (\<lambda>n. ''-'' @ n) (filter (\<lambda>n. n \<in> setFlags) names)"

definition logIgnoredProxyFlags :: "string set \<Rightarrow> string option" where
  "logIgnoredProxyFlags setFlags =
     (let ignored = ignored_flags proxyPerInstanceFlags setFlags in
      if ignored \<noteq> [] then Some (Join ignored '' '') else None)"

section \<open>Forward\<close>

fun build_forward_instances ::
  "options \<Rightarrow> string set \<Rightarrow> string list \<Rightarrow> ForwardConfig option list \<Rightarrow> cli_err + options list" where
  "build_forward_instances base setFlags seen [] = Inr []"
| "build_forward_instances base setFlags seen (fc # fcs) =
     (let opt0 = defaultForwardOptions\<lparr>o_lang := o_lang base\<rparr> in
      case applyForwardConfig opt0 fc {} of
        Inl e \<Rightarrow> Inl (CliConfig e)
      | Inr opt1 \<Rightarrow>
          (let opt2 = opt1\<lparr>o_webLogMaxSet := (case fc of None \<Rightarrow> False | Some c \<Rightarrow> fw_WebLogMax c \<noteq> None)\<rparr>;
               opt3 = applyForwardGlobalFlags opt2 base setFlags in
           case normalizeForwardOptions opt3 of
             Inl e \<Rightarrow> Inl (CliOption e)
           | Inr opt \<Rightarrow>
               if o_mode opt \<noteq> ''go'' then Inl (ErrMultiForwardMode (o_mode opt))
               else if forwardInstanceKey opt \<in> set seen then Inl (ErrDuplicateListen (forwardInstanceKey opt))
               else
                 (case build_forward_instances base setFlags (forwardInstanceKey opt # seen) fcs of
                    Inl e \<Rightarrow> Inl e
                  | Inr opts \<Rightarrow> Inr (opt # opts))))"

text \<open>The configuration of the forwarder of one instance.\<close>

definition forward_config :: "EventLog option \<Rightarrow> options \<Rightarrow> fwd_Config" where
  "forward_config events opt =
     \<lparr>fc_Listen = forwardListenAddr opt, fc_Target = o_target opt, fc_Network = o_proto opt,
      fc_ReuseAddr = o_reuseAddr opt, fc_DialTimeout = o_dialTimeout opt, fc_MaxConns = o_maxConns opt,
      fc_IdleTimeout = o_idleTimeout opt, fc_Debug = EqualFold (o_logLevel opt) ''debug'',
      fc_Quiet = o_quiet opt, fc_Events = events\<rparr>"

definition runGo_events :: "options \<Rightarrow> EventLog option" where
  "runGo_events opt =
     (if TrimSpace (o_webAddr opt) \<noteq> [] then Some (NewEventLog (o_webLogMax opt)) else None)"

definition socat_options :: "options \<Rightarrow> socat_Options" where
  "socat_options opt =
     \<lparr>so_ListenPort = o_listenPort opt, so_Target = o_target opt, so_Proto = o_proto opt, so_Fork = True,
      so_ReuseAddr = o_reuseAddr opt, so_ListenHost = o_listenHost opt, so_Sudo = o_useSudo opt\<rparr>"

definition socat_go_only :: "string list" where
  "socat_go_only = [''idle-timeout'', ''max-conns'', ''log-level'', ''quiet'']"

datatype cli_plan =
    PlanHelp | PlanUsage | PlanVersion | PlanErr cli_err
  | PlanGo options fwd_Config
  | PlanSocat options "string list" socat_Options
  | PlanForwards "string list" "options list" "fwd_Config list" forwardAdminOptions
  | PlanProxy proxyOptions "UpstreamConfig option"
  | PlanProxies "(proxyOptions \<times> UpstreamConfig option) list" proxyAdminOptions

definition startForwardInstances_plan :: "string list \<Rightarrow> options list \<Rightarrow> cli_plan" where
  "startForwardInstances_plan ignored instances =
     (case collectForwardAdminOptions instances of
        Inl e \<Rightarrow> PlanErr e
      | Inr admin \<Rightarrow>
          (let events = (if fa_webAddr admin \<noteq> [] then Some (NewEventLog (fa_webLogMax admin)) else None) in
           PlanForwards ignored instances (map (forward_config events) instances) admin))"

definition runForwardMulti :: "options \<Rightarrow> Config \<Rightarrow> string set \<Rightarrow> lang_state \<Rightarrow> cli_plan \<times> lang_state" where
  "runForwardMulti base cfg setFlags st =
     (let st' = (case cf_Lang cfg of
                   Some l \<Rightarrow> if ''lang'' \<in> setFlags then st else set_lang_code l st
                 | None \<Rightarrow> st);
          ignored = ignored_flags forwardPerInstanceFlags setFlags in
      case build_forward_instances base setFlags [] (cf_Forward cfg) of
        Inl e \<Rightarrow> (PlanErr e, st')
      | Inr instances \<Rightarrow> (startForwardInstances_plan ignored instances, st'))"

definition forward_mode_plan :: "options \<Rightarrow> string set \<Rightarrow> cli_plan" where
  "forward_mode_plan opt setFlags =
     (if o_mode opt = ''go'' then PlanGo opt (forward_config (runGo_events opt) opt)
      else if o_mode opt = ''socat'' then
        PlanSocat opt (ignored_flags socat_go_only setFlags) (socat_options opt)
      else PlanErr (CliOption (ErrMode (o_mode opt))))"

definition merge_forward :: "options \<Rightarrow> Config option \<Rightarrow> string set \<Rightarrow> cli_err + options" where
  "merge_forward opt topCfg setFlags =
     (case topCfg of
        None \<Rightarrow> Inr opt
      | Some cfg \<Rightarrow>
          (case applyForwardConfig opt (hd (cf_Forward cfg)) setFlags of
             Inl e \<Rightarrow> Inl (CliConfig e)
           | Inr o1 \<Rightarrow>
               Inr (case cf_Lang cfg of
                      Some l \<Rightarrow> if ''lang'' \<in> setFlags then o1 else o1\<lparr>o_lang := l\<rparr>
                    | None \<Rightarrow> o1)))"

definition runForward :: "cli_env \<Rightarrow> string list \<Rightarrow> lang_state \<Rightarrow> cli_plan \<times> lang_state" where
  "runForward env argv st =
     (case flag_parse forward_flags argv forward_flag_defaults {} of
        Inl e \<Rightarrow> (if e = ErrHelp then (PlanHelp, st) else (PlanErr (CliFlag e), st))
      | Inr (opt, setFlags, _) \<Rightarrow>
          if argv = [] then (PlanUsage, st)
          else if o_showVersion opt then (PlanVersion, st)
          else
            (case loadCommandConfig env (o_configPath opt) (''lang'' \<in> setFlags) ''forward'' st of
               (Inl e, st1) \<Rightarrow> (PlanErr e, st1)
             | (Inr topCfg, st1) \<Rightarrow>
                 if topCfg \<noteq> None \<and> 1 < length (cf_Forward (the topCfg))
                 then runForwardMulti opt (the topCfg) setFlags st1
                 else
                   (case merge_forward opt topCfg setFlags of
                      Inl e \<Rightarrow> (PlanErr e, st1)
                    | Inr o1 \<Rightarrow>
                        (case validateForwardOptions o1 of
                           Inl e \<Rightarrow> (PlanErr (CliOption e), st1)
                         | Inr o2 \<Rightarrow> (forward_mode_plan o2 setFlags, st1)))))"

section \<open>Proxy\<close>

definition expandTilde :: "cli_env \<Rightarrow> string \<Rightarrow> string" where
  "expandTilde env path =
     (if path \<noteq> ''~'' \<and> take 2 path \<noteq> ''~/'' then path
      else (case ce_home env of
              None \<Rightarrow> path
            | Some home \<Rightarrow> filepath_Join2 home (drop 1 path)))"

definition upstreamAgentAvailable :: "cli_env \<Rightarrow> bool \<Rightarrow> string \<Rightarrow> bool" where
  "upstreamAgentAvailable env enabled socket =
     (if \<not> enabled then False
      else
        (let path0 = TrimSpace socket;
             path = (if path0 = [] then TrimSpace (ce_getenv env ''SSH_AUTH_SOCK'') else path0) in
         if path = [] then False else ce_dialUnix env (expandTilde env path)))"

text \<open>\<open>readPasswordPrompt\<close>: what is written, and the password or \<open>None\<close> for an error.\<close>

definition readPasswordPrompt :: "string \<Rightarrow> string option \<Rightarrow> string \<times> string option" where
  "readPasswordPrompt prompt pw = (prompt @ [CHR 0x0A], pw)"

definition resolveIdentityPassphrase :: "cli_env \<Rightarrow> proxyOptions \<Rightarrow> proxyOptions" where
  "resolveIdentityPassphrase env opt =
     (let v = ce_getenv env ''PORTMAP_UPSTREAM_IDENTITY_PASSPHRASE'' in
      if v \<noteq> [] then opt\<lparr>p_upstreamIdentityPassphrase := v\<rparr>
      else if p_upstreamIdentityPassphrase opt \<noteq> [] then opt
      else if TrimSpace (p_upstreamIdentity opt) = [] then opt
      else if upstreamAgentAvailable env (p_upstreamAgent opt) (p_upstreamAgentSocket opt) then opt
      else if \<not> ce_stdinTTY env then opt
      else (case snd (readPasswordPrompt [] (ce_readPassword env)) of
              None \<Rightarrow> opt
            | Some pw \<Rightarrow> opt\<lparr>p_upstreamIdentityPassphrase := pw\<rparr>))"

definition promptUpstreamPassword :: "cli_env \<Rightarrow> UpstreamConfig \<Rightarrow> UpstreamConfig" where
  "promptUpstreamPassword env u =
     (if uc_Scheme u \<noteq> UpstreamSchemeSSH \<or> uc_Password u \<noteq> [] \<or> uc_IdentityFile u \<noteq> [] then u
      else
        (let v = ce_getenv env ''PORTMAP_UPSTREAM_PASSWORD'' in
         if v \<noteq> [] then u\<lparr>uc_Password := v\<rparr>
         else if upstreamAgentAvailable env (\<not> uc_DisableAgent u) (uc_AgentSocket u) then u
         else if \<not> ce_stdinTTY env then u
         else (case snd (readPasswordPrompt [] (ce_readPassword env)) of
                 None \<Rightarrow> u
               | Some pw \<Rightarrow> u\<lparr>uc_Password := pw\<rparr>)))"

definition buildProxyUpstream :: "cli_env \<Rightarrow> proxyOptions \<Rightarrow> cli_err + UpstreamConfig option" where
  "buildProxyUpstream env opt =
     (if TrimSpace (p_upstream opt) = [] then Inr None
      else
        (case ParseUpstreamURL (ce_url env) (p_upstream opt) of
           Inl e \<Rightarrow> Inl (CliUpstream e)
         | Inr u \<Rightarrow>
             Inr (Some (promptUpstreamPassword env
               (u\<lparr>uc_IdentityFile := expandTilde env (p_upstreamIdentity opt),
                  uc_IdentityPassphrase := p_upstreamIdentityPassphrase opt,
                  uc_KnownHostsFile := expandTilde env (p_upstreamKnownHosts opt),
                  uc_Insecure := p_upstreamInsecure opt,
                  uc_AgentSocket := expandTilde env (p_upstreamAgentSocket opt),
                  uc_DisableAgent := \<not> p_upstreamAgent opt,
                  uc_KeepaliveInterval := p_upstreamKeepalive opt,
                  uc_KeepaliveMaxFailures := p_upstreamKeepaliveMaxFailures opt\<rparr>)))))"

fun build_proxy_instances ::
  "cli_env \<Rightarrow> proxyOptions \<Rightarrow> string set \<Rightarrow> string list \<Rightarrow> ProxyConfig option list \<Rightarrow>
   cli_err + (proxyOptions \<times> UpstreamConfig option) list" where
  "build_proxy_instances env base setFlags seen [] = Inr []"
| "build_proxy_instances env base setFlags seen (pc # pcs) =
     (let opt0 = defaultProxyOptions\<lparr>p_lang := p_lang base\<rparr> in
      case applyProxyConfig opt0 pc {} of
        Inl e \<Rightarrow> Inl (CliConfig e)
      | Inr opt1 \<Rightarrow>
          (let opt2 = applyProxyAdminFlags opt1 base setFlags in
           case validateProxyOptions opt2 of
             Some e \<Rightarrow> Inl (CliOption e)
           | None \<Rightarrow>
               if p_addr opt2 \<in> set seen then Inl (ErrDuplicateListen (p_addr opt2))
               else
                 (let opt = resolveIdentityPassphrase env opt2 in
                  case buildProxyUpstream env opt of
                    Inl e \<Rightarrow> Inl e
                  | Inr upstream \<Rightarrow>
                      (case build_proxy_instances env base setFlags (p_addr opt2 # seen) pcs of
                         Inl e \<Rightarrow> Inl e
                       | Inr rest \<Rightarrow> Inr ((opt, upstream) # rest)))))"

definition buildProxyInstances ::
  "cli_env \<Rightarrow> proxyOptions \<Rightarrow> Config \<Rightarrow> string set \<Rightarrow> cli_err + (proxyOptions \<times> UpstreamConfig option) list" where
  "buildProxyInstances env base cfg setFlags = build_proxy_instances env base setFlags [] (cf_Proxy cfg)"

definition runProxyMulti ::
  "cli_env \<Rightarrow> proxyOptions \<Rightarrow> Config \<Rightarrow> string set \<Rightarrow> lang_state \<Rightarrow> cli_plan \<times> lang_state" where
  "runProxyMulti env base cfg setFlags st =
     (let st' = (case cf_Lang cfg of
                   Some l \<Rightarrow> if ''lang'' \<in> setFlags then st else set_lang_code l st
                 | None \<Rightarrow> st) in
      case buildProxyInstances env base cfg setFlags of
        Inl e \<Rightarrow> (PlanErr e, st')
      | Inr instances \<Rightarrow>
          (case collectProxyAdminOptions (map fst instances) of
             Inl e \<Rightarrow> (PlanErr e, st')
           | Inr admin \<Rightarrow> (PlanProxies instances admin, st')))"

definition runProxy :: "cli_env \<Rightarrow> string list \<Rightarrow> lang_state \<Rightarrow> cli_plan \<times> lang_state" where
  "runProxy env argv st =
     (case flag_parse proxy_flags argv proxy_flag_defaults {} of
        Inl e \<Rightarrow> (if e = ErrHelp then (PlanHelp, st) else (PlanErr (CliFlag e), st))
      | Inr (opt, setFlags, _) \<Rightarrow>
          if p_showVersion opt then (PlanVersion, st)
          else
            (case loadCommandConfig env (p_configPath opt) (''lang'' \<in> setFlags) ''proxy'' st of
               (Inl e, st1) \<Rightarrow> (PlanErr e, st1)
             | (Inr topCfg, st1) \<Rightarrow>
                 if topCfg \<noteq> None \<and> 1 < length (cf_Proxy (the topCfg))
                 then runProxyMulti env opt (the topCfg) setFlags st1
                 else
                   (case mergeProxyConfig opt topCfg setFlags of
                      Inl e \<Rightarrow> (PlanErr (CliConfig e), st1)
                    | Inr o1 \<Rightarrow>
                        (case validateProxyOptions o1 of
                           Some e \<Rightarrow> (PlanErr (CliOption e), st1)
                         | None \<Rightarrow>
                             (let o2 = resolveIdentityPassphrase env o1 in
                              case buildProxyUpstream env o2 of
                                Inl e \<Rightarrow> (PlanErr e, st1)
                              | Inr upstream \<Rightarrow> (PlanProxy o2 upstream, st1))))))"

section \<open>The root command\<close>

definition cli_run :: "cli_env \<Rightarrow> string list \<Rightarrow> lang_state \<Rightarrow> cli_plan \<times> lang_state" where
  "cli_run env argv st0 =
     (let code = preScanLang argv;
          st = (if code \<noteq> [] then set_lang_code code st0 else st0) in
      case splitSubcommand argv of (sub, rest) \<Rightarrow>
        if sub = ''forward'' then runForward env rest st
        else if sub = ''proxy'' then runProxy env rest st
        else if sub = ''version'' then (PlanVersion, st)
        else (PlanErr (ErrUnknownSub sub), st))"

end
