(* ===== verification/Cli_Props.thy ===== *)
theory Cli_Props
  imports Cli_Model
begin

text \<open>
  What the command line guarantees: where the value of each option comes from, what an explicit
  configuration file may start, the validity and distinctness of several instances, and where the
  secrets of an upstream come from.
\<close>

section \<open>Flags that were not given\<close>

text \<open>No flag but \<open>n\<close> touches the part of the options that \<open>g\<close> reads.\<close>

definition only_flag :: "'o flag_table \<Rightarrow> string \<Rightarrow> ('o \<Rightarrow> 'a) \<Rightarrow> bool" where
  "only_flag tab n g \<longleftrightarrow>
     (\<forall>p\<in>set tab. fst p = n \<or> (\<forall>v opt opt'. flag_set_value (snd p) v opt = Some opt' \<longrightarrow> g opt' = g opt))"

lemma flag_round_keeps:
  assumes "only_flag tab n g" "flag_round tab s args opt = FlagSeen name (Some opt') took v" "name \<noteq> n"
  shows "g opt' = g opt"
proof -
  obtain k where "map_of tab name = Some k" "flag_set_value k v opt = Some opt'"
    using assms(2) by (auto simp: flag_round_def Let_def split: if_splits option.splits prod.splits)
  moreover have "(name, k) \<in> set tab" using calculation(1) by (rule map_of_SomeD)
  ultimately show ?thesis using assms(1,3) by (fastforce simp: only_flag_def)
qed

lemma flag_parse_keeps:
  "flag_parse tab args opt seen = Inr (opt', seen', rest) \<Longrightarrow> n \<notin> seen' \<Longrightarrow> only_flag tab n g \<Longrightarrow> g opt' = g opt"
proof (induction tab args opt seen arbitrary: opt' seen' rest rule: flag_parse.induct)
  case (2 tab s args opt seen)
  show ?case
  proof (cases "flag_round tab s args opt")
    case (FlagSeen name o1 took v)
    then obtain o2 where o: "o1 = Some o2" using 2(2) by (cases o1) auto
    have p: "flag_parse tab (if took then tl args else args) o2 (insert name seen) = Inr (opt', seen', rest)"
      using 2(2) by (simp only: flag_parse.simps FlagSeen o flag_round.case option.case)
    have "name \<noteq> n" using flag_parse_seen [OF p] 2(3) by blast
    then have "g o2 = g opt" using flag_round_keeps [OF 2(4) FlagSeen [unfolded o]] by simp
    then show ?thesis using 2(1) [OF FlagSeen o p 2(3,4)] by simp
  qed (use 2(2) in auto)
qed simp

lemma flag_unseen:
  assumes "flag_parse tab args dflt {} = Inr (opt, seen, rest)" and "only_flag tab n g"
  shows "g opt = (if n \<in> seen then g opt else g dflt)"
  using flag_parse_keeps [OF assms(1) _ assms(2)] by simp

named_theorems forward_only "which flag sets which option of the forward command"

lemma forward_only_flags [forward_only]:
  "only_flag forward_flags ''listen-port'' o_listenPort"
  "only_flag forward_flags ''listen-host'' o_listenHost"
  "only_flag forward_flags ''target'' o_target"
  "only_flag forward_flags ''mode'' o_mode"
  "only_flag forward_flags ''proto'' o_proto"
  "only_flag forward_flags ''reuseaddr'' o_reuseAddr"
  "only_flag forward_flags ''sudo'' o_useSudo"
  "only_flag forward_flags ''dial-timeout'' o_dialTimeout"
  "only_flag forward_flags ''max-conns'' o_maxConns"
  "only_flag forward_flags ''idle-timeout'' o_idleTimeout"
  "only_flag forward_flags ''log-level'' o_logLevel"
  "only_flag forward_flags ''quiet'' o_quiet"
  "only_flag forward_flags ''stats-addr'' o_statsAddr"
  "only_flag forward_flags ''web-addr'' o_webAddr"
  "only_flag forward_flags ''web-log-max'' o_webLogMax"
  by (auto simp: only_flag_def forward_flags_def flag_set_value_def)

section \<open>Where an option of a single forwarder comes from\<close>

text \<open>An explicit flag, else the file, else the default.\<close>

definition pick :: "string set \<Rightarrow> string \<Rightarrow> 'a \<Rightarrow> 'a option \<Rightarrow> 'a \<Rightarrow> 'a" where
  "pick seen n cli file dflt = (if n \<in> seen then cli else case file of Some v \<Rightarrow> v | None \<Rightarrow> dflt)"

text \<open>The forward section that \<open>-config\<close> names, without fields when there is no file.\<close>

definition forward_section :: "Config option \<Rightarrow> ForwardConfig" where
  "forward_section topCfg =
     (case topCfg of
        None \<Rightarrow> zero_ForwardConfig
      | Some cfg \<Rightarrow> (case hd (cf_Forward cfg) of Some fc \<Rightarrow> fc | None \<Rightarrow> zero_ForwardConfig))"

definition forward_valid :: "options \<Rightarrow> bool" where
  "forward_valid opt \<longleftrightarrow>
     0 < o_listenPort opt \<and> o_listenPort opt \<le> 65535 \<and> TrimSpace (o_target opt) \<noteq> [] \<and>
     o_proto opt \<in> {''tcp'', ''udp''} \<and> o_logLevel opt \<in> {''info'', ''debug''} \<and>
     0 \<le> sint (o_idleTimeout opt) \<and> 0 \<le> o_maxConns opt \<and> 0 \<le> sint (o_dialTimeout opt)"

lemma validate_Inr:
  "validateForwardOptions opt = Inr opt' \<longleftrightarrow>
     opt' = opt\<lparr>o_proto := ToLower (TrimSpace (o_proto opt)), o_logLevel := ToLower (TrimSpace (o_logLevel opt))\<rparr> \<and>
     forward_valid opt'"
  by (auto simp: validateForwardOptions_def forward_valid_def Let_def)

lemma normalize_Inr:
  "normalizeForwardOptions opt = Inr opt' \<longleftrightarrow>
     ToLower (TrimSpace (o_mode opt)) \<in> {''go'', ''socat''} \<and>
     (\<exists>v. validateForwardOptions opt = Inr v \<and> opt' = v\<lparr>o_mode := ToLower (TrimSpace (o_mode opt))\<rparr>)"
  by (auto simp: normalizeForwardOptions_def validateForwardOptions_def Let_def)

lemma apply_zero: "applyForwardConfig opt (Some zero_ForwardConfig) flags = Inr opt"
  by (simp add: applyForwardConfig_def apply_forward_values_def zero_ForwardConfig_def applyConfigValue_def
      applyConfigDuration_def)

lemma apply_nil: "applyForwardConfig opt None flags = Inr opt"
  by (simp add: applyForwardConfig_def)

lemma merge_forward_section:
  "merge_forward opt topCfg seen = Inr o1 \<Longrightarrow>
     \<exists>o2 l. applyForwardConfig opt (Some (forward_section topCfg)) seen = Inr o2 \<and> o1 = o2\<lparr>o_lang := l\<rparr>"
proof (cases topCfg)
  case None
  assume "merge_forward opt topCfg seen = Inr o1"
  then have "o1 = opt" by (simp add: merge_forward_def None)
  then have "o1 = opt\<lparr>o_lang := o_lang opt\<rparr>" by simp
  then show ?thesis by (metis None apply_zero forward_section_def option.case(1))
next
  case (Some cfg)
  assume m: "merge_forward opt topCfg seen = Inr o1"
  then obtain o2 where o2: "applyForwardConfig opt (hd (cf_Forward cfg)) seen = Inr o2"
    by (auto simp: merge_forward_def Some split: sum.splits)
  have "o1 = o2 \<or> (\<exists>l. o1 = o2\<lparr>o_lang := l\<rparr>)"
    using m o2 by (auto simp: merge_forward_def Some split: option.splits if_splits)
  then have l: "\<exists>l. o1 = o2\<lparr>o_lang := l\<rparr>" by (metis options.surjective options.update_convs(15))
  have "applyForwardConfig opt (Some (forward_section topCfg)) seen = Inr o2"
    using o2 by (cases "hd (cf_Forward cfg)") (simp_all add: forward_section_def Some apply_zero apply_nil)
  then show ?thesis using l by blast
qed

lemma apply_forward_E:
  assumes "applyForwardConfig opt (Some fc) seen = Inr o2"
  obtains d i where
    "applyConfigDuration (o_dialTimeout opt) (fw_DialTimeout fc) seen ''dial-timeout'' ErrConfigDial = Inr d"
    "applyConfigDuration (o_idleTimeout opt) (fw_IdleTimeout fc) seen ''idle-timeout'' ErrConfigIdle = Inr i"
    "o2 = (apply_forward_values opt fc seen)\<lparr>o_dialTimeout := d, o_idleTimeout := i\<rparr>"
  using assms by (auto simp: applyForwardConfig_def apply_forward_values_def Let_def split: sum.splits)

lemma apply_forward_pick:
  assumes "applyForwardConfig opt (Some fc) seen = Inr o2"
  shows "o_listenPort o2 = pick seen ''listen-port'' (o_listenPort opt) (fw_ListenPort fc) (o_listenPort opt)"
    and "o_listenHost o2 = pick seen ''listen-host'' (o_listenHost opt) (fw_ListenHost fc) (o_listenHost opt)"
    and "o_target o2 = pick seen ''target'' (o_target opt) (fw_Target fc) (o_target opt)"
    and "o_mode o2 = pick seen ''mode'' (o_mode opt) (fw_Mode fc) (o_mode opt)"
    and "o_proto o2 = pick seen ''proto'' (o_proto opt) (fw_Proto fc) (o_proto opt)"
    and "o_reuseAddr o2 = pick seen ''reuseaddr'' (o_reuseAddr opt) (fw_ReuseAddr fc) (o_reuseAddr opt)"
    and "o_useSudo o2 = pick seen ''sudo'' (o_useSudo opt) (fw_Sudo fc) (o_useSudo opt)"
    and "o_maxConns o2 = pick seen ''max-conns'' (o_maxConns opt) (fw_MaxConns fc) (o_maxConns opt)"
    and "o_logLevel o2 = pick seen ''log-level'' (o_logLevel opt) (fw_LogLevel fc) (o_logLevel opt)"
    and "o_quiet o2 = pick seen ''quiet'' (o_quiet opt) (fw_Quiet fc) (o_quiet opt)"
    and "o_statsAddr o2 = pick seen ''stats-addr'' (o_statsAddr opt) (fw_StatsAddr fc) (o_statsAddr opt)"
    and "o_webAddr o2 = pick seen ''web-addr'' (o_webAddr opt) (fw_WebAddr fc) (o_webAddr opt)"
    and "o_webLogMax o2 = pick seen ''web-log-max'' (o_webLogMax opt) (fw_WebLogMax fc) (o_webLogMax opt)"
    and "o_dialTimeout o2 = pick seen ''dial-timeout'' (o_dialTimeout opt) (map_option (the \<circ> ParseDuration) (fw_DialTimeout fc)) (o_dialTimeout opt)"
    and "o_idleTimeout o2 = pick seen ''idle-timeout'' (o_idleTimeout opt) (map_option (the \<circ> ParseDuration) (fw_IdleTimeout fc)) (o_idleTimeout opt)"
  by (rule apply_forward_E [OF assms],
      auto simp: pick_def applyConfigValue_def applyConfigDuration_Inr apply_forward_values_def
        split: option.splits if_splits)+

section \<open>Plans of the forward command\<close>

lemma multi_plan:
  "\<exists>ig opts cs admin e. fst (runForwardMulti base cfg setFlags st) \<in> {PlanErr e, PlanForwards ig opts cs admin}"
  by (auto simp: runForwardMulti_def startForwardInstances_plan_def Let_def split: sum.splits)

text \<open>The options of the single instance that a plan starts.\<close>

fun single_options :: "cli_plan \<Rightarrow> options option" where
  "single_options (PlanGo opt c) = Some opt"
| "single_options (PlanSocat opt ig so) = Some opt"
| "single_options plan = None"

lemma multi_not_single: "single_options (fst (runForwardMulti base cfg setFlags st)) = None"
  using multi_plan [of base cfg setFlags st] by auto

lemma runForward_single:
  assumes p: "flag_parse forward_flags argv forward_flag_defaults {} = Inr (cli, seen, rest)"
    and l: "loadCommandConfig env (o_configPath cli) (''lang'' \<in> seen) ''forward'' st = (Inr topCfg, st1)"
    and r: "single_options (fst (runForward env argv st)) = Some opt"
  shows "\<exists>o1. merge_forward cli topCfg seen = Inr o1 \<and> validateForwardOptions o1 = Inr opt \<and>
     fst (runForward env argv st) = forward_mode_plan opt seen \<and> o_mode opt \<in> {''go'', ''socat''}"
proof -
  have ne: "argv \<noteq> []" "\<not> o_showVersion cli" using r by (auto simp: runForward_def p split: if_splits)
  have nm: "\<not> (topCfg \<noteq> None \<and> 1 < length (cf_Forward (the topCfg)))"
  proof
    assume "topCfg \<noteq> None \<and> 1 < length (cf_Forward (the topCfg))"
    then have "runForward env argv st = runForwardMulti cli (the topCfg) seen st1"
      using ne by (simp add: runForward_def p l)
    then show False using r multi_not_single [of cli "the topCfg" seen st1] by simp
  qed
  then have run: "fst (runForward env argv st) =
      (case merge_forward cli topCfg seen of
         Inl e \<Rightarrow> PlanErr e
       | Inr o1 \<Rightarrow> (case validateForwardOptions o1 of Inl e \<Rightarrow> PlanErr (CliOption e) | Inr o2 \<Rightarrow> forward_mode_plan o2 seen))"
    using ne nm by (simp add: runForward_def p l split: sum.split del: not_None_eq One_nat_def) blast
  obtain o1 where o1: "merge_forward cli topCfg seen = Inr o1" using r run by (cases "merge_forward cli topCfg seen") auto
  obtain o2 where o2: "validateForwardOptions o1 = Inr o2" using r run o1 by (cases "validateForwardOptions o1") auto
  have "o2 = opt" "o_mode o2 \<in> {''go'', ''socat''}"
    using r by (auto simp: run o1 o2 forward_mode_plan_def split: if_splits)
  then show ?thesis using run o1 o2 by simp
qed

lemmas forward_cli_default = flag_unseen [where tab = forward_flags and dflt = forward_flag_defaults]

lemma mode_norm: "ToLower (TrimSpace ''go'') = ''go''" "ToLower (TrimSpace ''socat'') = ''socat''"
  by code_simp+

lemma pick_default_flag:
  assumes "flag_parse forward_flags argv forward_flag_defaults {} = Inr (cli, seen, rest)"
    and "only_flag forward_flags n g"
  shows "pick seen n (g cli) v (g cli) = pick seen n (g cli) v (g forward_flag_defaults)"
  using forward_cli_default [OF assms] by (auto simp: pick_def split: if_splits option.splits)

lemmas pick_default = forward_only_flags [THEN pick_default_flag [rotated]]

text \<open>C18: Every option of a single forwarder has one source: the flag if it was given, else the
  field of the configuration file if it is there, else the built-in default; protocol and log level
  are then normalised.  What is started with them has passed validation.\<close>
theorem effective_forward_options:
  assumes p: "flag_parse forward_flags argv forward_flag_defaults {} = Inr (cli, seen, rest)"
    and l: "loadCommandConfig env (o_configPath cli) (''lang'' \<in> seen) ''forward'' st = (Inr topCfg, st1)"
    and r: "single_options (fst (runForward env argv st)) = Some opt"
  shows "let sec = forward_section topCfg; norm = (\<lambda>s. ToLower (TrimSpace s)) in
     forward_valid opt \<and> o_mode opt \<in> {''go'', ''socat''} \<and>
     o_listenPort opt = pick seen ''listen-port'' (o_listenPort cli) (fw_ListenPort sec) 22 \<and>
     o_listenHost opt = pick seen ''listen-host'' (o_listenHost cli) (fw_ListenHost sec) [] \<and>
     o_target opt = pick seen ''target'' (o_target cli) (fw_Target sec) ''127.0.0.1:2222'' \<and>
     o_mode opt = pick seen ''mode'' (o_mode cli) (fw_Mode sec) ''go'' \<and>
     o_proto opt = norm (pick seen ''proto'' (o_proto cli) (fw_Proto sec) ''tcp'') \<and>
     o_reuseAddr opt = pick seen ''reuseaddr'' (o_reuseAddr cli) (fw_ReuseAddr sec) True \<and>
     o_useSudo opt = pick seen ''sudo'' (o_useSudo cli) (fw_Sudo sec) False \<and>
     o_maxConns opt = pick seen ''max-conns'' (o_maxConns cli) (fw_MaxConns sec) 256 \<and>
     o_logLevel opt = norm (pick seen ''log-level'' (o_logLevel cli) (fw_LogLevel sec) ''info'') \<and>
     o_quiet opt = pick seen ''quiet'' (o_quiet cli) (fw_Quiet sec) False \<and>
     o_statsAddr opt = pick seen ''stats-addr'' (o_statsAddr cli) (fw_StatsAddr sec) [] \<and>
     o_webAddr opt = pick seen ''web-addr'' (o_webAddr cli) (fw_WebAddr sec) [] \<and>
     o_webLogMax opt = pick seen ''web-log-max'' (o_webLogMax cli) (fw_WebLogMax sec) 1000 \<and>
     o_dialTimeout opt = pick seen ''dial-timeout'' (o_dialTimeout cli) (map_option (the \<circ> ParseDuration) (fw_DialTimeout sec)) 10000000000 \<and>
     o_idleTimeout opt = pick seen ''idle-timeout'' (o_idleTimeout cli) (map_option (the \<circ> ParseDuration) (fw_IdleTimeout sec)) 300000000000"
proof -
  obtain o1 where m: "merge_forward cli topCfg seen = Inr o1" and v: "validateForwardOptions o1 = Inr opt"
    and mode: "o_mode opt \<in> {''go'', ''socat''}"
    using runForward_single [OF p l r] by blast
  obtain o2 lg where a: "applyForwardConfig cli (Some (forward_section topCfg)) seen = Inr o2" and o1: "o1 = o2\<lparr>o_lang := lg\<rparr>"
    using merge_forward_section [OF m] by blast
  have opt: "opt = o1\<lparr>o_proto := ToLower (TrimSpace (o_proto o1)), o_logLevel := ToLower (TrimSpace (o_logLevel o1))\<rparr>"
    and valid: "forward_valid opt" using v validate_Inr by blast+
  note pk = apply_forward_pick [OF a]
  note defaults = forward_flag_defaults_def defaultForwardMaxConns_def defaultForwardIdleTimeout_def
  show ?thesis unfolding Let_def
    by (intro conjI valid mode; simp add: opt o1 pk pick_default [OF p] defaults)
qed

definition sample_env :: cli_env where
  "sample_env =
     \<lparr>ce_read = Inr, ce_yaml = sample_yaml, ce_url = (\<lambda>_. Inl []), ce_getenv = (\<lambda>_. []), ce_home = None,
      ce_dialUnix = (\<lambda>_. False), ce_stdinTTY = False, ce_readPassword = None\<rparr>"

definition lang0 :: lang_state where "lang0 = \<lparr>current = English, detected = False\<rparr>"

definition sample_argv :: "string list" where
  "sample_argv = [''-listen-port=8022'', ''--proto'', '' UDP'', ''-config'', ''10.0.0.1:22'']"

definition sample_cli :: options where
  "sample_cli = forward_flag_defaults\<lparr>o_listenPort := 8022, o_proto := '' UDP'', o_configPath := ''10.0.0.1:22''\<rparr>"

definition sample_cfg :: Config where
  "sample_cfg = \<lparr>cf_Forward = [Some (zero_ForwardConfig\<lparr>fw_Target := Some ''10.0.0.1:22''\<rparr>)], cf_Proxy = [], cf_Lang = None\<rparr>"

lemma sample_parse: "flag_parse forward_flags sample_argv forward_flag_defaults {} = Inr (sample_cli, {''config'', ''proto'', ''listen-port''}, [])"
  by code_simp

lemma sample_load: "loadCommandConfig sample_env (o_configPath sample_cli) False ''forward'' lang0 = (Inr (Some sample_cfg), lang0)"
  by code_simp

definition sample_final :: options where
  "sample_final = sample_cli\<lparr>o_proto := ''udp'', o_target := ''10.0.0.1:22''\<rparr>"

lemma sample_merge:
  "merge_forward sample_cli (Some sample_cfg) {''config'', ''proto'', ''listen-port''} = Inr (sample_cli\<lparr>o_target := ''10.0.0.1:22''\<rparr>)"
  by code_simp

lemma sample_validate: "validateForwardOptions (sample_cli\<lparr>o_target := ''10.0.0.1:22''\<rparr>) = Inr sample_final"
  by code_simp

lemma sample_facts: "sample_argv \<noteq> []" "\<not> o_showVersion sample_cli" "length (cf_Forward sample_cfg) = 1" "o_mode sample_final = ''go''"
    "single_options (forward_mode_plan sample_final S) = Some sample_final"
  by (simp_all add: sample_argv_def sample_cli_def sample_cfg_def sample_final_def forward_flag_defaults_def forward_mode_plan_def)

lemma sample_plan: "fst (runForward sample_env sample_argv lang0) = forward_mode_plan sample_final {''config'', ''proto'', ''listen-port''}"
  by (simp add: runForward_def sample_parse sample_load sample_merge sample_validate sample_facts)

lemma sample_run: "single_options (fst (runForward sample_env sample_argv lang0)) = Some sample_final"
  by (simp add: sample_plan sample_facts)

lemma effective_forward_options_witness:
  "o_target sample_final =
     pick {''config'', ''proto'', ''listen-port''} ''target'' (o_target sample_cli) (fw_Target (forward_section (Some sample_cfg))) ''127.0.0.1:2222''"
proof -
  have l: "loadCommandConfig sample_env (o_configPath sample_cli) (''lang'' \<in> {''config'', ''proto'', ''listen-port''}) ''forward'' lang0
      = (Inr (Some sample_cfg), lang0)"
    using sample_load by simp
  show ?thesis using effective_forward_options [OF sample_parse l sample_run] by (simp only: Let_def)
qed

section \<open>What an explicit configuration file starts\<close>

lemma loadCommandConfig_Inr:
  "loadCommandConfig env path ls section st = (Inr (Some cfg), st') \<Longrightarrow>
     loadTopConfig (ce_read env) (ce_yaml env) path = Inr cfg \<and> hasCommandInstances cfg section"
  by (auto simp: loadCommandConfig_def Let_def split: if_splits sum.splits)

lemma loadCommandConfig_path:
  "loadCommandConfig env path ls section st = (Inr None, st') \<longleftrightarrow> path = [] \<and> st' = st"
  by (auto simp: loadCommandConfig_def Let_def split: sum.splits)

fun starts :: "cli_plan \<Rightarrow> nat" where
  "starts (PlanGo opt c) = 1"
| "starts (PlanSocat opt ig so) = 1"
| "starts (PlanForwards ig opts cs admin) = length opts"
| "starts (PlanProxy opt u) = 1"
| "starts (PlanProxies ps admin) = length ps"
| "starts plan = 0"

lemma build_forward_facts:
  "build_forward_instances base S seen fcs = Inr opts \<Longrightarrow>
     length opts = length fcs \<and> distinct (map forwardInstanceKey opts) \<and>
     (\<forall>opt\<in>set opts. forward_valid opt \<and> o_mode opt = ''go'' \<and> forwardInstanceKey opt \<notin> set seen)"
proof (induction fcs arbitrary: seen opts)
  case (Cons fc fcs)
  obtain opt rest where o: "opts = opt # rest" and r: "build_forward_instances base S (forwardInstanceKey opt # seen) fcs = Inr rest"
    and k: "forwardInstanceKey opt \<notin> set seen" and m: "o_mode opt = ''go''" and n: "\<exists>o3. normalizeForwardOptions o3 = Inr opt"
    using Cons.prems by (auto simp: Let_def split: sum.splits if_splits)
  have "forward_valid opt"
    using n unfolding normalize_Inr validate_Inr by (auto simp: forward_valid_def)
  then show ?case using Cons.IH [OF r] k m by (auto simp: o)
qed simp

lemma build_proxy_facts:
  "build_proxy_instances env base S seen pcs = Inr ps \<Longrightarrow>
     length ps = length pcs \<and> distinct (map (p_addr \<circ> fst) ps) \<and>
     (\<forall>p\<in>set ps. validateProxyOptions (fst p) = None \<and> p_addr (fst p) \<notin> set seen \<and>
        buildProxyUpstream env (fst p) = Inr (snd p))"
proof (induction pcs arbitrary: seen ps)
  case (Cons pc pcs)
  obtain o2 u rest where o: "ps = (resolveIdentityPassphrase env o2, u) # rest"
    and r: "build_proxy_instances env base S (p_addr o2 # seen) pcs = Inr rest"
    and k: "p_addr o2 \<notin> set seen" and v: "validateProxyOptions o2 = None"
    and u: "buildProxyUpstream env (resolveIdentityPassphrase env o2) = Inr u"
    using Cons.prems by (auto simp: Let_def split: sum.splits if_splits option.splits)
  have same: "p_addr (resolveIdentityPassphrase env o2) = p_addr o2"
    "validateProxyOptions (resolveIdentityPassphrase env o2) = validateProxyOptions o2"
    by (simp_all add: resolveIdentityPassphrase_def validateProxyOptions_def Let_def split: option.splits)
  show ?case using Cons.IH [OF r] k v u by (auto simp: o same)
qed simp

lemma forward_multi_starts:
  "fst (runForwardMulti base cfg S st) = plan \<Longrightarrow>
     (\<exists>e. plan = PlanErr e) \<or> (\<exists>ig opts cs admin. plan = PlanForwards ig opts cs admin \<and> length opts = length (cf_Forward cfg))"
  by (auto simp: runForwardMulti_def startForwardInstances_plan_def Let_def split: sum.splits dest: build_forward_facts)

lemma proxy_multi_starts:
  "fst (runProxyMulti env base cfg S st) = plan \<Longrightarrow>
     (\<exists>e. plan = PlanErr e) \<or> (\<exists>ps admin. plan = PlanProxies ps admin \<and> length ps = length (cf_Proxy cfg))"
  by (auto simp: runProxyMulti_def buildProxyInstances_def Let_def split: sum.splits dest: build_proxy_facts)

text \<open>The options of one instance, spelled out: each is the flag's value if the flag counts and was
  given, else the value of the instance's section, else the built-in default.\<close>

definition forward_from :: "string set \<Rightarrow> options \<Rightarrow> ForwardConfig \<Rightarrow> options \<Rightarrow> bool" where
  "forward_from flags cli sec opt \<longleftrightarrow>
     o_listenPort opt = pick flags ''listen-port'' (o_listenPort cli) (fw_ListenPort sec) 22 \<and>
     o_listenHost opt = pick flags ''listen-host'' (o_listenHost cli) (fw_ListenHost sec) [] \<and>
     o_target opt = pick flags ''target'' (o_target cli) (fw_Target sec) ''127.0.0.1:2222'' \<and>
     o_mode opt = ToLower (TrimSpace (pick flags ''mode'' (o_mode cli) (fw_Mode sec) ''go'')) \<and>
     o_proto opt = ToLower (TrimSpace (pick flags ''proto'' (o_proto cli) (fw_Proto sec) ''tcp'')) \<and>
     o_reuseAddr opt = pick flags ''reuseaddr'' (o_reuseAddr cli) (fw_ReuseAddr sec) True \<and>
     o_useSudo opt = pick flags ''sudo'' (o_useSudo cli) (fw_Sudo sec) False \<and>
     o_dialTimeout opt = pick flags ''dial-timeout'' (o_dialTimeout cli) (map_option (the \<circ> ParseDuration) (fw_DialTimeout sec)) 10000000000 \<and>
     o_maxConns opt = pick flags ''max-conns'' (o_maxConns cli) (fw_MaxConns sec) 256 \<and>
     o_idleTimeout opt = pick flags ''idle-timeout'' (o_idleTimeout cli) (map_option (the \<circ> ParseDuration) (fw_IdleTimeout sec)) 300000000000 \<and>
     o_logLevel opt = ToLower (TrimSpace (pick flags ''log-level'' (o_logLevel cli) (fw_LogLevel sec) ''info'')) \<and>
     o_quiet opt = pick flags ''quiet'' (o_quiet cli) (fw_Quiet sec) False \<and>
     o_statsAddr opt = pick flags ''stats-addr'' (o_statsAddr cli) (fw_StatsAddr sec) [] \<and>
     o_webAddr opt = pick flags ''web-addr'' (o_webAddr cli) (fw_WebAddr sec) [] \<and>
     o_webLogMax opt = pick flags ''web-log-max'' (o_webLogMax cli) (fw_WebLogMax sec) 1000"

definition proxy_from :: "string set \<Rightarrow> proxyOptions \<Rightarrow> ProxyConfig \<Rightarrow> proxyOptions \<Rightarrow> bool" where
  "proxy_from flags cli sec opt \<longleftrightarrow>
     p_addr opt = pick flags ''addr'' (p_addr cli) (px_Addr sec) ''127.0.0.1:1080'' \<and>
     p_dialTimeout opt = pick flags ''dial-timeout'' (p_dialTimeout cli) (map_option (the \<circ> ParseDuration) (px_DialTimeout sec)) 30000000000 \<and>
     p_maxConns opt = pick flags ''max-conns'' (p_maxConns cli) (px_MaxConns sec) 256 \<and>
     p_handshakeTimeout opt = pick flags ''handshake-timeout'' (p_handshakeTimeout cli) (map_option (the \<circ> ParseDuration) (px_HandshakeTimeout sec)) 10000000000 \<and>
     p_idleTimeout opt = pick flags ''idle-timeout'' (p_idleTimeout cli) (map_option (the \<circ> ParseDuration) (px_IdleTimeout sec)) 300000000000 \<and>
     p_allowPublic opt = pick flags ''allow-public'' (p_allowPublic cli) (px_AllowPublic sec) False \<and>
     p_upstream opt = pick flags ''upstream'' (p_upstream cli) (px_Upstream sec) [] \<and>
     p_upstreamIdentity opt = pick flags ''upstream-identity'' (p_upstreamIdentity cli) (px_UpstreamIdentity sec) [] \<and>
     p_upstreamKnownHosts opt = pick flags ''upstream-known-hosts'' (p_upstreamKnownHosts cli) (px_UpstreamKnownHosts sec) [] \<and>
     p_upstreamInsecure opt = pick flags ''upstream-insecure'' (p_upstreamInsecure cli) (px_UpstreamInsecure sec) False \<and>
     p_upstreamAgent opt = pick flags ''upstream-agent'' (p_upstreamAgent cli) (px_UpstreamAgent sec) True \<and>
     p_upstreamAgentSocket opt = pick flags ''upstream-agent-socket'' (p_upstreamAgentSocket cli) (px_UpstreamAgentSocket sec) [] \<and>
     p_upstreamKeepalive opt = pick flags ''upstream-keepalive'' (p_upstreamKeepalive cli) (map_option (the \<circ> ParseDuration) (px_UpstreamKeepalive sec)) 0 \<and>
     p_upstreamKeepaliveMaxFailures opt = pick flags ''upstream-keepalive-max-failures'' (p_upstreamKeepaliveMaxFailures cli) (px_UpstreamKeepaliveMaxFailures sec) 0 \<and>
     p_statsAddr opt = pick flags ''stats-addr'' (p_statsAddr cli) (px_StatsAddr sec) [] \<and>
     p_statsAllowPublic opt = pick flags ''stats-allow-public'' (p_statsAllowPublic cli) (px_StatsAllowPublic sec) False \<and>
     p_webAddr opt = pick flags ''web-addr'' (p_webAddr cli) (px_WebAddr sec) [] \<and>
     p_webAllowPublic opt = pick flags ''web-allow-public'' (p_webAllowPublic cli) (px_WebAllowPublic sec) False \<and>
     p_webLogMax opt = pick flags ''web-log-max'' (p_webLogMax cli) (px_WebLogMax sec) 1000"

text \<open>What a plan starts, by its options.\<close>

fun started_forwards :: "cli_plan \<Rightarrow> options list" where
  "started_forwards (PlanGo opt c) = [opt]"
| "started_forwards (PlanSocat opt ig so) = [opt]"
| "started_forwards (PlanForwards ig opts cs admin) = opts"
| "started_forwards plan = []"

fun started_proxies :: "cli_plan \<Rightarrow> proxyOptions list" where
  "started_proxies (PlanProxy opt u) = [opt]"
| "started_proxies (PlanProxies ps admin) = map fst ps"
| "started_proxies plan = []"

text \<open>With several instances only the flags of the shared admin endpoints count.\<close>

definition forward_counting :: "Config \<Rightarrow> string set \<Rightarrow> string set" where
  "forward_counting cfg seen =
     (if length (cf_Forward cfg) = 1 then seen else seen \<inter> {''stats-addr'', ''web-addr'', ''web-log-max''})"

definition proxy_counting :: "Config \<Rightarrow> string set \<Rightarrow> string set" where
  "proxy_counting cfg seen =
     (if length (cf_Proxy cfg) = 1 then seen
      else seen \<inter> {''stats-addr'', ''stats-allow-public'', ''web-addr'', ''web-allow-public'', ''web-log-max''})"

lemma forward_single_from:
  assumes p: "flag_parse forward_flags argv forward_flag_defaults {} = Inr (cli, seen, rest)"
    and a: "applyForwardConfig cli (Some sec) seen = Inr o2"
    and v: "validateForwardOptions (o2\<lparr>o_lang := lg\<rparr>) = Inr opt" and mode: "o_mode opt \<in> {''go'', ''socat''}"
  shows "forward_from seen cli sec opt"
proof -
  have opt: "opt = o2\<lparr>o_lang := lg, o_proto := ToLower (TrimSpace (o_proto o2)), o_logLevel := ToLower (TrimSpace (o_logLevel o2))\<rparr>"
    using v unfolding validate_Inr by simp
  have "ToLower (TrimSpace (o_mode opt)) = o_mode opt"
    using mode by (elim insertE emptyE) (simp_all only: mode_norm)
  then have m: "o_mode opt = ToLower (TrimSpace (pick seen ''mode'' (o_mode cli) (fw_Mode sec) ''go''))"
    using apply_forward_pick(4) [OF a] pick_default(4) [OF p]
    by (simp add: opt forward_flag_defaults_def)
  note pk = apply_forward_pick [OF a]
  note defaults = forward_flag_defaults_def defaultForwardMaxConns_def defaultForwardIdleTimeout_def
  show ?thesis unfolding forward_from_def
    by (intro conjI m; simp add: opt pk pick_default [OF p] defaults)
qed

lemma forward_multi_from:
  "build_forward_instances base S seen fcs = Inr opts \<Longrightarrow> None \<notin> set fcs \<Longrightarrow>
     list_all2 (\<lambda>i opt. \<exists>fc. i = Some fc \<and> forward_from (S \<inter> {''stats-addr'', ''web-addr'', ''web-log-max''}) base fc opt) fcs opts"
proof (induction fcs arbitrary: seen opts)
  case (Cons i fcs)
  obtain fc where i: "i = Some fc" using Cons.prems(2) by (cases i) auto
  let ?o0 = "defaultForwardOptions\<lparr>o_lang := o_lang base\<rparr>"
  obtain o1 opt others where a: "applyForwardConfig ?o0 (Some fc) {} = Inr o1"
    and n: "normalizeForwardOptions (applyForwardGlobalFlags (o1\<lparr>o_webLogMaxSet := (fw_WebLogMax fc \<noteq> None)\<rparr>) base S) = Inr opt"
    and r: "build_forward_instances base S (forwardInstanceKey opt # seen) fcs = Inr others" and o: "opts = opt # others"
    using Cons.prems(1) by (auto simp: i Let_def split: sum.splits if_splits)
  let ?o3 = "applyForwardGlobalFlags (o1\<lparr>o_webLogMaxSet := (fw_WebLogMax fc \<noteq> None)\<rparr>) base S"
  have opt: "opt = ?o3\<lparr>o_proto := ToLower (TrimSpace (o_proto ?o3)), o_logLevel := ToLower (TrimSpace (o_logLevel ?o3)),
      o_mode := ToLower (TrimSpace (o_mode ?o3))\<rparr>"
    using n unfolding normalize_Inr validate_Inr by auto
  note pk = apply_forward_pick [OF a]
  have "forward_from (S \<inter> {''stats-addr'', ''web-addr'', ''web-log-max''}) base fc opt"
    unfolding forward_from_def
    by (intro conjI; simp add: opt applyForwardGlobalFlags_def Let_def pk defaultForwardOptions_def
        defaultForwardMaxConns_def defaultForwardIdleTimeout_def; simp add: pick_def)
  then show ?case using Cons.IH [OF r] Cons.prems(2) by (auto simp: o i)
qed simp

named_theorems proxy_only "which flag sets which option of the proxy command"

lemma proxy_only_flags [proxy_only]:
  "only_flag proxy_flags ''addr'' p_addr"
  "only_flag proxy_flags ''dial-timeout'' p_dialTimeout"
  "only_flag proxy_flags ''max-conns'' p_maxConns"
  "only_flag proxy_flags ''handshake-timeout'' p_handshakeTimeout"
  "only_flag proxy_flags ''idle-timeout'' p_idleTimeout"
  "only_flag proxy_flags ''allow-public'' p_allowPublic"
  "only_flag proxy_flags ''upstream'' p_upstream"
  "only_flag proxy_flags ''upstream-identity'' p_upstreamIdentity"
  "only_flag proxy_flags ''upstream-known-hosts'' p_upstreamKnownHosts"
  "only_flag proxy_flags ''upstream-insecure'' p_upstreamInsecure"
  "only_flag proxy_flags ''upstream-agent'' p_upstreamAgent"
  "only_flag proxy_flags ''upstream-agent-socket'' p_upstreamAgentSocket"
  "only_flag proxy_flags ''upstream-keepalive'' p_upstreamKeepalive"
  "only_flag proxy_flags ''upstream-keepalive-max-failures'' p_upstreamKeepaliveMaxFailures"
  "only_flag proxy_flags ''stats-addr'' p_statsAddr"
  "only_flag proxy_flags ''stats-allow-public'' p_statsAllowPublic"
  "only_flag proxy_flags ''web-addr'' p_webAddr"
  "only_flag proxy_flags ''web-allow-public'' p_webAllowPublic"
  "only_flag proxy_flags ''web-log-max'' p_webLogMax"
  by (auto simp: only_flag_def proxy_flags_def flag_set_value_def)

lemma pick_default_proxy_flag:
  assumes "flag_parse proxy_flags argv proxy_flag_defaults {} = Inr (cli, seen, rest)"
    and "only_flag proxy_flags n g"
  shows "pick seen n (g cli) v (g cli) = pick seen n (g cli) v (g proxy_flag_defaults)"
  using flag_unseen [OF assms] by (auto simp: pick_def split: if_splits option.splits)

lemmas pick_proxy_default = proxy_only_flags [THEN pick_default_proxy_flag [rotated]]

lemma apply_proxy_E:
  assumes "applyProxyConfig opt (Some pc) seen = Inr o2"
  obtains d h i k where
    "applyConfigDuration (p_dialTimeout opt) (px_DialTimeout pc) seen ''dial-timeout'' ErrConfigDial = Inr d"
    "applyConfigDuration (p_handshakeTimeout opt) (px_HandshakeTimeout pc) seen ''handshake-timeout'' ErrConfigHandshake = Inr h"
    "applyConfigDuration (p_idleTimeout opt) (px_IdleTimeout pc) seen ''idle-timeout'' ErrConfigIdle = Inr i"
    "applyConfigDuration (p_upstreamKeepalive opt) (px_UpstreamKeepalive pc) seen ''upstream-keepalive'' ErrConfigKeepalive = Inr k"
    "o2 = (apply_proxy_values opt pc seen)
       \<lparr>p_dialTimeout := d, p_handshakeTimeout := h, p_idleTimeout := i, p_upstreamKeepalive := k\<rparr>"
  using assms by (auto simp: applyProxyConfig_def split: sum.splits)

lemma apply_proxy_pick:
  assumes "applyProxyConfig opt (Some pc) seen = Inr o2"
  shows "p_addr o2 = pick seen ''addr'' (p_addr opt) (px_Addr pc) (p_addr opt)"
    and "p_dialTimeout o2 = pick seen ''dial-timeout'' (p_dialTimeout opt) (map_option (the \<circ> ParseDuration) (px_DialTimeout pc)) (p_dialTimeout opt)"
    and "p_maxConns o2 = pick seen ''max-conns'' (p_maxConns opt) (px_MaxConns pc) (p_maxConns opt)"
    and "p_handshakeTimeout o2 = pick seen ''handshake-timeout'' (p_handshakeTimeout opt) (map_option (the \<circ> ParseDuration) (px_HandshakeTimeout pc)) (p_handshakeTimeout opt)"
    and "p_idleTimeout o2 = pick seen ''idle-timeout'' (p_idleTimeout opt) (map_option (the \<circ> ParseDuration) (px_IdleTimeout pc)) (p_idleTimeout opt)"
    and "p_allowPublic o2 = pick seen ''allow-public'' (p_allowPublic opt) (px_AllowPublic pc) (p_allowPublic opt)"
    and "p_upstream o2 = pick seen ''upstream'' (p_upstream opt) (px_Upstream pc) (p_upstream opt)"
    and "p_upstreamIdentity o2 = pick seen ''upstream-identity'' (p_upstreamIdentity opt) (px_UpstreamIdentity pc) (p_upstreamIdentity opt)"
    and "p_upstreamKnownHosts o2 = pick seen ''upstream-known-hosts'' (p_upstreamKnownHosts opt) (px_UpstreamKnownHosts pc) (p_upstreamKnownHosts opt)"
    and "p_upstreamInsecure o2 = pick seen ''upstream-insecure'' (p_upstreamInsecure opt) (px_UpstreamInsecure pc) (p_upstreamInsecure opt)"
    and "p_upstreamAgent o2 = pick seen ''upstream-agent'' (p_upstreamAgent opt) (px_UpstreamAgent pc) (p_upstreamAgent opt)"
    and "p_upstreamAgentSocket o2 = pick seen ''upstream-agent-socket'' (p_upstreamAgentSocket opt) (px_UpstreamAgentSocket pc) (p_upstreamAgentSocket opt)"
    and "p_upstreamKeepalive o2 = pick seen ''upstream-keepalive'' (p_upstreamKeepalive opt) (map_option (the \<circ> ParseDuration) (px_UpstreamKeepalive pc)) (p_upstreamKeepalive opt)"
    and "p_upstreamKeepaliveMaxFailures o2 = pick seen ''upstream-keepalive-max-failures'' (p_upstreamKeepaliveMaxFailures opt) (px_UpstreamKeepaliveMaxFailures pc) (p_upstreamKeepaliveMaxFailures opt)"
    and "p_statsAddr o2 = pick seen ''stats-addr'' (p_statsAddr opt) (px_StatsAddr pc) (p_statsAddr opt)"
    and "p_statsAllowPublic o2 = pick seen ''stats-allow-public'' (p_statsAllowPublic opt) (px_StatsAllowPublic pc) (p_statsAllowPublic opt)"
    and "p_webAddr o2 = pick seen ''web-addr'' (p_webAddr opt) (px_WebAddr pc) (p_webAddr opt)"
    and "p_webAllowPublic o2 = pick seen ''web-allow-public'' (p_webAllowPublic opt) (px_WebAllowPublic pc) (p_webAllowPublic opt)"
    and "p_webLogMax o2 = pick seen ''web-log-max'' (p_webLogMax opt) (px_WebLogMax pc) (p_webLogMax opt)"
  by (rule apply_proxy_E [OF assms],
      auto simp: pick_def applyConfigValue_def applyConfigDuration_Inr apply_proxy_values_def
        split: option.splits if_splits)+

text \<open>The passphrase aside, which has no flag, what is resolved after the merge is left alone.\<close>

lemma resolve_fields:
  "resolveIdentityPassphrase env opt = opt\<lparr>p_upstreamIdentityPassphrase := p_upstreamIdentityPassphrase (resolveIdentityPassphrase env opt)\<rparr>"
  by (simp add: resolveIdentityPassphrase_def Let_def split: option.splits)

lemma proxy_from_passphrase [simp]:
  "proxy_from flags cli sec (opt\<lparr>p_upstreamIdentityPassphrase := v\<rparr>) = proxy_from flags cli sec opt"
  by (simp add: proxy_from_def)

lemma proxy_from_resolve [simp]:
  "proxy_from flags cli sec (resolveIdentityPassphrase env opt) = proxy_from flags cli sec opt"
  by (subst resolve_fields) (rule proxy_from_passphrase)

lemma proxy_single_from:
  assumes p: "flag_parse proxy_flags argv proxy_flag_defaults {} = Inr (cli, seen, rest)"
    and m: "mergeProxyConfig cli (Some cfg) seen = Inr opt" and c: "cf_Proxy cfg = [Some sec]"
  shows "proxy_from seen cli sec opt"
proof -
  let ?o0 = "cli\<lparr>p_lang := applyConfigValue (p_lang cli) (cf_Lang cfg) seen ''lang''\<rparr>"
  have a: "applyProxyConfig ?o0 (Some sec) seen = Inr opt"
    using m by (simp add: mergeProxyConfig_def Let_def c)
  show ?thesis unfolding proxy_from_def
    by (intro conjI; simp add: apply_proxy_pick [OF a] pick_proxy_default [OF p] proxy_flag_defaults_def)
qed

lemma proxy_multi_from:
  "build_proxy_instances env base S seen pcs = Inr ps \<Longrightarrow> None \<notin> set pcs \<Longrightarrow>
     list_all2 (\<lambda>i opt. \<exists>pc. i = Some pc \<and>
       proxy_from (S \<inter> {''stats-addr'', ''stats-allow-public'', ''web-addr'', ''web-allow-public'', ''web-log-max''}) base pc opt)
       pcs (map fst ps)"
proof (induction pcs arbitrary: seen ps)
  case (Cons i pcs)
  obtain pc where i: "i = Some pc" using Cons.prems(2) by (cases i) auto
  let ?o0 = "defaultProxyOptions\<lparr>p_lang := p_lang base\<rparr>"
  obtain o1 u others where a: "applyProxyConfig ?o0 (Some pc) {} = Inr o1"
    and r: "build_proxy_instances env base S (p_addr (applyProxyAdminFlags o1 base S) # seen) pcs = Inr others"
    and o: "ps = (resolveIdentityPassphrase env (applyProxyAdminFlags o1 base S), u) # others"
    using Cons.prems(1) by (auto simp: i Let_def split: sum.splits option.splits if_splits)
  note pk = apply_proxy_pick [OF a]
  have "proxy_from (S \<inter> {''stats-addr'', ''stats-allow-public'', ''web-addr'', ''web-allow-public'', ''web-log-max''}) base pc
      (applyProxyAdminFlags o1 base S)"
    unfolding proxy_from_def
    by (intro conjI; simp add: applyProxyAdminFlags_def Let_def pk defaultProxyOptions_def; simp add: pick_def)
  then show ?case using Cons.IH [OF r] Cons.prems(2) by (auto simp: o i)
qed simp

text \<open>A plan runs its instances on their options: each forwarder, or socat, is given them one by one.\<close>

definition runs_on :: "options \<Rightarrow> fwd_Config \<Rightarrow> bool" where
  "runs_on opt c \<longleftrightarrow>
     fc_Listen c = JoinHostPort (o_listenHost opt) (Itoa (o_listenPort opt)) \<and> fc_Target c = o_target opt \<and>
     fc_Network c = o_proto opt \<and> fc_ReuseAddr c = o_reuseAddr opt \<and> fc_DialTimeout c = o_dialTimeout opt \<and>
     fc_MaxConns c = o_maxConns opt \<and> fc_IdleTimeout c = o_idleTimeout opt \<and> fc_Quiet c = o_quiet opt"

definition socat_runs_on :: "options \<Rightarrow> socat_Options \<Rightarrow> bool" where
  "socat_runs_on opt so \<longleftrightarrow>
     so_ListenHost so = o_listenHost opt \<and> so_ListenPort so = o_listenPort opt \<and> so_Target so = o_target opt \<and>
     so_Proto so = o_proto opt \<and> so_ReuseAddr so = o_reuseAddr opt \<and> so_Sudo so = o_useSudo opt"

fun runs_options :: "cli_plan \<Rightarrow> bool" where
  "runs_options (PlanGo opt c) = runs_on opt c"
| "runs_options (PlanSocat opt ig so) = socat_runs_on opt so"
| "runs_options (PlanForwards ig opts cs admin) = list_all2 runs_on opts cs"
| "runs_options plan = True"

lemma runs_on_config: "runs_on opt (forward_config ev opt)"
  by (simp add: runs_on_def forward_config_def forwardListenAddr_def)

lemma mode_plan_runs: "runs_options (forward_mode_plan opt S)"
  by (simp add: forward_mode_plan_def runs_on_config socat_runs_on_def socat_options_def)

lemma multi_runs: "runs_options (fst (runForwardMulti base cfg S st))"
  by (auto simp: runForwardMulti_def startForwardInstances_plan_def Let_def list_all2_map2 runs_on_config
      intro!: list_all2_refl split: sum.splits)

lemma started_starts: "starts plan = length (started_forwards plan) + length (started_proxies plan)"
  by (cases plan) simp_all

lemma started_mode: "started_forwards (forward_mode_plan opt S) = [] \<or>
    started_forwards (forward_mode_plan opt S) = [opt] \<and> o_mode opt \<in> {''go'', ''socat''}"
  "started_proxies (forward_mode_plan opt S) = []"
  by (simp_all add: forward_mode_plan_def)

lemma started_multi:
  "0 < starts (fst (runForwardMulti base cfg S st)) \<Longrightarrow>
     build_forward_instances base S [] (cf_Forward cfg) = Inr (started_forwards (fst (runForwardMulti base cfg S st)))"
  "0 < starts (fst (runProxyMulti env pb cfg S st)) \<Longrightarrow>
     \<exists>ps. build_proxy_instances env pb S [] (cf_Proxy cfg) = Inr ps \<and>
       started_proxies (fst (runProxyMulti env pb cfg S st)) = map fst ps"
  by (auto simp: runForwardMulti_def startForwardInstances_plan_def runProxyMulti_def buildProxyInstances_def Let_def
      split: sum.splits)

lemma all2_some_neq:
  "list_all2 (\<lambda>i y. \<exists>x. i = Some x \<and> P x y) xs ys \<Longrightarrow> Some z \<notin> set xs \<Longrightarrow>
     list_all2 (\<lambda>i y. \<exists>x. i = Some x \<and> x \<noteq> z \<and> P x y) xs ys"
  by (induction rule: list_all2_induct) auto

lemma forward_config_starts:
  assumes p: "flag_parse forward_flags argv forward_flag_defaults {} = Inr (cli, seen, rest)"
    and path: "o_configPath cli \<noteq> []" and s: "0 < starts (fst (runForward env argv st))"
  shows "\<exists>cfg. loadTopConfig (ce_read env) (ce_yaml env) (o_configPath cli) = Inr cfg \<and>
    runs_options (fst (runForward env argv st)) \<and>
    list_all2 (\<lambda>i opt. \<exists>fc. i = Some fc \<and> fc \<noteq> zero_ForwardConfig \<and> forward_from (forward_counting cfg seen) cli fc opt)
      (cf_Forward cfg) (started_forwards (fst (runForward env argv st)))"
proof -
  obtain r st1 where l: "loadCommandConfig env (o_configPath cli) (''lang'' \<in> seen) ''forward'' st = (r, st1)" by force
  have go: "argv \<noteq> []" "\<not> o_showVersion cli" using s p by (auto simp: runForward_def split: if_splits)
  obtain cfg where r: "r = Inr (Some cfg)"
    using s path l loadCommandConfig_path [of env "o_configPath cli" "''lang'' \<in> seen" "''forward''" st st1] go
    by (cases r) (auto simp: runForward_def p)
  note c = loadCommandConfig_Inr [OF l [unfolded r]]
  then have full: "cf_Forward cfg \<noteq> []" "None \<notin> set (cf_Forward cfg)" "Some zero_ForwardConfig \<notin> set (cf_Forward cfg)"
    by (auto simp: hasCommandInstances_def)
  have "runs_options (fst (runForward env argv st)) \<and>
    list_all2 (\<lambda>i opt. \<exists>fc. i = Some fc \<and> forward_from (forward_counting cfg seen) cli fc opt)
      (cf_Forward cfg) (started_forwards (fst (runForward env argv st)))"
  proof (cases "1 < length (cf_Forward cfg)")
    case True
    then have run: "runForward env argv st = runForwardMulti cli cfg seen st1" using go by (simp add: runForward_def p l r)
    show ?thesis
      using forward_multi_from [OF started_multi(1) [OF s [unfolded run]] full(2)] True multi_runs
      by (simp add: run forward_counting_def)
  next
    case False
    then obtain sec where sec: "cf_Forward cfg = [Some sec]" using full by (cases "cf_Forward cfg") (auto, metis not_Some_eq)
    have run: "fst (runForward env argv st) =
        (case merge_forward cli (Some cfg) seen of
           Inl e \<Rightarrow> PlanErr e
         | Inr o1 \<Rightarrow> (case validateForwardOptions o1 of Inl e \<Rightarrow> PlanErr (CliOption e) | Inr o2 \<Rightarrow> forward_mode_plan o2 seen))"
      using go by (simp add: runForward_def p l r sec split: sum.split)
    obtain o1 where m: "merge_forward cli (Some cfg) seen = Inr o1" using s run by (cases "merge_forward cli (Some cfg) seen") auto
    obtain opt where v: "validateForwardOptions o1 = Inr opt" using s run m by (cases "validateForwardOptions o1") auto
    have plan: "fst (runForward env argv st) = forward_mode_plan opt seen" using run m v by simp
    have one: "started_forwards (forward_mode_plan opt seen) = [opt]" "o_mode opt \<in> {''go'', ''socat''}"
      using s started_mode [of opt seen] started_starts [of "forward_mode_plan opt seen"] unfolding plan by auto
    obtain o2 lg where a: "applyForwardConfig cli (Some (forward_section (Some cfg))) seen = Inr o2" and o1: "o1 = o2\<lparr>o_lang := lg\<rparr>"
      using merge_forward_section [OF m] by blast
    have "forward_from seen cli sec opt"
      using forward_single_from [OF p a v [unfolded o1] one(2)] by (simp add: forward_section_def sec)
    then show ?thesis by (simp add: plan one sec forward_counting_def mode_plan_runs)
  qed
  then show ?thesis using c all2_some_neq [OF _ full(3)] by blast
qed

lemma proxy_config_starts:
  assumes p: "flag_parse proxy_flags argv proxy_flag_defaults {} = Inr (cli, seen, rest)"
    and path: "p_configPath cli \<noteq> []" and s: "0 < starts (fst (runProxy env argv st))"
  shows "\<exists>cfg. loadTopConfig (ce_read env) (ce_yaml env) (p_configPath cli) = Inr cfg \<and>
    list_all2 (\<lambda>i opt. \<exists>pc. i = Some pc \<and> pc \<noteq> zero_ProxyConfig \<and> proxy_from (proxy_counting cfg seen) cli pc opt)
      (cf_Proxy cfg) (started_proxies (fst (runProxy env argv st)))"
proof -
  obtain r st1 where l: "loadCommandConfig env (p_configPath cli) (''lang'' \<in> seen) ''proxy'' st = (r, st1)" by force
  have go: "\<not> p_showVersion cli" using s p by (auto simp: runProxy_def split: if_splits)
  obtain cfg where r: "r = Inr (Some cfg)"
    using s path l loadCommandConfig_path [of env "p_configPath cli" "''lang'' \<in> seen" "''proxy''" st st1] go
    by (cases r) (auto simp: runProxy_def p)
  note c = loadCommandConfig_Inr [OF l [unfolded r]]
  then have full: "cf_Proxy cfg \<noteq> []" "None \<notin> set (cf_Proxy cfg)" "Some zero_ProxyConfig \<notin> set (cf_Proxy cfg)"
    by (auto simp: hasCommandInstances_def)
  have "list_all2 (\<lambda>i opt. \<exists>pc. i = Some pc \<and> proxy_from (proxy_counting cfg seen) cli pc opt)
      (cf_Proxy cfg) (started_proxies (fst (runProxy env argv st)))"
  proof (cases "1 < length (cf_Proxy cfg)")
    case True
    then have run: "runProxy env argv st = runProxyMulti env cli cfg seen st1" using go by (simp add: runProxy_def p l r)
    obtain ps where "build_proxy_instances env cli seen [] (cf_Proxy cfg) = Inr ps"
      "started_proxies (fst (runProxy env argv st)) = map fst ps"
      using started_multi(2) [OF s [unfolded run]] unfolding run by blast
    then show ?thesis using proxy_multi_from [OF _ full(2)] True by (simp add: proxy_counting_def)
  next
    case False
    then obtain sec where sec: "cf_Proxy cfg = [Some sec]" using full by (cases "cf_Proxy cfg") (auto, metis not_Some_eq)
    then obtain o1 u where m: "mergeProxyConfig cli (Some cfg) seen = Inr o1"
      and plan: "fst (runProxy env argv st) = PlanProxy (resolveIdentityPassphrase env o1) u"
      using s go by (auto simp: runProxy_def p l r Let_def split: sum.splits option.splits)
    show ?thesis using proxy_single_from [OF p m sec] by (simp add: plan sec proxy_counting_def)
  qed
  then show ?thesis using c all2_some_neq [OF _ full(3)] by blast
qed

text \<open>C17: A command given \<open>-config\<close> never falls back on its defaults: if it starts anything, the file
  was read and parsed, and the instances of its section for that command are exactly what starts, in
  their order, none of them nil or without fields.  Every option of an instance is the value of its
  section where the section has one, unless a flag that counts was given (any flag for a single
  instance, those of the admin endpoints for several), and its default only where the section is
  silent; and the forwarder or socat that is started is given these options.  (The passphrase of an
  upstream's key is the one option left out here: it has no flag, and the environment may replace it.)\<close>
theorem explicit_config_never_falls_back:
  "(\<forall>cli seen rest. flag_parse forward_flags argv forward_flag_defaults {} = Inr (cli, seen, rest) \<and>
      o_configPath cli \<noteq> [] \<and> 0 < starts (fst (runForward env argv st)) \<longrightarrow>
      (\<exists>cfg. loadTopConfig (ce_read env) (ce_yaml env) (o_configPath cli) = Inr cfg \<and>
         runs_options (fst (runForward env argv st)) \<and>
         list_all2 (\<lambda>i opt. \<exists>fc. i = Some fc \<and> fc \<noteq> zero_ForwardConfig \<and> forward_from (forward_counting cfg seen) cli fc opt)
           (cf_Forward cfg) (started_forwards (fst (runForward env argv st))))) \<and>
   (\<forall>cli seen rest. flag_parse proxy_flags argv proxy_flag_defaults {} = Inr (cli, seen, rest) \<and>
      p_configPath cli \<noteq> [] \<and> 0 < starts (fst (runProxy env argv st)) \<longrightarrow>
      (\<exists>cfg. loadTopConfig (ce_read env) (ce_yaml env) (p_configPath cli) = Inr cfg \<and>
         list_all2 (\<lambda>i opt. \<exists>pc. i = Some pc \<and> pc \<noteq> zero_ProxyConfig \<and> proxy_from (proxy_counting cfg seen) cli pc opt)
           (cf_Proxy cfg) (started_proxies (fst (runProxy env argv st)))))"
  using forward_config_starts [of argv _ _ _ env st] proxy_config_starts [of argv _ _ _ env st] by blast

lemma sample_starts: "starts (forward_mode_plan sample_final S) = 1"
  by (simp add: forward_mode_plan_def sample_facts)

lemma explicit_config_never_falls_back_witness:
  "\<exists>cfg fc. loadTopConfig Inr sample_yaml ''10.0.0.1:22'' = Inr cfg \<and> cf_Forward cfg = [Some fc] \<and>
     o_target sample_final = pick {''config'', ''proto'', ''listen-port''} ''target'' (o_target sample_cli) (fw_Target fc) ''127.0.0.1:2222''"
proof -
  have a: "flag_parse forward_flags sample_argv forward_flag_defaults {} = Inr (sample_cli, {''config'', ''proto'', ''listen-port''}, []) \<and>
      o_configPath sample_cli \<noteq> [] \<and> 0 < starts (fst (runForward sample_env sample_argv lang0))"
    by (intro conjI sample_parse) (simp_all add: sample_plan sample_starts sample_cli_def)
  have s: "started_forwards (fst (runForward sample_env sample_argv lang0)) = [sample_final]"
    by (simp add: sample_plan forward_mode_plan_def sample_facts)
  from explicit_config_never_falls_back [of sample_argv sample_env lang0, THEN conjunct1, rule_format, OF a]
  obtain cfg where c: "loadTopConfig (ce_read sample_env) (ce_yaml sample_env) (o_configPath sample_cli) = Inr cfg"
    and l: "list_all2 (\<lambda>i opt. \<exists>fc. i = Some fc \<and> fc \<noteq> zero_ForwardConfig \<and>
        forward_from (forward_counting cfg {''config'', ''proto'', ''listen-port''}) sample_cli fc opt) (cf_Forward cfg) [sample_final]"
    unfolding s by blast
  from l obtain fc where fc: "cf_Forward cfg = [Some fc]"
    "forward_from (forward_counting cfg {''config'', ''proto'', ''listen-port''}) sample_cli fc sample_final"
    by (auto simp: list_all2_Cons2)
  then show ?thesis using c by (simp add: forward_counting_def forward_from_def sample_env_def sample_cli_def)
qed

end
