(* ===== verification/Cli_Multi.thy ===== *)
theory Cli_Multi
  imports Cli_Props
begin

text \<open>
  Several instances of a section, the sources of the secrets of an upstream, and the limits of the
  checks: the two validators of forward options and the words that are no subcommand.
\<close>

section \<open>Instances\<close>

text \<open>The network end point a forwarder listens on.\<close>

definition listener :: "options \<Rightarrow> string \<times> string \<times> int" where
  "listener opt = (o_proto opt, o_listenHost opt, o_listenPort opt)"

lemma distinct_listeners: "distinct (map forwardInstanceKey opts) \<Longrightarrow> distinct (map listener opts)"
  by (induction opts) (auto simp: listener_def forwardInstanceKey_def forwardListenAddr_def image_iff)

text \<open>C19: When a section has several instances, what starts is one instance per element, each of
  them valid and in go mode, no two of them on the same protocol, host and port, all of them
  writing to one event log, which exists exactly when there is a web endpoint; for the proxy,
  each instance is valid, has an address of its own and the upstream built from its options.\<close>
theorem instances_valid_and_distinct:
  "(\<forall>ig opts cs admin. fst (runForwardMulti base cfg S st) = PlanForwards ig opts cs admin \<longrightarrow>
      length opts = length (cf_Forward cfg) \<and>
      (\<forall>opt\<in>set opts. forward_valid opt \<and> o_mode opt = ''go'') \<and>
      distinct (map listener opts) \<and>
      collectForwardAdminOptions opts = Inr admin \<and>
      (\<exists>events. cs = map (forward_config events) opts \<and> (events \<noteq> None \<longleftrightarrow> fa_webAddr admin \<noteq> []))) \<and>
   (\<forall>ps admin. fst (runProxyMulti env pbase cfg S st) = PlanProxies ps admin \<longrightarrow>
      length ps = length (cf_Proxy cfg) \<and> distinct (map (p_addr \<circ> fst) ps) \<and>
      collectProxyAdminOptions (map fst ps) = Inr admin \<and>
      (\<forall>p\<in>set ps. validateProxyOptions (fst p) = None \<and> buildProxyUpstream env (fst p) = Inr (snd p)))"
proof (intro conjI allI impI)
  fix ig opts cs admin
  assume a: "fst (runForwardMulti base cfg S st) = PlanForwards ig opts cs admin"
  then have b: "build_forward_instances base S [] (cf_Forward cfg) = Inr opts"
    and c: "collectForwardAdminOptions opts = Inr admin"
    and cs: "cs = map (forward_config (if fa_webAddr admin \<noteq> [] then Some (NewEventLog (fa_webLogMax admin)) else None)) opts"
    by (auto simp: runForwardMulti_def startForwardInstances_plan_def Let_def split: sum.splits)
  note f = build_forward_facts [OF b]
  show "length opts = length (cf_Forward cfg)" "collectForwardAdminOptions opts = Inr admin"
    "\<forall>opt\<in>set opts. forward_valid opt \<and> o_mode opt = ''go''" "distinct (map listener opts)"
    using f c distinct_listeners by auto
  show "\<exists>events. cs = map (forward_config events) opts \<and> (events \<noteq> None \<longleftrightarrow> fa_webAddr admin \<noteq> [])"
    by (rule exI [of _ "if fa_webAddr admin \<noteq> [] then Some (NewEventLog (fa_webLogMax admin)) else None"]) (simp add: cs)
next
  fix ps admin
  assume a: "fst (runProxyMulti env pbase cfg S st) = PlanProxies ps admin"
  then have b: "build_proxy_instances env pbase S [] (cf_Proxy cfg) = Inr ps"
    and c: "collectProxyAdminOptions (map fst ps) = Inr admin"
    by (auto simp: runProxyMulti_def buildProxyInstances_def Let_def split: sum.splits)
  note f = build_proxy_facts [OF b]
  show "length ps = length (cf_Proxy cfg)" "distinct (map (p_addr \<circ> fst) ps)"
    "collectProxyAdminOptions (map fst ps) = Inr admin"
    "\<forall>p\<in>set ps. validateProxyOptions (fst p) = None \<and> buildProxyUpstream env (fst p) = Inr (snd p)"
    using f c by auto
qed

definition two_forwards :: Config where
  "two_forwards =
     \<lparr>cf_Forward = [Some (zero_ForwardConfig\<lparr>fw_ListenPort := Some 53, fw_Proto := Some ''udp''\<rparr>),
                    Some (zero_ForwardConfig\<lparr>fw_ListenPort := Some 53, fw_WebAddr := Some '':8''\<rparr>)],
      cf_Proxy = [], cf_Lang = None\<rparr>"

definition two_opts :: "options list" where
  "two_opts = [defaultForwardOptions\<lparr>o_listenPort := 53, o_proto := ''udp''\<rparr>,
               defaultForwardOptions\<lparr>o_listenPort := 53, o_webAddr := '':8''\<rparr>]"

lemma two_build: "build_forward_instances forward_flag_defaults {} [] (cf_Forward two_forwards) = Inr two_opts"
  by code_simp

lemma two_collect: "collectForwardAdminOptions two_opts = Inr \<lparr>fa_statsAddr = [], fa_webAddr = '':8'', fa_webLogMax = 1000\<rparr>"
  by code_simp

lemma instances_valid_and_distinct_witness:
  "distinct (map listener two_opts) \<and> length two_opts = 2"
proof -
  have r: "fst (runForwardMulti forward_flag_defaults two_forwards {} lang0) =
     PlanForwards [] two_opts (map (forward_config (Some (NewEventLog 1000))) two_opts)
       \<lparr>fa_statsAddr = [], fa_webAddr = '':8'', fa_webLogMax = 1000\<rparr>"
    by (simp add: runForwardMulti_def two_build startForwardInstances_plan_def two_collect ignored_flags_def)
  show ?thesis
    using instances_valid_and_distinct [of forward_flag_defaults two_forwards "{}" lang0 sample_env proxy_flag_defaults,
        THEN conjunct1, rule_format, OF r] by (simp add: two_forwards_def)
qed

section \<open>Flags and instances\<close>

text \<open>Two command lines that give the same process-wide flags the same values.\<close>

definition same_global :: "string \<Rightarrow> ('o \<Rightarrow> 'a) \<Rightarrow> 'o \<Rightarrow> string set \<Rightarrow> 'o \<Rightarrow> string set \<Rightarrow> bool" where
  "same_global n g base S base' S' \<longleftrightarrow> (n \<in> S \<longleftrightarrow> n \<in> S') \<and> (n \<in> S \<longrightarrow> g base = g base')"

definition same_forward_globals :: "options \<Rightarrow> string set \<Rightarrow> options \<Rightarrow> string set \<Rightarrow> bool" where
  "same_forward_globals base S base' S' \<longleftrightarrow>
     o_lang base = o_lang base' \<and> same_global ''stats-addr'' o_statsAddr base S base' S' \<and>
     same_global ''web-addr'' o_webAddr base S base' S' \<and> same_global ''web-log-max'' o_webLogMax base S base' S'"

definition same_proxy_globals :: "proxyOptions \<Rightarrow> string set \<Rightarrow> proxyOptions \<Rightarrow> string set \<Rightarrow> bool" where
  "same_proxy_globals base S base' S' \<longleftrightarrow>
     p_lang base = p_lang base' \<and> same_global ''stats-addr'' p_statsAddr base S base' S' \<and>
     same_global ''stats-allow-public'' p_statsAllowPublic base S base' S' \<and>
     same_global ''web-addr'' p_webAddr base S base' S' \<and>
     same_global ''web-allow-public'' p_webAllowPublic base S base' S' \<and>
     same_global ''web-log-max'' p_webLogMax base S base' S'"

lemma global_flags_eq:
  "same_forward_globals base S base' S' \<Longrightarrow> applyForwardGlobalFlags opt base S = applyForwardGlobalFlags opt base' S'"
  "same_proxy_globals pb S pb' S' \<Longrightarrow> applyProxyAdminFlags popt pb S = applyProxyAdminFlags popt pb' S'"
  by (simp_all add: same_forward_globals_def same_proxy_globals_def same_global_def applyForwardGlobalFlags_def
      applyProxyAdminFlags_def Let_def)

lemma build_forward_globals:
  assumes "same_forward_globals base S base' S'"
  shows "build_forward_instances base S seen fcs = build_forward_instances base' S' seen fcs"
proof (induction fcs arbitrary: seen)
  case (Cons fc fcs)
  have "o_lang base = o_lang base'" using assms by (simp add: same_forward_globals_def)
  then show ?case by (simp only: build_forward_instances.simps Cons.IH global_flags_eq(1) [OF assms])
qed simp

lemma build_proxy_globals:
  assumes "same_proxy_globals base S base' S'"
  shows "build_proxy_instances env base S seen pcs = build_proxy_instances env base' S' seen pcs"
proof (induction pcs arbitrary: seen)
  case (Cons pc pcs)
  have "p_lang base = p_lang base'" using assms by (simp add: same_proxy_globals_def)
  then show ?case by (simp only: build_proxy_instances.simps Cons.IH global_flags_eq(2) [OF assms])
qed simp

lemma ignored_flags_mem: "n \<in> set names \<Longrightarrow> n \<in> S \<Longrightarrow> ''-'' @ n \<in> set (ignored_flags names S)"
  by (auto simp: ignored_flags_def)

lemma flag_names:
  "fst ` set forward_flags \<subseteq> set forwardPerInstanceFlags \<union>
     {''version'', ''config'', ''lang'', ''stats-addr'', ''web-addr'', ''web-log-max''}"
  "fst ` set proxy_flags \<subseteq> set proxyPerInstanceFlags \<union>
     {''version'', ''config'', ''lang'', ''stats-addr'', ''stats-allow-public'', ''web-addr'', ''web-allow-public'', ''web-log-max''}"
  by (simp_all add: forward_flags_def forwardPerInstanceFlags_def proxy_flags_def proxyPerInstanceFlags_def)

text \<open>With several instances the flags of a single one have no effect: two command lines that
  give the language and the process-wide flags alike build the same instances, whatever else they
  set; and every flag of a single instance that was given is named in the message that says so.\<close>
theorem per_instance_flags_ignored:
  "(same_forward_globals base S base' S' \<longrightarrow>
      build_forward_instances base S [] (cf_Forward cfg) = build_forward_instances base' S' [] (cf_Forward cfg)) \<and>
   (same_proxy_globals pb S pb' S' \<longrightarrow> buildProxyInstances env pb cfg S = buildProxyInstances env pb' cfg S') \<and>
   (\<forall>n\<in>S. n \<in> fst ` set forward_flags \<longrightarrow>
      ''-'' @ n \<in> set (ignored_flags forwardPerInstanceFlags S) \<or>
      n \<in> {''version'', ''config'', ''lang'', ''stats-addr'', ''web-addr'', ''web-log-max''}) \<and>
   (\<forall>n\<in>S. n \<in> fst ` set proxy_flags \<longrightarrow>
      ''-'' @ n \<in> set (ignored_flags proxyPerInstanceFlags S) \<or>
      n \<in> {''version'', ''config'', ''lang'', ''stats-addr'', ''stats-allow-public'', ''web-addr'', ''web-allow-public'', ''web-log-max''})"
proof (intro conjI impI ballI)
  assume "same_forward_globals base S base' S'"
  then show "build_forward_instances base S [] (cf_Forward cfg) = build_forward_instances base' S' [] (cf_Forward cfg)"
    by (rule build_forward_globals)
next
  assume "same_proxy_globals pb S pb' S'"
  then show "buildProxyInstances env pb cfg S = buildProxyInstances env pb' cfg S'"
    unfolding buildProxyInstances_def by (rule build_proxy_globals)
next
  fix n assume "n \<in> S" "n \<in> fst ` set forward_flags"
  then show "''-'' @ n \<in> set (ignored_flags forwardPerInstanceFlags S) \<or>
      n \<in> {''version'', ''config'', ''lang'', ''stats-addr'', ''web-addr'', ''web-log-max''}"
    using flag_names(1) ignored_flags_mem by blast
next
  fix n assume "n \<in> S" "n \<in> fst ` set proxy_flags"
  then show "''-'' @ n \<in> set (ignored_flags proxyPerInstanceFlags S) \<or>
      n \<in> {''version'', ''config'', ''lang'', ''stats-addr'', ''stats-allow-public'', ''web-addr'', ''web-allow-public'', ''web-log-max''}"
    using flag_names(2) ignored_flags_mem by blast
qed

lemma per_instance_flags_ignored_witness:
  "build_forward_instances (forward_flag_defaults\<lparr>o_target := ''x:1''\<rparr>) {''target''} [] (cf_Forward two_forwards) = Inr two_opts \<and>
   ''-target'' \<in> set (ignored_flags forwardPerInstanceFlags {''target''})"
proof -
  have g: "same_forward_globals (forward_flag_defaults\<lparr>o_target := ''x:1''\<rparr>) {''target''} forward_flag_defaults {}"
    by (simp add: same_forward_globals_def same_global_def)
  note t = per_instance_flags_ignored [of "forward_flag_defaults\<lparr>o_target := ''x:1''\<rparr>" "{''target''}" forward_flag_defaults "{}" two_forwards
      proxy_flag_defaults proxy_flag_defaults sample_env]
  have 1: "build_forward_instances (forward_flag_defaults\<lparr>o_target := ''x:1''\<rparr>) {''target''} [] (cf_Forward two_forwards) = Inr two_opts"
    using t g two_build by simp
  have "''target'' \<in> {''target''}" "''target'' \<in> fst ` set forward_flags" by (simp_all add: forward_flags_def)
  then have 2: "''-'' @ ''target'' \<in> set (ignored_flags forwardPerInstanceFlags {''target''})"
    using t [THEN conjunct2, THEN conjunct2, THEN conjunct1] by fastforce
  show ?thesis using 1 2 by simp
qed

section \<open>Secrets\<close>

lemma proxy_passphrase_no_flag:
  assumes "flag_parse proxy_flags argv proxy_flag_defaults {} = Inr (cli, seen, rest)"
  shows "p_upstreamIdentityPassphrase cli = []"
proof -
  have "only_flag proxy_flags [] p_upstreamIdentityPassphrase"
    by (auto simp: only_flag_def proxy_flags_def flag_set_value_def)
  moreover have "[] \<notin> seen" using flag_parse_seen [OF assms] by (auto simp: proxy_flags_def)
  ultimately have "p_upstreamIdentityPassphrase cli = p_upstreamIdentityPassphrase proxy_flag_defaults"
    using flag_parse_keeps [OF assms] by blast
  then show ?thesis by (simp add: proxy_flag_defaults_def)
qed

text \<open>The passphrase in the proxy section that a command loads.\<close>

definition file_passphrase :: "Config option \<Rightarrow> string" where
  "file_passphrase topCfg =
     (case topCfg of
        None \<Rightarrow> []
      | Some cfg \<Rightarrow>
          (case cf_Proxy cfg of
             Some pc # _ \<Rightarrow> (case px_UpstreamIdentityPassphrase pc of Some s \<Rightarrow> s | None \<Rightarrow> [])
           | _ \<Rightarrow> []))"

lemma apply_proxy_passphrase:
  "applyProxyConfig opt (Some pc) S = Inr o1 \<Longrightarrow>
     p_upstreamIdentityPassphrase o1 = (case px_UpstreamIdentityPassphrase pc of Some v \<Rightarrow> v | None \<Rightarrow> p_upstreamIdentityPassphrase opt)"
  by (auto simp: applyProxyConfig_def apply_proxy_values_def split: sum.splits option.splits)

lemma merge_passphrase:
  "mergeProxyConfig opt topCfg S = Inr o1 \<Longrightarrow> p_upstreamIdentityPassphrase opt = [] \<Longrightarrow>
     p_upstreamIdentityPassphrase o1 = file_passphrase topCfg"
  by (auto simp: mergeProxyConfig_def file_passphrase_def Let_def
      split: option.splits list.splits dest!: apply_proxy_passphrase)

lemma resolve_other [simp]:
  "p_upstreamIdentity (resolveIdentityPassphrase env opt) = p_upstreamIdentity opt"
  "p_upstreamAgent (resolveIdentityPassphrase env opt) = p_upstreamAgent opt"
  "p_upstreamAgentSocket (resolveIdentityPassphrase env opt) = p_upstreamAgentSocket opt"
  by (simp_all add: resolveIdentityPassphrase_def Let_def split: option.splits)

definition prompts :: "cli_env \<Rightarrow> bool \<Rightarrow> string \<Rightarrow> bool" where
  "prompts env agent socket \<longleftrightarrow> \<not> upstreamAgentAvailable env agent socket \<and> ce_stdinTTY env"

lemma promptUpstreamPassword_cases:
  "promptUpstreamPassword env u = u \<or>
   uc_Password u = [] \<and> uc_Scheme u = UpstreamSchemeSSH \<and> uc_IdentityFile u = [] \<and>
   (\<exists>pw. promptUpstreamPassword env u = u\<lparr>uc_Password := pw\<rparr> \<and>
      (pw = ce_getenv env ''PORTMAP_UPSTREAM_PASSWORD'' \<or>
       ce_getenv env ''PORTMAP_UPSTREAM_PASSWORD'' = [] \<and> prompts env (\<not> uc_DisableAgent u) (uc_AgentSocket u) \<and>
         ce_readPassword env = Some pw))"
  by (simp add: promptUpstreamPassword_def prompts_def readPasswordPrompt_def Let_def split: option.splits) blast

text \<open>What the URL, the options and the prompt make of an upstream.\<close>

lemma buildProxyUpstream_fields:
  assumes u: "buildProxyUpstream env opt = Inr u" and uc: "u = Some c"
  shows "uc_IdentityPassphrase c = p_upstreamIdentityPassphrase opt \<and>
        (uc_Insecure c \<longleftrightarrow> p_upstreamInsecure opt) \<and>
        (\<exists>u0. ParseUpstreamURL (ce_url env) (p_upstream opt) = Inr u0 \<and>
           uc_Scheme c = uc_Scheme u0 \<and> uc_Addr c = uc_Addr u0 \<and>
           (uc_Password c = uc_Password u0 \<or>
            uc_Password u0 = [] \<and> uc_Scheme c = UpstreamSchemeSSH \<and> uc_IdentityFile c = [] \<and>
            (uc_Password c = ce_getenv env ''PORTMAP_UPSTREAM_PASSWORD'' \<or> ce_readPassword env = Some (uc_Password c))))"
proof -
  obtain u0 where u0: "ParseUpstreamURL (ce_url env) (p_upstream opt) = Inr u0"
    using u uc by (auto simp: buildProxyUpstream_def split: if_splits sum.splits)
  define u1 where "u1 = u0\<lparr>uc_IdentityFile := expandTilde env (p_upstreamIdentity opt),
                uc_IdentityPassphrase := p_upstreamIdentityPassphrase opt,
                uc_KnownHostsFile := expandTilde env (p_upstreamKnownHosts opt),
                uc_Insecure := p_upstreamInsecure opt,
                uc_AgentSocket := expandTilde env (p_upstreamAgentSocket opt),
                uc_DisableAgent := \<not> p_upstreamAgent opt,
                uc_KeepaliveInterval := p_upstreamKeepalive opt,
                uc_KeepaliveMaxFailures := p_upstreamKeepaliveMaxFailures opt\<rparr>"
  have c: "c = promptUpstreamPassword env u1"
    using u uc u0 by (simp add: buildProxyUpstream_def u1_def split: if_splits)
  have s: "uc_IdentityPassphrase u1 = p_upstreamIdentityPassphrase opt" "uc_Insecure u1 = p_upstreamInsecure opt"
    "uc_Scheme u1 = uc_Scheme u0" "uc_Addr u1 = uc_Addr u0" "uc_Password u1 = uc_Password u0"
    by (simp_all add: u1_def)
  consider (same) "c = u1"
    | (typed) pw where "c = u1\<lparr>uc_Password := pw\<rparr>" "uc_Password u1 = []" "uc_Scheme u1 = UpstreamSchemeSSH"
        "uc_IdentityFile u1 = []" "pw = ce_getenv env ''PORTMAP_UPSTREAM_PASSWORD'' \<or> ce_readPassword env = Some pw"
    using promptUpstreamPassword_cases [of env u1] unfolding c by blast
  then show ?thesis
  proof cases
    case same
    show ?thesis by (simp add: same s u0)
  next
    case typed
    then show ?thesis using u0 by (auto simp: s)
  qed
qed

text \<open>The secrets of an upstream never come from the command line.  The passphrase of the key is
  the environment's, else the file's, else one typed at a terminal, which is asked for only if a
  key is configured and no agent answers; it goes to the upstream unchanged.  The password is the
  URL's; only for an ssh upstream without a key and without one is it taken from the environment
  or typed.  Host key checking is off exactly when the options say so.\<close>
theorem upstream_secrets_sources:
  assumes p: "flag_parse proxy_flags argv proxy_flag_defaults {} = Inr (cli, seen, rest)"
    and l: "loadCommandConfig env (p_configPath cli) (''lang'' \<in> seen) ''proxy'' st = (Inr topCfg, st1)"
    and r: "fst (runProxy env argv st) = PlanProxy opt u"
  shows "p_upstreamIdentityPassphrase cli = [] \<and>
     p_upstreamIdentityPassphrase opt =
       (let e = ce_getenv env ''PORTMAP_UPSTREAM_IDENTITY_PASSPHRASE''; f = file_passphrase topCfg in
        if e \<noteq> [] then e else if f \<noteq> [] then f
        else if TrimSpace (p_upstreamIdentity opt) \<noteq> [] \<and> prompts env (p_upstreamAgent opt) (p_upstreamAgentSocket opt)
        then (case ce_readPassword env of Some pw \<Rightarrow> pw | None \<Rightarrow> []) else []) \<and>
     (\<forall>c. u = Some c \<longrightarrow>
        uc_IdentityPassphrase c = p_upstreamIdentityPassphrase opt \<and>
        (uc_Insecure c \<longleftrightarrow> p_upstreamInsecure opt) \<and>
        (\<exists>u0. ParseUpstreamURL (ce_url env) (p_upstream opt) = Inr u0 \<and>
           uc_Scheme c = uc_Scheme u0 \<and> uc_Addr c = uc_Addr u0 \<and>
           (uc_Password c = uc_Password u0 \<or>
            uc_Password u0 = [] \<and> uc_Scheme c = UpstreamSchemeSSH \<and> uc_IdentityFile c = [] \<and>
            (uc_Password c = ce_getenv env ''PORTMAP_UPSTREAM_PASSWORD'' \<or> ce_readPassword env = Some (uc_Password c)))))"
proof -
  have v: "\<not> p_showVersion cli" using r by (auto simp: runProxy_def p split: if_splits)
  have nm: "\<not> (topCfg \<noteq> None \<and> 1 < length (cf_Proxy (the topCfg)))"
  proof
    assume "topCfg \<noteq> None \<and> 1 < length (cf_Proxy (the topCfg))"
    then have "runProxy env argv st = runProxyMulti env cli (the topCfg) seen st1"
      using v by (simp add: runProxy_def p l)
    then show False using r proxy_multi_starts [of env cli "the topCfg" seen st1] by auto
  qed
  obtain o1 where m: "mergeProxyConfig cli topCfg seen = Inr o1" and opt: "opt = resolveIdentityPassphrase env o1"
    and u: "buildProxyUpstream env opt = Inr u"
    using r v nm by (auto simp: runProxy_def p l Let_def split: sum.splits option.splits)
  have c0: "p_upstreamIdentityPassphrase cli = []" by (rule proxy_passphrase_no_flag [OF p])
  have f: "p_upstreamIdentityPassphrase o1 = file_passphrase topCfg" by (rule merge_passphrase [OF m c0])
  have 1: "p_upstreamIdentityPassphrase opt =
       (let e = ce_getenv env ''PORTMAP_UPSTREAM_IDENTITY_PASSPHRASE''; f = file_passphrase topCfg in
        if e \<noteq> [] then e else if f \<noteq> [] then f
        else if TrimSpace (p_upstreamIdentity opt) \<noteq> [] \<and> prompts env (p_upstreamAgent opt) (p_upstreamAgentSocket opt)
        then (case ce_readPassword env of Some pw \<Rightarrow> pw | None \<Rightarrow> []) else [])"
    unfolding opt resolve_other
    by (simp add: resolveIdentityPassphrase_def readPasswordPrompt_def prompts_def Let_def f split: option.splits)
  show ?thesis using c0 1 buildProxyUpstream_fields [OF u] by blast
qed

definition ssh_env :: cli_env where
  "ssh_env = sample_env\<lparr>ce_url := (\<lambda>_. Inr \<lparr>gu_Scheme = ''ssh'', gu_Host = ''h'', gu_User = Some (''me'', None)\<rparr>),
     ce_getenv := (\<lambda>k. if k = ''PORTMAP_UPSTREAM_PASSWORD'' then ''pw'' else [])\<rparr>"

definition ssh_cli :: proxyOptions where
  "ssh_cli = proxy_flag_defaults\<lparr>p_upstream := ''ssh://me@h''\<rparr>"

definition ssh_upstream :: UpstreamConfig where
  "ssh_upstream = zero_UpstreamConfig\<lparr>uc_Scheme := ''ssh'', uc_Addr := ''h:22'', uc_Username := ''me'', uc_Password := ''pw''\<rparr>"

lemma ssh_parse: "flag_parse proxy_flags [''-upstream'', ''ssh://me@h''] proxy_flag_defaults {} = Inr (ssh_cli, {''upstream''}, [])"
  by code_simp

lemma ssh_load: "loadCommandConfig ssh_env (p_configPath ssh_cli) False ''proxy'' lang0 = (Inr None, lang0)"
  by (simp add: loadCommandConfig_def ssh_cli_def proxy_flag_defaults_def)

lemma ssh_build: "resolveIdentityPassphrase ssh_env ssh_cli = ssh_cli" "buildProxyUpstream ssh_env ssh_cli = Inr (Some ssh_upstream)"
    "validateProxyOptions ssh_cli = None"
  by code_simp+

lemma ssh_run: "fst (runProxy ssh_env [''-upstream'', ''ssh://me@h''] lang0) = PlanProxy ssh_cli (Some ssh_upstream)"
proof -
  have "\<not> p_showVersion ssh_cli" by (simp add: ssh_cli_def proxy_flag_defaults_def)
  then show ?thesis unfolding runProxy_def ssh_parse by (simp add: ssh_load mergeProxyConfig_def ssh_build)
qed

lemma upstream_secrets_sources_witness:
  "p_upstreamIdentityPassphrase ssh_cli = [] \<and> \<not> uc_Insecure ssh_upstream"
proof -
  have l: "loadCommandConfig ssh_env (p_configPath ssh_cli) (''lang'' \<in> {''upstream''}) ''proxy'' lang0 = (Inr None, lang0)"
    using ssh_load by simp
  show ?thesis
    using upstream_secrets_sources [OF ssh_parse l ssh_run] by (simp add: ssh_cli_def proxy_flag_defaults_def)
qed

section \<open>Limits of the checks\<close>

lemma default_flags_agree: "forward_flag_defaults = defaultForwardOptions" "proxy_flag_defaults = defaultProxyOptions"
  by (simp_all add: forward_flag_defaults_def defaultForwardOptions_def proxy_flag_defaults_def defaultProxyOptions_def)

text \<open>The two validators of forward options accept the same options and normalise them alike,
  except for the mode: the one of the single instance leaves it as written, the one of several
  instances ignores case and blanks around it.  Both start from the same defaults, and validating
  again changes nothing.  So a mode such as \<open>GO\<close> is accepted in a list of several instances and
  rejected in a list of one.\<close>
theorem forward_validators_agree_up_to_mode:
  "(\<forall>opt. o_mode opt \<in> {''go'', ''socat''} \<longrightarrow> normalizeForwardOptions opt = validateForwardOptions opt) \<and>
   (\<forall>opt v. validateForwardOptions opt = Inr v \<longrightarrow> validateForwardOptions v = Inr v \<and> o_mode v = o_mode opt) \<and>
   forward_flag_defaults = defaultForwardOptions \<and> proxy_flag_defaults = defaultProxyOptions \<and>
   (\<exists>opt v. normalizeForwardOptions opt = Inr v \<and> o_mode v = ''go'' \<and>
      (\<exists>w. validateForwardOptions opt = Inr w \<and> (\<forall>S. forward_mode_plan w S = PlanErr (CliOption (ErrMode (o_mode opt))))))"
proof (intro conjI allI impI default_flags_agree)
  fix opt :: options
  assume m: "o_mode opt \<in> {''go'', ''socat''}"
  have e: "ToLower (TrimSpace ''go'') = ''go''" "ToLower (TrimSpace ''socat'') = ''socat''" by code_simp+
  then show "normalizeForwardOptions opt = validateForwardOptions opt"
    using m by (cases opt) (auto simp: normalizeForwardOptions_def validateForwardOptions_def Let_def)
next
  fix opt v
  assume a: "validateForwardOptions opt = Inr v"
  then have v: "v = opt\<lparr>o_proto := ToLower (TrimSpace (o_proto opt)), o_logLevel := ToLower (TrimSpace (o_logLevel opt))\<rparr>"
    and ok: "forward_valid v" using validate_Inr by blast+
  have e: "ToLower (TrimSpace ''tcp'') = ''tcp''" "ToLower (TrimSpace ''udp'') = ''udp''"
    "ToLower (TrimSpace ''info'') = ''info''" "ToLower (TrimSpace ''debug'') = ''debug''" by code_simp+
  have "ToLower (TrimSpace (o_proto v)) = o_proto v" "ToLower (TrimSpace (o_logLevel v)) = o_logLevel v"
    using ok e by (auto simp: forward_valid_def)
  then show "validateForwardOptions v = Inr v" using ok by (simp add: validate_Inr)
  show "o_mode v = o_mode opt" by (simp add: v)
next
  let ?opt = "defaultForwardOptions\<lparr>o_mode := '' GO''\<rparr>"
  have n: "normalizeForwardOptions ?opt = Inr defaultForwardOptions" by code_simp
  have v: "validateForwardOptions ?opt = Inr ?opt" by code_simp
  have p: "forward_mode_plan ?opt S = PlanErr (CliOption (ErrMode (o_mode ?opt)))" for S
    by (simp add: forward_mode_plan_def)
  show "\<exists>opt v. normalizeForwardOptions opt = Inr v \<and> o_mode v = ''go'' \<and>
      (\<exists>w. validateForwardOptions opt = Inr w \<and> (\<forall>S. forward_mode_plan w S = PlanErr (CliOption (ErrMode (o_mode opt)))))"
    by (intro exI [of _ ?opt] exI [of _ defaultForwardOptions] conjI exI [of _ ?opt] n v allI p)
      (simp add: defaultForwardOptions_def)
qed

lemma forward_validators_agree_up_to_mode_witness:
  "normalizeForwardOptions defaultForwardOptions = validateForwardOptions defaultForwardOptions"
proof -
  have "o_mode defaultForwardOptions \<in> {''go'', ''socat''}" by (simp add: defaultForwardOptions_def)
  then show ?thesis using forward_validators_agree_up_to_mode by blast
qed

lemma no_unknown_collect:
  "collect_forward s w lm is \<noteq> Inl (ErrUnknownSub u)"
  "collect_proxy st wb lm ps \<noteq> Inl (ErrUnknownSub u)"
proof -
  show "collect_forward s w lm is \<noteq> Inl (ErrUnknownSub u)"
    by (induction s w lm "is" rule: collect_forward.induct)
      (auto simp: merge_forward_addr_def Let_def split: sum.splits if_splits)
  show "collect_proxy st wb lm ps \<noteq> Inl (ErrUnknownSub u)"
    by (induction st wb lm ps rule: collect_proxy.induct)
      (auto simp: mergeProxyAdminEndpoint_def Let_def split: sum.splits if_splits prod.splits)
qed

lemma no_unknown_admin:
  "collectForwardAdminOptions is \<noteq> Inl (ErrUnknownSub u)"
  "collectProxyAdminOptions ps \<noteq> Inl (ErrUnknownSub u)"
  using no_unknown_collect by (auto simp: collectForwardAdminOptions_def collectProxyAdminOptions_def Let_def
      split: sum.splits option.splits if_splits)

lemma no_unknown_build:
  "build_forward_instances base S seen fcs \<noteq> Inl (ErrUnknownSub u)"
  "build_proxy_instances env pb S pseen pcs \<noteq> Inl (ErrUnknownSub u)"
proof -
  show "build_forward_instances base S seen fcs \<noteq> Inl (ErrUnknownSub u)"
    by (induction fcs arbitrary: seen) (auto simp: Let_def split: sum.splits)
  have "buildProxyUpstream env opt \<noteq> Inl (ErrUnknownSub u)" for opt
    by (auto simp: buildProxyUpstream_def split: sum.splits)
  then show "build_proxy_instances env pb S pseen pcs \<noteq> Inl (ErrUnknownSub u)"
    by (induction pcs arbitrary: pseen) (auto simp: Let_def split: sum.splits option.splits)
qed

lemma no_unknown_load: "fst (loadCommandConfig env path ls section st) \<noteq> Inl (ErrUnknownSub u)"
  by (auto simp: loadCommandConfig_def Let_def split: sum.splits)

lemma no_unknown_multi:
  "fst (runForwardMulti base cfg S st) \<noteq> PlanErr (ErrUnknownSub u)"
  "fst (runProxyMulti env pb cfg S st) \<noteq> PlanErr (ErrUnknownSub u)"
  using no_unknown_build no_unknown_admin
  by (auto simp: runForwardMulti_def runProxyMulti_def buildProxyInstances_def startForwardInstances_plan_def Let_def
      split: sum.splits)

lemma no_unknown_run:
  "fst (runForward env argv st) \<noteq> PlanErr (ErrUnknownSub u)"
  "fst (runProxy env argv st) \<noteq> PlanErr (ErrUnknownSub u)"
proof -
  have m: "merge_forward opt topCfg S \<noteq> Inl (ErrUnknownSub u)" for opt topCfg S
    by (auto simp: merge_forward_def split: option.splits sum.splits)
  have l: "loadCommandConfig env path ls section st = (Inl e, st1) \<Longrightarrow> e \<noteq> ErrUnknownSub u" for path ls "section" e st1
    using no_unknown_load [of env path ls "section" st u] by auto
  have b: "buildProxyUpstream env opt \<noteq> Inl (ErrUnknownSub u)" for opt
    by (auto simp: buildProxyUpstream_def split: sum.splits)
  show "fst (runForward env argv st) \<noteq> PlanErr (ErrUnknownSub u)"
    using m l no_unknown_multi(1) by (auto simp: runForward_def forward_mode_plan_def split: sum.splits prod.splits)
  show "fst (runProxy env argv st) \<noteq> PlanErr (ErrUnknownSub u)"
    using l b no_unknown_multi(2) by (auto simp: runProxy_def Let_def split: sum.splits prod.splits option.splits)
qed

text \<open>A word that is no subcommand is not an error: the arguments go to the forward command,
  whose flag set stops at the word and leaves it, so the default forwarder is started on port 22;
  no command line at all is answered with "unknown subcommand".\<close>
theorem unknown_word_starts_default_forwarder:
  "(\<forall>w rest. w \<notin> set subcommands \<and> take 1 w \<noteq> ''-'' \<and> preScanLang (w # rest) = [] \<longrightarrow>
      cli_run env (w # rest) st = (PlanGo defaultForwardOptions (forward_config None defaultForwardOptions), st)) \<and>
   (\<forall>argv s. fst (cli_run env argv st) \<noteq> PlanErr (ErrUnknownSub s))"
proof (intro conjI allI impI)
  fix w rest
  assume a: "w \<notin> set subcommands \<and> take 1 w \<noteq> ''-'' \<and> preScanLang (w # rest) = []"
  have sp: "splitSubcommand (w # rest) = (''forward'', w # rest)" using a by (simp add: splitSubcommand_def)
  have "length w < 2 \<or> hd w \<noteq> CHR ''-''" using a by (cases w) auto
  then have fp: "flag_parse forward_flags (w # rest) forward_flag_defaults {} = Inr (defaultForwardOptions, {}, w # rest)"
    by (simp add: flag_round_def default_flags_agree)
  have d: "\<not> o_showVersion defaultForwardOptions" "o_configPath defaultForwardOptions = []" "o_mode defaultForwardOptions = ''go''"
    "runGo_events defaultForwardOptions = None"
    by (simp_all add: defaultForwardOptions_def runGo_events_def)
  have v: "validateForwardOptions defaultForwardOptions = Inr defaultForwardOptions" by code_simp
  have "runForward env (w # rest) st = (PlanGo defaultForwardOptions (forward_config None defaultForwardOptions), st)"
    unfolding runForward_def fp by (simp add: d loadCommandConfig_def merge_forward_def v forward_mode_plan_def)
  then show "cli_run env (w # rest) st = (PlanGo defaultForwardOptions (forward_config None defaultForwardOptions), st)"
    using a by (simp add: cli_run_def sp)
next
  fix argv s
  have k: "fst (splitSubcommand argv) \<in> set subcommands"
    by (auto simp: splitSubcommand_def subcommands_def split: list.splits)
  obtain sub rest where sp: "splitSubcommand argv = (sub, rest)" by force
  have "sub = ''forward'' \<or> sub = ''proxy'' \<or> sub = ''version''" using k by (simp add: sp subcommands_def)
  then show "fst (cli_run env argv st) \<noteq> PlanErr (ErrUnknownSub s)"
    unfolding cli_run_def sp Let_def by (elim disjE) (simp_all add: no_unknown_run)
qed

lemma unknown_word_starts_default_forwarder_witness:
  "fst (cli_run sample_env [''bogus''] lang0) = PlanGo defaultForwardOptions (forward_config None defaultForwardOptions)"
proof -
  have a: "''bogus'' \<notin> set subcommands \<and> take 1 ''bogus'' \<noteq> ''-'' \<and> preScanLang [''bogus''] = []"
    by (simp add: subcommands_def preScanLang_def trim_left_def)
  show ?thesis
    using unknown_word_starts_default_forwarder [THEN conjunct1, rule_format, OF a, where env = sample_env and st = lang0] by simp
qed

end
