(* ===== verification/Cli_Run.thy ===== *)
theory Cli_Run
  imports PM_Prelude
begin

text \<open>
  How the servers of a command run together, main.go: the admin endpoints
  (\<open>startStatsEndpoint\<close>, \<open>startWebEndpoint\<close>, \<open>drainStatsErr\<close>), one server with its endpoints
  (\<open>runGo\<close>, \<open>serveProxy\<close>), and several instances with shared endpoints
  (\<open>startForwardInstances\<close>, the second half of \<open>runProxyMulti\<close>).  Each is a step relation: one
  step for every action of the main goroutine, of the goroutine of an instance, of an endpoint and
  of the shutdown goroutine, in any order.  The steps of the program (\<open>ep_step\<close>, \<open>group_own\<close>,
  \<open>serve_own\<close>) are kept apart from those of the outside: the signal, and the failure of a server or
  an endpoint, which may come at any time or never.  A server returns of itself only after it was
  told to: an instance and an endpoint once the context is done, a proxy once its shutdown has begun.
\<close>

section \<open>Admin endpoints\<close>

text \<open>The goroutine of an endpoint: not configured, serving, returned with an error, error sent and
  \<open>onErr\<close> still to call, finished.\<close>

datatype ep_stage = EpOff | EpServing | EpFailed string | EpSent | EpDone

record endpoint =
  ep_stage :: ep_stage
  ep_ch :: "string list"
  ep_open :: bool

text \<open>\<open>startStatsEndpoint\<close> and \<open>startWebEndpoint\<close>: without an address the channel is closed and
  there is nothing to wait for.\<close>

definition startStatsEndpoint :: "string \<Rightarrow> endpoint" where
  "startStatsEndpoint addr =
     (if TrimSpace addr = [] then \<lparr>ep_stage = EpOff, ep_ch = [], ep_open = False\<rparr>
      else \<lparr>ep_stage = EpServing, ep_ch = [], ep_open = True\<rparr>)"

definition startWebEndpoint :: "string \<Rightarrow> endpoint" where
  "startWebEndpoint addr =
     (if TrimSpace addr = [] then \<lparr>ep_stage = EpOff, ep_ch = [], ep_open = False\<rparr>
      else \<lparr>ep_stage = EpServing, ep_ch = [], ep_open = True\<rparr>)"

definition drainStatsErr :: "endpoint \<Rightarrow> string option" where
  "drainStatsErr ep = (case ep_ch ep of e # _ \<Rightarrow> Some e | [] \<Rightarrow> None)"

text \<open>A step of an endpoint, with the context's cancellation before and after: it returns without
  an error only once the context is done.  The channel has room for one value: a second send would
  block.  That it fails while serving is up to the outside.\<close>

inductive ep_step :: "bool \<times> endpoint \<Rightarrow> bool \<times> endpoint \<Rightarrow> bool" where
  ep_return: "ep_stage ep = EpServing \<Longrightarrow> ep_step (True, ep) (True, ep\<lparr>ep_stage := EpDone\<rparr>)"
| ep_send: "ep_stage ep = EpFailed e \<Longrightarrow> ep_open ep \<Longrightarrow> ep_ch ep = [] \<Longrightarrow>
    ep_step (c, ep) (c, ep\<lparr>ep_stage := EpSent, ep_ch := [e]\<rparr>)"
| ep_onErr: "ep_stage ep = EpSent \<Longrightarrow> ep_step (c, ep) (True, ep\<lparr>ep_stage := EpDone\<rparr>)"

inductive ep_fails :: "endpoint \<Rightarrow> endpoint \<Rightarrow> bool" where
  ep_fail: "ep_stage ep = EpServing \<Longrightarrow> ep_fails ep (ep\<lparr>ep_stage := EpFailed e\<rparr>)"

inductive_cases ep_failsE [step_elims]: "ep_fails ep ep'"

inductive_cases ep_stepE [step_elims]: "ep_step (c, ep) (c', ep')"

definition ep_finished :: "endpoint \<Rightarrow> bool" where
  "ep_finished ep \<longleftrightarrow> ep_stage ep \<in> {EpOff, EpDone}"

fun stage_rank :: "ep_stage \<Rightarrow> nat" where
  "stage_rank EpServing = 3" | "stage_rank (EpFailed e) = 2" | "stage_rank EpSent = 1"
| "stage_rank EpOff = 0" | "stage_rank EpDone = 0"

definition ep_rank :: "endpoint \<Rightarrow> nat" where
  "ep_rank ep = stage_rank (ep_stage ep)"

definition ep_failing :: "endpoint \<Rightarrow> bool" where
  "ep_failing ep \<longleftrightarrow> ep_stage ep \<noteq> EpServing \<and> \<not> ep_finished ep"

text \<open>A message waits only in an endpoint that has failed and sent; one that has finished has seen
  the context done, or has cancelled it.\<close>

definition ep_inv :: "bool \<Rightarrow> endpoint \<Rightarrow> bool" where
  "ep_inv c ep \<longleftrightarrow>
     (ep_stage ep = EpOff \<longleftrightarrow> \<not> ep_open ep) \<and>
     (ep_ch ep \<noteq> [] \<longrightarrow> ep_stage ep = EpSent \<or> ep_stage ep = EpDone) \<and>
     (ep_stage ep = EpSent \<longrightarrow> ep_ch ep \<noteq> []) \<and>
     (ep_stage ep = EpDone \<longrightarrow> c)"

text \<open>The error \<open>e\<close> of an endpoint: on its way to the channel, or in it.\<close>

definition ep_reports :: "string \<Rightarrow> endpoint \<Rightarrow> bool" where
  "ep_reports e ep \<longleftrightarrow> ep_stage ep = EpFailed e \<and> ep_ch ep = [] \<or> ep_stage ep \<in> {EpSent, EpDone} \<and> ep_ch ep = [e]"

lemma ep_inv_start: "ep_inv c (startStatsEndpoint a)" "ep_inv c (startWebEndpoint a)"
  by (auto simp: ep_inv_def startStatsEndpoint_def startWebEndpoint_def)

lemma ep_inv_cancel: "ep_inv c ep \<Longrightarrow> c \<longrightarrow> c' \<Longrightarrow> ep_inv c' ep"
  by (auto simp: ep_inv_def)

lemma ep_step_facts:
  assumes "ep_step (c, ep) (c', ep')" "ep_inv c ep"
  shows "ep_inv c' ep'" and "c \<longrightarrow> c'" and "ep_rank ep' < ep_rank ep" and "\<not> ep_finished ep"
    and "ep_reports e ep \<longrightarrow> ep_reports e ep'" and "ep_failing ep \<longrightarrow> ep_failing ep' \<or> c'"
  using assms by (auto elim!: ep_stepE simp: ep_inv_def ep_rank_def ep_finished_def ep_reports_def ep_failing_def)

lemma ep_fails_facts:
  assumes "ep_fails ep ep'" "ep_inv c ep"
  shows "ep_inv c ep'" and "ep_rank ep' < ep_rank ep" and "\<not> ep_finished ep"
    and "\<not> ep_reports e ep"
  using assms by (auto elim!: ep_failsE simp: ep_inv_def ep_rank_def ep_finished_def ep_reports_def)

lemma ep_progress:
  "ep_inv c ep \<Longrightarrow> \<not> ep_finished ep \<Longrightarrow> c \<or> ep_failing ep \<Longrightarrow> \<exists>c' ep'. ep_step (c, ep) (c', ep')"
  by (cases "ep_stage ep") (auto simp: ep_inv_def ep_finished_def ep_failing_def intro: ep_return ep_send ep_onErr)

section \<open>Several instances\<close>

text \<open>The goroutine of an instance: serving, returned with an error, about to send it, about to
  cancel, finished.\<close>

datatype inst_stage = IServing | IFailed string | ISend string | ICancel | IDone

datatype group_main = MInstances | MStats | MWeb | MReturned "string option"

record group =
  gr_inst :: "inst_stage list"
  gr_cancelled :: bool
  gr_errCh :: "(nat \<times> string) list"
  gr_stats :: endpoint
  gr_web :: endpoint
  gr_main :: group_main

definition startForwardInstances :: "nat \<Rightarrow> string \<Rightarrow> string \<Rightarrow> group" where
  "startForwardInstances n statsAddr webAddr =
     \<lparr>gr_inst = replicate n IServing, gr_cancelled = False, gr_errCh = [],
      gr_stats = startStatsEndpoint statsAddr, gr_web = startWebEndpoint webAddr, gr_main = MInstances\<rparr>"

text \<open>The error the command returns, once everything has finished.\<close>

definition group_result :: "group \<Rightarrow> string option" where
  "group_result g =
     (case gr_errCh g of
        (_, e) # _ \<Rightarrow> Some e
      | [] \<Rightarrow> (case drainStatsErr (gr_stats g) of
                 Some e \<Rightarrow> Some e
               | None \<Rightarrow> drainStatsErr (gr_web g)))"

text \<open>The steps of the program, then those of the outside.\<close>

inductive group_own :: "group \<Rightarrow> group \<Rightarrow> bool" where
  gs_return: "i < length (gr_inst g) \<Longrightarrow> gr_inst g ! i = IServing \<Longrightarrow> gr_cancelled g \<Longrightarrow>
    group_own g (g\<lparr>gr_inst := (gr_inst g)[i := IDone]\<rparr>)"
| gs_check: "i < length (gr_inst g) \<Longrightarrow> gr_inst g ! i = IFailed e \<Longrightarrow>
    group_own g (g\<lparr>gr_inst := (gr_inst g)[i := if gr_cancelled g then IDone else ISend e]\<rparr>)"
| gs_send: "i < length (gr_inst g) \<Longrightarrow> gr_inst g ! i = ISend e \<Longrightarrow> length (gr_errCh g) < length (gr_inst g) \<Longrightarrow>
    group_own g (g\<lparr>gr_inst := (gr_inst g)[i := ICancel], gr_errCh := gr_errCh g @ [(i, e)]\<rparr>)"
| gs_cancel: "i < length (gr_inst g) \<Longrightarrow> gr_inst g ! i = ICancel \<Longrightarrow>
    group_own g (g\<lparr>gr_inst := (gr_inst g)[i := IDone], gr_cancelled := True\<rparr>)"
| gs_stats: "ep_step (gr_cancelled g, gr_stats g) (c, ep) \<Longrightarrow>
    group_own g (g\<lparr>gr_cancelled := c, gr_stats := ep\<rparr>)"
| gs_web: "ep_step (gr_cancelled g, gr_web g) (c, ep) \<Longrightarrow>
    group_own g (g\<lparr>gr_cancelled := c, gr_web := ep\<rparr>)"
| gs_wait: "gr_main g = MInstances \<Longrightarrow> \<forall>st\<in>set (gr_inst g). st = IDone \<Longrightarrow>
    group_own g (g\<lparr>gr_main := MStats\<rparr>)"
| gs_statsWait: "gr_main g = MStats \<Longrightarrow> ep_finished (gr_stats g) \<Longrightarrow> group_own g (g\<lparr>gr_main := MWeb\<rparr>)"
| gs_webWait: "gr_main g = MWeb \<Longrightarrow> ep_finished (gr_web g) \<Longrightarrow>
    group_own g (g\<lparr>gr_main := MReturned (group_result g)\<rparr>)"

inductive group_step :: "group \<Rightarrow> group \<Rightarrow> bool" where
  gs_own: "group_own g g' \<Longrightarrow> group_step g g'"
| gs_signal: "\<not> gr_cancelled g \<Longrightarrow> group_step g (g\<lparr>gr_cancelled := True\<rparr>)"
| gs_fail: "i < length (gr_inst g) \<Longrightarrow> gr_inst g ! i = IServing \<Longrightarrow>
    group_step g (g\<lparr>gr_inst := (gr_inst g)[i := IFailed e]\<rparr>)"
| gs_statsFail: "ep_fails (gr_stats g) ep \<Longrightarrow> group_step g (g\<lparr>gr_stats := ep\<rparr>)"
| gs_webFail: "ep_fails (gr_web g) ep \<Longrightarrow> group_step g (g\<lparr>gr_web := ep\<rparr>)"

text \<open>The end has begun: the context is done, or an instance or an endpoint has failed.\<close>

definition group_ending :: "group \<Rightarrow> bool" where
  "group_ending g \<longleftrightarrow> gr_cancelled g \<or> (\<exists>st\<in>set (gr_inst g). st \<noteq> IServing) \<or>
     ep_failing (gr_stats g) \<or> ep_failing (gr_web g)"

fun inst_rank :: "inst_stage \<Rightarrow> nat" where
  "inst_rank IServing = 4" | "inst_rank (IFailed e) = 3" | "inst_rank (ISend e) = 2"
| "inst_rank ICancel = 1" | "inst_rank IDone = 0"

fun main_rank :: "group_main \<Rightarrow> nat" where
  "main_rank MInstances = 3" | "main_rank MStats = 2" | "main_rank MWeb = 1" | "main_rank (MReturned r) = 0"

definition group_rank :: "group \<Rightarrow> nat" where
  "group_rank g = sum_list (map inst_rank (gr_inst g)) + (if gr_cancelled g then 0 else 1)
     + ep_rank (gr_stats g) + ep_rank (gr_web g) + main_rank (gr_main g)"

text \<open>What is in the channel was sent by instances that have gone on since, each once.\<close>

definition sends_inv :: "inst_stage list \<Rightarrow> (nat \<times> string) list \<Rightarrow> bool" where
  "sends_inv is ch \<longleftrightarrow>
     distinct (map fst ch) \<and>
     (\<forall>p\<in>set ch. fst p < length is \<and> is ! fst p \<in> {ICancel, IDone})"

definition group_inv :: "group \<Rightarrow> bool" where
  "group_inv g \<longleftrightarrow>
     ep_inv (gr_cancelled g) (gr_stats g) \<and> ep_inv (gr_cancelled g) (gr_web g) \<and>
     sends_inv (gr_inst g) (gr_errCh g) \<and>
     (gr_main g \<noteq> MInstances \<longrightarrow> set (gr_inst g) \<subseteq> {IDone}) \<and>
     (\<not> gr_cancelled g \<longrightarrow> IDone \<notin> set (gr_inst g)) \<and>
     (gr_main g \<notin> {MInstances, MStats} \<longrightarrow> ep_finished (gr_stats g)) \<and>
     (\<forall>r. gr_main g = MReturned r \<longrightarrow> ep_finished (gr_web g) \<and> r = group_result g)"

lemma sends_room:
  assumes s: "sends_inv is ch" and i: "i < length is" "is ! i = ISend e"
  shows "length ch < length is"
proof -
  have "i \<notin> fst ` set ch" using assms by (auto simp: sends_inv_def)
  moreover have sub: "fst ` set ch \<subseteq> {..<length is}" using s by (auto simp: sends_inv_def)
  ultimately have "fst ` set ch \<subset> {..<length is}" using i(1) by auto
  from psubset_card_mono [OF _ this] have "card (fst ` set ch) < length is" by simp
  moreover have "card (fst ` set ch) = length ch"
    using s by (metis distinct_card length_map list.set_map sends_inv_def)
  ultimately show ?thesis by simp
qed

lemma sends_update:
  assumes "sends_inv is ch" "i < length is" "is ! i \<notin> {ICancel, IDone} \<or> st \<in> {ICancel, IDone}"
  shows "sends_inv (is[i := st]) ch"
  using assms by (auto simp: sends_inv_def nth_list_update)

lemma sends_send:
  assumes "sends_inv is ch" "i < length is" "is ! i = ISend e"
  shows "sends_inv (is[i := ICancel]) (ch @ [(i, e)])"
  using assms by (auto simp: sends_inv_def nth_list_update)

lemma not_all_done: "set is \<subseteq> {IDone} \<Longrightarrow> i < length is \<Longrightarrow> is ! i = IDone"
  by (metis nth_mem singletonD subsetD)

lemma group_inv_inst:
  assumes "group_inv g" "i < length (gr_inst g)" "gr_inst g ! i \<noteq> IDone"
  shows "gr_main g = MInstances"
  using assms not_all_done unfolding group_inv_def by blast

lemma update_no_done: "IDone \<notin> set is \<Longrightarrow> st \<noteq> IDone \<Longrightarrow> IDone \<notin> set (is[i := st])"
  by (metis in_set_conv_nth length_list_update nth_list_update nth_list_update_neq)

lemma group_result_frame [simp]:
  "group_result (g\<lparr>gr_cancelled := c\<rparr>) = group_result g"
  "group_result (g\<lparr>gr_main := m\<rparr>) = group_result g"
  by (simp_all add: group_result_def split: list.splits option.splits prod.splits)

lemma group_inv_update:
  assumes g: "group_inv g" and i: "i < length (gr_inst g)" "gr_inst g ! i \<noteq> IDone"
    and c: "st \<noteq> IDone \<or> c" "gr_cancelled g \<longrightarrow> c" and s: "sends_inv ((gr_inst g)[i := st]) ch"
  shows "group_inv (g\<lparr>gr_inst := (gr_inst g)[i := st], gr_cancelled := c, gr_errCh := ch\<rparr>)"
proof -
  have m: "gr_main g = MInstances" by (rule group_inv_inst [OF g i])
  have e: "ep_inv c (gr_stats g)" "ep_inv c (gr_web g)" and d: "\<not> gr_cancelled g \<longrightarrow> IDone \<notin> set (gr_inst g)"
    using g c(2) ep_inv_cancel unfolding group_inv_def by blast+
  have "\<not> c \<longrightarrow> IDone \<notin> set ((gr_inst g)[i := st])" using d c update_no_done by blast
  then show ?thesis using e s m by (simp add: group_inv_def)
qed

text \<open>A step of either endpoint.\<close>

lemma group_inv_stats_step:
  assumes g: "group_inv g" and f: "\<not> ep_finished (gr_stats g)" "gr_cancelled g \<longrightarrow> c" "ep_inv c ep"
  shows "group_inv (g\<lparr>gr_cancelled := c, gr_stats := ep\<rparr>)"
proof -
  have e: "ep_inv (gr_cancelled g) (gr_web g)" "sends_inv (gr_inst g) (gr_errCh g)"
    using g by (simp_all add: group_inv_def)
  have m: "gr_main g = MInstances \<or> gr_main g = MStats" using g f(1) unfolding group_inv_def by blast
  have d: "\<not> c \<longrightarrow> IDone \<notin> set (gr_inst g)" "gr_main g \<noteq> MInstances \<longrightarrow> set (gr_inst g) \<subseteq> {IDone}"
    using g f(2) unfolding group_inv_def by blast+
  show ?thesis using m d e(2) f(3) ep_inv_cancel [OF e(1) f(2)]
    unfolding group_inv_def by (elim disjE) simp_all
qed

lemma group_inv_web_step:
  assumes g: "group_inv g" and f: "\<not> ep_finished (gr_web g)" "gr_cancelled g \<longrightarrow> c" "ep_inv c ep"
  shows "group_inv (g\<lparr>gr_cancelled := c, gr_web := ep\<rparr>)"
proof -
  have e: "ep_inv (gr_cancelled g) (gr_stats g)" "sends_inv (gr_inst g) (gr_errCh g)"
    using g by (simp_all add: group_inv_def)
  have m: "gr_main g \<noteq> MReturned r" for r using g f(1) unfolding group_inv_def by blast
  have d: "\<not> c \<longrightarrow> IDone \<notin> set (gr_inst g)" "gr_main g \<noteq> MInstances \<longrightarrow> set (gr_inst g) \<subseteq> {IDone}"
    "gr_main g \<notin> {MInstances, MStats} \<longrightarrow> ep_finished (gr_stats g)"
    using g f(2) unfolding group_inv_def by blast+
  show ?thesis using m d e(2) f(3) ep_inv_cancel [OF e(1) f(2)]
    unfolding group_inv_def by simp
qed

lemma group_inv_eps:
  "group_inv g \<Longrightarrow> ep_inv (gr_cancelled g) (gr_stats g)" "group_inv g \<Longrightarrow> ep_inv (gr_cancelled g) (gr_web g)"
  by (simp_all add: group_inv_def)

lemma group_inv_own:
  assumes "group_inv g" "group_own g g'"
  shows "group_inv g'"
proof -
  have si: "sends_inv (gr_inst g) (gr_errCh g)" using assms(1) by (simp add: group_inv_def)
  note upd = group_inv_update [OF assms(1)]
  from assms(2) show ?thesis
  proof (cases rule: group_own.cases)
    case (gs_return i)
    have "group_inv (g\<lparr>gr_inst := (gr_inst g)[i := IDone], gr_cancelled := gr_cancelled g, gr_errCh := gr_errCh g\<rparr>)"
      by (rule upd) (use gs_return sends_update [OF si, of i IDone] in simp_all)
    then show ?thesis unfolding gs_return(1) by simp
  next
    case (gs_check i e)
    then show ?thesis
      using upd [of i "if gr_cancelled g then IDone else ISend e" "gr_cancelled g" "gr_errCh g"]
        sends_update [OF si, of i "if gr_cancelled g then IDone else ISend e"] by simp
  next
    case (gs_send i e)
    then show ?thesis
      using upd [of i ICancel "gr_cancelled g" "gr_errCh g @ [(i, e)]"] sends_send [OF si, of i e] by simp
  next
    case (gs_cancel i)
    then show ?thesis using upd [of i IDone True "gr_errCh g"] sends_update [OF si, of i IDone] by simp
  next
    case (gs_stats c ep)
    note f = ep_step_facts [OF gs_stats(2) group_inv_eps(1) [OF assms(1)]]
    show ?thesis using group_inv_stats_step [OF assms(1) f(4,2,1)] gs_stats(1) by simp
  next
    case (gs_web c ep)
    note f = ep_step_facts [OF gs_web(2) group_inv_eps(2) [OF assms(1)]]
    show ?thesis using group_inv_web_step [OF assms(1) f(4,2,1)] gs_web(1) by simp
  qed (use assms(1) in \<open>auto simp: group_inv_def\<close>)
qed

lemma group_inv_step:
  assumes "group_inv g" "group_step g g'"
  shows "group_inv g'"
  using assms(2)
proof (cases rule: group_step.cases)
  case gs_own
  then show ?thesis using group_inv_own [OF assms(1)] by blast
next
  case gs_signal
  then show ?thesis using assms(1) by (auto simp: group_inv_def intro: ep_inv_cancel)
next
  case (gs_fail i e)
  have "sends_inv (gr_inst g) (gr_errCh g)" using assms(1) by (simp add: group_inv_def)
  then show ?thesis
    using gs_fail group_inv_update [OF assms(1), of i "IFailed e" "gr_cancelled g" "gr_errCh g"]
      sends_update [of "gr_inst g" "gr_errCh g" i "IFailed e"] by simp
next
  case (gs_statsFail ep)
  note f = ep_fails_facts [OF gs_statsFail(2) group_inv_eps(1) [OF assms(1)]]
  show ?thesis using group_inv_stats_step [OF assms(1) f(3) _ f(1)] gs_statsFail(1) by simp
next
  case (gs_webFail ep)
  note f = ep_fails_facts [OF gs_webFail(2) group_inv_eps(2) [OF assms(1)]]
  show ?thesis using group_inv_web_step [OF assms(1) f(3) _ f(1)] gs_webFail(1) by simp
qed

lemma sum_rank_update:
  "i < length is \<Longrightarrow> inst_rank st < inst_rank (is ! i) \<Longrightarrow>
     sum_list (map inst_rank (is[i := st])) < sum_list (map inst_rank is)"
  using sum_list_map_update [of i "is" inst_rank st] by linarith

lemma group_rank_own:
  assumes "group_inv g" "group_own g g'"
  shows "group_rank g' < group_rank g"
  using assms(2)
proof (cases rule: group_own.cases)
  case (gs_return i)
  then show ?thesis using sum_rank_update [of i "gr_inst g" IDone] by (simp add: group_rank_def)
next
  case (gs_check i e)
  then show ?thesis using sum_rank_update [of i "gr_inst g" "if gr_cancelled g then IDone else ISend e"]
    by (simp add: group_rank_def)
next
  case (gs_send i e)
  then show ?thesis using sum_rank_update [of i "gr_inst g" ICancel] by (simp add: group_rank_def)
next
  case (gs_cancel i)
  then show ?thesis using sum_rank_update [of i "gr_inst g" IDone] by (simp add: group_rank_def)
next
  case (gs_stats c ep)
  note f = ep_step_facts(2,3) [OF gs_stats(2) group_inv_eps(1) [OF assms(1)]]
  then show ?thesis unfolding gs_stats(1) by (auto simp: group_rank_def)
next
  case (gs_web c ep)
  note f = ep_step_facts(2,3) [OF gs_web(2) group_inv_eps(2) [OF assms(1)]]
  then show ?thesis unfolding gs_web(1) by (auto simp: group_rank_def)
qed (auto simp: group_rank_def)

lemma group_rank_step:
  assumes "group_inv g" "group_step g g'"
  shows "group_rank g' < group_rank g"
  using assms(2)
proof (cases rule: group_step.cases)
  case gs_own
  then show ?thesis using group_rank_own [OF assms(1)] by blast
next
  case (gs_fail i e)
  then show ?thesis using sum_rank_update [of i "gr_inst g" "IFailed e"] by (simp add: group_rank_def)
next
  case (gs_statsFail ep)
  then show ?thesis using ep_fails_facts(2) [OF gs_statsFail(2) group_inv_eps(1) [OF assms(1)]] by (simp add: group_rank_def)
next
  case (gs_webFail ep)
  then show ?thesis using ep_fails_facts(2) [OF gs_webFail(2) group_inv_eps(2) [OF assms(1)]] by (simp add: group_rank_def)
qed (auto simp: group_rank_def)

definition group_returned :: "group \<Rightarrow> bool" where
  "group_returned g \<longleftrightarrow> (\<exists>r. gr_main g = MReturned r)"

text \<open>Once the end has begun it stays so, and the program alone goes on to its return.\<close>

lemma all_done_update: "i < length is \<Longrightarrow> st \<noteq> IServing \<Longrightarrow> \<exists>x\<in>set (is[i := st]). x \<noteq> IServing"
  by (metis length_list_update nth_list_update_eq nth_mem)

lemma group_ending_own:
  assumes "group_inv g" "group_ending g" "group_own g g'"
  shows "group_ending g'"
  using assms(3)
proof (cases rule: group_own.cases)
  case (gs_check i e)
  then show ?thesis
    using all_done_update [of i "gr_inst g" "if gr_cancelled g then IDone else ISend e"] by (simp add: group_ending_def)
next
  case (gs_send i e)
  then show ?thesis using all_done_update [of i "gr_inst g" ICancel] by (simp add: group_ending_def)
next
  case (gs_stats c ep)
  note f = ep_step_facts(2,6) [OF gs_stats(2) group_inv_eps(1) [OF assms(1)]]
  then show ?thesis using assms(2) unfolding gs_stats(1) by (auto simp: group_ending_def)
next
  case (gs_web c ep)
  note f = ep_step_facts(2,6) [OF gs_web(2) group_inv_eps(2) [OF assms(1)]]
  then show ?thesis using assms(2) unfolding gs_web(1) by (auto simp: group_ending_def)
qed (use assms(2) in \<open>simp_all add: group_ending_def\<close>)

lemma inst_progress:
  assumes "group_inv g" "i < length (gr_inst g)" "gr_inst g ! i \<noteq> IDone" "gr_cancelled g \<or> gr_inst g ! i \<noteq> IServing"
  shows "\<exists>g'. group_own g g'"
proof (cases "gr_inst g ! i")
  case (ISend er)
  have "sends_inv (gr_inst g) (gr_errCh g)" using assms(1) by (simp add: group_inv_def)
  from sends_room [OF this assms(2) ISend] show ?thesis using gs_send [OF assms(2) ISend] by blast
qed (use assms gs_return gs_check gs_cancel in blast)+

lemma group_progress:
  assumes "group_inv g \<and> group_ending g" "\<not> group_returned g"
  shows "\<exists>g'. group_own g g'"
proof -
  have g: "group_inv g" and e: "ep_inv (gr_cancelled g) (gr_stats g)" "ep_inv (gr_cancelled g) (gr_web g)"
    using assms(1) by (simp_all add: group_inv_def)
  have eps: "\<exists>g'. group_own g g'" if "ep_failing (gr_stats g) \<or> ep_failing (gr_web g)"
    using that ep_progress [OF e(1)] ep_progress [OF e(2)] gs_stats gs_web unfolding ep_failing_def by blast
  show ?thesis
  proof (cases "gr_cancelled g")
    case False
    then have nd: "IDone \<notin> set (gr_inst g)" using g by (simp add: group_inv_def)
    have "(\<exists>st\<in>set (gr_inst g). st \<noteq> IServing) \<or> ep_failing (gr_stats g) \<or> ep_failing (gr_web g)"
      using False assms(1) by (simp add: group_ending_def)
    then show ?thesis using eps inst_progress [OF g] nd by (metis in_set_conv_nth)
  next
    case c: True
    show ?thesis
    proof (cases "gr_main g")
      case MInstances
      show ?thesis
      proof (cases "\<forall>st\<in>set (gr_inst g). st = IDone")
        case True
        then show ?thesis using MInstances gs_wait by blast
      next
        case False
        then obtain i where "i < length (gr_inst g)" "gr_inst g ! i \<noteq> IDone" by (metis in_set_conv_nth)
        then show ?thesis using inst_progress [OF g] c by blast
      qed
    next
      case MStats
      then show ?thesis using ep_progress [OF e(1)] c gs_stats gs_statsWait by blast
    next
      case MWeb
      then show ?thesis using ep_progress [OF e(2)] c gs_web gs_webWait by blast
    qed (use assms(2) in \<open>simp add: group_returned_def\<close>)
  qed
qed

lemma group_inv_start: "0 < n \<Longrightarrow> group_inv (startForwardInstances n sa wa)"
  by (auto simp: group_inv_def startForwardInstances_def ep_inv_start sends_inv_def)

interpretation grp_own: ranked_system group_own "\<lambda>g. group_inv g \<and> group_ending g" group_rank group_returned
  by unfold_locales (auto intro: group_inv_own group_ending_own group_rank_own group_progress)

text \<open>With any steps, also those of the outside, the number of steps is bounded.\<close>

lemma group_runs_bounded: "(group_step ^^ k) g g' \<Longrightarrow> group_inv g \<Longrightarrow> group_inv g' \<and> k + group_rank g' \<le> group_rank g"
proof (induction k arbitrary: g')
  case (Suc k)
  then obtain u where u: "(group_step ^^ k) g u" "group_step u g'" by auto
  with Suc have "group_inv u \<and> k + group_rank u \<le> group_rank g" by blast
  then show ?case using group_inv_step [of u g'] group_rank_step [of u g'] u(2) by fastforce
qed simp

interpretation grp_inv: invariant_system "\<lambda>g. \<exists>n sa wa. 0 < n \<and> g = startForwardInstances n sa wa" group_step group_inv
  by unfold_locales (auto intro: group_inv_step group_inv_start)

lemma ep_rank_start: "ep_rank (startStatsEndpoint a) \<le> 3" "ep_rank (startWebEndpoint a) \<le> 3"
  by (simp_all add: startStatsEndpoint_def startWebEndpoint_def ep_rank_def)

lemma group_rank_start: "group_rank (startForwardInstances n sa wa) \<le> 4 * n + 10"
  using ep_rank_start(1) [of sa] ep_rank_start(2) [of wa]
  by (simp add: group_rank_def startForwardInstances_def sum_list_replicate)

lemma group_own_length: "group_own g g' \<Longrightarrow> length (gr_inst g') = length (gr_inst g)"
  by (erule group_own.cases) simp_all

lemma group_runs_length: "group_step\<^sup>*\<^sup>* g g' \<Longrightarrow> length (gr_inst g') = length (gr_inst g)"
  by (induction rule: rtranclp_induct) (auto elim!: group_step.cases dest: group_own_length)

lemma group_runs_rank: "group_step\<^sup>*\<^sup>* g g' \<Longrightarrow> group_inv g \<Longrightarrow> group_rank g' \<le> group_rank g"
  by (auto dest!: rtranclp_imp_relpowp group_runs_bounded)

text \<open>C15: Several instances come to an end together, by themselves.  From the start at most
  \<open>4 n + 10\<close> steps can happen, in whatever order the goroutines run.  As long as the context is live
  and nothing has failed every instance is serving and the command waits for them.  As soon as the
  context is done, or one instance or one endpoint has failed, the program's own steps lead to the
  return: no other instance has to fail, no signal has to arrive, no order gets stuck before the
  return, and it can be reached.  A goroutine that sends its error always finds room.\<close>
theorem group_always_returns:
  assumes "0 < n"
  shows "(\<forall>k g. (group_step ^^ k) (startForwardInstances n sa wa) g \<longrightarrow> k \<le> 4 * n + 10) \<and>
     (\<forall>g. group_step\<^sup>*\<^sup>* (startForwardInstances n sa wa) g \<longrightarrow>
        (\<not> group_ending g \<longrightarrow> (\<forall>st\<in>set (gr_inst g). st = IServing) \<and> gr_main g = MInstances) \<and>
        (group_ending g \<longrightarrow>
           (\<forall>k t. (group_own ^^ k) g t \<longrightarrow> k \<le> 4 * n + 10 \<and> ((\<exists>u. group_own t u) \<or> group_returned t)) \<and>
           (\<exists>t. group_own\<^sup>*\<^sup>* g t \<and> group_returned t)) \<and>
        (\<forall>i e. i < length (gr_inst g) \<and> gr_inst g ! i = ISend e \<longrightarrow> length (gr_errCh g) < length (gr_inst g)))"
proof (intro conjI allI impI)
  note inv0 = group_inv_start [OF assms, of sa wa]
  fix k g assume "(group_step ^^ k) (startForwardInstances n sa wa) g"
  from group_runs_bounded [OF this inv0] show "k \<le> 4 * n + 10" using group_rank_start [of n sa wa] by simp
next
  fix g assume r: "group_step\<^sup>*\<^sup>* (startForwardInstances n sa wa) g"
  have g: "group_inv g" by (rule grp_inv.inv_steps [OF group_inv_start [OF assms] r])
  have len: "length (gr_inst g) = n" and rank: "group_rank g \<le> 4 * n + 10"
    using group_runs_length [OF r] group_runs_rank [OF r group_inv_start [OF assms]] group_rank_start [of n sa wa]
    by (simp_all add: startForwardInstances_def)
  show "\<not> group_ending g \<Longrightarrow> \<forall>st\<in>set (gr_inst g). st = IServing" by (auto simp: group_ending_def)
  show "\<not> group_ending g \<Longrightarrow> gr_main g = MInstances"
    using g len assms unfolding group_ending_def group_inv_def by (cases "gr_inst g") auto
  show "\<exists>t. group_own\<^sup>*\<^sup>* g t \<and> group_returned t" if "group_ending g"
    using grp_own.can_finish g that by blast
  show "k \<le> 4 * n + 10" "(\<exists>u. group_own t u) \<or> group_returned t" if "group_ending g" "(group_own ^^ k) g t" for k t
    using grp_own.run_bound [OF that(2)] group_progress [of t] g that(1) rank by auto
  fix i e assume "i < length (gr_inst g) \<and> gr_inst g ! i = ISend e"
  then show "length (gr_errCh g) < length (gr_inst g)"
    using sends_room [of "gr_inst g" "gr_errCh g" i e] g by (simp add: group_inv_def)
qed

text \<open>The witness: of two instances the first fails.\<close>

lemma group_always_returns_witness:
  "\<exists>t. group_own\<^sup>*\<^sup>* ((startForwardInstances 2 '':9'' [])\<lparr>gr_inst := [IFailed ''bind'', IServing]\<rparr>) t \<and> group_returned t"
proof -
  let ?a = "startForwardInstances 2 '':9'' []" and ?b = "(startForwardInstances 2 '':9'' [])\<lparr>gr_inst := [IFailed ''bind'', IServing]\<rparr>"
  have i: "gr_inst ?a = [IServing, IServing]" by (simp add: startForwardInstances_def numeral_2_eq_2)
  have "group_step ?a ?b" using gs_fail [of 0 ?a "''bind''"] by (simp add: i)
  then have "group_step\<^sup>*\<^sup>* ?a ?b" by (rule r_into_rtranclp [of group_step])
  moreover have "0 < (2::nat)" "group_ending ?b" by (simp_all add: group_ending_def)
  ultimately show ?thesis
    using group_always_returns [of 2 "'':9''" "[]", THEN conjunct2, THEN spec, of ?b] by blast
qed

text \<open>When the command of several instances returns, nothing is left running: every instance and
  both endpoints have finished and the context is done.  It returns the error of the first
  instance that failed while the context was live, else one of an endpoint, and no error exactly
  if none was recorded; each instance is recorded at most once.\<close>
theorem group_returns_nothing_running:
  assumes "0 < n" "group_step\<^sup>*\<^sup>* (startForwardInstances n sa wa) g" "gr_main g = MReturned r"
  shows "(\<forall>st\<in>set (gr_inst g). st = IDone) \<and> ep_finished (gr_stats g) \<and> ep_finished (gr_web g) \<and>
     (gr_inst g \<noteq> [] \<longrightarrow> gr_cancelled g) \<and> distinct (map fst (gr_errCh g)) \<and>
     r = (case gr_errCh g of (i, e) # _ \<Rightarrow> Some e
          | [] \<Rightarrow> (case ep_ch (gr_stats g) of e # _ \<Rightarrow> Some e
                   | [] \<Rightarrow> (case ep_ch (gr_web g) of e # _ \<Rightarrow> Some e | [] \<Rightarrow> None)))"
proof -
  have g: "group_inv g" by (rule grp_inv.inv_steps [OF group_inv_start [OF assms(1)] assms(2)])
  have d: "set (gr_inst g) \<subseteq> {IDone}" using g assms(3) by (simp add: group_inv_def)
  have c: "gr_inst g \<noteq> [] \<longrightarrow> gr_cancelled g"
    using g d unfolding group_inv_def by (metis insert_subset list.set_intros(1) neq_Nil_conv singletonD list.simps(15))
  have r: "r = group_result g" and e: "ep_finished (gr_stats g)" "ep_finished (gr_web g)" "distinct (map fst (gr_errCh g))"
    using g assms(3) by (simp_all add: group_inv_def sends_inv_def)
  show ?thesis using d c e unfolding r group_result_def drainStatsErr_def
    by (auto split: list.splits prod.splits option.splits)
qed

definition grp0 :: group where "grp0 = startForwardInstances 1 [] []"

lemma group_returns_nothing_running_witness:
  "\<exists>g :: group. gr_main g = MReturned (Some ''bind'') \<and> gr_cancelled g"
proof -
  have 1: "group_step grp0 (grp0\<lparr>gr_inst := [IFailed ''bind'']\<rparr>)" (is "group_step _ ?g1")
    using gs_fail [of 0 grp0 "''bind''"] by (simp add: grp0_def startForwardInstances_def)
  have 2: "group_step ?g1 (grp0\<lparr>gr_inst := [ISend ''bind'']\<rparr>)" (is "group_step _ ?g2")
    using gs_own [OF gs_check, of 0 ?g1 "''bind''"] by (simp add: grp0_def startForwardInstances_def)
  have 3: "group_step ?g2 (grp0\<lparr>gr_inst := [ICancel], gr_errCh := [(0, ''bind'')]\<rparr>)" (is "group_step _ ?g3")
    using gs_own [OF gs_send, of 0 ?g2 "''bind''"] by (simp add: grp0_def startForwardInstances_def)
  have 4: "group_step ?g3 (grp0\<lparr>gr_inst := [IDone], gr_errCh := [(0, ''bind'')], gr_cancelled := True\<rparr>)" (is "group_step _ ?g4")
    using gs_own [OF gs_cancel, of 0 ?g3] by (simp add: grp0_def startForwardInstances_def)
  have 5: "group_step ?g4 (?g4\<lparr>gr_main := MStats\<rparr>)" (is "group_step _ ?g5")
    by (rule gs_own [OF gs_wait]) (simp_all add: grp0_def startForwardInstances_def)
  have 6: "group_step ?g5 (?g4\<lparr>gr_main := MWeb\<rparr>)" (is "group_step _ ?g6")
    using gs_own [OF gs_statsWait, of ?g5] by (simp add: grp0_def startForwardInstances_def ep_finished_def startStatsEndpoint_def)
  have 7: "group_step ?g6 (?g4\<lparr>gr_main := MReturned (Some ''bind'')\<rparr>)" (is "group_step _ ?g7")
    using gs_own [OF gs_webWait, of ?g6] by (simp add: grp0_def startForwardInstances_def ep_finished_def startWebEndpoint_def group_result_def)
  have "group_step\<^sup>*\<^sup>* grp0 ?g7"
    by (intro converse_rtranclp_into_rtranclp [of group_step, OF 1] converse_rtranclp_into_rtranclp [of group_step, OF 2] converse_rtranclp_into_rtranclp [of group_step, OF 3]
        converse_rtranclp_into_rtranclp [of group_step, OF 4] converse_rtranclp_into_rtranclp [of group_step, OF 5] converse_rtranclp_into_rtranclp [of group_step, OF 6]
        r_into_rtranclp [of group_step, OF 7])
  then have "gr_inst ?g7 \<noteq> [] \<longrightarrow> gr_cancelled ?g7"
    using group_returns_nothing_running [of 1 "[]" "[]" ?g7 "Some ''bind''"] by (simp add: grp0_def)
  then have c: "gr_cancelled ?g7" by simp
  have "gr_main ?g7 = MReturned (Some ''bind'')" by simp
  then show ?thesis using c by blast
qed

section \<open>One server with its endpoints\<close>

text \<open>The main goroutine of \<open>runGo\<close> and \<open>serveProxy\<close>: serving, then cancelling, waiting for the
  shutdown goroutine (\<open>serveProxy\<close> only), for the endpoints, returned.\<close>

datatype serve_main = SServing | SCancel "string option" | SShutdown "string option" | SStats "string option"
  | SWeb "string option" | SReturned "string option"

datatype shutdown_stage = ShNone | ShWaiting | ShRunning | ShDone

record serve =
  sv_main :: serve_main
  sv_cancelled :: bool
  sv_shutdown :: shutdown_stage
  sv_stats :: endpoint
  sv_web :: endpoint

definition serve_start :: "bool \<Rightarrow> string \<Rightarrow> string \<Rightarrow> serve" where
  "serve_start isProxy statsAddr webAddr =
     \<lparr>sv_main = SServing, sv_cancelled = False, sv_shutdown = (if isProxy then ShWaiting else ShNone),
      sv_stats = startStatsEndpoint statsAddr, sv_web = startWebEndpoint webAddr\<rparr>"

definition serve_result :: "string option \<Rightarrow> endpoint \<Rightarrow> endpoint \<Rightarrow> string option" where
  "serve_result serveErr statsEp webEp =
     (case serveErr of
        Some e \<Rightarrow> Some e
      | None \<Rightarrow> (case drainStatsErr statsEp of Some e \<Rightarrow> Some e | None \<Rightarrow> drainStatsErr webEp))"

text \<open>The steps of the program, then those of the outside.  A server that was told to stop may return
  with an error of its own all the same.\<close>

inductive serve_own :: "serve \<Rightarrow> serve \<Rightarrow> bool" where
  sv_return: "sv_main s = SServing \<Longrightarrow> sv_cancelled s \<Longrightarrow> sv_shutdown s \<noteq> ShWaiting \<Longrightarrow>
    serve_own s (s\<lparr>sv_main := SCancel r\<rparr>)"
| sv_cancel: "sv_main s = SCancel r \<Longrightarrow> serve_own s (s\<lparr>sv_cancelled := True, sv_main := SShutdown r\<rparr>)"
| sv_begin: "sv_shutdown s = ShWaiting \<Longrightarrow> sv_cancelled s \<Longrightarrow> serve_own s (s\<lparr>sv_shutdown := ShRunning\<rparr>)"
| sv_end: "sv_shutdown s = ShRunning \<Longrightarrow> serve_own s (s\<lparr>sv_shutdown := ShDone\<rparr>)"
| sv_shutdownDone: "sv_main s = SShutdown r \<Longrightarrow> sv_shutdown s \<in> {ShNone, ShDone} \<Longrightarrow> serve_own s (s\<lparr>sv_main := SStats r\<rparr>)"
| sv_statsStep: "ep_step (sv_cancelled s, sv_stats s) (c, ep) \<Longrightarrow> serve_own s (s\<lparr>sv_cancelled := c, sv_stats := ep\<rparr>)"
| sv_webStep: "ep_step (sv_cancelled s, sv_web s) (c, ep) \<Longrightarrow> serve_own s (s\<lparr>sv_cancelled := c, sv_web := ep\<rparr>)"
| sv_statsWait: "sv_main s = SStats r \<Longrightarrow> ep_finished (sv_stats s) \<Longrightarrow> serve_own s (s\<lparr>sv_main := SWeb r\<rparr>)"
| sv_webWait: "sv_main s = SWeb r \<Longrightarrow> ep_finished (sv_web s) \<Longrightarrow>
    serve_own s (s\<lparr>sv_main := SReturned (serve_result r (sv_stats s) (sv_web s))\<rparr>)"

inductive serve_step :: "serve \<Rightarrow> serve \<Rightarrow> bool" where
  sv_own: "serve_own s s' \<Longrightarrow> serve_step s s'"
| sv_signal: "\<not> sv_cancelled s \<Longrightarrow> serve_step s (s\<lparr>sv_cancelled := True\<rparr>)"
| sv_fail: "sv_main s = SServing \<Longrightarrow> serve_step s (s\<lparr>sv_main := SCancel (Some e)\<rparr>)"
| sv_statsFail: "ep_fails (sv_stats s) ep \<Longrightarrow> serve_step s (s\<lparr>sv_stats := ep\<rparr>)"
| sv_webFail: "ep_fails (sv_web s) ep \<Longrightarrow> serve_step s (s\<lparr>sv_web := ep\<rparr>)"

text \<open>The end has begun: the context is done, or the server or an endpoint has failed.\<close>

definition serve_ending :: "serve \<Rightarrow> bool" where
  "serve_ending s \<longleftrightarrow> sv_cancelled s \<or> sv_main s \<noteq> SServing \<or> ep_failing (sv_stats s) \<or> ep_failing (sv_web s)"

fun serve_main_rank :: "serve_main \<Rightarrow> nat" where
  "serve_main_rank SServing = 5" | "serve_main_rank (SCancel r) = 4" | "serve_main_rank (SShutdown r) = 3"
| "serve_main_rank (SStats r) = 2" | "serve_main_rank (SWeb r) = 1" | "serve_main_rank (SReturned r) = 0"

fun shutdown_rank :: "shutdown_stage \<Rightarrow> nat" where
  "shutdown_rank ShWaiting = 2" | "shutdown_rank ShRunning = 1" | "shutdown_rank ShDone = 0" | "shutdown_rank ShNone = 0"

definition serve_rank :: "serve \<Rightarrow> nat" where
  "serve_rank s = serve_main_rank (sv_main s) + shutdown_rank (sv_shutdown s) + (if sv_cancelled s then 0 else 1)
     + ep_rank (sv_stats s) + ep_rank (sv_web s)"

definition serve_inv :: "serve \<Rightarrow> bool" where
  "serve_inv s \<longleftrightarrow>
     ep_inv (sv_cancelled s) (sv_stats s) \<and> ep_inv (sv_cancelled s) (sv_web s) \<and>
     (serve_main_rank (sv_main s) \<le> 3 \<longrightarrow> sv_cancelled s) \<and>
     (serve_main_rank (sv_main s) \<le> 2 \<longrightarrow> sv_shutdown s \<in> {ShNone, ShDone}) \<and>
     (sv_shutdown s \<in> {ShRunning, ShDone} \<longrightarrow> sv_cancelled s) \<and>
     (serve_main_rank (sv_main s) \<le> 1 \<longrightarrow> ep_finished (sv_stats s)) \<and>
     (\<forall>r. sv_main s = SReturned r \<longrightarrow> ep_finished (sv_web s))"

definition serve_returned :: "serve \<Rightarrow> bool" where
  "serve_returned s \<longleftrightarrow> (\<exists>r. sv_main s = SReturned r)"

lemma serve_inv_eps:
  "serve_inv s \<Longrightarrow> ep_inv (sv_cancelled s) (sv_stats s)" "serve_inv s \<Longrightarrow> ep_inv (sv_cancelled s) (sv_web s)"
  by (simp_all add: serve_inv_def)

lemma serve_inv_stats_step:
  assumes "serve_inv s" and f: "\<not> ep_finished (sv_stats s)" "sv_cancelled s \<longrightarrow> c" "ep_inv c ep"
  shows "serve_inv (s\<lparr>sv_cancelled := c, sv_stats := ep\<rparr>)"
proof -
  have "\<not> serve_main_rank (sv_main s) \<le> 1" using assms(1) f(1) unfolding serve_inv_def by blast
  moreover have "\<forall>r. sv_main s \<noteq> SReturned r" using calculation by auto
  ultimately show ?thesis using assms(1) f ep_inv_cancel [OF serve_inv_eps(2) [OF assms(1)] f(2)]
    unfolding serve_inv_def by (simp del: not_le)
qed

lemma serve_inv_web_step:
  assumes "serve_inv s" and f: "\<not> ep_finished (sv_web s)" "sv_cancelled s \<longrightarrow> c" "ep_inv c ep"
  shows "serve_inv (s\<lparr>sv_cancelled := c, sv_web := ep\<rparr>)"
proof -
  have "\<forall>r. sv_main s \<noteq> SReturned r" using assms(1) f(1) unfolding serve_inv_def by blast
  then show ?thesis using assms(1) f ep_inv_cancel [OF serve_inv_eps(1) [OF assms(1)] f(2)]
    unfolding serve_inv_def by (simp del: not_le)
qed

lemma serve_inv_own:
  assumes "serve_inv s" "serve_own s s'"
  shows "serve_inv s'"
  using assms(2)
proof (cases rule: serve_own.cases)
  case (sv_statsStep c ep)
  note f = ep_step_facts [OF sv_statsStep(2) serve_inv_eps(1) [OF assms(1)]]
  show ?thesis using serve_inv_stats_step [OF assms(1) f(4,2,1)] sv_statsStep(1) by simp
next
  case (sv_webStep c ep)
  note f = ep_step_facts [OF sv_webStep(2) serve_inv_eps(2) [OF assms(1)]]
  show ?thesis using serve_inv_web_step [OF assms(1) f(4,2,1)] sv_webStep(1) by simp
next
  case (sv_cancel r)
  then show ?thesis using assms(1) ep_inv_cancel [of "sv_cancelled s" _ True] by (simp add: serve_inv_def)
qed (use assms(1) in \<open>auto simp: serve_inv_def\<close>)

lemma serve_inv_step:
  assumes "serve_inv s" "serve_step s s'"
  shows "serve_inv s'"
  using assms(2)
proof (cases rule: serve_step.cases)
  case sv_own
  then show ?thesis using serve_inv_own [OF assms(1)] by blast
next
  case (sv_statsFail ep)
  note f = ep_fails_facts [OF sv_statsFail(2) serve_inv_eps(1) [OF assms(1)]]
  show ?thesis using serve_inv_stats_step [OF assms(1) f(3) _ f(1)] sv_statsFail(1) by simp
next
  case (sv_webFail ep)
  note f = ep_fails_facts [OF sv_webFail(2) serve_inv_eps(2) [OF assms(1)]]
  show ?thesis using serve_inv_web_step [OF assms(1) f(3) _ f(1)] sv_webFail(1) by simp
next
  case sv_signal
  then show ?thesis using assms(1) ep_inv_cancel [of "sv_cancelled s" _ True] by (simp add: serve_inv_def)
qed (use assms(1) in \<open>auto simp: serve_inv_def\<close>)

lemma serve_rank_own:
  assumes "serve_inv s" "serve_own s s'"
  shows "serve_rank s' < serve_rank s"
  using assms(2)
proof (cases rule: serve_own.cases)
  case (sv_statsStep c ep)
  note f = ep_step_facts(2,3) [OF sv_statsStep(2) serve_inv_eps(1) [OF assms(1)]]
  then show ?thesis unfolding sv_statsStep(1) by (auto simp: serve_rank_def)
next
  case (sv_webStep c ep)
  note f = ep_step_facts(2,3) [OF sv_webStep(2) serve_inv_eps(2) [OF assms(1)]]
  then show ?thesis unfolding sv_webStep(1) by (auto simp: serve_rank_def)
qed (auto simp: serve_rank_def)

lemma serve_rank_step:
  assumes "serve_inv s" "serve_step s s'"
  shows "serve_rank s' < serve_rank s"
  using assms(2)
proof (cases rule: serve_step.cases)
  case sv_own
  then show ?thesis using serve_rank_own [OF assms(1)] by blast
next
  case (sv_statsFail ep)
  then show ?thesis using ep_fails_facts(2) [OF sv_statsFail(2) serve_inv_eps(1) [OF assms(1)]] by (simp add: serve_rank_def)
next
  case (sv_webFail ep)
  then show ?thesis using ep_fails_facts(2) [OF sv_webFail(2) serve_inv_eps(2) [OF assms(1)]] by (simp add: serve_rank_def)
qed (auto simp: serve_rank_def)

lemma serve_ending_own:
  assumes "serve_inv s" "serve_ending s" "serve_own s s'"
  shows "serve_ending s'"
  using assms(3)
proof (cases rule: serve_own.cases)
  case (sv_statsStep c ep)
  note f = ep_step_facts(2,6) [OF sv_statsStep(2) serve_inv_eps(1) [OF assms(1)]]
  then show ?thesis using assms(2) unfolding sv_statsStep(1) by (auto simp: serve_ending_def)
next
  case (sv_webStep c ep)
  note f = ep_step_facts(2,6) [OF sv_webStep(2) serve_inv_eps(2) [OF assms(1)]]
  then show ?thesis using assms(2) unfolding sv_webStep(1) by (auto simp: serve_ending_def)
qed (use assms(2) in \<open>simp_all add: serve_ending_def\<close>)

lemma serve_progress:
  assumes "serve_inv s \<and> serve_ending s" "\<not> serve_returned s"
  shows "\<exists>s'. serve_own s s'"
proof -
  have e: "ep_inv (sv_cancelled s) (sv_stats s)" "ep_inv (sv_cancelled s) (sv_web s)"
    using assms(1) by (simp_all add: serve_inv_def)
  have c: "sv_cancelled s" if "serve_main_rank (sv_main s) \<le> 3" using that assms(1) by (simp add: serve_inv_def)
  show ?thesis
  proof (cases "sv_main s")
    case SServing
    show ?thesis
    proof (cases "sv_cancelled s")
      case True
      then show ?thesis using sv_return [OF SServing True] sv_begin by blast
    next
      case False
      then have "ep_failing (sv_stats s) \<or> ep_failing (sv_web s)" using SServing assms(1) by (simp add: serve_ending_def)
      then show ?thesis using ep_progress [OF e(1)] ep_progress [OF e(2)] sv_statsStep sv_webStep
        unfolding ep_failing_def by blast
    qed
  next
    case (SCancel r)
    then show ?thesis using sv_cancel by blast
  next
    case (SShutdown r)
    then show ?thesis using c sv_begin sv_end sv_shutdownDone [OF SShutdown] by (cases "sv_shutdown s") auto
  next
    case (SStats r)
    then have "\<not> ep_finished (sv_stats s) \<Longrightarrow> \<exists>c' ep'. ep_step (sv_cancelled s, sv_stats s) (c', ep')"
      using ep_progress [OF e(1)] c by simp
    then show ?thesis using sv_statsStep sv_statsWait [OF SStats] by blast
  next
    case (SWeb r)
    then have "\<not> ep_finished (sv_web s) \<Longrightarrow> \<exists>c' ep'. ep_step (sv_cancelled s, sv_web s) (c', ep')"
      using ep_progress [OF e(2)] c by simp
    then show ?thesis using sv_webStep sv_webWait [OF SWeb] by blast
  qed (use assms(2) in \<open>simp add: serve_returned_def\<close>)
qed

lemma serve_inv_start: "serve_inv (serve_start p sa wa)"
  by (simp add: serve_inv_def serve_start_def ep_inv_start)

interpretation srv_own: ranked_system serve_own "\<lambda>s. serve_inv s \<and> serve_ending s" serve_rank serve_returned
  by unfold_locales (auto intro: serve_inv_own serve_ending_own serve_rank_own serve_progress)

interpretation srv_inv: invariant_system "\<lambda>s. \<exists>p sa wa. s = serve_start p sa wa" serve_step serve_inv
  by unfold_locales (auto intro: serve_inv_step serve_inv_start)

lemma serve_runs_bounded: "(serve_step ^^ k) s s' \<Longrightarrow> serve_inv s \<Longrightarrow> serve_inv s' \<and> k + serve_rank s' \<le> serve_rank s"
proof (induction k arbitrary: s')
  case (Suc k)
  then obtain u where u: "(serve_step ^^ k) s u" "serve_step u s'" by auto
  with Suc have "serve_inv u \<and> k + serve_rank u \<le> serve_rank s" by blast
  then show ?case using serve_inv_step [of u s'] serve_rank_step [of u s'] u(2) by fastforce
qed simp

lemma serve_runs_rank: "serve_step\<^sup>*\<^sup>* s s' \<Longrightarrow> serve_inv s \<Longrightarrow> serve_rank s' \<le> serve_rank s"
  by (auto dest!: rtranclp_imp_relpowp serve_runs_bounded)

lemma serve_rank_start: "serve_rank (serve_start isProxy sa wa) \<le> 14"
  using ep_rank_start(1) [of sa] ep_rank_start(2) [of wa] by (simp add: serve_rank_def serve_start_def)

text \<open>No failure is lost: what the server returned goes with the main goroutine to its end, and what
  an endpoint reports stays in its channel.\<close>

definition first_error :: "string option \<Rightarrow> string list \<Rightarrow> string list \<Rightarrow> string option" where
  "first_error r statsErrs webErrs =
     (case r of
        Some e \<Rightarrow> Some e
      | None \<Rightarrow> (case statsErrs @ webErrs of e # _ \<Rightarrow> Some e | [] \<Rightarrow> None))"

definition carries :: "string option \<Rightarrow> serve \<Rightarrow> bool" where
  "carries r s \<longleftrightarrow> sv_main s \<in> {SCancel r, SShutdown r, SStats r, SWeb r} \<or>
     sv_main s = SReturned (first_error r (ep_ch (sv_stats s)) (ep_ch (sv_web s)))"

lemma serve_result_first: "serve_result r a b = first_error r (ep_ch a) (ep_ch b)"
  by (simp add: serve_result_def first_error_def drainStatsErr_def split: option.splits list.splits)

lemma serve_ep_over:
  "serve_inv s \<Longrightarrow> \<not> ep_finished (sv_stats s) \<or> \<not> ep_finished (sv_web s) \<Longrightarrow> sv_main s \<noteq> SReturned r"
  by (auto simp: serve_inv_def)

lemma carries_own:
  assumes "serve_inv s" "carries r s" "serve_own s s'"
  shows "carries r s'"
  using assms(3)
proof (cases rule: serve_own.cases)
  case (sv_statsStep c ep)
  have "\<not> ep_finished (sv_stats s)" by (rule ep_step_facts(4) [OF sv_statsStep(2) serve_inv_eps(1) [OF assms(1)]])
  then show ?thesis using serve_ep_over [OF assms(1)] assms(2) unfolding sv_statsStep(1) by (auto simp: carries_def)
next
  case (sv_webStep c ep)
  have "\<not> ep_finished (sv_web s)" by (rule ep_step_facts(4) [OF sv_webStep(2) serve_inv_eps(2) [OF assms(1)]])
  then show ?thesis using serve_ep_over [OF assms(1)] assms(2) unfolding sv_webStep(1) by (auto simp: carries_def)
qed (use assms(2) in \<open>auto simp: carries_def serve_result_first\<close>)

lemma carries_step:
  assumes "serve_inv s" "carries r s" "serve_step s s'"
  shows "carries r s'"
  using assms(3)
proof (cases rule: serve_step.cases)
  case (sv_statsFail ep)
  have "\<not> ep_finished (sv_stats s)" by (rule ep_fails_facts(3) [OF sv_statsFail(2) serve_inv_eps(1) [OF assms(1)]])
  then show ?thesis using serve_ep_over [OF assms(1)] assms(2) unfolding sv_statsFail(1) by (auto simp: carries_def)
next
  case (sv_webFail ep)
  have "\<not> ep_finished (sv_web s)" by (rule ep_fails_facts(3) [OF sv_webFail(2) serve_inv_eps(2) [OF assms(1)]])
  then show ?thesis using serve_ep_over [OF assms(1)] assms(2) unfolding sv_webFail(1) by (auto simp: carries_def)
qed (use assms carries_own in \<open>auto simp: carries_def\<close>)

lemma reports_own:
  assumes "serve_inv s" "serve_own s s'"
  shows "(ep_reports e (sv_stats s) \<longrightarrow> ep_reports e (sv_stats s')) \<and> (ep_reports e (sv_web s) \<longrightarrow> ep_reports e (sv_web s'))"
  using assms(2)
proof (cases rule: serve_own.cases)
  case (sv_statsStep c ep)
  then show ?thesis using ep_step_facts(5) [OF sv_statsStep(2) serve_inv_eps(1) [OF assms(1)]] by simp
next
  case (sv_webStep c ep)
  then show ?thesis using ep_step_facts(5) [OF sv_webStep(2) serve_inv_eps(2) [OF assms(1)]] by simp
qed simp_all

lemma reports_step:
  assumes "serve_inv s" "serve_step s s'"
  shows "(ep_reports e (sv_stats s) \<longrightarrow> ep_reports e (sv_stats s')) \<and> (ep_reports e (sv_web s) \<longrightarrow> ep_reports e (sv_web s'))"
  using assms(2)
proof (cases rule: serve_step.cases)
  case sv_own
  then show ?thesis using reports_own [OF assms(1)] by blast
next
  case (sv_statsFail ep)
  then show ?thesis using ep_fails_facts(4) [OF sv_statsFail(2) serve_inv_eps(1) [OF assms(1)]] by simp
next
  case (sv_webFail ep)
  then show ?thesis using ep_fails_facts(4) [OF sv_webFail(2) serve_inv_eps(2) [OF assms(1)]] by simp
qed simp_all

lemma serve_keeps:
  assumes "serve_step\<^sup>*\<^sup>* s t" "serve_inv s"
  shows "serve_inv t" "carries r s \<Longrightarrow> carries r t" "ep_reports e (sv_stats s) \<Longrightarrow> ep_reports e (sv_stats t)"
    "ep_reports e (sv_web s) \<Longrightarrow> ep_reports e (sv_web t)"
proof -
  have "serve_inv t \<and> (carries r s \<longrightarrow> carries r t) \<and> (ep_reports e (sv_stats s) \<longrightarrow> ep_reports e (sv_stats t)) \<and>
      (ep_reports e (sv_web s) \<longrightarrow> ep_reports e (sv_web t))"
    using assms(1)
  proof (induction rule: rtranclp_induct)
    case (step u v)
    then show ?case using serve_inv_step carries_step reports_step by blast
  qed (simp add: assms(2))
  then show "serve_inv t" "carries r s \<Longrightarrow> carries r t" "ep_reports e (sv_stats s) \<Longrightarrow> ep_reports e (sv_stats t)"
    "ep_reports e (sv_web s) \<Longrightarrow> ep_reports e (sv_web t)" by blast+
qed

lemma ep_reported: "ep_reports e ep \<Longrightarrow> ep_finished ep \<Longrightarrow> ep_ch ep = [e]"
  by (auto simp: ep_reports_def ep_finished_def)

text \<open>C16: A command with one server leaves nothing behind and loses no failure.  It makes at most 14
  steps.  As soon as the context is done, or the server or an endpoint has failed, its own steps lead
  to the return, in any order and with nothing more from outside.  The shutdown never begins before
  the context is done; when the command returns, the context is done, the proxy's shutdown has
  finished and both endpoints have finished.  The result is the error the server returned with; if
  it returned without one, the error of the statistics endpoint, else of the web endpoint, else
  none; and an error with which an endpoint came back is in its channel when the command returns.\<close>
theorem server_returns_after_everything:
  "(\<forall>k s. (serve_step ^^ k) (serve_start isProxy sa wa) s \<longrightarrow> k \<le> 14) \<and>
   (\<forall>s. serve_step\<^sup>*\<^sup>* (serve_start isProxy sa wa) s \<longrightarrow>
      (serve_ending s \<longrightarrow>
         (\<forall>k t. (serve_own ^^ k) s t \<longrightarrow> k \<le> 14 \<and> ((\<exists>u. serve_own t u) \<or> serve_returned t)) \<and>
         (\<exists>t. serve_own\<^sup>*\<^sup>* s t \<and> serve_returned t)) \<and>
      (sv_shutdown s \<in> {ShRunning, ShDone} \<longrightarrow> sv_cancelled s) \<and>
      (\<forall>t out. serve_step\<^sup>*\<^sup>* s t \<and> sv_main t = SReturned out \<longrightarrow>
         sv_cancelled t \<and> sv_shutdown t \<in> {ShNone, ShDone} \<and> ep_finished (sv_stats t) \<and> ep_finished (sv_web t) \<and>
         (\<forall>r. sv_main s = SCancel r \<longrightarrow> out = first_error r (ep_ch (sv_stats t)) (ep_ch (sv_web t))) \<and>
         (\<forall>e. ep_stage (sv_stats s) = EpFailed e \<longrightarrow> ep_ch (sv_stats t) = [e]) \<and>
         (\<forall>e. ep_stage (sv_web s) = EpFailed e \<longrightarrow> ep_ch (sv_web t) = [e])))"
proof (intro conjI allI impI)
  fix k s assume "(serve_step ^^ k) (serve_start isProxy sa wa) s"
  from serve_runs_bounded [OF this serve_inv_start] show "k \<le> 14" using serve_rank_start [of isProxy sa wa] by simp
next
  fix s assume r: "serve_step\<^sup>*\<^sup>* (serve_start isProxy sa wa) s"
  have s: "serve_inv s" by (rule srv_inv.inv_steps [OF serve_inv_start r])
  have rank: "serve_rank s \<le> 14"
    using serve_runs_rank [OF r serve_inv_start] serve_rank_start [of isProxy sa wa] by simp
  show "\<exists>t. serve_own\<^sup>*\<^sup>* s t \<and> serve_returned t" if "serve_ending s" using srv_own.can_finish s that by blast
  show "k \<le> 14" "(\<exists>u. serve_own t u) \<or> serve_returned t" if "serve_ending s" "(serve_own ^^ k) s t" for k t
    using srv_own.run_bound [OF that(2)] serve_progress [of t] s that(1) rank by auto
  show "sv_shutdown s \<in> {ShRunning, ShDone} \<Longrightarrow> sv_cancelled s" using s by (simp add: serve_inv_def)
  fix t out assume "serve_step\<^sup>*\<^sup>* s t \<and> sv_main t = SReturned out"
  then have run: "serve_step\<^sup>*\<^sup>* s t" and out: "sv_main t = SReturned out" by simp_all
  note k = serve_keeps [OF run s]
  show fin: "sv_cancelled t" "sv_shutdown t \<in> {ShNone, ShDone}" "ep_finished (sv_stats t)" "ep_finished (sv_web t)"
    using k(1) out by (simp_all add: serve_inv_def)
  show "out = first_error r (ep_ch (sv_stats t)) (ep_ch (sv_web t))" if "sv_main s = SCancel r" for r
    using k(2) [of r] that out by (simp add: carries_def)
  have ch: "ep_ch (sv_stats s) = []" if "ep_stage (sv_stats s) = EpFailed e" for e
    using serve_inv_eps(1) [OF s] that by (auto simp: ep_inv_def)
  have cw: "ep_ch (sv_web s) = []" if "ep_stage (sv_web s) = EpFailed e" for e
    using serve_inv_eps(2) [OF s] that by (auto simp: ep_inv_def)
  show "ep_ch (sv_stats t) = [e]" if "ep_stage (sv_stats s) = EpFailed e" for e
    by (rule ep_reported [OF k(3) fin(3)]) (simp add: ep_reports_def that ch [OF that])
  show "ep_ch (sv_web t) = [e]" if "ep_stage (sv_web s) = EpFailed e" for e
    by (rule ep_reported [OF k(4) fin(4)]) (simp add: ep_reports_def that cw [OF that])
qed

text \<open>The witness: a proxy fails with an error while serving.\<close>

lemma server_returns_after_everything_witness:
  "\<exists>s :: serve. sv_main s = SReturned (Some ''bind'') \<and> ep_finished (sv_stats s)"
proof -
  let ?a = "serve_start True '':9'' []" and ?b = "(serve_start True '':9'' [])\<lparr>sv_main := SCancel (Some ''bind'')\<rparr>"
  have "serve_step ?a ?b" by (rule sv_fail) (simp add: serve_start_def)
  then have run: "serve_step\<^sup>*\<^sup>* ?a ?b" by (rule r_into_rtranclp [of serve_step])
  note w = server_returns_after_everything [of True "'':9''" "[]", THEN conjunct2, THEN spec, THEN mp, OF run]
  have "serve_ending ?b" by (simp add: serve_ending_def)
  then obtain t out where t: "serve_own\<^sup>*\<^sup>* ?b t" "sv_main t = SReturned out"
    using w unfolding serve_returned_def by blast
  have "serve_step\<^sup>*\<^sup>* ?b t" using t(1) by (rule rtranclp_mono [THEN predicate2D, rotated]) (auto intro: sv_own)
  with w t(2) have "out = first_error (Some ''bind'') (ep_ch (sv_stats t)) (ep_ch (sv_web t))" "ep_finished (sv_stats t)"
    by simp_all
  then show ?thesis using t(2) by (auto simp: first_error_def)
qed

end
