(* ===== verification/Cli_Servers.thy ===== *)
theory Cli_Servers
  imports Cli_Multi Cli_Run Proxy_Server
begin

text \<open>
  The servers that the command line builds, main.go: the proxy server of an instance
  (\<open>newProxyServer\<close>) and the start of the processes a plan describes, and what their
  configuration inherits from the validation of the options.
\<close>

text \<open>The address and the server; \<open>now\<close> and \<open>nid\<close> initialise its statistics.\<close>

definition newProxyServer :: "int \<Rightarrow> i64 \<Rightarrow> proxyOptions \<Rightarrow> UpstreamConfig option \<Rightarrow> string \<times> px_state" where
  "newProxyServer now nid opt upstream =
     (p_addr opt,
      (proxy_New now nid)
        \<lparr>px_cfg := \<lparr>pc_DialTimeout = p_dialTimeout opt, pc_MaxConns = p_maxConns opt,
                   pc_HandshakeTimeout = p_handshakeTimeout opt, pc_IdleTimeout = p_idleTimeout opt,
                   pc_AllowPublic = p_allowPublic opt,
                   pc_Upstream = map_option upstream_describe upstream\<rparr>\<rparr>)"
text \<open>The goroutines a plan starts: \<open>runGo\<close> with its endpoints, and the instances of
  \<open>runProxyMulti\<close> with the shared ones; the endpoints of each instance are switched off.\<close>

definition runGo_start :: "options \<Rightarrow> serve" where
  "runGo_start opt = serve_start False (o_statsAddr opt) (o_webAddr opt)"

definition runGo_result :: "string option \<Rightarrow> endpoint \<Rightarrow> endpoint \<Rightarrow> string option" where
  "runGo_result serveErr stats web =
     (if serveErr \<noteq> None then serveErr
      else if drainStatsErr stats \<noteq> None then drainStatsErr stats
      else if drainStatsErr web \<noteq> None then drainStatsErr web
      else None)"

definition runProxyMulti_group :: "(proxyOptions \<times> UpstreamConfig option) list \<Rightarrow> proxyAdminOptions \<Rightarrow> group" where
  "runProxyMulti_group instances admin =
     startForwardInstances (length instances) (pa_statsAddr admin) (pa_webAddr admin)"

text \<open>\<open>runProxyMulti\<close> reads the channel of its instances once; it is closed, so an empty one gives nil.\<close>

definition runProxyMulti_result :: "(nat \<times> string) list \<Rightarrow> endpoint \<Rightarrow> endpoint \<Rightarrow> string option" where
  "runProxyMulti_result errCh stats web =
     (case errCh of
        (_, e) # _ \<Rightarrow> Some e
      | [] \<Rightarrow> if drainStatsErr stats \<noteq> None then drainStatsErr stats
              else if drainStatsErr web \<noteq> None then drainStatsErr web
              else None)"

definition proxy_instance_start :: serve where
  "proxy_instance_start = serve_start True [] []"

lemma proxy_instance_no_endpoints:
  "ep_finished (sv_stats proxy_instance_start)" "ep_finished (sv_web proxy_instance_start)"
  by (simp_all add: proxy_instance_start_def serve_start_def startStatsEndpoint_def startWebEndpoint_def ep_finished_def)

text \<open>Both results are those of the state machines of \<open>Cli_Run\<close>.\<close>

lemma runGo_result_serve: "runGo_result = serve_result"
  by (auto simp: fun_eq_iff runGo_result_def serve_result_def split: option.splits)

lemma runProxyMulti_result_group: "runProxyMulti_result (gr_errCh g) (gr_stats g) (gr_web g) = group_result g"
  by (auto simp: runProxyMulti_result_def group_result_def split: list.splits option.splits)

text \<open>A server on the address a listener was bound to, with the upstream's dialer ready.\<close>

lemma newProxyServer_initial: "snd (newProxyServer now nid opt u) =
    px_initial \<lparr>pc_DialTimeout = p_dialTimeout opt, pc_MaxConns = p_maxConns opt,
      pc_HandshakeTimeout = p_handshakeTimeout opt, pc_IdleTimeout = p_idleTimeout opt,
      pc_AllowPublic = p_allowPublic opt, pc_Upstream = map_option upstream_describe u\<rparr> now nid"
  by (simp add: newProxyServer_def px_initial_def)

lemma validateProxy_None:
  "validateProxyOptions opt = None \<longleftrightarrow>
     TrimSpace (p_addr opt) \<noteq> [] \<and> 0 \<le> sint (p_dialTimeout opt) \<and> 0 \<le> p_maxConns opt \<and>
     0 \<le> sint (p_handshakeTimeout opt) \<and> 0 \<le> sint (p_idleTimeout opt)"
  by (auto simp: validateProxyOptions_def not_less)

definition plan_forwards :: "cli_plan \<Rightarrow> fwd_Config list" where
  "plan_forwards plan =
     (case plan of PlanGo opt c \<Rightarrow> [c] | PlanForwards ig opts cs admin \<Rightarrow> cs | _ \<Rightarrow> [])"

definition plan_proxies :: "cli_plan \<Rightarrow> (proxyOptions \<times> UpstreamConfig option) list" where
  "plan_proxies plan =
     (case plan of PlanProxy opt u \<Rightarrow> [(opt, u)] | PlanProxies ps admin \<Rightarrow> ps | _ \<Rightarrow> [])"

definition plan_socats :: "cli_plan \<Rightarrow> socat_Options list" where
  "plan_socats plan = (case plan of PlanSocat opt ig so \<Rightarrow> [so] | _ \<Rightarrow> [])"

lemma proto_not_blank: "TrimSpace ''tcp'' \<noteq> []" "TrimSpace ''udp'' \<noteq> []"
  by code_simp+

lemma forward_config_valid:
  assumes "forward_valid opt"
  shows "let c = fs_cfg (forward_New now (forward_config ev opt)) in
     fc_Network c \<in> {''tcp'', ''udp''} \<and> TrimSpace (fc_Target c) \<noteq> [] \<and> 0 < sint (fc_DialTimeout c) \<and> 0 \<le> fc_MaxConns c \<and> 0 \<le> sint (fc_IdleTimeout c)"
proof -
  have n: "TrimSpace (o_proto opt) \<noteq> []" "o_proto opt \<in> {''tcp'', ''udp''}"
    using assms proto_not_blank by (auto simp: forward_valid_def)
  have "o_dialTimeout opt \<noteq> 0 \<Longrightarrow> sint (o_dialTimeout opt) \<noteq> 0"
    by (metis signed_0 signed_word_eqI)
  then have d: "o_dialTimeout opt \<noteq> 0 \<Longrightarrow> 0 < sint (o_dialTimeout opt)"
    using assms unfolding forward_valid_def by linarith
  have s: "0 < sint (10000000000 :: i64)" by simp
  show ?thesis
    using assms n d s by (simp add: forward_New_def forward_config_def Let_def forward_valid_def)
qed

lemma multi_forwards_valid:
  "fst (runForwardMulti base cfg S st) = PlanForwards ig opts cs admin \<Longrightarrow> c \<in> set cs \<Longrightarrow>
     \<exists>ev opt. c = forward_config ev opt \<and> forward_valid opt"
  by (auto simp: runForwardMulti_def startForwardInstances_plan_def Let_def split: sum.splits dest!: build_forward_facts)
    blast+

definition no_servers :: "cli_plan \<Rightarrow> bool" where
  "no_servers plan \<longleftrightarrow> plan_forwards plan = [] \<and> plan_proxies plan = [] \<and> plan_socats plan = []"

lemma no_servers_simps [simp]:
  "no_servers PlanHelp" "no_servers PlanUsage" "no_servers PlanVersion" "no_servers (PlanErr e)"
  by (simp_all add: no_servers_def plan_forwards_def plan_proxies_def plan_socats_def)

text \<open>The options of the forwarder are valid for socat too.\<close>

lemma socat_options_valid:
  assumes "forward_valid opt"
  shows "\<exists>args. socat_Args (socat_options opt) = Inr args"
proof -
  have n: "ToLower (TrimSpace ''tcp'') = ''tcp''" "ToLower (TrimSpace ''udp'') = ''udp''" by code_simp+
  have "o_proto opt = ''tcp'' \<or> o_proto opt = ''udp''" using assms by (auto simp: forward_valid_def)
  then have "socat_proto (socat_options opt) = Inr (o_proto opt)"
    by (elim disjE) (simp_all add: socat_proto_def socat_options_def n)
  then show ?thesis using assms by (simp add: socat_Args_def socat_options_def forward_valid_def Let_def)
qed

lemma runForward_cases:
  "(\<exists>base cfg S st'. runForward env argv st = runForwardMulti base cfg S st') \<or>
   (\<exists>o1 opt S. validateForwardOptions o1 = Inr opt \<and> fst (runForward env argv st) = forward_mode_plan opt S) \<or>
   no_servers (fst (runForward env argv st))"
proof (cases "flag_parse forward_flags argv forward_flag_defaults {}")
  case (Inl e)
  then show ?thesis by (simp add: runForward_def)
next
  case (Inr r)
  obtain opt S rest where r: "r = (opt, S, rest)" by (cases r)
  obtain l st1 where l: "loadCommandConfig env (o_configPath opt) (''lang'' \<in> S) ''forward'' st = (l, st1)" by force
  show ?thesis
  proof (cases "argv = [] \<or> o_showVersion opt")
    case True
    then show ?thesis using Inr r by (auto simp: runForward_def)
  next
    case False
    show ?thesis
    proof (cases l)
      case (Inl e)
      then show ?thesis using Inr r l False by (simp add: runForward_def)
    next
      case top: (Inr topCfg)
      show ?thesis
      proof (cases "topCfg \<noteq> None \<and> 1 < length (cf_Forward (the topCfg))")
        case True
        then have "runForward env argv st = runForwardMulti opt (the topCfg) S st1"
          using Inr r l False top by (simp add: runForward_def)
        then show ?thesis by blast
      next
        case nm: False
        have "fst (runForward env argv st) =
           (case merge_forward opt topCfg S of Inl e \<Rightarrow> PlanErr e
            | Inr o1 \<Rightarrow> (case validateForwardOptions o1 of Inl e \<Rightarrow> PlanErr (CliOption e) | Inr o2 \<Rightarrow> forward_mode_plan o2 S))"
          using False nm unfolding runForward_def Inr r l top
          by (simp add: l top split: sum.split del: not_None_eq One_nat_def) blast
        then show ?thesis by (cases "merge_forward opt topCfg S"; cases "validateForwardOptions (projr (merge_forward opt topCfg S))") auto
      qed
    qed
  qed
qed

lemma runProxy_cases:
  "(\<exists>base cfg S st'. runProxy env argv st = runProxyMulti env base cfg S st') \<or>
   (\<exists>o1 u. validateProxyOptions o1 = None \<and> fst (runProxy env argv st) = PlanProxy (resolveIdentityPassphrase env o1) u) \<or>
   no_servers (fst (runProxy env argv st))"
proof (cases "flag_parse proxy_flags argv proxy_flag_defaults {}")
  case (Inl e)
  then show ?thesis by (simp add: runProxy_def)
next
  case (Inr r)
  obtain opt S rest where r: "r = (opt, S, rest)" by (cases r)
  obtain l st1 where l: "loadCommandConfig env (p_configPath opt) (''lang'' \<in> S) ''proxy'' st = (l, st1)" by force
  show ?thesis
  proof (cases "p_showVersion opt")
    case True
    then show ?thesis using Inr r by (simp add: runProxy_def)
  next
    case False
    show ?thesis
    proof (cases l)
      case (Inl e)
      then show ?thesis using Inr r l False by (simp add: runProxy_def)
    next
      case top: (Inr topCfg)
      show ?thesis
      proof (cases "topCfg \<noteq> None \<and> 1 < length (cf_Proxy (the topCfg))")
        case True
        then have "runProxy env argv st = runProxyMulti env opt (the topCfg) S st1"
          using Inr r l False top by (simp add: runProxy_def)
        then show ?thesis by blast
      next
        case nm: False
        have "fst (runProxy env argv st) =
           (case mergeProxyConfig opt topCfg S of Inl e \<Rightarrow> PlanErr (CliConfig e)
            | Inr o1 \<Rightarrow> (case validateProxyOptions o1 of Some e \<Rightarrow> PlanErr (CliOption e)
               | None \<Rightarrow> (case buildProxyUpstream env (resolveIdentityPassphrase env o1) of Inl e \<Rightarrow> PlanErr e
                  | Inr u \<Rightarrow> PlanProxy (resolveIdentityPassphrase env o1) u)))"
          using False nm unfolding runProxy_def Inr r
          by (simp add: l top Let_def split: sum.split option.split del: not_None_eq One_nat_def) blast
        then show ?thesis by (auto split: sum.splits option.splits)
      qed
    qed
  qed
qed

lemma mode_plan_servers:
  "c \<in> set (plan_forwards (forward_mode_plan opt S)) \<Longrightarrow> \<exists>ev. c = forward_config ev opt"
  "plan_proxies (forward_mode_plan opt S) = []"
  "so \<in> set (plan_socats (forward_mode_plan opt S)) \<Longrightarrow> so = socat_options opt"
  by (auto simp: forward_mode_plan_def plan_forwards_def plan_proxies_def plan_socats_def split: if_splits)

lemma multi_plan_servers:
  "c \<in> set (plan_forwards (fst (runForwardMulti base cfg S st))) \<Longrightarrow> \<exists>ev opt. c = forward_config ev opt \<and> forward_valid opt"
  "plan_proxies (fst (runForwardMulti base cfg S st)) = []"
  "plan_forwards (fst (runProxyMulti env pb cfg S st)) = []"
  "plan_socats (fst (runForwardMulti base cfg S st)) = []" "plan_socats (fst (runProxyMulti env pb cfg S st)) = []"
  "p \<in> set (plan_proxies (fst (runProxyMulti env pb cfg S st))) \<Longrightarrow> validateProxyOptions (fst p) = None"
proof -
  show "c \<in> set (plan_forwards (fst (runForwardMulti base cfg S st))) \<Longrightarrow> \<exists>ev opt. c = forward_config ev opt \<and> forward_valid opt"
    using multi_plan [of base cfg S st] multi_forwards_valid [of base cfg S st _ _ _ _ c]
    by (fastforce simp: plan_forwards_def)
  show "plan_proxies (fst (runForwardMulti base cfg S st)) = []"
    using multi_plan [of base cfg S st] by (auto simp: plan_proxies_def)
  show "plan_socats (fst (runForwardMulti base cfg S st)) = []"
    using multi_plan [of base cfg S st] by (auto simp: plan_socats_def)
  show "plan_socats (fst (runProxyMulti env pb cfg S st)) = []"
    using proxy_multi_starts [OF refl, of env pb cfg S st] by (auto simp: plan_socats_def)
  show "plan_forwards (fst (runProxyMulti env pb cfg S st)) = []"
    using proxy_multi_starts [OF refl, of env pb cfg S st] by (auto simp: plan_forwards_def)
  show "p \<in> set (plan_proxies (fst (runProxyMulti env pb cfg S st))) \<Longrightarrow> validateProxyOptions (fst p) = None"
    by (auto simp: runProxyMulti_def buildProxyInstances_def plan_proxies_def Let_def split: sum.splits dest!: build_proxy_facts)
qed

lemma runForward_valid:
  assumes "c \<in> set (plan_forwards (fst (runForward env argv st)))"
  shows "\<exists>ev opt. c = forward_config ev opt \<and> forward_valid opt"
  using runForward_cases [of env argv st]
proof (elim disjE exE conjE)
  fix base cfg S st' assume "runForward env argv st = runForwardMulti base cfg S st'"
  then show ?thesis using assms multi_plan_servers(1) by simp
next
  fix o1 opt S assume "validateForwardOptions o1 = Inr opt" "fst (runForward env argv st) = forward_mode_plan opt S"
  then show ?thesis using assms mode_plan_servers(1) validate_Inr by metis
qed (use assms in \<open>simp add: no_servers_def\<close>)

lemma runForward_socat_valid:
  assumes "so \<in> set (plan_socats (fst (runForward env argv st)))"
  shows "\<exists>opt. so = socat_options opt \<and> forward_valid opt"
  using runForward_cases [of env argv st]
proof (elim disjE exE conjE)
  fix base cfg S st' assume "runForward env argv st = runForwardMulti base cfg S st'"
  then show ?thesis using assms multi_plan_servers(4) by simp
next
  fix o1 opt S assume "validateForwardOptions o1 = Inr opt" "fst (runForward env argv st) = forward_mode_plan opt S"
  then show ?thesis using assms mode_plan_servers(3) validate_Inr by metis
qed (use assms in \<open>simp add: no_servers_def\<close>)

lemma runProxy_valid:
  assumes "p \<in> set (plan_proxies (fst (runProxy env argv st)))"
  shows "validateProxyOptions (fst p) = None"
  using runProxy_cases [of env argv st]
proof (elim disjE exE conjE)
  fix base cfg S st' assume "runProxy env argv st = runProxyMulti env base cfg S st'"
  then show ?thesis using assms multi_plan_servers(6) by simp
next
  fix o1 u assume v: "validateProxyOptions o1 = None" "fst (runProxy env argv st) = PlanProxy (resolveIdentityPassphrase env o1) u"
  have "validateProxyOptions (resolveIdentityPassphrase env o1) = validateProxyOptions o1"
    by (simp add: resolveIdentityPassphrase_def validateProxyOptions_def Let_def split: option.splits)
  then show ?thesis using assms v by (simp add: plan_proxies_def)
qed (use assms in \<open>simp add: no_servers_def\<close>)

lemma runForward_no_proxies: "plan_proxies (fst (runForward env argv st)) = []"
  using runForward_cases [of env argv st] multi_plan_servers(2) mode_plan_servers(2) by (force simp: no_servers_def)

lemma runProxy_no_forwards: "plan_forwards (fst (runProxy env argv st)) = []"
  using runProxy_cases [of env argv st] multi_plan_servers(3) by (force simp: no_servers_def plan_forwards_def)

lemma runProxy_no_socats: "plan_socats (fst (runProxy env argv st)) = []"
  using runProxy_cases [of env argv st] multi_plan_servers(5) by (force simp: no_servers_def plan_socats_def)

lemma cli_run_servers:
  "c \<in> set (plan_forwards (fst (cli_run env argv st))) \<Longrightarrow> \<exists>rest st0. c \<in> set (plan_forwards (fst (runForward env rest st0)))"
  "p \<in> set (plan_proxies (fst (cli_run env argv st))) \<Longrightarrow> \<exists>rest st0. p \<in> set (plan_proxies (fst (runProxy env rest st0)))"
  "so \<in> set (plan_socats (fst (cli_run env argv st))) \<Longrightarrow> \<exists>rest st0. so \<in> set (plan_socats (fst (runForward env rest st0)))"
proof -
  obtain sub rest where sp: "splitSubcommand argv = (sub, rest)" by force
  define st0 where "st0 = (if preScanLang argv \<noteq> [] then set_lang_code (preScanLang argv) st else st)"
  have run: "cli_run env argv st = runForward env rest st0 \<or> cli_run env argv st = runProxy env rest st0 \<or>
      no_servers (fst (cli_run env argv st))"
    by (simp add: cli_run_def sp st0_def Let_def)
  show "c \<in> set (plan_forwards (fst (cli_run env argv st))) \<Longrightarrow> \<exists>rest st0. c \<in> set (plan_forwards (fst (runForward env rest st0)))"
    using run runProxy_no_forwards unfolding no_servers_def by (metis empty_iff empty_set)
  show "p \<in> set (plan_proxies (fst (cli_run env argv st))) \<Longrightarrow> \<exists>rest st0. p \<in> set (plan_proxies (fst (runProxy env rest st0)))"
    using run runForward_no_proxies unfolding no_servers_def by (metis empty_iff empty_set)
  show "so \<in> set (plan_socats (fst (cli_run env argv st))) \<Longrightarrow> \<exists>rest st0. so \<in> set (plan_socats (fst (runForward env rest st0)))"
    using run runProxy_no_socats unfolding no_servers_def by (metis empty_iff empty_set)
qed

text \<open>C20: Every forwarder, every proxy and every socat that the command line starts, whether from flags
  or from a file, alone or among several, is built on sane options.  A forwarder: the network is one
  that \<open>ListenAndServe\<close> serves, the target is not blank, the dial timeout is positive, the idle
  timeout and the limit are not negative.  A proxy: its address is not blank, neither the dial, the
  handshake and the idle timeout nor the limit is negative, and it accepts a listener that is not on
  the loopback only if the options of its instance allow it.  A socat: port, target and protocol are
  ones for which its arguments exist.\<close>
theorem started_servers_have_valid_options:
  "(\<forall>c\<in>set (plan_forwards (fst (cli_run env argv st))).
      let f = fs_cfg (forward_New now c) in
      fwd_ListenAndServe f tcpErr udpErr = (if fc_Network f = ''tcp'' then tcpErr else udpErr) \<and>
      TrimSpace (fc_Target f) \<noteq> [] \<and>
      0 < sint (fc_DialTimeout f) \<and> 0 \<le> fc_MaxConns f \<and> 0 \<le> sint (fc_IdleTimeout f)) \<and>
   (\<forall>p\<in>set (plan_proxies (fst (cli_run env argv st))).
      let (addr, s) = newProxyServer now nid (fst p) (snd p) in
      TrimSpace addr \<noteq> [] \<and> 0 \<le> sint (pc_DialTimeout (px_cfg s)) \<and>
      0 \<le> pc_MaxConns (px_cfg s) \<and> 0 \<le> sint (pc_HandshakeTimeout (px_cfg s)) \<and> 0 \<le> sint (pc_IdleTimeout (px_cfg s)) \<and>
      (\<forall>addr. fst (ListenAndServe_bind (Inr addr) s) = None \<longrightarrow> isLoopbackListener addr \<or> p_allowPublic (fst p))) \<and>
   (\<forall>so\<in>set (plan_socats (fst (cli_run env argv st))).
      0 < so_ListenPort so \<and> so_ListenPort so \<le> 65535 \<and> TrimSpace (so_Target so) \<noteq> [] \<and>
      so_Proto so \<in> {''tcp'', ''udp''} \<and> (\<exists>args. socat_Args so = Inr args))"
proof (intro conjI ballI)
  fix c assume "c \<in> set (plan_forwards (fst (cli_run env argv st)))"
  then obtain ev opt where "c = forward_config ev opt" "forward_valid opt" using cli_run_servers(1) runForward_valid by blast
  then show "let f = fs_cfg (forward_New now c) in
      fwd_ListenAndServe f tcpErr udpErr = (if fc_Network f = ''tcp'' then tcpErr else udpErr) \<and>
      TrimSpace (fc_Target f) \<noteq> [] \<and>
      0 < sint (fc_DialTimeout f) \<and> 0 \<le> fc_MaxConns f \<and> 0 \<le> sint (fc_IdleTimeout f)"
    using forward_config_valid [of opt now ev] by (auto simp: Let_def fwd_ListenAndServe_def)
next
  fix p assume "p \<in> set (plan_proxies (fst (cli_run env argv st)))"
  then have v: "validateProxyOptions (fst p) = None" using cli_run_servers(2) runProxy_valid by blast
  have "\<forall>addr. fst (ListenAndServe_bind (Inr addr) (snd (newProxyServer now nid (fst p) (snd p)))) = None \<longrightarrow>
      isLoopbackListener addr \<or> p_allowPublic (fst p)"
    by (auto simp: ListenAndServe_bind_def newProxyServer_def)
  then show "let (addr, s) = newProxyServer now nid (fst p) (snd p) in
      TrimSpace addr \<noteq> [] \<and> 0 \<le> sint (pc_DialTimeout (px_cfg s)) \<and>
      0 \<le> pc_MaxConns (px_cfg s) \<and> 0 \<le> sint (pc_HandshakeTimeout (px_cfg s)) \<and> 0 \<le> sint (pc_IdleTimeout (px_cfg s)) \<and>
      (\<forall>addr. fst (ListenAndServe_bind (Inr addr) s) = None \<longrightarrow> isLoopbackListener addr \<or> p_allowPublic (fst p))"
    using v unfolding validateProxy_None by (simp add: newProxyServer_def Let_def)
next
  fix so assume "so \<in> set (plan_socats (fst (cli_run env argv st)))"
  then obtain opt where o: "so = socat_options opt" and v: "forward_valid opt"
    using cli_run_servers(3) runForward_socat_valid by blast
  show "0 < so_ListenPort so" "so_ListenPort so \<le> 65535" "TrimSpace (so_Target so) \<noteq> []" "so_Proto so \<in> {''tcp'', ''udp''}"
    using v by (simp_all add: o socat_options_def forward_valid_def)
  show "\<exists>args. socat_Args so = Inr args" using socat_options_valid [OF v] by (simp add: o)
qed

lemma started_servers_have_valid_options_witness:
  "fwd_ListenAndServe (fs_cfg (forward_New 0 (forward_config None defaultForwardOptions))) None (Some (UnsupportedNet [])) = None"
proof -
  have r: "cli_run sample_env [''bogus''] lang0 = (PlanGo defaultForwardOptions (forward_config None defaultForwardOptions), lang0)"
    by code_simp
  have c: "forward_config None defaultForwardOptions \<in> set (plan_forwards (fst (cli_run sample_env [''bogus''] lang0)))"
    by (simp only: r plan_forwards_def) simp
  have n: "fc_Network (fs_cfg (forward_New 0 (forward_config None defaultForwardOptions))) = ''tcp''" by code_simp
  from started_servers_have_valid_options [THEN conjunct1, THEN bspec, OF c, of 0 None "Some (UnsupportedNet [])"]
  show ?thesis by (simp add: Let_def n)
qed

end
