(* ===== verification/Load_Options.thy ===== *)
theory Load_Options
  imports Go_Flags Complex_Main
begin

text \<open>
  The command line of the load test, cmd/loadtest/main.go: \<open>parseFlags\<close>, \<open>validateLoadOptions\<close>,
  \<open>validateLoadLimits\<close>, \<open>latencySampleLimit\<close> and \<open>runCLI\<close>.  A \<open>float64\<close> is an exact rational number,
  an infinity or not a number; \<open>strconv.ParseFloat\<close> is modelled without the rounding.
\<close>

section \<open>Floating point flags\<close>

datatype gofloat = Fin rat | PosInf | NegInf | NaN

text \<open>The mantissa: digits of the base with at most one point, underscores skipped.  The result is
  the digits as a number, how many of them follow the point, whether there are any, whether an
  underscore was seen, and the rest.\<close>

fun scan_mantissa :: "int \<Rightarrow> int \<Rightarrow> nat \<Rightarrow> bool \<Rightarrow> bool \<Rightarrow> bool \<Rightarrow> string \<Rightarrow> int \<times> nat \<times> bool \<times> bool \<times> string" where
  "scan_mantissa base acc fdigits dot digits us [] = (acc, fdigits, digits, us, [])"
| "scan_mantissa base acc fdigits dot digits us (c # cs) =
     (if c = CHR ''_'' then scan_mantissa base acc fdigits dot digits True cs
      else if c = CHR ''.'' then
        (if dot then (acc, fdigits, digits, us, c # cs) else scan_mantissa base acc fdigits True digits us cs)
      else (case base_digit c of
              Some d \<Rightarrow>
                if d < base then scan_mantissa base (acc * base + d) (if dot then Suc fdigits else fdigits) dot True us cs
                else (acc, fdigits, digits, us, c # cs)
            | None \<Rightarrow> (acc, fdigits, digits, us, c # cs)))"

fun scan_exponent :: "int \<Rightarrow> bool \<Rightarrow> string \<Rightarrow> int \<times> bool \<times> string" where
  "scan_exponent e us [] = (e, us, [])"
| "scan_exponent e us (c # cs) =
     (if c = CHR ''_'' then scan_exponent e True cs
      else if is_digit c then scan_exponent (if e < 10000 then e * 10 + digit_value c else e) us cs
      else (e, us, c # cs))"

definition drop_sign :: "string \<Rightarrow> string" where
  "drop_sign s = (if take 1 s = ''-'' \<or> take 1 s = ''+'' then drop 1 s else s)"

text \<open>\<open>underscoreOK\<close>.\<close>

definition underscoreOK :: "string \<Rightarrow> bool" where
  "underscoreOK s =
     (let t = drop_sign s in
      if 2 \<le> length t \<and> t ! 0 = CHR ''0'' \<and> lower_char (t ! 1) \<in> set ''box''
      then underscores_ok (lower_char (t ! 1) = CHR ''x'') CHR ''0'' (drop 2 t)
      else underscores_ok False CHR ''^'' t)"

definition scaled :: "rat \<Rightarrow> int \<Rightarrow> rat" where
  "scaled base e = (if 0 \<le> e then base ^ nat e else 1 / base ^ nat (- e))"

definition float_overflow :: rat where "float_overflow = 2 ^ 1024 - 2 ^ 970"

definition ParseFloat :: "string \<Rightarrow> gofloat option" where
  "ParseFloat s =
     (let neg = take 1 s = ''-''; t = drop_sign s; w = ToLower t in
      if w = ''inf'' \<or> w = ''infinity'' then Some (if neg then NegInf else PosInf)
      else if ToLower s = ''nan'' then Some NaN
      else
        (let hex = 3 \<le> length t \<and> t ! 0 = CHR ''0'' \<and> lower_char (t ! 1) = CHR ''x'' in
         case scan_mantissa (if hex then 16 else 10) 0 0 False False False (if hex then drop 2 t else t) of
           (mant, fdigits, digits, us, r) \<Rightarrow>
             if \<not> digits then None
             else
               (let finish = (\<lambda>e us2 rest.
                  if us2 \<and> \<not> underscoreOK s then None
                  else if rest \<noteq> [] then None
                  else
                    (let x = (if hex then of_int mant * scaled 16 (- int fdigits) * scaled 2 e
                              else of_int mant * scaled 10 (- int fdigits) * scaled 10 e) in
                     if float_overflow \<le> x then None else Some (Fin (if neg then - x else x)))) in
                if r \<noteq> [] \<and> lower_char (hd r) = (if hex then CHR ''p'' else CHR ''e'') then
                  (let r2 = drop_sign (tl r) in
                   if r2 = [] \<or> \<not> is_digit (hd r2) then None
                   else (case scan_exponent 0 us r2 of
                           (e, us2, rest) \<Rightarrow> finish (if take 1 (tl r) = ''-'' then - e else e) us2 rest))
                else if hex then None
                else finish 0 us r)))"

definition float_gt :: "rat \<Rightarrow> gofloat \<Rightarrow> bool" where
  "float_gt x y = (case y of Fin r \<Rightarrow> r < x | NegInf \<Rightarrow> True | _ \<Rightarrow> False)"

section \<open>Options\<close>

record load_options =
  l_proto :: string
  l_conns :: int
  l_duration :: i64
  l_requests :: int
  l_payload :: int
  l_mode :: string
  l_external :: string
  l_maxConns :: int
  l_idleTimeout :: i64
  l_warmup :: i64
  l_format :: string
  l_maxSamples :: int
  l_maxErrorRate :: gofloat
  l_errorRateSet :: bool
  l_maxP95 :: i64

definition defaultMaxLatencySamples :: int where "defaultMaxLatencySamples = 100000"

definition load_defaults :: load_options where
  "load_defaults =
     \<lparr>l_proto = ''tcp'', l_conns = 50, l_duration = 10000000000, l_requests = 0, l_payload = 1024,
      l_mode = ''throughput'', l_external = [], l_maxConns = 0, l_idleTimeout = 0, l_warmup = 1000000000,
      l_format = ''text'', l_maxSamples = defaultMaxLatencySamples, l_maxErrorRate = Fin 0,
      l_errorRateSet = False, l_maxP95 = 0\<rparr>"

definition load_flags :: "load_options flag_table" where
  "load_flags =
     [(''proto'', StringVar (\<lambda>v opt. opt\<lparr>l_proto := v\<rparr>)),
      (''conns'', IntVar (\<lambda>v opt. opt\<lparr>l_conns := v\<rparr>)),
      (''duration'', DurationVar (\<lambda>v opt. opt\<lparr>l_duration := v\<rparr>)),
      (''requests'', IntVar (\<lambda>v opt. opt\<lparr>l_requests := v\<rparr>)),
      (''payload'', IntVar (\<lambda>v opt. opt\<lparr>l_payload := v\<rparr>)),
      (''mode'', StringVar (\<lambda>v opt. opt\<lparr>l_mode := v\<rparr>)),
      (''external'', StringVar (\<lambda>v opt. opt\<lparr>l_external := v\<rparr>)),
      (''max-conns'', IntVar (\<lambda>v opt. opt\<lparr>l_maxConns := v\<rparr>)),
      (''idle-timeout'', DurationVar (\<lambda>v opt. opt\<lparr>l_idleTimeout := v\<rparr>)),
      (''warmup'', DurationVar (\<lambda>v opt. opt\<lparr>l_warmup := v\<rparr>)),
      (''format'', StringVar (\<lambda>v opt. opt\<lparr>l_format := v\<rparr>)),
      (''max-samples'', IntVar (\<lambda>v opt. opt\<lparr>l_maxSamples := v\<rparr>)),
      (''max-error-rate'', ParsedVar (\<lambda>s. map_option (\<lambda>v opt. opt\<lparr>l_maxErrorRate := v\<rparr>) (ParseFloat s))),
      (''max-p95'', DurationVar (\<lambda>v opt. opt\<lparr>l_maxP95 := v\<rparr>))]"

datatype load_err =
    LoadFlag flag_err | InvalidProto string | InvalidMode string | InvalidConns int | InvalidPayload int
  | InvalidRequests int | InvalidDuration i64 | InvalidWarmup i64 | InvalidFormat string
  | InvalidMaxSamples int | InvalidErrorRate gofloat | InvalidMaxP95 i64 | InvalidMaxConns int
  | InvalidIdleTimeout i64 | InvalidUDPPayload int

definition validateLoadOptions :: "load_options \<Rightarrow> load_err option" where
  "validateLoadOptions opt =
     (if l_proto opt \<noteq> ''tcp'' \<and> l_proto opt \<noteq> ''udp'' then Some (InvalidProto (l_proto opt))
      else if l_mode opt \<noteq> ''throughput'' \<and> l_mode opt \<noteq> ''connrate'' then Some (InvalidMode (l_mode opt))
      else if l_conns opt \<le> 0 then Some (InvalidConns (l_conns opt))
      else if l_payload opt \<le> 0 then Some (InvalidPayload (l_payload opt))
      else if l_requests opt < 0 then Some (InvalidRequests (l_requests opt))
      else if sint (l_duration opt) \<le> 0 then Some (InvalidDuration (l_duration opt))
      else if sint (l_warmup opt) < 0 then Some (InvalidWarmup (l_warmup opt))
      else if l_format opt \<noteq> ''text'' \<and> l_format opt \<noteq> ''json'' then Some (InvalidFormat (l_format opt))
      else None)"

definition error_rate_allowed :: "gofloat \<Rightarrow> bool" where
  "error_rate_allowed r = (case r of Fin x \<Rightarrow> \<not> x < 0 \<and> \<not> 100 < x | _ \<Rightarrow> False)"

definition validateLoadLimits :: "load_options \<Rightarrow> load_err option" where
  "validateLoadLimits opt =
     (if l_maxSamples opt \<le> 0 then Some (InvalidMaxSamples (l_maxSamples opt))
      else if l_errorRateSet opt \<and> \<not> error_rate_allowed (l_maxErrorRate opt) then Some (InvalidErrorRate (l_maxErrorRate opt))
      else if sint (l_maxP95 opt) < 0 then Some (InvalidMaxP95 (l_maxP95 opt))
      else if l_maxConns opt < 0 then Some (InvalidMaxConns (l_maxConns opt))
      else if sint (l_idleTimeout opt) < 0 then Some (InvalidIdleTimeout (l_idleTimeout opt))
      else if l_proto opt = ''udp'' \<and> l_payload opt > 65507 then Some (InvalidUDPPayload (l_payload opt))
      else None)"

definition parseFlags :: "string list \<Rightarrow> load_err + load_options" where
  "parseFlags args =
     (case flag_parse load_flags args load_defaults {} of
        Inl e \<Rightarrow> Inl (LoadFlag e)
      | Inr (opt0, seen, rest) \<Rightarrow>
          (let opt = (if ''max-error-rate'' \<in> seen then opt0\<lparr>l_errorRateSet := True\<rparr> else opt0) in
           case validateLoadOptions opt of
             Some e \<Rightarrow> Inl e
           | None \<Rightarrow>
               (case validateLoadLimits opt of
                  Some e \<Rightarrow> Inl e
                | None \<Rightarrow> Inr opt)))"

definition latencySampleLimit :: "load_options \<Rightarrow> int" where
  "latencySampleLimit opt = (if l_maxSamples opt > 0 then l_maxSamples opt else defaultMaxLatencySamples)"

text \<open>\<open>runCLI\<close>: the exit code, and whether a message goes to standard error.\<close>

definition runCLI :: "(load_options \<Rightarrow> 'e option) \<Rightarrow> string list \<Rightarrow> int \<times> bool" where
  "runCLI run args =
     (case parseFlags args of
        Inl e \<Rightarrow> if e = LoadFlag ErrHelp then (0, False) else (2, True)
      | Inr opt \<Rightarrow> (case run opt of Some e \<Rightarrow> (1, True) | None \<Rightarrow> (0, False)))"

section \<open>What is accepted\<close>

text \<open>The documented range of every option.\<close>

definition load_options_ok :: "load_options \<Rightarrow> bool" where
  "load_options_ok opt \<longleftrightarrow>
     l_proto opt \<in> {''tcp'', ''udp''} \<and> l_mode opt \<in> {''throughput'', ''connrate''} \<and> 0 < l_conns opt \<and>
     0 < l_payload opt \<and> (l_proto opt = ''udp'' \<longrightarrow> l_payload opt \<le> 65507) \<and> 0 \<le> l_requests opt \<and>
     0 < sint (l_duration opt) \<and> 0 \<le> sint (l_warmup opt) \<and> l_format opt \<in> {''text'', ''json''} \<and>
     0 < l_maxSamples opt \<and> (l_errorRateSet opt \<longrightarrow> (\<exists>r. l_maxErrorRate opt = Fin r \<and> 0 \<le> r \<and> r \<le> 100)) \<and>
     0 \<le> sint (l_maxP95 opt) \<and> 0 \<le> l_maxConns opt \<and> 0 \<le> sint (l_idleTimeout opt)"

lemma error_rate_allowed_iff: "error_rate_allowed r \<longleftrightarrow> (\<exists>x. r = Fin x \<and> 0 \<le> x \<and> x \<le> 100)"
  by (cases r) (auto simp: error_rate_allowed_def)

lemma options_validated:
  "validateLoadOptions opt = None \<longleftrightarrow>
     (l_proto opt = ''tcp'' \<or> l_proto opt = ''udp'') \<and> (l_mode opt = ''throughput'' \<or> l_mode opt = ''connrate'') \<and>
     0 < l_conns opt \<and> 0 < l_payload opt \<and> 0 \<le> l_requests opt \<and> 0 < sint (l_duration opt) \<and>
     0 \<le> sint (l_warmup opt) \<and> (l_format opt = ''text'' \<or> l_format opt = ''json'')"
  by (auto simp: validateLoadOptions_def split: if_splits)

lemma limits_validated:
  "validateLoadLimits opt = None \<longleftrightarrow>
     0 < l_maxSamples opt \<and> (l_errorRateSet opt \<longrightarrow> error_rate_allowed (l_maxErrorRate opt)) \<and>
     0 \<le> sint (l_maxP95 opt) \<and> 0 \<le> l_maxConns opt \<and> 0 \<le> sint (l_idleTimeout opt) \<and>
     (l_proto opt = ''udp'' \<longrightarrow> l_payload opt \<le> 65507)"
  by (auto simp: validateLoadLimits_def split: if_splits)

lemma validated_iff:
  "validateLoadOptions opt = None \<and> validateLoadLimits opt = None \<longleftrightarrow> load_options_ok opt"
  unfolding options_validated limits_validated error_rate_allowed_iff load_options_ok_def by blast

lemma flags_keep_rate_mark:
  assumes "flag_round load_flags s args opt = FlagSeen name (Some opt') took v"
  shows "l_errorRateSet opt' = l_errorRateSet opt"
  using assms
  by (auto simp: flag_round_def load_flags_def flag_set_value_def Let_def split: if_splits option.splits prod.splits)

lemma flags_parse_rate_mark:
  "flag_parse load_flags args opt seen = Inr (opt', seen', rest) \<Longrightarrow> l_errorRateSet opt' = l_errorRateSet opt"
proof (induction load_flags args opt seen rule: flag_parse.induct)
  case (2 s args opt seen)
  show ?case
  proof (cases "flag_round load_flags s args opt")
    case (FlagSeen name o1 took v)
    then obtain o2 where o: "o1 = Some o2" using 2(2) by (cases o1) auto
    have p: "flag_parse load_flags (if took then tl args else args) o2 (insert name seen) = Inr (opt', seen', rest)"
      using 2(2) by (simp only: flag_parse.simps FlagSeen o flag_round.case option.case)
    show ?thesis using 2(1) [OF FlagSeen o p] flags_keep_rate_mark [OF FlagSeen [unfolded o]] by simp
  qed (use 2(2) in auto)
qed simp

text \<open>The command line is accepted exactly when the flag parser accepts it and every option is in its
  documented range (a rate only if it was set); the exit code is 2 for a rejected command line other
  than a request for help, 1 for a failed run, and a message is printed exactly when it is not 0.\<close>

theorem load_flags_accept_exactly_valid:
  "(parseFlags args = Inr opt \<longleftrightarrow>
     (\<exists>opt0 seen rest. flag_parse load_flags args load_defaults {} = Inr (opt0, seen, rest) \<and>
        opt = opt0\<lparr>l_errorRateSet := (''max-error-rate'' \<in> seen)\<rparr> \<and> load_options_ok opt)) \<and>
   (fst (runCLI run args) = 2 \<longleftrightarrow> (\<forall>opt. parseFlags args \<noteq> Inr opt) \<and> parseFlags args \<noteq> Inl (LoadFlag ErrHelp)) \<and>
   (fst (runCLI run args) = 1 \<longleftrightarrow> (\<exists>opt. parseFlags args = Inr opt \<and> run opt \<noteq> None)) \<and>
   (snd (runCLI run args) \<longleftrightarrow> fst (runCLI run args) \<noteq> 0)"
proof -
  have f: "(parseFlags args = Inr opt) = (\<exists>opt0 seen rest. flag_parse load_flags args load_defaults {} = Inr (opt0, seen, rest) \<and>
        opt = opt0\<lparr>l_errorRateSet := (''max-error-rate'' \<in> seen)\<rparr> \<and> load_options_ok opt)"
  proof (cases "flag_parse load_flags args load_defaults {}")
    case (Inr r)
    obtain opt0 seen rest where r: "r = (opt0, seen, rest)" by (cases r)
    have "l_errorRateSet opt0 = False"
      using flags_parse_rate_mark [OF Inr [unfolded r]] by (simp add: load_defaults_def)
    then have m: "opt0\<lparr>l_errorRateSet := (''max-error-rate'' \<in> seen)\<rparr> =
        (if ''max-error-rate'' \<in> seen then opt0\<lparr>l_errorRateSet := True\<rparr> else opt0)" by simp
    show ?thesis
      unfolding parseFlags_def Inr r sum.case prod.case m [symmetric] Let_def
      using validated_iff [of "opt0\<lparr>l_errorRateSet := (''max-error-rate'' \<in> seen)\<rparr>"]
      by (auto split: option.splits)
  qed (simp add: parseFlags_def)
  have "fst (runCLI run args) = (case parseFlags args of Inl e \<Rightarrow> if e = LoadFlag ErrHelp then 0 else 2 | Inr opt \<Rightarrow> if run opt = None then 0 else 1)"
    "snd (runCLI run args) \<longleftrightarrow> fst (runCLI run args) \<noteq> 0"
    by (auto simp: runCLI_def split: sum.splits option.splits)
  then show ?thesis unfolding f by (cases "parseFlags args") auto
qed

lemma load_flags_example:
  "parseFlags [''-proto'', ''udp'', ''-max-error-rate=0.1'', ''-payload'', ''512''] =
     Inr (load_defaults\<lparr>l_proto := ''udp'', l_payload := 512, l_maxErrorRate := Fin (1 / 10), l_errorRateSet := True\<rparr>)"
  by code_simp

end
