(* ===== verification/Load_Worker.thy ===== *)
theory Load_Worker
  imports Load_Options
begin

text \<open>
  The workers of the load test, cmd/loadtest/main.go: payload and budget, one round trip over TCP and
  over UDP, and the loops of \<open>runTCP\<close>, \<open>runTCPStream\<close> and \<open>runUDP\<close>.  What the network does during a
  round is an input; the list of rounds holds those a worker begins before the global deadline, so
  its end is \<open>ctxDone\<close>.  The counters are atomic and only ever added to, so the contribution of one
  worker does not depend on the others; they are integers here.
\<close>

section \<open>Counters\<close>

record load_stats =
  ls_requests :: int
  ls_bytes :: int
  ls_newConns :: int
  ls_errDial :: int
  ls_errWrite :: int
  ls_errRead :: int
  ls_errMismatch :: int

definition no_stats :: load_stats where
  "no_stats = \<lparr>ls_requests = 0, ls_bytes = 0, ls_newConns = 0, ls_errDial = 0, ls_errWrite = 0, ls_errRead = 0,
     ls_errMismatch = 0\<rparr>"

definition totalErrors :: "load_stats \<Rightarrow> int" where
  "totalErrors s = ls_errDial s + ls_errWrite s + ls_errRead s + ls_errMismatch s"

section \<open>Payload and limits\<close>

definition makePayload :: "nat \<Rightarrow> byte list" where
  "makePayload n = map (\<lambda>i. 97 + of_nat (i mod 26)) [0..<n]"

definition budget :: "load_options \<Rightarrow> int" where
  "budget opt = (if l_requests opt > 0 then l_requests opt else - 1)"

definition operationDeadline :: "int \<Rightarrow> int option \<Rightarrow> int \<Rightarrow> int" where
  "operationDeadline now ctxDeadline limit =
     (let deadline = now + limit in
      case ctxDeadline of
        Some d \<Rightarrow> if d < deadline then d else deadline
      | None \<Rightarrow> deadline)"

fun bytes_agree :: "byte list \<Rightarrow> byte list \<Rightarrow> nat \<Rightarrow> nat \<Rightarrow> bool" where
  "bytes_agree a b i 0 = True"
| "bytes_agree a b i (Suc k) = (if a ! i \<noteq> b ! i then False else bytes_agree a b (Suc i) k)"

definition bytesEqual :: "byte list \<Rightarrow> byte list \<Rightarrow> bool" where
  "bytesEqual a b = (if length a \<noteq> length b then False else bytes_agree a b 0 (length a))"

section \<open>Round trips\<close>

text \<open>What happens during one round: how the dial ends (a connection that is not the expected type
  only for UDP), whether the write succeeds, what arrives until the read ends (\<open>None\<close> is a failed
  read), the round trip time, the time since the round began, and whether the pause after a failure
  ends before the deadline.\<close>

datatype dial_outcome = Dialed | DialFailed | DialedOther

record load_round =
  r_dial :: dial_outcome
  r_write :: bool
  r_in :: "byte list option"
  r_rtt :: int
  r_total :: int
  r_wait :: bool

text \<open>\<open>io.ReadFull\<close> over a stream: exactly as many bytes as the buffer holds, the others stay.\<close>

definition ReadFull :: "nat \<Rightarrow> byte list \<Rightarrow> (byte list \<times> byte list) option" where
  "ReadFull n stream = (if length stream < n then None else Some (take n stream, drop n stream))"

definition tcpRoundTrip :: "byte list \<Rightarrow> load_round \<Rightarrow> byte list \<Rightarrow> load_stats \<Rightarrow> (int \<times> bool) \<times> byte list \<times> load_stats" where
  "tcpRoundTrip payload r stream s =
     (if \<not> r_write r then ((0, False), stream, s\<lparr>ls_errWrite := ls_errWrite s + 1\<rparr>)
      else (case ReadFull (length payload) (stream @ (case r_in r of Some bs \<Rightarrow> bs | None \<Rightarrow> [])) of
              None \<Rightarrow> ((0, False), [], s\<lparr>ls_errRead := ls_errRead s + 1\<rparr>)
            | Some (buf, stream') \<Rightarrow>
                if \<not> bytesEqual buf payload then ((0, False), stream', s\<lparr>ls_errMismatch := ls_errMismatch s + 1\<rparr>)
                else ((r_rtt r, True), stream',
                  s\<lparr>ls_requests := ls_requests s + 1, ls_bytes := ls_bytes s + int (length payload)\<rparr>)))"

text \<open>\<open>conn.Read\<close> of a datagram: what exceeds the buffer is cut off.\<close>

definition udpRoundTrip :: "byte list \<Rightarrow> nat \<Rightarrow> load_round \<Rightarrow> load_stats \<Rightarrow> (int \<times> bool) \<times> load_stats" where
  "udpRoundTrip payload buf r s =
     (if \<not> r_write r then ((0, False), s\<lparr>ls_errWrite := ls_errWrite s + 1\<rparr>)
      else (case r_in r of
              None \<Rightarrow> ((0, False), s\<lparr>ls_errRead := ls_errRead s + 1\<rparr>)
            | Some dgram \<Rightarrow>
                (let got = take buf dgram in
                 if length got \<noteq> length payload \<or> \<not> bytesEqual got payload
                 then ((0, False), s\<lparr>ls_errMismatch := ls_errMismatch s + 1\<rparr>)
                 else ((r_rtt r, True),
                   s\<lparr>ls_requests := ls_requests s + 1, ls_bytes := ls_bytes s + int (length payload)\<rparr>))))"

section \<open>Loops\<close>

text \<open>A worker: the counters, the durations it gave to the sampler, its open connections, and the
  rounds it began.\<close>

record worker =
  w_s :: load_stats
  w_samples :: "int list"
  w_open :: int
  w_rounds :: nat

definition new_worker :: "load_stats \<Rightarrow> worker" where
  "new_worker s = \<lparr>w_s = s, w_samples = [], w_open = 0, w_rounds = 0\<rparr>"

definition w_add :: "bool \<Rightarrow> int \<Rightarrow> worker \<Rightarrow> worker" where
  "w_add record_it v w = (if record_it then w\<lparr>w_samples := w_samples w @ [v]\<rparr> else w)"

definition begin_round :: "worker \<Rightarrow> worker" where
  "begin_round w = w\<lparr>w_rounds := w_rounds w + 1\<rparr>"

definition dial_failed_w :: "worker \<Rightarrow> worker" where
  "dial_failed_w w = w\<lparr>w_s := (w_s w)\<lparr>ls_errDial := ls_errDial (w_s w) + 1\<rparr>\<rparr>"

definition dialed_w :: "worker \<Rightarrow> worker" where
  "dialed_w w = w\<lparr>w_s := (w_s w)\<lparr>ls_newConns := ls_newConns (w_s w) + 1\<rparr>, w_open := w_open w + 1\<rparr>"

definition closed_w :: "worker \<Rightarrow> worker" where
  "closed_w w = w\<lparr>w_open := w_open w - 1\<rparr>"

text \<open>The loop of \<open>runTCP\<close> in the mode connrate.\<close>

fun connrate_loop :: "bool \<Rightarrow> byte list \<Rightarrow> int \<Rightarrow> load_round list \<Rightarrow> int \<Rightarrow> worker \<Rightarrow> worker" where
  "connrate_loop record_it payload quota [] don w = w"
| "connrate_loop record_it payload quota (r # rs) don w =
     (if quota \<ge> 0 \<and> don \<ge> quota then w
      else
        (let w0 = begin_round w in
         if r_dial r \<noteq> Dialed then
           (let w1 = dial_failed_w w0 in
            if \<not> r_wait r then w1 else connrate_loop record_it payload quota rs don w1)
         else
           (let w1 = dialed_w w0 in
            case tcpRoundTrip payload r [] (w_s w1) of ((rtt, ok), stream, s') \<Rightarrow>
              (let w2 = closed_w (w1\<lparr>w_s := s'\<rparr>) in
               if \<not> ok then
                 (if \<not> r_wait r then w2 else connrate_loop record_it payload quota rs don w2)
               else connrate_loop record_it payload quota rs (don + 1) (w_add record_it (r_total r) w2)))))"

text \<open>\<open>runTCPStream\<close>: one connection, given up with the first failure.\<close>

fun stream_loop :: "bool \<Rightarrow> byte list \<Rightarrow> int \<Rightarrow> load_round list \<Rightarrow> byte list \<Rightarrow> int \<Rightarrow> worker \<Rightarrow> worker" where
  "stream_loop record_it payload quota [] stream don w = w"
| "stream_loop record_it payload quota (r # rs) stream don w =
     (if quota \<ge> 0 \<and> don \<ge> quota then w
      else
        (case tcpRoundTrip payload r stream (w_s w) of ((rtt, ok), stream', s') \<Rightarrow>
           (let w2 = (begin_round w)\<lparr>w_s := s'\<rparr> in
            if \<not> ok then w2
            else stream_loop record_it payload quota rs stream' (don + 1) (w_add record_it rtt w2))))"

definition runTCPStream :: "bool \<Rightarrow> byte list \<Rightarrow> int \<Rightarrow> dial_outcome \<Rightarrow> load_round list \<Rightarrow> worker \<Rightarrow> worker" where
  "runTCPStream record_it payload quota dial rs w =
     (if dial \<noteq> Dialed then dial_failed_w w
      else closed_w (stream_loop record_it payload quota rs [] 0 (dialed_w w)))"

definition runTCP :: "load_options \<Rightarrow> bool \<Rightarrow> dial_outcome \<Rightarrow> load_round list \<Rightarrow> worker \<Rightarrow> worker" where
  "runTCP opt record_it dial rs w =
     (let payload = makePayload (nat (l_payload opt)) in
      if l_mode opt = ''throughput'' then runTCPStream record_it payload (budget opt) dial rs w
      else connrate_loop record_it payload (budget opt) rs 0 w)"

text \<open>\<open>runUDP\<close>; \<open>udp_dial\<close> is its local function: a connection that is not a UDP one is closed again and
  counts as a failed dial.\<close>

definition udp_dial :: "dial_outcome \<Rightarrow> worker \<Rightarrow> bool \<times> worker" where
  "udp_dial dial w =
     (case dial of
        DialFailed \<Rightarrow> (False, dial_failed_w w)
      | DialedOther \<Rightarrow> (let raw = w\<lparr>w_open := w_open w + 1\<rparr> in (False, dial_failed_w (closed_w raw)))
      | Dialed \<Rightarrow> (True, dialed_w w))"

lemma opened_closed [simp]: "closed_w (w\<lparr>w_open := w_open w + 1\<rparr>) = w"
  by (simp add: closed_w_def)

fun udp_loop :: "bool \<Rightarrow> bool \<Rightarrow> byte list \<Rightarrow> nat \<Rightarrow> int \<Rightarrow> load_round list \<Rightarrow> int \<Rightarrow> worker \<Rightarrow> worker" where
  "udp_loop record_it connrate payload buf quota [] don w = w"
| "udp_loop record_it connrate payload buf quota (r # rs) don w =
     (if quota \<ge> 0 \<and> don \<ge> quota then w
      else
        (let w0 = begin_round w in
         case (if connrate then udp_dial (r_dial r) w0 else (True, w0)) of (c, w1) \<Rightarrow>
           if \<not> c then
             (if \<not> r_wait r then w1 else udp_loop record_it connrate payload buf quota rs don w1)
           else
             (case udpRoundTrip payload buf r (w_s w1) of ((rtt, ok), s') \<Rightarrow>
                (let w2 = (if connrate then closed_w (w1\<lparr>w_s := s'\<rparr>) else w1\<lparr>w_s := s'\<rparr>) in
                 if ok then udp_loop record_it connrate payload buf quota rs (don + 1) (w_add record_it rtt w2)
                 else if \<not> r_wait r then w2
                 else udp_loop record_it connrate payload buf quota rs don w2))))"

definition runUDP :: "load_options \<Rightarrow> bool \<Rightarrow> dial_outcome \<Rightarrow> load_round list \<Rightarrow> worker \<Rightarrow> worker" where
  "runUDP opt record_it dial rs w =
     (let payload = makePayload (nat (l_payload opt)); buf = nat (l_payload opt) + 64 in
      if l_mode opt = ''throughput'' then
        (case udp_dial dial w of (c, w1) \<Rightarrow>
           if \<not> c then w1
           else closed_w (udp_loop record_it False payload buf (budget opt) rs 0 w1))
      else udp_loop record_it (l_mode opt = ''connrate'') payload buf (budget opt) rs 0 w)"

text \<open>\<open>runWorkers\<close>: every worker runs to its end on the common counters; the samples of each.\<close>

definition run_worker :: "load_options \<Rightarrow> bool \<Rightarrow> dial_outcome \<times> load_round list \<Rightarrow> load_stats \<Rightarrow> worker" where
  "run_worker opt record_it env s =
     (if l_proto opt = ''tcp'' then runTCP opt record_it (fst env) (snd env) (new_worker s)
      else runUDP opt record_it (fst env) (snd env) (new_worker s))"

fun run_all :: "load_options \<Rightarrow> bool \<Rightarrow> (dial_outcome \<times> load_round list) list \<Rightarrow> load_stats \<Rightarrow> load_stats \<times> int list list \<times> int" where
  "run_all opt record_it [] s = (s, [], 0)"
| "run_all opt record_it (env # envs) s =
     (let w = run_worker opt record_it env s in
      case run_all opt record_it envs (w_s w) of (s', samples, left) \<Rightarrow> (s', w_samples w # samples, w_open w + left))"

section \<open>Facts\<close>

lemma bytes_agree_iff:
  "i + k = length a \<Longrightarrow> length a = length b \<Longrightarrow> bytes_agree a b i k \<longleftrightarrow> drop i a = drop i b"
proof (induction k arbitrary: i)
  case (Suc k)
  then have i: "i < length a" "i < length b" by simp_all
  have "bytes_agree a b (Suc i) k \<longleftrightarrow> drop (Suc i) a = drop (Suc i) b" using Suc by simp
  then show ?case using Cons_nth_drop_Suc [OF i(1)] Cons_nth_drop_Suc [OF i(2)] by (metis bytes_agree.simps(2) list.inject)
qed simp

lemma bytesEqual_iff [simp]: "bytesEqual a b \<longleftrightarrow> a = b"
  using bytes_agree_iff [of 0 "length a" a b] by (auto simp: bytesEqual_def)

lemma length_makePayload [simp]: "length (makePayload n) = n"
  by (simp add: makePayload_def)

text \<open>What a worker has added to its counters: \<open>good\<close> round trips of the payload, \<open>bad\<close> failures.\<close>

definition counted :: "nat \<Rightarrow> load_stats \<Rightarrow> load_stats \<Rightarrow> int \<Rightarrow> int \<Rightarrow> bool" where
  "counted n s s' good bad \<longleftrightarrow>
     ls_requests s' = ls_requests s + good \<and> ls_bytes s' = ls_bytes s + int n * good \<and>
     totalErrors s' = totalErrors s + bad"

lemma counted_refl: "counted n s s 0 0" by (simp add: counted_def)

lemma counted_trans: "counted n s s' g b \<Longrightarrow> counted n s' s'' g' b' \<Longrightarrow> counted n s s'' (g + g') (b + b')"
  by (simp add: counted_def algebra_simps)

text \<open>One round, and a whole loop from \<open>done\<close> successes on; \<open>dials\<close> says that every round dials.\<close>

definition round_ok :: "nat \<Rightarrow> bool \<Rightarrow> bool \<Rightarrow> worker \<Rightarrow> worker \<Rightarrow> bool \<Rightarrow> bool" where
  "round_ok n record_it dials w w' ok \<longleftrightarrow>
     counted n (w_s w) (w_s w') (of_bool ok) (of_bool (\<not> ok)) \<and>
     w_rounds w' = w_rounds w + 1 \<and> w_open w' = w_open w \<and>
     ls_newConns (w_s w') + ls_errDial (w_s w') = ls_newConns (w_s w) + ls_errDial (w_s w) + of_bool dials \<and>
     length (w_samples w') = length (w_samples w) + of_bool (record_it \<and> ok)"

definition loop_ok :: "nat \<Rightarrow> bool \<Rightarrow> bool \<Rightarrow> int \<Rightarrow> int \<Rightarrow> worker \<Rightarrow> worker \<Rightarrow> bool" where
  "loop_ok n record_it dials quota don w w' \<longleftrightarrow>
     (\<exists>good bad. counted n (w_s w) (w_s w') (int good) (int bad) \<and>
        w_rounds w' = w_rounds w + good + bad \<and> w_open w' = w_open w \<and>
        ls_newConns (w_s w') + ls_errDial (w_s w') =
          ls_newConns (w_s w) + ls_errDial (w_s w) + of_bool dials * (int good + int bad) \<and>
        length (w_samples w') = length (w_samples w) + of_bool record_it * good \<and>
        (0 \<le> quota \<and> don \<le> quota \<longrightarrow> don + int good \<le> quota))"

lemma loop_ok_refl [simp]: "loop_ok n record_it dials quota don w w"
  unfolding loop_ok_def by (intro exI [of _ "0::nat"]) (simp add: counted_refl)

lemma loop_ok_step:
  assumes "round_ok n record_it dials w w1 ok" "loop_ok n record_it dials quota (don + of_bool ok) w1 w2"
    and "quota < 0 \<or> don < quota"
  shows "loop_ok n record_it dials quota don w w2"
proof -
  obtain good bad where g: "counted n (w_s w1) (w_s w2) (int good) (int bad)"
      "w_rounds w2 = w_rounds w1 + good + bad" "w_open w2 = w_open w1"
      "ls_newConns (w_s w2) + ls_errDial (w_s w2) = ls_newConns (w_s w1) + ls_errDial (w_s w1) + of_bool dials * (int good + int bad)"
      "length (w_samples w2) = length (w_samples w1) + of_bool record_it * good"
      "0 \<le> quota \<and> don + of_bool ok \<le> quota \<longrightarrow> don + of_bool ok + int good \<le> quota"
    using assms(2) unfolding loop_ok_def by blast
  note r = assms(1) [unfolded round_ok_def]
  have t: "counted n (w_s w) (w_s w2) (int (good + of_bool ok)) (int (bad + of_bool (\<not> ok)))"
    using counted_trans [OF r [THEN conjunct1] g(1)] by (simp add: add.commute)
  have q: "0 \<le> quota \<and> don \<le> quota \<longrightarrow> don + int (good + of_bool ok) \<le> quota"
    using g(6) assms(3) by (cases ok) auto
  show ?thesis
    unfolding loop_ok_def
    by (rule exI [of _ "good + of_bool ok"], rule exI [of _ "bad + of_bool (\<not> ok)"]) (use t q r g(2-5) in \<open>cases ok; cases dials; cases record_it; simp\<close>)
qed

lemma loop_ok_last:
  assumes "round_ok n record_it dials w w1 ok" "quota < 0 \<or> don < quota"
  shows "loop_ok n record_it dials quota don w w1"
  by (rule loop_ok_step [OF assms(1) loop_ok_refl assms(2)])

lemma tcpRoundTrip_counts:
  "tcpRoundTrip payload r stream s = ((rtt, ok), stream', s') \<Longrightarrow>
     counted (length payload) s s' (of_bool ok) (of_bool (\<not> ok)) \<and> ls_newConns s' = ls_newConns s \<and> ls_errDial s' = ls_errDial s"
  by (auto simp: tcpRoundTrip_def counted_def totalErrors_def split: if_splits option.splits prod.splits)

lemma udpRoundTrip_counts:
  "udpRoundTrip payload buf r s = ((rtt, ok), s') \<Longrightarrow>
     counted (length payload) s s' (of_bool ok) (of_bool (\<not> ok)) \<and> ls_newConns s' = ls_newConns s \<and> ls_errDial s' = ls_errDial s"
  by (auto simp: udpRoundTrip_def counted_def totalErrors_def Let_def split: if_splits option.splits)

lemmas worker_ops = begin_round_def dial_failed_w_def dialed_w_def closed_w_def w_add_def

lemma dial_failed_round: "round_ok n record_it True w (dial_failed_w (begin_round w)) False"
  by (simp add: round_ok_def worker_ops counted_def totalErrors_def)

lemma connrate_loop_ok: "loop_ok (length payload) record_it True quota don w (connrate_loop record_it payload quota rs don w)"
proof (induction record_it payload quota rs don w rule: connrate_loop.induct)
  case (2 record_it payload quota r rs don w)
  show ?case
  proof (cases "quota \<ge> 0 \<and> don \<ge> quota")
    case False
    then have q: "quota < 0 \<or> don < quota" by auto
    show ?thesis
    proof (cases "r_dial r = Dialed")
      case True
      let ?w1 = "dialed_w (begin_round w)"
      obtain rtt ok stream s' where t: "tcpRoundTrip payload r [] (w_s ?w1) = ((rtt, ok), stream, s')"
        by (metis surj_pair)
      let ?w2 = "closed_w (?w1\<lparr>w_s := s'\<rparr>)"
      have f: "round_ok (length payload) record_it True w ?w2 False" if "\<not> ok"
        using tcpRoundTrip_counts [OF t] that by (simp add: round_ok_def worker_ops counted_def totalErrors_def)
      have g: "round_ok (length payload) record_it True w (w_add record_it (r_total r) ?w2) True" if "ok"
        using tcpRoundTrip_counts [OF t] that by (simp add: round_ok_def worker_ops counted_def totalErrors_def)
      show ?thesis
        using 2(2,3) [OF _ refl _ refl t [symmetric]] loop_ok_last [OF f q] loop_ok_step [OF f _ q] loop_ok_step [OF g _ q] False True t
        by (auto simp: Let_def)
    next
      case d: False
      note f = dial_failed_round [of "length payload" record_it w]
      show ?thesis using 2(1) [OF _ refl] loop_ok_last [OF f q] loop_ok_step [OF f _ q] False d by (auto simp: Let_def)
    qed
  qed simp
qed simp

lemma stream_loop_ok: "loop_ok (length payload) record_it False quota don w (stream_loop record_it payload quota rs stream don w)"
proof (induction record_it payload quota rs stream don w rule: stream_loop.induct)
  case (2 record_it payload quota r rs stream don w)
  show ?case
  proof (cases "quota \<ge> 0 \<and> don \<ge> quota")
    case False
    then have q: "quota < 0 \<or> don < quota" by auto
    obtain rtt ok stream' s' where t: "tcpRoundTrip payload r stream (w_s w) = ((rtt, ok), stream', s')"
      by (metis surj_pair)
    let ?w2 = "(begin_round w)\<lparr>w_s := s'\<rparr>"
    have f: "round_ok (length payload) record_it False w ?w2 False" if "\<not> ok"
      using tcpRoundTrip_counts [OF t] that by (simp add: round_ok_def worker_ops counted_def totalErrors_def)
    have g: "round_ok (length payload) record_it False w (w_add record_it rtt ?w2) True" if "ok"
      using tcpRoundTrip_counts [OF t] that by (simp add: round_ok_def worker_ops counted_def totalErrors_def)
    show ?thesis
      using 2(1) [OF False t [symmetric] refl refl refl] loop_ok_last [OF f q] loop_ok_step [OF g _ q] False t
      by (auto simp: Let_def)
  qed simp
qed simp

lemma udp_loop_ok: "loop_ok (length payload) record_it connrate quota don w (udp_loop record_it connrate payload buf quota rs don w)"
proof (induction record_it connrate payload buf quota rs don w rule: udp_loop.induct)
  case (2 record_it connrate payload buf quota r rs don w)
  show ?case
  proof (cases "quota \<ge> 0 \<and> don \<ge> quota")
    case False
    then have q: "quota < 0 \<or> don < quota" by auto
    let ?c = "if connrate then udp_dial (r_dial r) (begin_round w) else (True, begin_round w)"
    obtain c w1 where c: "?c = (c, w1)" by (cases ?c)
    show ?thesis
    proof (cases c)
      case True
      obtain rtt ok s' where t: "udpRoundTrip payload buf r (w_s w1) = ((rtt, ok), s')" by (metis surj_pair)
      let ?w2 = "if connrate then closed_w (w1\<lparr>w_s := s'\<rparr>) else w1\<lparr>w_s := s'\<rparr>"
      have w1: "w1 = (if connrate then dialed_w (begin_round w) else begin_round w)"
        using c True by (auto simp: udp_dial_def split: if_splits dial_outcome.splits)
      have f: "round_ok (length payload) record_it connrate w ?w2 False" if "\<not> ok"
        using udpRoundTrip_counts [OF t] that w1 by (auto simp: round_ok_def worker_ops counted_def totalErrors_def)
      have g: "round_ok (length payload) record_it connrate w (w_add record_it rtt ?w2) True" if "ok"
        using udpRoundTrip_counts [OF t] that w1 by (auto simp: round_ok_def worker_ops counted_def totalErrors_def)
      show ?thesis
        using 2(2,3) [OF False refl c [symmetric] _ t [symmetric] refl refl] loop_ok_last [OF f q] loop_ok_step [OF f _ q] loop_ok_step [OF g _ q] False c True t
        by (auto simp: Let_def)
    next
      case d: False
      have w1: "connrate \<and> w1 = dial_failed_w (begin_round w)"
        using c d by (auto simp: udp_dial_def split: if_splits dial_outcome.splits)
      then have f: "round_ok (length payload) record_it connrate w w1 False" using dial_failed_round by simp
      show ?thesis using 2(1) [OF False refl c [symmetric]] loop_ok_last [OF f q] loop_ok_step [OF f _ q] False c d by (auto simp: Let_def)
    qed
  qed simp
qed simp

section \<open>A network that echoes\<close>

definition healthy :: "byte list \<Rightarrow> load_round \<Rightarrow> bool" where
  "healthy payload r \<longleftrightarrow> r_dial r = Dialed \<and> r_write r \<and> r_in r = Some payload"

text \<open>How many of the rounds a worker needs, and what a loop over healthy rounds does.\<close>

definition todo :: "int \<Rightarrow> int \<Rightarrow> 'r list \<Rightarrow> nat" where
  "todo quota don rs = (if quota < 0 then length rs else min (nat (quota - don)) (length rs))"

definition completes :: "bool \<Rightarrow> (load_round \<Rightarrow> int) \<Rightarrow> bool \<Rightarrow> nat \<Rightarrow> load_round list \<Rightarrow> worker \<Rightarrow> worker \<Rightarrow> bool" where
  "completes record_it rtt dials k rs w w' \<longleftrightarrow>
     w_samples w' = w_samples w @ (if record_it then map rtt (take k rs) else []) \<and>
     ls_requests (w_s w') = ls_requests (w_s w) + int k \<and> totalErrors (w_s w') = totalErrors (w_s w) \<and>
     ls_newConns (w_s w') = ls_newConns (w_s w) + of_bool dials * int k"

lemma todo_simps [simp]:
  "todo quota don [] = 0"
  "quota \<ge> 0 \<and> don \<ge> quota \<Longrightarrow> todo quota don rs = 0"
  "\<not> (quota \<ge> 0 \<and> don \<ge> quota) \<Longrightarrow> todo quota don (r # rs) = Suc (todo quota (don + 1) rs)"
  by (auto simp: todo_def)

lemma completes_refl [simp]: "completes record_it rtt dials 0 rs w w"
  by (simp add: completes_def)

lemma completes_step:
  assumes "completes record_it rtt dials k rs w1 w'"
    and "w_samples w1 = w_samples w @ (if record_it then [rtt r] else [])" "ls_requests (w_s w1) = ls_requests (w_s w) + 1"
    and "totalErrors (w_s w1) = totalErrors (w_s w)" "ls_newConns (w_s w1) = ls_newConns (w_s w) + of_bool dials"
  shows "completes record_it rtt dials (Suc k) (r # rs) w w'"
  using assms by (auto simp: completes_def algebra_simps)

lemma healthy_tcp:
  "healthy payload r \<Longrightarrow> tcpRoundTrip payload r [] s =
     ((r_rtt r, True), [], s\<lparr>ls_requests := ls_requests s + 1, ls_bytes := ls_bytes s + int (length payload)\<rparr>)"
  by (simp add: healthy_def tcpRoundTrip_def ReadFull_def)

lemma healthy_udp:
  "healthy payload r \<Longrightarrow> length payload \<le> buf \<Longrightarrow> udpRoundTrip payload buf r s =
     ((r_rtt r, True), s\<lparr>ls_requests := ls_requests s + 1, ls_bytes := ls_bytes s + int (length payload)\<rparr>)"
  by (simp add: healthy_def udpRoundTrip_def)

lemma connrate_completes:
  "\<forall>r\<in>set rs. healthy payload r \<Longrightarrow>
     completes record_it r_total True (todo quota don rs) rs w (connrate_loop record_it payload quota rs don w)"
proof (induction rs arbitrary: don w)
  case (Cons r rs)
  then have h: "r_dial r = Dialed" "healthy payload r" by (simp_all add: healthy_def)
  show ?case
  proof (cases "quota \<ge> 0 \<and> don \<ge> quota")
    case False
    let ?w0 = "dialed_w (begin_round w)"
    let ?w2 = "closed_w (?w0\<lparr>w_s := (w_s ?w0)\<lparr>ls_requests := ls_requests (w_s ?w0) + 1,
        ls_bytes := ls_bytes (w_s ?w0) + int (length payload)\<rparr>\<rparr>)"
    have "completes record_it r_total True (Suc (todo quota (don + 1) rs)) (r # rs) w
        (connrate_loop record_it payload quota rs (don + 1) (w_add record_it (r_total r) ?w2))"
      by (rule completes_step [OF Cons.IH]) (use Cons.prems in \<open>auto simp: worker_ops totalErrors_def\<close>)
    then show ?thesis using False h by (auto simp: healthy_tcp Let_def)
  qed simp
qed simp

lemma stream_completes:
  "\<forall>r\<in>set rs. healthy payload r \<Longrightarrow>
     completes record_it r_rtt False (todo quota don rs) rs w (stream_loop record_it payload quota rs [] don w)"
proof (induction rs arbitrary: don w)
  case (Cons r rs)
  then have h: "healthy payload r" by simp
  show ?case
  proof (cases "quota \<ge> 0 \<and> don \<ge> quota")
    case False
    let ?w2 = "(begin_round w)\<lparr>w_s := (w_s w)\<lparr>ls_requests := ls_requests (w_s w) + 1,
        ls_bytes := ls_bytes (w_s w) + int (length payload)\<rparr>\<rparr>"
    have "completes record_it r_rtt False (Suc (todo quota (don + 1) rs)) (r # rs) w
        (stream_loop record_it payload quota rs [] (don + 1) (w_add record_it (r_rtt r) ?w2))"
      by (rule completes_step [OF Cons.IH]) (use Cons.prems in \<open>auto simp: worker_ops totalErrors_def\<close>)
    then show ?thesis using False h by (auto simp: healthy_tcp Let_def)
  qed simp
qed simp

lemma udp_completes:
  "\<forall>r\<in>set rs. healthy payload r \<Longrightarrow> length payload \<le> buf \<Longrightarrow>
     completes record_it r_rtt connrate (todo quota don rs) rs w (udp_loop record_it connrate payload buf quota rs don w)"
proof (induction rs arbitrary: don w)
  case (Cons r rs)
  then have h: "healthy payload r" "udp_dial (r_dial r) v = (True, dialed_w v)" for v
    by (simp_all add: healthy_def udp_dial_def)
  show ?case
  proof (cases "quota \<ge> 0 \<and> don \<ge> quota")
    case False
    let ?w0 = "if connrate then dialed_w (begin_round w) else begin_round w"
    let ?s = "(w_s ?w0)\<lparr>ls_requests := ls_requests (w_s ?w0) + 1, ls_bytes := ls_bytes (w_s ?w0) + int (length payload)\<rparr>"
    let ?w2 = "if connrate then closed_w (?w0\<lparr>w_s := ?s\<rparr>) else ?w0\<lparr>w_s := ?s\<rparr>"
    have "completes record_it r_rtt connrate (Suc (todo quota (don + 1) rs)) (r # rs) w
        (udp_loop record_it connrate payload buf quota rs (don + 1) (w_add record_it (r_rtt r) ?w2))"
      by (rule completes_step [OF Cons.IH]) (use Cons.prems in \<open>auto simp: worker_ops totalErrors_def\<close>)
    then show ?thesis using False h Cons.prems(2) by (auto simp: healthy_udp Let_def)
  qed simp
qed simp

section \<open>Results\<close>

definition accounts :: "nat \<Rightarrow> bool \<Rightarrow> int \<Rightarrow> load_stats \<Rightarrow> worker \<Rightarrow> nat \<Rightarrow> bool" where
  "accounts n record_it quota s w extra \<longleftrightarrow>
     (\<exists>good bad. counted n s (w_s w) (int good) (int bad) \<and> good + bad = w_rounds w + extra \<and>
        length (w_samples w) = of_bool record_it * good \<and> w_open w = 0 \<and> (0 \<le> quota \<longrightarrow> int good \<le> quota))"

lemma loop_ok_worker:
  assumes "loop_ok n record_it dials quota 0 (new_worker s) w"
  shows "accounts n record_it quota s w 0"
proof -
  obtain good bad where "counted n s (w_s w) (int good) (int bad)" "w_rounds w = good + bad" "w_open w = 0"
      "length (w_samples w) = of_bool record_it * good" "0 \<le> quota \<longrightarrow> int good \<le> quota"
    using assms by (auto simp: loop_ok_def new_worker_def)
  then show ?thesis unfolding accounts_def by (intro exI [of _ good] exI [of _ bad]) simp
qed

lemma loop_ok_dialed:
  assumes "loop_ok n record_it dials quota 0 (dialed_w (new_worker s)) w"
  shows "accounts n record_it quota s (closed_w w) 0"
proof -
  obtain good bad where "counted n s (w_s w) (int good) (int bad)" "w_rounds w = good + bad" "w_open w = 1"
      "length (w_samples w) = of_bool record_it * good" "0 \<le> quota \<longrightarrow> int good \<le> quota"
    using assms by (auto simp: loop_ok_def new_worker_def worker_ops counted_def totalErrors_def)
  then show ?thesis unfolding accounts_def by (intro exI [of _ good] exI [of _ bad]) (simp add: closed_w_def)
qed

lemma failed_accounts: "accounts n record_it quota s (dial_failed_w (new_worker s)) 1"
  unfolding accounts_def
  by (rule exI [of _ 0], rule exI [of _ 1]) (simp add: worker_ops new_worker_def counted_def totalErrors_def)

lemma run_worker_accounts:
  assumes "l_mode opt = ''throughput'' \<or> l_mode opt = ''connrate''"
  shows "accounts (nat (l_payload opt)) record_it (budget opt) s (run_worker opt record_it env s)
    (of_bool (l_mode opt = ''throughput'' \<and> fst env \<noteq> Dialed))"
proof -
  let ?p = "makePayload (nat (l_payload opt))" and ?w = "new_worker s" and ?buf = "nat (l_payload opt) + 64"
  consider "l_proto opt = ''tcp''" "l_mode opt = ''throughput''" "fst env = Dialed"
    | "l_proto opt = ''tcp''" "l_mode opt = ''connrate''"
    | "l_proto opt \<noteq> ''tcp''" "l_mode opt = ''throughput''" "fst env = Dialed"
    | "l_proto opt \<noteq> ''tcp''" "l_mode opt = ''connrate''"
    | "l_mode opt = ''throughput''" "fst env \<noteq> Dialed"
    using assms by blast
  then show ?thesis
  proof cases
    case 1
    then show ?thesis using loop_ok_dialed [OF stream_loop_ok [of ?p record_it "budget opt" 0 "dialed_w ?w" "snd env" "[]"]]
      by (simp add: run_worker_def runTCP_def runTCPStream_def Let_def)
  next
    case 2
    then show ?thesis using loop_ok_worker [OF connrate_loop_ok [of ?p record_it "budget opt" 0 ?w "snd env"]]
      by (simp add: run_worker_def runTCP_def Let_def)
  next
    case 3
    then show ?thesis
      using loop_ok_dialed [OF udp_loop_ok [of ?p record_it False "budget opt" 0 "dialed_w ?w" ?buf "snd env"]]
      by (simp add: run_worker_def runUDP_def udp_dial_def Let_def)
  next
    case 4
    then show ?thesis
      using loop_ok_worker [OF udp_loop_ok [of ?p record_it True "budget opt" 0 ?w ?buf "snd env"]]
      by (simp add: run_worker_def runUDP_def Let_def)
  next
    case 5
    then have "run_worker opt record_it env s = dial_failed_w ?w"
      by (cases "fst env") (auto simp: run_worker_def runTCP_def runTCPStream_def runUDP_def udp_dial_def Let_def)
    then show ?thesis using failed_accounts 5 by simp
  qed
qed

text \<open>C23: Every round a worker begins is counted exactly once, as a success of the whole payload or as one
  error (a failed first dial of a stream counts as an error without a round); samples are recorded
  for the successes of a measured run only, no connection is left open, and a worker never exceeds
  its number of requests.\<close>

theorem worker_counts_every_round_once:
  assumes "load_options_ok opt"
  shows "let w = run_worker opt record_it env s in
    \<exists>good bad. counted (nat (l_payload opt)) s (w_s w) (int good) (int bad) \<and>
      good + bad = w_rounds w + of_bool (l_mode opt = ''throughput'' \<and> fst env \<noteq> Dialed) \<and>
      length (w_samples w) = of_bool record_it * good \<and> w_open w = 0 \<and>
      (l_requests opt \<noteq> 0 \<longrightarrow> int good \<le> l_requests opt)"
proof -
  have m: "l_mode opt = ''throughput'' \<or> l_mode opt = ''connrate''" "0 \<le> l_requests opt"
    using assms by (auto simp: load_options_ok_def)
  have "l_requests opt \<noteq> 0 \<Longrightarrow> 0 \<le> budget opt \<and> budget opt = l_requests opt" using m(2) by (simp add: budget_def)
  then show ?thesis
    using run_worker_accounts [OF m(1), of record_it s env] unfolding accounts_def Let_def by metis
qed

lemma run_all_totals:
  assumes "load_options_ok opt" "run_all opt record_it envs s = (s', samples, left)"
  shows "\<exists>good bad. counted (nat (l_payload opt)) s s' (int good) (int bad) \<and> left = 0 \<and> length samples = length envs \<and>
    sum_list (map length samples) = of_bool record_it * good \<and>
    (l_requests opt \<noteq> 0 \<longrightarrow> int good \<le> int (length envs) * l_requests opt)"
proof -
  have m: "l_mode opt = ''throughput'' \<or> l_mode opt = ''connrate''"
    "l_requests opt \<noteq> 0 \<longrightarrow> 0 \<le> budget opt \<and> budget opt = l_requests opt"
    using assms(1) by (auto simp: load_options_ok_def budget_def)
  show ?thesis
    using assms(2)
  proof (induction envs arbitrary: s samples left)
    case Nil
    then show ?case by (intro exI [of _ "0 :: nat"]) (simp add: counted_refl)
  next
    case (Cons env envs)
    let ?w = "run_worker opt record_it env s"
    obtain samples' left' where r: "run_all opt record_it envs (w_s ?w) = (s', samples', left')"
        "samples = w_samples ?w # samples'" "left = w_open ?w + left'"
      using Cons.prems by (auto simp: Let_def split: prod.splits)
    obtain g b where w: "counted (nat (l_payload opt)) s (w_s ?w) (int g) (int b)" "length (w_samples ?w) = of_bool record_it * g"
        "w_open ?w = 0" "l_requests opt \<noteq> 0 \<longrightarrow> int g \<le> l_requests opt"
      using run_worker_accounts [OF m(1), of record_it s env] m(2) unfolding accounts_def by metis
    obtain g' b' where i: "counted (nat (l_payload opt)) (w_s ?w) s' (int g') (int b')" "left' = 0" "length samples' = length envs"
        "sum_list (map length samples') = of_bool record_it * g'"
        "l_requests opt \<noteq> 0 \<longrightarrow> int g' \<le> int (length envs) * l_requests opt"
      using Cons.IH [OF r(1)] by metis
    show ?case
      by (intro exI [of _ "g + g'"] exI [of _ "b + b'"])
        (use w i r(2,3) counted_trans [OF w(1) i(1)] in \<open>auto simp: algebra_simps\<close>)
  qed
qed

text \<open>Over a network that dials, accepts writes and echoes the payload a worker does exactly the
  requests it was asked for, or all rounds before the deadline, without an error, with one
  connection per request in the mode connrate and one in all otherwise, and records one round trip
  time each.\<close>

theorem healthy_network_completes:
  assumes "load_options_ok opt" "fst env = Dialed" "\<forall>r\<in>set (snd env). healthy (makePayload (nat (l_payload opt))) r"
  shows "let w = run_worker opt record_it env s; rounds = snd env;
      k = (if l_requests opt = 0 then length rounds else min (nat (l_requests opt)) (length rounds));
      rtt = (if l_proto opt = ''tcp'' \<and> l_mode opt = ''connrate'' then r_total else r_rtt) in
    ls_requests (w_s w) = ls_requests s + int k \<and> totalErrors (w_s w) = totalErrors s \<and>
    ls_newConns (w_s w) = ls_newConns s + (if l_mode opt = ''connrate'' then int k else 1) \<and>
    w_samples w = (if record_it then map rtt (take k rounds) else [])"
proof -
  let ?p = "makePayload (nat (l_payload opt))" and ?w = "new_worker s" and ?buf = "nat (l_payload opt) + 64" and ?rs = "snd env"
  have m: "l_mode opt = ''throughput'' \<or> l_mode opt = ''connrate''" using assms(1) by (auto simp: load_options_ok_def)
  have "0 \<le> l_requests opt" using assms(1) by (simp add: load_options_ok_def)
  then have k: "todo (budget opt) 0 ?rs = (if l_requests opt = 0 then length ?rs else min (nat (l_requests opt)) (length ?rs))"
    by (simp add: todo_def budget_def)
  consider "l_proto opt = ''tcp''" "l_mode opt = ''throughput''" | "l_proto opt = ''tcp''" "l_mode opt = ''connrate''"
    | "l_proto opt \<noteq> ''tcp''" "l_mode opt = ''throughput''" | "l_proto opt \<noteq> ''tcp''" "l_mode opt = ''connrate''"
    using m by blast
  then show ?thesis
  proof cases
    case 1
    then have "run_worker opt record_it env s = closed_w (stream_loop record_it ?p (budget opt) ?rs [] 0 (dialed_w ?w))"
      using assms(2) by (simp add: run_worker_def runTCP_def runTCPStream_def Let_def)
    then show ?thesis using stream_completes [OF assms(3), of record_it "budget opt" 0 "dialed_w ?w"] 1 assms(2) k
      by (simp add: completes_def Let_def worker_ops new_worker_def totalErrors_def)
  next
    case 2
    then have "run_worker opt record_it env s = connrate_loop record_it ?p (budget opt) ?rs 0 ?w"
      by (simp add: run_worker_def runTCP_def Let_def)
    then show ?thesis using connrate_completes [OF assms(3), of record_it "budget opt" 0 ?w] 2 k
      by (simp add: completes_def Let_def new_worker_def)
  next
    case 3
    then have "run_worker opt record_it env s = closed_w (udp_loop record_it False ?p ?buf (budget opt) ?rs 0 (dialed_w ?w))"
      using assms(2) by (simp add: run_worker_def runUDP_def udp_dial_def Let_def)
    then show ?thesis using udp_completes [OF assms(3), of ?buf record_it False "budget opt" 0 "dialed_w ?w"] 3 k
      by (simp add: completes_def Let_def worker_ops new_worker_def totalErrors_def)
  next
    case 4
    then have "run_worker opt record_it env s = udp_loop record_it True ?p ?buf (budget opt) ?rs 0 ?w"
      by (simp add: run_worker_def runUDP_def Let_def)
    then show ?thesis using udp_completes [OF assms(3), of ?buf record_it True "budget opt" 0 ?w] 4 k
      by (simp add: completes_def Let_def new_worker_def)
  qed
qed

text \<open>Witnesses: three rounds, of which the first reply is damaged, and a healthy connection.\<close>

definition load_opt1 :: load_options where
  "load_opt1 = load_defaults\<lparr>l_payload := 2, l_requests := 1, l_mode := ''connrate''\<rparr>"

definition load_rounds1 :: "load_round list" where
  "load_rounds1 = [\<lparr>r_dial = Dialed, r_write = True, r_in = Some [97, 0], r_rtt = 5, r_total = 6, r_wait = True\<rparr>,
     \<lparr>r_dial = Dialed, r_write = True, r_in = Some [97, 98], r_rtt = 7, r_total = 8, r_wait = True\<rparr>,
     \<lparr>r_dial = Dialed, r_write = True, r_in = Some [97, 98], r_rtt = 9, r_total = 9, r_wait = True\<rparr>]"

lemma load_opt1_ok: "load_options_ok load_opt1"
  by (simp add: load_options_ok_def load_opt1_def load_defaults_def defaultMaxLatencySamples_def)

lemma payload2: "makePayload 2 = [97, 98]" by (simp add: makePayload_def upt_rec)

lemma worker_counts_every_round_once_witness:
  "load_options_ok load_opt1 \<and> w_rounds (run_worker load_opt1 True (Dialed, load_rounds1) no_stats) = 2 \<and>
   (\<exists>good bad. counted 2 no_stats (w_s (run_worker load_opt1 True (Dialed, load_rounds1) no_stats)) (int good) (int bad) \<and>
      good + bad = 2 \<and> good \<le> 1)"
proof -
  let ?w = "run_worker load_opt1 True (Dialed, load_rounds1) no_stats"
  have r: "w_rounds ?w = 2"
    by (simp add: run_worker_def runTCP_def load_opt1_def load_defaults_def load_rounds1_def Let_def payload2 budget_def
        worker_ops new_worker_def tcpRoundTrip_def ReadFull_def)
  from worker_counts_every_round_once [OF load_opt1_ok, of True "(Dialed, load_rounds1)" no_stats]
  obtain good bad where "counted 2 no_stats (w_s ?w) (int good) (int bad)" "good + bad = w_rounds ?w" "int good \<le> 1"
    by (auto simp: Let_def load_opt1_def load_defaults_def)
  then show ?thesis using r load_opt1_ok by auto
qed

lemma healthy_network_completes_witness:
  "ls_requests (w_s (run_worker load_opt1 True (Dialed, tl load_rounds1) no_stats)) = 1 \<and>
   w_samples (run_worker load_opt1 True (Dialed, tl load_rounds1) no_stats) = [8]"
proof -
  have "\<forall>r\<in>set (snd (Dialed, tl load_rounds1)). healthy (makePayload (nat (l_payload load_opt1))) r"
    by (simp add: load_rounds1_def healthy_def load_opt1_def payload2)
  from healthy_network_completes [OF load_opt1_ok _ this, of True no_stats]
  show ?thesis by (simp add: Let_def load_opt1_def load_defaults_def load_rounds1_def no_stats_def)
qed

end
