(* ===== verification/Load_Sampler.thy ===== *)
theory Load_Sampler
  imports Thread_Pool "HOL-Library.Multiset"
begin

text \<open>
  The latency sampler of the load test, cmd/loadtest/main.go: \<open>latencySampler\<close> takes the round trip
  times of all workers without a lock.  Every load, fetch-and-add and compare-and-swap is one action
  of a worker; the workers interleave freely (theory \<open>Thread_Pool\<close>).  A sample is the pair of its
  sequence number and its value, so equal samples are the same pointer.  Sequence numbers are
  natural numbers (the code's counter has 64 bits), durations are non-negative \<open>int64\<close> values.
\<close>

unbundle bit_operations_syntax

section \<open>The pseudo random numbers\<close>

text \<open>\<open>nextSampleRandom\<close>, a xorshift generator; a state of zero is replaced by one.\<close>

definition nextSampleRandom :: "u64 \<Rightarrow> u64" where
  "nextSampleRandom state =
     (let s0 = (if state = 0 then 1 else state);
          s1 = s0 XOR push_bit 13 s0;
          s2 = s1 XOR drop_bit 7 s1;
          s3 = s2 XOR push_bit 17 s2 in s3)"

text \<open>A shifted word differs from the word itself, so the generator never reaches zero.\<close>

lemma push_bit_fixpoint:
  fixes x :: u64
  assumes "0 < n" "x = push_bit n x"
  shows "x = 0"
proof (rule bit_eqI)
  fix i assume "possible_bit TYPE(64 word) i"
  show "bit x i = bit (0 :: u64) i"
  proof (induction i rule: less_induct)
    case (less i)
    have "bit x i = bit (push_bit n x) i" by (rule arg_cong [OF assms(2)])
    then have "bit x i \<Longrightarrow> n \<le> i \<and> bit x (i - n)" by (simp add: bit_push_bit_iff)
    then show ?case using less [of "i - n"] assms(1) by fastforce
  qed
qed

lemma drop_bit_fixpoint:
  fixes x :: u64
  assumes "0 < n" "x = drop_bit n x"
  shows "x = 0"
proof -
  have *: "\<not> bit x i" if "64 \<le> i + k" for i k
    using that
  proof (induction k arbitrary: i rule: less_induct)
    case (less k)
    show ?case
    proof (cases "64 \<le> i")
      case True
      then show ?thesis using bit_imp_le_length [of x i] by auto
    next
      case False
      have "bit x i = bit (drop_bit n x) i" by (rule arg_cong [OF assms(2)])
      then have "bit x i = bit x (i + n)" by (simp add: bit_drop_bit_eq add.commute)
      moreover have "\<not> bit x (i + n)"
        using less False assms(1) by (intro less(1) [of "k - n"]) auto
      ultimately show ?thesis by simp
    qed
  qed
  show ?thesis by (rule bit_eqI) (use * [of _ 64] in simp)
qed

lemma nextSampleRandom_nonzero: "nextSampleRandom state \<noteq> 0"
proof -
  have x: "a = b" if "a XOR b = 0" for a b :: u64
  proof (rule bit_eqI)
    fix i
    have "bit (a XOR b) i = bit (0 :: u64) i" using that by simp
    then show "bit a i = bit b i" by (simp add: bit_xor_iff)
  qed
  define s0 where "s0 = (if state = 0 then 1 else state)"
  define s1 where "s1 = s0 XOR push_bit 13 s0"
  define s2 where "s2 = s1 XOR drop_bit 7 s1"
  have "s0 \<noteq> 0" by (simp add: s0_def)
  then have "s1 \<noteq> 0" using push_bit_fixpoint [of 13 s0] x [of s0 "push_bit 13 s0"] unfolding s1_def by linarith
  then have "s2 \<noteq> 0" using drop_bit_fixpoint [of 7 s1] x [of s1 "drop_bit 7 s1"] unfolding s2_def by linarith
  then have "s2 XOR push_bit 17 s2 \<noteq> 0" using push_bit_fixpoint [of 17 s2] x [of s2 "push_bit 17 s2"] by linarith
  then show ?thesis by (simp add: nextSampleRandom_def Let_def s0_def s1_def s2_def)
qed

section \<open>The sampler\<close>

text \<open>\<open>sm_order\<close> and \<open>sm_pick\<close> are observations: the values in the order of their sequence numbers,
  and the slot each of them was admitted to, once that is decided.\<close>

record sampler =
  sm_slots :: "(nat \<times> int) option list"
  sm_limit :: nat
  sm_seen :: nat
  sm_min :: int
  sm_max :: int
  sm_order :: "int list"
  sm_pick :: "nat \<Rightarrow> nat option option"

definition max_int64 :: int where "max_int64 = 9223372036854775807"

definition newLatencySampler :: "nat \<Rightarrow> sampler" where
  "newLatencySampler limit =
     \<lparr>sm_slots = replicate limit None, sm_limit = limit, sm_seen = 0, sm_min = max_int64, sm_max = 0,
      sm_order = [], sm_pick = (\<lambda>q. None)\<rparr>"

text \<open>Where a worker is inside \<open>add\<close>: the two loops of \<open>updateAtomicMin\<close> and \<open>updateAtomicMax\<close>
  (load, compare-and-swap), the fetch-and-add, the choice of the slot, and the loop over the slot.\<close>

datatype add_stage = AIdle | AMin int | AMinCas int int | AMax int | AMaxCas int int | ASeq int
  | APick int nat | ALoad nat nat int | ACas nat nat int "(nat \<times> int) option"

text \<open>A worker: the durations it still has to add, its private random state, its stage.\<close>

type_synonym adder = "int list \<times> u64 \<times> add_stage"

definition updateAtomicMin_load :: "int \<Rightarrow> sampler \<Rightarrow> add_stage" where
  "updateAtomicMin_load v s = (if v < sm_min s then AMinCas v (sm_min s) else AMax v)"

definition updateAtomicMax_load :: "int \<Rightarrow> sampler \<Rightarrow> add_stage" where
  "updateAtomicMax_load v s = (if v > sm_max s then AMaxCas v (sm_max s) else ASeq v)"

text \<open>The slot of the sample with number \<open>q\<close>: its own for the first \<open>limit\<close> ones, a random one or
  none afterwards.\<close>

definition sample_index :: "nat \<Rightarrow> u64 \<Rightarrow> nat \<Rightarrow> nat option \<times> u64" where
  "sample_index limit state q =
     (if q > limit then
        (let state' = nextSampleRandom state; index = unat state' mod q in
         (if index \<ge> limit then None else Some index, state'))
      else (Some (q - 1), state))"

definition slot_load :: "nat \<Rightarrow> nat \<Rightarrow> int \<Rightarrow> sampler \<Rightarrow> add_stage" where
  "slot_load index q v s =
     (let current = sm_slots s ! index in
      if (case current of Some (q', v') \<Rightarrow> q' > q | None \<Rightarrow> False) then AIdle else ACas index q v current)"

fun sampler_act :: "unit \<Rightarrow> adder \<Rightarrow> sampler \<Rightarrow> (adder \<times> adder list \<times> sampler) option" where
  "sampler_act u ([], st, AIdle) s = None"
| "sampler_act u (v # vs, st, AIdle) s = Some ((vs, st, AMin v), [], s)"
| "sampler_act u (vs, st, AMin v) s = Some ((vs, st, updateAtomicMin_load v s), [], s)"
| "sampler_act u (vs, st, AMinCas v cur) s =
     (if sm_min s = cur then Some ((vs, st, AMax v), [], s\<lparr>sm_min := v\<rparr>) else Some ((vs, st, AMin v), [], s))"
| "sampler_act u (vs, st, AMax v) s = Some ((vs, st, updateAtomicMax_load v s), [], s)"
| "sampler_act u (vs, st, AMaxCas v cur) s =
     (if sm_max s = cur then Some ((vs, st, ASeq v), [], s\<lparr>sm_max := v\<rparr>) else Some ((vs, st, AMax v), [], s))"
| "sampler_act u (vs, st, ASeq v) s =
     Some ((vs, st, APick v (Suc (sm_seen s))), [], s\<lparr>sm_seen := Suc (sm_seen s), sm_order := sm_order s @ [v]\<rparr>)"
| "sampler_act u (vs, st, APick v q) s =
     (case sample_index (sm_limit s) st q of (choice, st') \<Rightarrow>
        Some ((vs, st', case choice of Some index \<Rightarrow> ALoad index q v | None \<Rightarrow> AIdle), [],
          s\<lparr>sm_pick := (sm_pick s)(q := Some choice)\<rparr>))"
| "sampler_act u (vs, st, ALoad index q v) s = Some ((vs, st, slot_load index q v s), [], s)"
| "sampler_act u (vs, st, ACas index q v cur) s =
     (if sm_slots s ! index = cur
      then Some ((vs, st, AIdle), [], s\<lparr>sm_slots := (sm_slots s)[index := Some (q, v)]\<rparr>)
      else Some ((vs, st, ALoad index q v), [], s))"

text \<open>\<open>extrema\<close> and \<open>values\<close>.\<close>

definition extrema :: "sampler \<Rightarrow> int \<times> int" where
  "extrema s = (if sm_seen s = 0 then (0, 0) else (sm_min s, sm_max s))"

definition sampler_values :: "sampler \<Rightarrow> int list" where
  "sampler_values s = map snd (List.map_filter id (sm_slots s))"

section \<open>What it implements\<close>

text \<open>Sequential reservoir sampling (algorithm R): the values in order, each with the slot it is
  admitted to; a later one replaces an earlier one.\<close>

fun reservoir :: "(nat \<times> int) option list \<Rightarrow> nat \<Rightarrow> (int \<times> nat option) list \<Rightarrow> (nat \<times> int) option list" where
  "reservoir slots q [] = slots"
| "reservoir slots q ((v, choice) # vs) =
     reservoir (case choice of Some index \<Rightarrow> slots[index := Some (q, v)] | None \<Rightarrow> slots) (q + 1) vs"

definition decided :: "sampler \<Rightarrow> (int \<times> nat option) list" where
  "decided s = map (\<lambda>q. (sm_order s ! (q - 1), the (sm_pick s q))) [1..<Suc (sm_seen s)]"

section \<open>Invariant\<close>

definition sampler_good :: "sampler \<Rightarrow> bool" where
  "sampler_good s \<longleftrightarrow>
     length (sm_slots s) = sm_limit s \<and> sm_seen s = length (sm_order s) \<and>
     (\<forall>v\<in>set (sm_order s). sm_min s \<le> v \<and> v \<le> sm_max s) \<and>
     (\<forall>q c. sm_pick s q = Some c \<longrightarrow> 1 \<le> q \<and> q \<le> sm_seen s \<and> (q \<le> sm_limit s \<longrightarrow> c = Some (q - 1)) \<and>
        (\<forall>j. c = Some j \<longrightarrow> j < sm_limit s)) \<and>
     (\<forall>j < sm_limit s. \<forall>q v. sm_slots s ! j = Some (q, v) \<longrightarrow> sm_pick s q = Some (Some j) \<and> v = sm_order s ! (q - 1))"

fun stage_fits :: "sampler \<Rightarrow> add_stage \<Rightarrow> bool" where
  "stage_fits s AIdle = True"
| "stage_fits s (AMin v) = True"
| "stage_fits s (AMinCas v cur) = (v < cur)"
| "stage_fits s (AMax v) = (sm_min s \<le> v)"
| "stage_fits s (AMaxCas v cur) = (sm_min s \<le> v \<and> cur < v)"
| "stage_fits s (ASeq v) = (sm_min s \<le> v \<and> v \<le> sm_max s)"
| "stage_fits s (APick v q) = (1 \<le> q \<and> q \<le> sm_seen s \<and> sm_pick s q = None \<and> sm_order s ! (q - 1) = v)"
| "stage_fits s (ALoad j q v) = (sm_pick s q = Some (Some j) \<and> sm_order s ! (q - 1) = v)"
| "stage_fits s (ACas j q v cur) = (sm_pick s q = Some (Some j) \<and> sm_order s ! (q - 1) = v \<and>
     (\<forall>q' v'. cur = Some (q', v') \<longrightarrow> q' \<le> q))"

fun stage_claims :: "add_stage \<Rightarrow> nat set" where
  "stage_claims (APick v q) = {q}"
| "stage_claims _ = {}"

definition adder_fits :: "sampler \<Rightarrow> adder \<Rightarrow> bool" where
  "adder_fits s t = stage_fits s (snd (snd t))"

definition adder_claims :: "adder \<Rightarrow> nat set" where
  "adder_claims t = stage_claims (snd (snd t))"

lemma sample_index_choice:
  "sample_index limit state q = (choice, state') \<Longrightarrow>
     (q \<le> limit \<longrightarrow> choice = Some (q - 1)) \<and> (limit < q \<longrightarrow> (\<forall>j. choice = Some j \<longrightarrow> j < limit))"
  by (auto simp: sample_index_def Let_def split: if_splits)

text \<open>The changes an action makes to the shared state.\<close>

inductive sampler_effect :: "add_stage \<Rightarrow> sampler \<Rightarrow> sampler \<Rightarrow> bool" for st s where
  se_none: "sampler_effect st s s"
| se_min: "st = AMinCas v (sm_min s) \<Longrightarrow> sampler_effect st s (s\<lparr>sm_min := v\<rparr>)"
| se_max: "st = AMaxCas v (sm_max s) \<Longrightarrow> sampler_effect st s (s\<lparr>sm_max := v\<rparr>)"
| se_seq: "st = ASeq v \<Longrightarrow> sampler_effect st s (s\<lparr>sm_seen := Suc (sm_seen s), sm_order := sm_order s @ [v]\<rparr>)"
| se_pick: "st = APick v q \<Longrightarrow> (q \<le> sm_limit s \<longrightarrow> choice = Some (q - 1)) \<Longrightarrow>
    (\<forall>j. choice = Some j \<longrightarrow> j < sm_limit s) \<Longrightarrow>
    sampler_effect st s (s\<lparr>sm_pick := (sm_pick s)(q := Some choice)\<rparr>)"
| se_slot: "st = ACas j q v (sm_slots s ! j) \<Longrightarrow>
    sampler_effect st s (s\<lparr>sm_slots := (sm_slots s)[j := Some (q, v)]\<rparr>)"

lemma act_effect:
  assumes "sampler_act u (vs, rng, st) s = Some (t', sp, s')" "stage_fits s st"
  shows "sampler_effect st s s'"
proof (cases st)
  case (APick v q)
  obtain choice rng' where i: "sample_index (sm_limit s) rng q = (choice, rng')" by (cases "sample_index (sm_limit s) rng q")
  have q: "1 \<le> q" using assms(2) APick by simp
  have "q \<le> sm_limit s \<longrightarrow> choice = Some (q - 1)" "\<forall>j. choice = Some j \<longrightarrow> j < sm_limit s"
    using sample_index_choice [OF i] q by (cases "q \<le> sm_limit s"; force)+
  then show ?thesis using assms(1) APick i by (auto intro: se_pick)
next
  case AIdle
  then show ?thesis using assms by (cases vs) (auto intro: se_none)
qed (use assms in \<open>auto intro: sampler_effect.intros split: if_splits\<close>)

lemma sampler_effect_good:
  assumes "sampler_effect st s s'" "sampler_good s" "stage_fits s st"
  shows "sampler_good s'"
  using assms(1)
proof cases
  case (se_min v)
  then show ?thesis using assms(2,3) by (fastforce simp: sampler_good_def)
next
  case (se_max v)
  then show ?thesis using assms(2,3) by (fastforce simp: sampler_good_def)
next
  case (se_seq v)
  have o: "(sm_order s @ [v]) ! (q - 1) = sm_order s ! (q - 1)" if "sm_pick s q = Some c" for q c
    using that assms(2) by (simp add: sampler_good_def nth_append) (metis Suc_pred le_simps(2) not_less_eq_eq less_eq_Suc_le)
  then show ?thesis using se_seq assms(2,3) by (auto simp: sampler_good_def) (metis le_SucI)+
next
  case (se_pick v q choice)
  then show ?thesis using assms(2,3) by (auto simp: sampler_good_def)
next
  case (se_slot j q v)
  then show ?thesis using assms(2,3) by (auto simp: sampler_good_def nth_list_update split: if_splits)
qed (use assms(2) in simp)

lemma sampler_effect_fits:
  assumes "sampler_effect st s s'" "sampler_good s" "stage_fits s st" "stage_fits s u" "stage_claims st \<inter> stage_claims u = {}"
  shows "stage_fits s' u"
  using assms(1)
proof cases
  case (se_seq v)
  have "(sm_order s @ [v]) ! (q - 1) = sm_order s ! (q - 1)" if "1 \<le> q" "q \<le> sm_seen s" for q
    using that assms(2) by (auto simp: sampler_good_def nth_append)
  moreover have "1 \<le> q \<and> q \<le> sm_seen s" if "sm_pick s q = Some c" for q c
    using that assms(2) by (auto simp: sampler_good_def)
  ultimately show ?thesis using se_seq assms(4) by (cases u) auto
next
  case (se_pick v q choice)
  then show ?thesis using assms(3-5) by (cases u) auto
next
  case (se_slot j q v)
  then show ?thesis using assms(4) by (cases u) auto
qed (use assms(3,4) in \<open>(cases u; auto)+\<close>)

lemma act_next:
  assumes "sampler_act u (vs, rng, st) s = Some (t', sp, s')" "sampler_good s" "stage_fits s st"
  shows "stage_fits s' (snd (snd t')) \<and> sp = [] \<and>
    (\<forall>q\<in>stage_claims (snd (snd t')). q \<in> stage_claims st \<or> sm_seen s < q)"
proof (cases st)
  case (APick v q)
  obtain choice rng' where i: "sample_index (sm_limit s) rng q = (choice, rng')" by (cases "sample_index (sm_limit s) rng q")
  then show ?thesis using assms APick by (auto split: option.splits)
next
  case AIdle
  then show ?thesis using assms by (cases vs) auto
next
  case (ASeq v)
  then show ?thesis using assms by (auto simp: sampler_good_def) (metis le_SucI not_less_eq_eq option.exhaust order_refl)
qed (use assms in \<open>auto simp: updateAtomicMin_load_def updateAtomicMax_load_def slot_load_def Let_def
      split: if_splits option.splits\<close>)

lemma claims_seen: "sampler_good s \<Longrightarrow> stage_fits s u \<Longrightarrow> q \<in> stage_claims u \<Longrightarrow> q \<le> sm_seen s"
  by (cases u) auto

interpretation sampler_inv: pool_invariant sampler_act sampler_good adder_fits adder_claims
proof unfold_locales
  fix ch t s t' sp s'
  assume a: "sampler_act ch t s = Some (t', sp, s')" "sampler_good s" "adder_fits s t"
  obtain vs rng st where t: "t = (vs, rng, st)" by (cases t)
  have f: "stage_fits s st" using a(3) t by (simp add: adder_fits_def)
  note act = a(1) [unfolded t]
  note e = act_effect [OF act f] and n = act_next [OF act a(2) f]
  show "sampler_good s'" by (rule sampler_effect_good [OF e a(2) f])
  show "adder_fits s' t' \<and> (\<forall>u\<in>set sp. adder_fits s' u)" using n by (simp add: adder_fits_def)
  show "sp = [] \<or> (\<exists>v. sp = [v] \<and> adder_claims t' \<inter> adder_claims v = {})" using n by simp
  fix u
  assume u: "adder_fits s u" "adder_claims t \<inter> adder_claims u = {}"
  then have u': "stage_fits s (snd (snd u))" "stage_claims st \<inter> stage_claims (snd (snd u)) = {}"
    using t by (simp_all add: adder_fits_def adder_claims_def)
  show "adder_fits s' u" using sampler_effect_fits [OF e a(2) f u'] by (simp add: adder_fits_def)
  fix v
  assume "v = t' \<or> v \<in> set sp"
  then have "v = t'" using n by simp
  then show "adder_claims v \<inter> adder_claims u = {}"
    using n u'(2) claims_seen [OF a(2) u'(1)] by (fastforce simp: adder_claims_def)
qed

section \<open>Nothing is lost\<close>

text \<open>A number without a decision, a decision whose sample has not reached its slot, and a minimum or
  a maximum whose value has no number yet are in the hands of a worker.\<close>

datatype sample_duty = Undecided nat | Unplaced nat nat | MinOf int | MaxOf int

definition placed :: "sampler \<Rightarrow> nat \<Rightarrow> nat \<Rightarrow> bool" where
  "placed s q j \<longleftrightarrow> (case sm_slots s ! j of Some (q', v) \<Rightarrow> q \<le> q' | None \<Rightarrow> False)"

definition sampler_loose :: "sampler \<Rightarrow> sample_duty set" where
  "sampler_loose s =
     {Undecided q | q. 1 \<le> q \<and> q \<le> sm_seen s \<and> sm_pick s q = None} \<union>
     {Unplaced q j | q j. sm_pick s q = Some (Some j) \<and> \<not> placed s q j} \<union>
     {MinOf v | v. v = sm_min s \<and> v \<notin> set (sm_order s) \<and> v \<noteq> max_int64} \<union>
     {MaxOf v | v. v = sm_max s \<and> v \<notin> set (sm_order s) \<and> v \<noteq> 0}"

fun stage_own :: "add_stage \<Rightarrow> sample_duty set" where
  "stage_own (AMax v) = {MinOf v}"
| "stage_own (AMaxCas v cur) = {MinOf v}"
| "stage_own (ASeq v) = {MinOf v, MaxOf v}"
| "stage_own (APick v q) = {Undecided q}"
| "stage_own (ALoad j q v) = {Unplaced q j}"
| "stage_own (ACas j q v cur) = {Unplaced q j}"
| "stage_own _ = {}"

definition adder_own :: "adder \<Rightarrow> sample_duty set" where
  "adder_own t = stage_own (snd (snd t))"

lemma sampler_loose_mem [simp]:
  "Undecided q \<in> sampler_loose s \<longleftrightarrow> 1 \<le> q \<and> q \<le> sm_seen s \<and> sm_pick s q = None"
  "Unplaced q j \<in> sampler_loose s \<longleftrightarrow> sm_pick s q = Some (Some j) \<and> \<not> placed s q j"
  "MinOf v \<in> sampler_loose s \<longleftrightarrow> v = sm_min s \<and> v \<notin> set (sm_order s) \<and> v \<noteq> max_int64"
  "MaxOf v \<in> sampler_loose s \<longleftrightarrow> v = sm_max s \<and> v \<notin> set (sm_order s) \<and> v \<noteq> 0"
  by (auto simp: sampler_loose_def)

lemma act_hand_over:
  assumes "sampler_act u (vs, rng, st) s = Some (t', sp, s')" "sampler_good s" "stage_fits s st" "x \<in> sampler_loose s'"
  shows "x \<in> sampler_loose s \<and> x \<notin> stage_own st \<or> x \<in> stage_own (snd (snd t'))"
proof (cases st)
  case AIdle
  then show ?thesis using assms by (cases vs) auto
next
  case (AMinCas v cur)
  then show ?thesis using assms by (cases x) (auto simp: placed_def split: if_splits)
next
  case (AMax v)
  then show ?thesis using assms by (auto simp: updateAtomicMax_load_def split: if_splits)
next
  case (AMaxCas v cur)
  then show ?thesis using assms by (cases x) (auto simp: placed_def split: if_splits)
next
  case (ASeq v)
  then show ?thesis using assms by (cases x) (auto simp: placed_def le_Suc_eq)
next
  case (APick v q)
  obtain choice rng' where i: "sample_index (sm_limit s) rng q = (choice, rng')" by (cases "sample_index (sm_limit s) rng q")
  then show ?thesis using assms APick by (cases x) (auto simp: placed_def split: option.splits if_splits)
next
  case (ALoad j q v)
  then show ?thesis using assms
    by (cases x) (auto simp: placed_def slot_load_def Let_def split: if_splits option.splits)
next
  case (ACas j q v cur)
  show ?thesis
  proof (cases "sm_slots s ! j = cur")
    case True
    have j: "j < length (sm_slots s)" using assms(2,3) ACas by (auto simp: sampler_good_def)
    then show ?thesis using assms ACas True
      by (cases x) (auto simp: placed_def nth_list_update split: if_splits option.splits)
  next
    case False
    then show ?thesis using assms ACas by auto
  qed
qed (use assms in \<open>auto simp: updateAtomicMin_load_def split: if_splits\<close>)

interpretation sampler_res: pool_resources sampler_act sampler_good adder_fits adder_claims sampler_loose adder_own
proof unfold_locales
  fix ch t s t' sp s'
  assume a: "sampler_act ch t s = Some (t', sp, s')" "sampler_good s" "adder_fits s t"
  obtain vs rng st where t: "t = (vs, rng, st)" by (cases t)
  show "sampler_loose s' \<subseteq> (sampler_loose s - adder_own t) \<union> adder_own t' \<union> \<Union> (adder_own ` set sp)"
    using act_hand_over [OF a(1) [unfolded t] a(2)] a(3) t by (auto simp: adder_fits_def adder_own_def)
qed

text \<open>The values still to come, and that none is lost or added twice.\<close>

fun stage_value :: "add_stage \<Rightarrow> int multiset" where
  "stage_value (AMin v) = {#v#}"
| "stage_value (AMinCas v cur) = {#v#}"
| "stage_value (AMax v) = {#v#}"
| "stage_value (AMaxCas v cur) = {#v#}"
| "stage_value (ASeq v) = {#v#}"
| "stage_value _ = {#}"

definition adder_values :: "adder \<Rightarrow> int multiset" where
  "adder_values t = mset (fst t) + stage_value (snd (snd t))"

lemma act_values:
  assumes "sampler_act u (vs, rng, st) s = Some (t', sp, s')"
  shows "sp = [] \<and> mset (sm_order s') + adder_values t' = mset (sm_order s) + adder_values (vs, rng, st)"
proof (cases st)
  case AIdle
  then show ?thesis using assms by (cases vs) (auto simp: adder_values_def)
qed (use assms in \<open>auto simp: adder_values_def updateAtomicMin_load_def updateAtomicMax_load_def slot_load_def Let_def
      split: if_splits option.splits prod.splits\<close>)

lemma pool_values:
  assumes "pool_step sampler_act x y"
  shows "length (snd y) = length (snd x) \<and>
    mset (sm_order (fst y)) + sum_list (map adder_values (snd y)) = mset (sm_order (fst x)) + sum_list (map adder_values (snd x))"
  using assms
proof cases
  case (pool_stepI i ts ch c t' sp c')
  obtain vs rng st where t: "ts ! i = (vs, rng, st)" by (cases "ts ! i")
  note a = act_values [OF pool_stepI(4) [unfolded t]]
  have "sum_list (map adder_values (ts[i := t'])) + adder_values (ts ! i) = sum_list (map adder_values ts) + adder_values t'"
    by (rule sum_list_map_update [OF pool_stepI(3)])
  then have "mset (sm_order c') + sum_list (map adder_values (ts[i := t'])) + adder_values (ts ! i) =
      (mset (sm_order c') + adder_values t') + sum_list (map adder_values ts)"
    by (simp add: ac_simps)
  also have "\<dots> = mset (sm_order c) + sum_list (map adder_values ts) + adder_values (ts ! i)"
    using a t by (simp add: ac_simps)
  finally show ?thesis using pool_stepI(1,2) a by simp
qed

section \<open>The reservoir\<close>

lemma reservoir_snoc:
  "reservoir slots q (ds @ [(v, c)]) =
     (case c of Some j \<Rightarrow> (reservoir slots q ds)[j := Some (q + length ds, v)] | None \<Rightarrow> reservoir slots q ds)"
  by (induction slots q ds rule: reservoir.induct) (auto split: option.splits)

lemma length_reservoir [simp]: "length (reservoir slots q ds) = length slots"
  by (induction slots q ds rule: reservoir.induct) (auto split: option.splits)

text \<open>The slot holds the newest sample admitted to it among the first \<open>n\<close>.\<close>

definition newest :: "sampler \<Rightarrow> nat \<Rightarrow> nat \<Rightarrow> (nat \<times> int) option \<Rightarrow> bool" where
  "newest s n j x \<longleftrightarrow>
     (case x of
        None \<Rightarrow> \<forall>q. 1 \<le> q \<and> q \<le> n \<longrightarrow> sm_pick s q \<noteq> Some (Some j)
      | Some (q, v) \<Rightarrow> 1 \<le> q \<and> q \<le> n \<and> sm_pick s q = Some (Some j) \<and> v = sm_order s ! (q - 1) \<and>
          (\<forall>q'. q < q' \<and> q' \<le> n \<longrightarrow> sm_pick s q' \<noteq> Some (Some j)))"

lemma newest_None: "newest s n j None \<longleftrightarrow> (\<forall>q. 1 \<le> q \<and> q \<le> n \<longrightarrow> sm_pick s q \<noteq> Some (Some j))"
  by (simp add: newest_def)

lemma newest_Some: "newest s n j (Some (q, v)) \<longleftrightarrow> 1 \<le> q \<and> q \<le> n \<and> sm_pick s q = Some (Some j) \<and>
    v = sm_order s ! (q - 1) \<and> (\<forall>q'. q < q' \<and> q' \<le> n \<longrightarrow> sm_pick s q' \<noteq> Some (Some j))"
  by (simp add: newest_def)

lemma newest_unique:
  assumes "newest s n j x" "newest s n j y"
  shows "x = y"
proof (cases x)
  case None
  then show ?thesis using assms by (cases y) (auto simp: newest_None newest_Some)
next
  case (Some p)
  obtain q v where x: "x = Some (q, v)" using Some by (cases p) simp
  have "y \<noteq> None"
  proof
    assume "y = None"
    then have "newest s n j None" using assms(2) by simp
    then show False using assms(1) [unfolded x newest_Some] unfolding newest_None by blast
  qed
  then obtain q' v' where y: "y = Some (q', v')" by auto
  note f = assms [unfolded x y newest_Some]
  have "q = q'" using f by (meson linorder_neqE_nat)
  then show ?thesis using f x y by simp
qed

lemma reservoir_newest:
  assumes "\<forall>q. 1 \<le> q \<and> q \<le> n \<longrightarrow> sm_pick s q \<noteq> None" "j < limit"
  shows "newest s n j (reservoir (replicate limit None) 1 (map (\<lambda>q. (sm_order s ! (q - 1), the (sm_pick s q))) [1..<Suc n]) ! j)"
  using assms(1)
proof (induction n)
  case 0
  then show ?case using assms(2) by (simp add: newest_def)
next
  case (Suc n)
  let ?d = "\<lambda>q. (sm_order s ! (q - 1), the (sm_pick s q))"
  let ?r = "reservoir (replicate limit None) 1 (map ?d [1..<Suc n])"
  have r: "reservoir (replicate limit None) 1 (map ?d [1..<Suc (Suc n)]) =
      (case the (sm_pick s (Suc n)) of Some k \<Rightarrow> ?r[k := Some (Suc n, sm_order s ! n)] | None \<Rightarrow> ?r)"
  proof -
    have m: "map ?d [1..<Suc (Suc n)] = map ?d [1..<Suc n] @ [(sm_order s ! n, the (sm_pick s (Suc n)))]" by simp
    have l: "1 + length (map ?d [1..<Suc n]) = Suc n" by simp
    show ?thesis unfolding m reservoir_snoc l ..
  qed
  obtain c where c: "sm_pick s (Suc n) = Some c" using Suc.prems by force
  have IH: "newest s n j (?r ! j)" using Suc by simp
  show ?case
  proof (cases "c = Some j")
    case True
    then show ?thesis unfolding r using c assms(2) by (auto simp: newest_def)
  next
    case False
    then have "newest s (Suc n) j (?r ! j)" using IH c by (auto simp: newest_def le_Suc_eq split: option.splits)
    moreover have "(case c of Some k \<Rightarrow> ?r[k := Some (Suc n, sm_order s ! n)] | None \<Rightarrow> ?r) ! j = ?r ! j"
      using False by (cases c) auto
    ultimately show ?thesis unfolding r using c by simp
  qed
qed

lemma all_decided:
  assumes "sampler_loose s = {}" "1 \<le> q" "q \<le> sm_seen s"
  shows "sm_pick s q \<noteq> None"
proof
  assume "sm_pick s q = None"
  then have "Undecided q \<in> sampler_loose s" using assms(2,3) by simp
  then show False using assms(1) by simp
qed

lemma good_slot:
  assumes "sampler_good s" "j < sm_limit s" "sm_slots s ! j = Some (q, v)"
  shows "sm_pick s q = Some (Some j) \<and> v = sm_order s ! (q - 1) \<and> 1 \<le> q \<and> q \<le> sm_seen s"
proof -
  have p: "sm_pick s q = Some (Some j) \<and> v = sm_order s ! (q - 1)"
    using assms unfolding sampler_good_def by metis
  moreover have "1 \<le> q \<and> q \<le> sm_seen s"
    using assms(1) p unfolding sampler_good_def by metis
  ultimately show ?thesis by simp
qed

lemma slots_newest:
  assumes "sampler_good s" "sampler_loose s = {}" "j < sm_limit s"
  shows "newest s (sm_seen s) j (sm_slots s ! j)"
proof -
  have p: "placed s q j" if "sm_pick s q = Some (Some j)" for q
  proof (rule ccontr)
    assume "\<not> placed s q j"
    then have "Unplaced q j \<in> sampler_loose s" using that by simp
    then show False using assms(2) by simp
  qed
  show ?thesis
  proof (cases "sm_slots s ! j")
    case None
    then show ?thesis using p by (auto simp: newest_def placed_def)
  next
    case (Some x)
    then obtain q v where x: "sm_slots s ! j = Some (q, v)" by (cases x) simp
    then have f: "sm_pick s q = Some (Some j)" "v = sm_order s ! (q - 1)" "1 \<le> q" "q \<le> sm_seen s"
      using good_slot [OF assms(1,3) x] by simp_all
    have m: "q' \<le> q" if "sm_pick s q' = Some (Some j)" for q' using p [OF that] x by (simp add: placed_def)
    show ?thesis unfolding x newest_Some
    proof (intro conjI allI impI notI)
      fix q' assume "q < q' \<and> q' \<le> sm_seen s" "sm_pick s q' = Some (Some j)"
      then show False using m [of q'] by simp
    qed (rule f)+
  qed
qed

lemma slots_reservoir:
  assumes "sampler_good s" "sampler_loose s = {}"
  shows "sm_slots s = reservoir (replicate (sm_limit s) None) 1 (decided s)"
proof (rule nth_equalityI)
  show l: "length (sm_slots s) = length (reservoir (replicate (sm_limit s) None) 1 (decided s))"
    using assms(1) by (simp add: sampler_good_def)
  fix j assume "j < length (sm_slots s)"
  then have j: "j < sm_limit s" using l by simp
  have "\<forall>q. 1 \<le> q \<and> q \<le> sm_seen s \<longrightarrow> sm_pick s q \<noteq> None" using all_decided [OF assms(2)] by blast
  from newest_unique [OF slots_newest [OF assms j] reservoir_newest [OF this j]]
  show "sm_slots s ! j = reservoir (replicate (sm_limit s) None) 1 (decided s) ! j" by (simp only: decided_def)
qed

lemma slots_filled:
  assumes "sampler_good s" "sampler_loose s = {}" "j < sm_limit s"
  shows "sm_slots s ! j \<noteq> None \<longleftrightarrow> j < sm_seen s"
proof
  assume "sm_slots s ! j \<noteq> None"
  then obtain q v where "sm_pick s q = Some (Some j)" "1 \<le> q" "q \<le> sm_seen s"
    using slots_newest [OF assms] by (auto simp: newest_def)
  then show "j < sm_seen s" using assms(1,3) by (fastforce simp: sampler_good_def)
next
  assume j: "j < sm_seen s"
  then have "sm_pick s (Suc j) \<noteq> None" using all_decided [OF assms(2)] by simp
  then obtain c where c: "sm_pick s (Suc j) = Some c" by blast
  then have "c = Some j" using assms(1,3) by (fastforce simp: sampler_good_def)
  then have "\<not> newest s (sm_seen s) j None" unfolding newest_None using c j by (intro notI) (drule spec [of _ "Suc j"], simp)
  then show "sm_slots s ! j \<noteq> None" using slots_newest [OF assms] by metis
qed

lemma count_filled:
  assumes "sampler_good s" "sampler_loose s = {}"
  shows "length (sampler_values s) = min (sm_seen s) (sm_limit s)"
proof -
  have l: "length (sm_slots s) = sm_limit s" using assms(1) by (simp add: sampler_good_def)
  have "length (sampler_values s) = length (filter (\<lambda>x. x \<noteq> None) (sm_slots s))"
    by (simp add: sampler_values_def List.map_filter_def)
  also have "\<dots> = card {j. j < length (sm_slots s) \<and> sm_slots s ! j \<noteq> None}" by (rule length_filter_conv_card)
  also have "{j. j < length (sm_slots s) \<and> sm_slots s ! j \<noteq> None} = {..<min (sm_seen s) (sm_limit s)}"
    using slots_filled [OF assms] l by (intro set_eqI) (auto simp del: not_None_eq)
  finally show ?thesis by simp
qed

section \<open>Every run is short\<close>

text \<open>A compare-and-swap fails only when another worker's succeeded in between; every success takes a
  worker further in \<open>add\<close> for good.  With \<open>n\<close> workers, a stage is worth its distance to the end of
  \<open>add\<close>, every success that can still make the others repeat a load counting \<open>2n\<close> more, and a
  compare-and-swap that is bound to fail counting two.\<close>

definition retry_cost :: "nat \<Rightarrow> nat" where "retry_cost n = 2 * n + 2"

definition add_cost :: "nat \<Rightarrow> nat" where "add_cost n = 9 + 3 * retry_cost n"

fun stage_base :: "nat \<Rightarrow> add_stage \<Rightarrow> nat" where
  "stage_base n AIdle = 0"
| "stage_base n (AMin v) = 8 + 3 * retry_cost n"
| "stage_base n (AMinCas v cur) = 7 + 3 * retry_cost n"
| "stage_base n (AMax v) = 6 + 2 * retry_cost n"
| "stage_base n (AMaxCas v cur) = 5 + 2 * retry_cost n"
| "stage_base n (ASeq v) = 4 + retry_cost n"
| "stage_base n (APick v q) = 3 + retry_cost n"
| "stage_base n (ALoad j q v) = 2 + retry_cost n"
| "stage_base n (ACas j q v cur) = 1 + retry_cost n"

fun stage_stale :: "sampler \<Rightarrow> add_stage \<Rightarrow> nat" where
  "stage_stale s (AMinCas v cur) = (if sm_min s = cur then 0 else 2)"
| "stage_stale s (AMaxCas v cur) = (if sm_max s = cur then 0 else 2)"
| "stage_stale s (ACas j q v cur) = (if sm_slots s ! j = cur then 0 else 2)"
| "stage_stale s _ = 0"

fun adder_rank :: "nat \<Rightarrow> sampler \<Rightarrow> adder \<Rightarrow> nat" where
  "adder_rank n s (vs, rng, st) = add_cost n * length vs + stage_base n st + stage_stale s st"

definition sampler_rank :: "sampler \<times> adder list \<Rightarrow> nat" where
  "sampler_rank x = sum_list (map (adder_rank (length (snd x)) (fst x)) (snd x))"

fun adder_done :: "adder \<Rightarrow> bool" where
  "adder_done (vs, rng, st) \<longleftrightarrow> vs = [] \<and> st = AIdle"

definition sampler_done :: "sampler \<times> adder list \<Rightarrow> bool" where
  "sampler_done x \<longleftrightarrow> (\<forall>t\<in>set (snd x). adder_done t)"

lemma stage_stale_le: "stage_stale s st \<le> 2" by (cases st) auto

lemma act_rank:
  assumes "sampler_act u (vs, rng, st) s = Some (t', sp, s')"
  shows "sp = [] \<and>
    ((\<forall>w. stage_stale s' w = stage_stale s w) \<and> adder_rank n s' t' < adder_rank n s (vs, rng, st) \<or>
     adder_rank n s' t' + 2 * n < add_cost n * length vs + stage_base n st)"
proof (cases st)
  case AIdle
  then show ?thesis using assms by (cases vs) (auto simp: add_cost_def)
next
  case (ASeq v)
  have "stage_stale (s\<lparr>sm_seen := Suc (sm_seen s), sm_order := sm_order s @ [v]\<rparr>) w = stage_stale s w" for w
    by (cases w) auto
  then show ?thesis using assms ASeq by auto
next
  case (APick v q)
  have "stage_stale (s\<lparr>sm_pick := p\<rparr>) w = stage_stale s w" for w p by (cases w) auto
  then show ?thesis using assms APick by (auto split: prod.splits option.splits)
next
  case (ALoad j q v)
  then show ?thesis using assms by (auto simp: slot_load_def Let_def)
qed (use assms in \<open>auto simp: updateAtomicMin_load_def updateAtomicMax_load_def retry_cost_def split: if_splits\<close>)

lemma sampler_rank_step:
  assumes "pool_step sampler_act x y"
  shows "sampler_rank y < sampler_rank x"
  using assms
proof cases
  case (pool_stepI i ts ch c t' sp c')
  obtain vs rng st where t: "ts ! i = (vs, rng, st)" by (cases "ts ! i")
  let ?n = "length ts" and ?f = "adder_rank (length ts) c" and ?g = "adder_rank (length ts) c'"
  note a = act_rank [OF pool_stepI(4) [unfolded t], of ?n]
  have u: "sum_list (map ?g (ts[i := t'])) + ?g (ts ! i) = sum_list (map ?g ts) + ?g t'"
    by (rule sum_list_map_update [OF pool_stepI(3)])
  have y: "sampler_rank y = sum_list (map ?g (ts[i := t']))" and x: "sampler_rank x = sum_list (map ?f ts)"
    using pool_stepI(1,2) a by (simp_all add: sampler_rank_def)
  show ?thesis
    using a
  proof (elim conjE disjE)
    assume e: "\<forall>w. stage_stale c' w = stage_stale c w" and l: "?g t' < ?f (vs, rng, st)"
    have "?g = ?f" using e by (intro ext) (auto split: prod.splits)
    then show ?thesis using u l t x y by simp
  next
    assume l: "?g t' + 2 * ?n < add_cost ?n * length vs + stage_base ?n st"
    have "?g w \<le> ?f w + 2" for w using stage_stale_le [of c' "snd (snd w)"] by (cases w) simp
    then have "sum_list (map ?g ts) \<le> sum_list (map (\<lambda>w. ?f w + 2) ts)" by (intro sum_list_mono) simp
    also have "\<dots> = sum_list (map ?f ts) + 2 * ?n" by (simp only: sum_list_addf sum_list_triv) simp
    finally show ?thesis using u l t x y by simp
  qed
qed

lemma adder_able: "\<not> adder_done t \<Longrightarrow> \<exists>t' sp s'. sampler_act ch t s = Some (t', sp, s')"
  by (cases "(ch, t, s)" rule: sampler_act.cases) (auto split: prod.splits)

interpretation sampler_lf: ranked_system "pool_step sampler_act" "\<lambda>x. True" sampler_rank sampler_done
proof unfold_locales
  fix x :: "sampler \<times> adder list"
  assume "\<not> sampler_done x"
  then obtain i where i: "i < length (snd x)" "\<not> adder_done (snd x ! i)"
    by (auto simp: sampler_done_def in_set_conv_nth)
  then obtain t' sp s' where "sampler_act () (snd x ! i) (fst x) = Some (t', sp, s')" using adder_able by blast
  then show "\<exists>y. pool_step sampler_act x y" using pool_stepI [OF i(1)] by (metis prod.collapse)
qed (use sampler_rank_step in simp_all)

section \<open>Results\<close>

text \<open>The workers of a run, each with its own random state, before their first sample.\<close>

definition worker_seed :: "nat \<Rightarrow> u64" where
  "worker_seed idx = of_nat (idx + 1) * 0x9e3779b97f4a7c15"

definition sampler_start :: "nat \<Rightarrow> int list list \<Rightarrow> sampler \<times> adder list" where
  "sampler_start limit samples =
     (newLatencySampler limit, map (\<lambda>(idx, vs). (vs, worker_seed idx, AIdle)) (zip [0..<length samples] samples))"

lemma start_workers:
  "t \<in> set (snd (sampler_start limit samples)) \<Longrightarrow> snd (snd t) = AIdle"
  "length (snd (sampler_start limit samples)) = length samples"
  "sum_list (map adder_values (snd (sampler_start limit samples))) = sum_list (map mset samples)"
  "sum_list (map (adder_rank n s) (snd (sampler_start limit samples))) = add_cost n * sum_list (map length samples)"
proof -
  let ?z = "zip [0..<length samples] samples"
  have m: "map (\<lambda>x. f (snd x)) ?z = map f samples" for f :: "int list \<Rightarrow> 'x"
    using map_snd_zip [of "[0..<length samples]" samples] by (metis (no_types) length_upt diff_zero list.map_comp comp_def map_eq_conv)
  have "map adder_values (snd (sampler_start limit samples)) = map (\<lambda>x. mset (snd x)) ?z"
    by (auto simp: sampler_start_def adder_values_def)
  then show "sum_list (map adder_values (snd (sampler_start limit samples))) = sum_list (map mset samples)" using m [of mset] by simp
  have "map (adder_rank n s) (snd (sampler_start limit samples)) = map (\<lambda>x. add_cost n * length (snd x)) ?z"
    by (auto simp: sampler_start_def)
  then show "sum_list (map (adder_rank n s) (snd (sampler_start limit samples))) = add_cost n * sum_list (map length samples)"
    using m [of "\<lambda>vs. add_cost n * length vs"] by (simp add: sum_list_const_mult)
qed (auto simp: sampler_start_def)

lemma start_ok:
  "sampler_inv.pool_ok (sampler_start limit samples)" "sampler_res.accounted (sampler_start limit samples)"
proof -
  have i: "snd (snd t) = AIdle" if "t \<in> set (snd (sampler_start limit samples))" for t
    using that by (rule start_workers)
  have "sampler_inv.exclusive (snd (sampler_start limit samples))"
    unfolding sampler_inv.exclusive_def adder_claims_def using i [OF nth_mem] by simp
  then show "sampler_inv.pool_ok (sampler_start limit samples)"
    using i by (auto simp: sampler_inv.pool_ok_def adder_fits_def sampler_good_def) (auto simp: sampler_start_def newLatencySampler_def)
  have "sampler_loose (newLatencySampler limit) = {}" by (auto simp: sampler_loose_def newLatencySampler_def)
  then show "sampler_res.accounted (sampler_start limit samples)"
    by (simp add: sampler_res.accounted_def sampler_start_def)
qed

lemma reach_values:
  assumes "(pool_step sampler_act)\<^sup>*\<^sup>* x y"
  shows "mset (sm_order (fst y)) + sum_list (map adder_values (snd y)) = mset (sm_order (fst x)) + sum_list (map adder_values (snd x))"
  using assms by (induction rule: rtranclp_induct) (use pool_values in force)+

lemma act_limit: "sampler_act u t s = Some (t', sp, s') \<Longrightarrow> sm_limit s' = sm_limit s"
  by (cases "(u, t, s)" rule: sampler_act.cases) (auto split: if_splits prod.splits)

lemma reach_limit: "(pool_step sampler_act)\<^sup>*\<^sup>* x y \<Longrightarrow> sm_limit (fst y) = sm_limit (fst x)"
  by (induction rule: rtranclp_induct) (auto elim!: pool_step.cases dest: act_limit)

lemma done_state:
  assumes "(pool_step sampler_act)\<^sup>*\<^sup>* (sampler_start limit samples) x" "sampler_done x"
  shows "sampler_good (fst x) \<and> sampler_loose (fst x) = {} \<and> sm_limit (fst x) = limit \<and>
    mset (sm_order (fst x)) = sum_list (map mset samples)"
proof -
  have d: "fst t = []" "snd (snd t) = AIdle" if "t \<in> set (snd x)" for t
    using assms(2) that by (cases t; fastforce simp: sampler_done_def)+
  have "sampler_inv.pool_ok x" by (rule sampler_inv.pool_ok_reach [OF start_ok(1) assms(1)])
  moreover have "sampler_res.accounted x" by (rule sampler_res.accounted_reach [OF assms(1) start_ok(2,1)])
  moreover have "\<Union> (adder_own ` set (snd x)) = {}" using d by (auto simp: adder_own_def)
  moreover have "sum_list (map adder_values (snd x)) = 0"
  proof -
    have e: "map adder_values (snd x) = map (\<lambda>t. 0) (snd x)" using d by (auto simp: adder_values_def)
    show ?thesis unfolding e by simp
  qed
  moreover have "sm_limit (fst x) = limit" "sm_order (fst (sampler_start limit samples)) = []"
    using reach_limit [OF assms(1)] by (simp_all add: sampler_start_def newLatencySampler_def)
  ultimately show ?thesis using reach_values [OF assms(1)] start_workers(3)
    by (simp add: sampler_inv.pool_ok_def sampler_res.accounted_def)
qed

lemma decided_values: "sampler_good s \<Longrightarrow> map fst (decided s) = sm_order s"
  by (rule nth_equalityI) (simp_all add: decided_def sampler_good_def del: upt_Suc)

lemma extrema_exact:
  assumes "sampler_good s" "sampler_loose s = {}" "\<forall>v\<in>set (sm_order s). 0 \<le> v \<and> v \<le> max_int64" "sm_order s \<noteq> []"
  shows "extrema s = (Min (set (sm_order s)), Max (set (sm_order s)))"
proof -
  obtain v where v: "v \<in> set (sm_order s)" using assms(4) by (meson last_in_set)
  have b: "\<forall>v\<in>set (sm_order s). sm_min s \<le> v \<and> v \<le> sm_max s" and n: "sm_seen s \<noteq> 0"
    using assms(1,4) by (auto simp: sampler_good_def)
  have "MinOf (sm_min s) \<notin> sampler_loose s" "MaxOf (sm_max s) \<notin> sampler_loose s" using assms(2) by auto
  then have "sm_min s \<in> set (sm_order s)" "sm_max s \<in> set (sm_order s)"
    using b v assms(3) order_antisym by (fastforce simp del: mem_simps)+
  then have "Min (set (sm_order s)) = sm_min s" "Max (set (sm_order s)) = sm_max s"
    using b by (auto intro!: Min_eqI Max_eqI)
  then show ?thesis using n by (simp add: extrema_def)
qed

text \<open>The values kept are values of different samples.\<close>

lemma distinct_slots:
  assumes "\<And>i j p p'. i < length ls \<Longrightarrow> j < length ls \<Longrightarrow> ls ! i = Some p \<Longrightarrow> ls ! j = Some p' \<Longrightarrow> fst p = fst p' \<Longrightarrow> i = j"
  shows "distinct (map (\<lambda>x. fst (the x)) (filter (\<lambda>x. x \<noteq> None) ls))"
  using assms
proof (induction ls)
  case (Cons x ls)
  have "i = j" if "i < length ls" "j < length ls" "ls ! i = Some p" "ls ! j = Some p'" "fst p = fst p'" for i j p p'
    using Cons.prems [of "Suc i" "Suc j" p p'] that by simp
  then have d: "distinct (map (\<lambda>x. fst (the x)) (filter (\<lambda>x. x \<noteq> None) ls))" by (rule Cons.IH)
  have "fst p \<noteq> fst p'" if "x = Some p" "Some p' \<in> set ls" for p p'
  proof -
    note t = that
    obtain j where "j < length ls" "ls ! j = Some p'" using t(2) by (auto simp: in_set_conv_nth)
    then show ?thesis using Cons.prems [of 0 "Suc j" p p'] t(1) by auto
  qed
  note n = this
  show ?case
  proof (cases x)
    case None
    then show ?thesis using d by simp
  next
    case (Some p)
    have "fst (the x) \<noteq> fst (the y)" if y: "y \<in> set ls" "y \<noteq> None" for y
    proof -
      obtain p' where "y = Some p'" using y(2) by blast
      then show ?thesis using n [OF Some] y(1) Some by simp
    qed
    then show ?thesis using d Some by auto
  qed
qed simp

lemma kept_values:
  assumes "sampler_good s"
  shows "mset (sampler_values s) \<subseteq># mset (sm_order s)"
proof -
  let ?xs = "filter (\<lambda>x. x \<noteq> None) (sm_slots s)" and ?v = "\<lambda>q. sm_order s ! (q - 1)"
  let ?qs = "map (\<lambda>x. fst (the x)) ?xs"
  have l: "length (sm_slots s) = sm_limit s" "sm_seen s = length (sm_order s)" using assms by (simp_all add: sampler_good_def)
  have p: "sm_pick s (fst p) = Some (Some j) \<and> snd p = ?v (fst p) \<and> 1 \<le> fst p \<and> fst p \<le> sm_seen s"
    if "j < sm_limit s" "sm_slots s ! j = Some p" for j p
    using good_slot [OF assms that(1), of "fst p" "snd p"] that(2) by simp
  have g: "snd (the x) = ?v (fst (the x)) \<and> fst (the x) \<in> set [1..<Suc (sm_seen s)]" if x: "x \<in> set ?xs" for x
  proof -
    obtain j where j: "j < length (sm_slots s)" "sm_slots s ! j = x" using x by (auto simp: in_set_conv_nth)
    moreover obtain y where "x = Some y" using x by auto
    ultimately show ?thesis using p [of j y] l by auto
  qed
  have d: "distinct ?qs"
  proof (rule distinct_slots)
    fix i j and a b :: "nat \<times> int"
    assume "i < length (sm_slots s)" "j < length (sm_slots s)" "sm_slots s ! i = Some a" "sm_slots s ! j = Some b" "fst a = fst b"
    then show "i = j" using p [of i a] p [of j b] l by simp
  qed
  have "set ?qs \<subseteq> set [1..<Suc (sm_seen s)]" using g by auto
  then have "mset_set (set ?qs) \<subseteq># mset_set (set [1..<Suc (sm_seen s)])"
    by (rule subset_imp_msubset_mset_set) simp
  then have "mset ?qs \<subseteq># mset [1..<Suc (sm_seen s)]" by (simp only: mset_set_set d distinct_upt)
  then have "image_mset ?v (mset ?qs) \<subseteq># image_mset ?v (mset [1..<Suc (sm_seen s)])" by (rule image_mset_subseteq_mono)
  moreover have "map ?v [1..<Suc (sm_seen s)] = sm_order s"
    by (rule nth_equalityI) (simp_all add: l del: upt_Suc)
  moreover have "sampler_values s = map ?v ?qs" using g by (auto simp: sampler_values_def List.map_filter_def)
  ultimately show ?thesis by (simp only: mset_map [symmetric])
qed

text \<open>Two workers, one slot: both miss the minimum once, and the first finds its slot taken by the
  newer sample of the second.\<close>

definition two_adders :: "(nat \<times> unit) list" where
  "two_adders = map (\<lambda>i. (i, ())) [0, 0, 1, 1, 0, 1, 1, 1, 0, 0, 0, 1, 1, 0, 0, 1, 1, 1, 0, 0]"

lemma worker_1_random: "nextSampleRandom (worker_seed (Suc 0)) = 13274060130538134362"
  by (simp add: nextSampleRandom_def worker_seed_def)

lemma worker_1_choice: "sample_index (Suc 0) (worker_seed (Suc 0)) (Suc (Suc 0)) = (Some 0, 13274060130538134362)"
  by (simp add: sample_index_def worker_1_random Let_def numeral_2_eq_2 [symmetric])

lemma worker_0_choice: "sample_index (Suc 0) (worker_seed 0) (Suc 0) = (Some 0, worker_seed 0)"
  by (simp add: sample_index_def)

lemma two_adders_run:
  "map_option (\<lambda>(s, ws). (sm_order s, sm_slots s, extrema s, sampler_values s, sampler_done (s, ws)))
     (pool_run sampler_act two_adders (sampler_start 1 [[70], [40]])) =
   Some ([70, 40], [Some (2, 40)], (40, 70), [40], True)"
  by (simp add: two_adders_def sampler_start_def newLatencySampler_def updateAtomicMin_load_def updateAtomicMax_load_def
      worker_0_choice worker_1_choice slot_load_def Let_def max_int64_def extrema_def sampler_values_def sampler_done_def
      List.map_filter_def)

lemma two_adders_reach:
  "\<exists>s ws. (pool_step sampler_act ^^ 20) (sampler_start 1 [[70], [40]]) (s, ws) \<and> sm_order s = [70, 40] \<and>
     sm_slots s = [Some (2, 40)] \<and> extrema s = (40, 70) \<and> sampler_values s = [40] \<and> sampler_done (s, ws)"
proof -
  obtain s ws where r: "pool_run sampler_act two_adders (sampler_start 1 [[70], [40]]) = Some (s, ws)"
      "sm_order s = [70, 40]" "sm_slots s = [Some (2, 40)]" "extrema s = (40, 70)" "sampler_values s = [40]" "sampler_done (s, ws)"
    using two_adders_run by (auto split: prod.splits)
  have "length two_adders = 20" by (simp add: two_adders_def)
  then show ?thesis using pool_run_steps [OF r(1)] r(2-) by auto
qed

text \<open>C6: When all workers have finished, whatever the interleaving, the sampler has numbered every
  duration once, its slots are what sequential reservoir sampling over the numbered durations gives
  (the first ones in their own slots), as many values are kept as there are slots and durations,
  each of a different duration, and the extrema are the exact minimum and maximum.\<close>

theorem sampler_is_reservoir:
  assumes "(pool_step sampler_act)\<^sup>*\<^sup>* (sampler_start limit samples) (s, workers)"
    and "sampler_done (s, workers)"
    and "\<forall>vs\<in>set samples. \<forall>v\<in>set vs. 0 \<le> v \<and> v \<le> max_int64"
  shows "mset (sm_order s) = sum_list (map mset samples) \<and>
    map fst (decided s) = sm_order s \<and>
    (\<forall>q. q < min limit (length (sm_order s)) \<longrightarrow> snd (decided s ! q) = Some q) \<and>
    sm_slots s = reservoir (replicate limit None) 1 (decided s) \<and>
    length (sampler_values s) = min limit (length (sm_order s)) \<and>
    mset (sampler_values s) \<subseteq># mset (sm_order s) \<and>
    extrema s = (if sm_order s = [] then (0, 0) else (Min (set (sm_order s)), Max (set (sm_order s))))"
proof -
  have d: "sampler_good s" "sampler_loose s = {}" "sm_limit s = limit" "mset (sm_order s) = sum_list (map mset samples)"
    using done_state [OF assms(1,2)] by simp_all
  have n: "sm_seen s = length (sm_order s)" using d(1) by (simp add: sampler_good_def)
  have "set (sm_order s) = set_mset (sum_list (map mset samples))" by (metis d(4) set_mset_mset)
  then have "set (sm_order s) = \<Union> (set ` set samples)" by (induction samples) auto
  then have v: "\<forall>v\<in>set (sm_order s). 0 \<le> v \<and> v \<le> max_int64" using assms(3) by auto
  have own: "snd (decided s ! q) = Some q" if "q < min limit (length (sm_order s))" for q
  proof -
    have "sm_pick s (Suc q) \<noteq> None" by (rule all_decided [OF d(2)]) (use that n in simp_all)
    then obtain c where "sm_pick s (Suc q) = Some c" by blast
    moreover from this have "c = Some q" using that d(1,3) unfolding sampler_good_def by fastforce
    ultimately show ?thesis using that n by (simp add: decided_def del: upt_Suc)
  qed
  have e: "extrema s = (0, 0)" if "sm_order s = []" using that n by (simp add: extrema_def)
  show ?thesis
    using own d decided_values [OF d(1)] slots_reservoir [OF d(1,2)] count_filled [OF d(1,2)] n
      kept_values [OF d(1)] extrema_exact [OF d(1,2) v] e
    by (simp add: min.commute)
qed

lemma sampler_is_reservoir_witness:
  "\<exists>s ws. (pool_step sampler_act)\<^sup>*\<^sup>* (sampler_start 1 [[70], [40]]) (s, ws) \<and> sampler_done (s, ws) \<and>
     mset (sm_order s) = {#70, 40#} \<and> [Some (2, 40)] = reservoir (replicate 1 None) 1 (decided s) \<and> extrema s = (40, 70)"
proof -
  obtain s ws where r: "(pool_step sampler_act ^^ 20) (sampler_start 1 [[70], [40]]) (s, ws)" "sm_slots s = [Some (2, 40)]"
      "extrema s = (40, 70)" "sampler_done (s, ws)"
    using two_adders_reach by blast
  have c: "(pool_step sampler_act)\<^sup>*\<^sup>* (sampler_start 1 [[70], [40]]) (s, ws)" using r(1) by (rule relpowp_imp_rtranclp)
  show ?thesis
    using sampler_is_reservoir [OF c r(4)] c r(2-) by (intro exI [of _ s] exI [of _ ws]) (simp add: max_int64_def)
qed

text \<open>C7: Adding is lock-free: with \<open>w\<close> workers every run takes at most \<open>15 + 6w\<close> atomic actions per
  duration, in every state that is not final some worker can act, and every state reaches a final one.\<close>

theorem sampler_lock_free:
  assumes "(pool_step sampler_act ^^ n) (sampler_start limit samples) x"
  shows "n \<le> (15 + 6 * length samples) * sum_list (map length samples) \<and>
    (sampler_done x \<or> (\<exists>y. pool_step sampler_act x y)) \<and>
    (\<exists>y. (pool_step sampler_act)\<^sup>*\<^sup>* x y \<and> sampler_done y)"
proof -
  have r: "sampler_rank (sampler_start limit samples) = (15 + 6 * length samples) * sum_list (map length samples)"
    by (simp add: sampler_rank_def start_workers add_cost_def retry_cost_def algebra_simps)
  show ?thesis
    using sampler_lf.run_bound [OF assms] sampler_lf.progress [of x] sampler_lf.can_finish [of x] r by auto
qed

lemma sampler_lock_free_witness:
  "\<exists>x. (pool_step sampler_act ^^ 20) (sampler_start 1 [[70], [40]]) x \<and> 20 \<le> (15 + 6 * 2) * (2 :: nat) \<and>
     (\<exists>y. (pool_step sampler_act)\<^sup>*\<^sup>* x y \<and> sampler_done y)"
proof -
  obtain s ws where r: "(pool_step sampler_act ^^ 20) (sampler_start 1 [[70], [40]]) (s, ws)"
    using two_adders_reach by blast
  show ?thesis using sampler_lock_free [OF r] r by (intro exI [of _ "(s, ws)"]) simp
qed

end
