(* ===== verification/Go_Format.thy ===== *)
theory Go_Format
  imports Load_Options Go_Duration
begin

text \<open>
  The verbs \<open>%.2f\<close>, \<open>%.3f\<close> and \<open>%.4f\<close> of package \<open>fmt\<close>, with which the load test prints its
  figures.  A \<open>float64\<close> is the rational number it stands for, rounded to the wanted digits with ties to
  even; the figures of the load test are never negative.
\<close>

definition round_even :: "rat \<Rightarrow> int" where
  "round_even x =
     (let f = \<lfloor>x\<rfloor>; r = x - of_int f in
      if r < 1 / 2 then f else if r > 1 / 2 then f + 1 else if even f then f else f + 1)"

definition zero_pad :: "nat \<Rightarrow> string \<Rightarrow> string" where
  "zero_pad d s = replicate (d - length s) CHR ''0'' @ s"

definition format_fixed :: "nat \<Rightarrow> rat \<Rightarrow> string" where
  "format_fixed d q =
     (let n = nat (round_even (\<bar>q\<bar> * 10 ^ d)) in
      (if q < 0 then ''-'' else []) @ show_nat (n div 10 ^ d) @
      (if d = 0 then [] else ''.'' @ zero_pad d (show_nat (n mod 10 ^ d))))"

section \<open>Reading figures back\<close>

lemma round_even_close: "\<bar>of_int (round_even x) - x\<bar> \<le> 1 / 2"
  using floor_correct [of x] by (auto simp: round_even_def Let_def abs_le_iff not_less)

lemma round_even_nonneg: "0 \<le> x \<Longrightarrow> 0 \<le> round_even x"
  by (auto simp: round_even_def Let_def)

lemma zero_pad_digits:
  assumes "length s \<le> d" "list_all is_digit s"
  shows "list_all is_digit (zero_pad d s) \<and> length (zero_pad d s) = d \<and> digits_value (zero_pad d s) = digits_value s"
proof -
  have z: "foldl (\<lambda>acc c. acc * 10 + digit_value c) 0 (replicate k CHR ''0'') = 0" for k
    by (induction k) (simp_all add: digit_value_def)
  have "list_all is_digit (replicate k CHR ''0'')" for k by (induction k) (simp_all add: is_digit_0)
  then show ?thesis using assms by (simp add: zero_pad_def digits_value_def z)
qed

lemma digit_count: "n < 10 ^ d \<Longrightarrow> 0 < d \<Longrightarrow> length (show_nat n) \<le> d"
proof (induction n arbitrary: d rule: show_nat.induct)
  case (1 n)
  show ?case
  proof (cases "n < 10")
    case True
    then show ?thesis using 1 by (simp add: show_nat.simps [of n])
  next
    case False
    obtain e where e: "d = Suc e" using 1 by (cases d) auto
    have "n div 10 < 10 ^ e" using 1(2) e by (simp add: div_less_iff_less_mult mult.commute)
    moreover have "0 < e" using False 1(2) e by (cases e) auto
    ultimately have "length (show_nat (n div 10)) \<le> e" using 1(1) False by blast
    then show ?thesis using False e by (simp add: show_nat.simps [of n])
  qed
qed

lemma scan_mantissa_digits:
  "list_all is_digit ds \<Longrightarrow>
   scan_mantissa 10 acc fd dot any us (ds @ r) =
     scan_mantissa 10 (foldl (\<lambda>acc c. acc * 10 + digit_value c) acc ds) (if dot then fd + length ds else fd) dot
       (any \<or> ds \<noteq> []) us r"
proof (induction ds arbitrary: acc fd any)
  case (Cons c ds)
  then show ?case using digit_value_bounds [of c] by (auto simp: base_digit_def is_digit_def)
qed simp

lemma scan_mantissa_fixed:
  assumes "list_all is_digit ds" "list_all is_digit fs" "ds \<noteq> []"
  shows "scan_mantissa 10 0 0 False False False (ds @ CHR ''.'' # fs) =
    (digits_value ds * 10 ^ length fs + digits_value fs, length fs, True, False, [])"
proof -
  have f: "foldl (\<lambda>acc c. acc * 10 + digit_value c) a fs = a * 10 ^ length fs + digits_value fs" for a
  proof (induction fs rule: rev_induct)
    case (snoc c fs)
    then show ?case by (simp add: algebra_simps)
  qed simp
  show ?thesis
    using assms scan_mantissa_digits [of ds 0 0 False False False "CHR ''.'' # fs"]
      scan_mantissa_digits [of fs "digits_value ds" 0 True True False "[]"] f [of "digits_value ds"]
    by (simp add: digits_value_def)
qed

text \<open>A word of digits and points is none of the names \<open>ParseFloat\<close> knows, and has no base prefix.\<close>

lemma lower_digit: "is_digit c \<Longrightarrow> lower_char c = c"
proof -
  assume "is_digit c"
  then have "int (of_char c :: nat) \<le> 57" by (simp only: of_nat_of_char is_digit_def)
  then have "(of_char c :: nat) \<le> 57" by simp
  then show ?thesis by (simp add: lower_char_def Let_def)
qed

lemma ParseFloat_fixed:
  assumes ds: "list_all is_digit ds" "ds \<noteq> []" and fs: "list_all is_digit fs"
    and small: "of_int (digits_value ds * 10 ^ length fs + digits_value fs) / 10 ^ length fs < float_overflow"
  shows "ParseFloat (ds @ CHR ''.'' # fs) =
    Some (Fin (of_int (digits_value ds * 10 ^ length fs + digits_value fs) / 10 ^ length fs))"
proof -
  let ?s = "ds @ CHR ''.'' # fs"
  obtain c cs where c: "ds = c # cs" "is_digit c" using ds by (cases ds) auto
  have sign: "take 1 ?s \<noteq> ''-''" "drop_sign ?s = ?s" using c by (auto simp: drop_sign_def is_digit_def)
  have word: "ToLower ?s \<noteq> ''inf''" "ToLower ?s \<noteq> ''infinity''" "ToLower ?s \<noteq> ''nan''"
    using c by (auto simp: ToLower_def lower_digit is_digit_def)
  have second: "?s ! 1 = CHR ''.'' \<or> is_digit (?s ! 1)" using c ds by (cases cs) auto
  have hex: "lower_char (?s ! 1) \<noteq> CHR ''x''"
    using second by (auto simp: lower_digit is_digit_def) (simp add: lower_char_def)
  have "scaled 10 (- int (length fs)) = 1 / 10 ^ length fs" by (cases "length fs = 0") (auto simp: scaled_def)
  moreover have "scaled 10 0 = 1" by (simp add: scaled_def)
  ultimately show ?thesis
    using sign word hex small scan_mantissa_fixed [OF ds(1) fs ds(2)]
    by (simp add: ParseFloat_def Let_def)
qed

text \<open>A printed figure is read back to within half a unit of its last digit.\<close>

lemma format_fixed_reads_back:
  assumes "0 \<le> q" "q \<le> 10 ^ 30" "0 < d"
  shows "\<exists>r. ParseFloat (format_fixed d q) = Some (Fin r) \<and> \<bar>r - q\<bar> \<le> 1 / (2 * 10 ^ d)"
proof -
  define n where "n = nat (round_even (q * 10 ^ d))"
  let ?ds = "show_nat (n div 10 ^ d)" and ?fs = "zero_pad d (show_nat (n mod 10 ^ d))"
  have shown: "format_fixed d q = ?ds @ CHR ''.'' # ?fs" using assms by (simp add: format_fixed_def n_def Let_def)
  have fs: "list_all is_digit ?fs" "length ?fs = d" "digits_value ?fs = int (n mod 10 ^ d)"
    using zero_pad_digits [of "show_nat (n mod 10 ^ d)" d] digit_count [of "n mod 10 ^ d" d] assms(3)
      show_nat_digits [of "n mod 10 ^ d"] by simp_all
  have ds: "list_all is_digit ?ds" "?ds \<noteq> []" "digits_value ?ds = int (n div 10 ^ d)" using show_nat_digits by simp_all
  have val: "digits_value ?ds * 10 ^ length ?fs + digits_value ?fs = int n"
    unfolding fs ds using arg_cong [OF div_mult_mod_eq [of n "10 ^ d"], of int]
    by (simp only: of_nat_add of_nat_mult of_nat_power of_nat_numeral)
  have "of_nat n = (of_int (round_even (q * 10 ^ d)) :: rat)"
    using round_even_nonneg [of "q * 10 ^ d"] assms by (simp add: n_def)
  then have "\<bar>of_nat n - q * 10 ^ d\<bar> \<le> 1 / 2" using round_even_close [of "q * 10 ^ d"] by simp
  moreover have "of_nat n - q * 10 ^ d = (of_nat n / 10 ^ d - q) * 10 ^ d" by (simp add: field_simps)
  ultimately have "\<bar>of_nat n / 10 ^ d - q\<bar> * 10 ^ d \<le> 1 / 2" by (simp add: abs_mult)
  then have close: "\<bar>of_nat n / 10 ^ d - q\<bar> \<le> 1 / (2 * 10 ^ d)" by (simp add: field_simps)
  have "(1 :: rat) \<le> 10 ^ d" by simp
  then have "(1 :: rat) \<le> 2 * 10 ^ d" by linarith
  then have "1 / (2 * 10 ^ d) \<le> (1 :: rat)" by simp
  then have "rat_of_nat n / 10 ^ d \<le> 10 ^ 30 + 1" using close assms(2) by linarith
  moreover have "(10 :: rat) ^ 30 + 1 < float_overflow" by (simp add: float_overflow_def)
  ultimately have "rat_of_nat n / 10 ^ d < float_overflow" by linarith
  then have "ParseFloat (format_fixed d q) = Some (Fin (of_nat n / 10 ^ d))"
    unfolding shown using ParseFloat_fixed [OF ds(1,2) fs(1)] unfolding val unfolding fs(2) by simp
  then show ?thesis using close by blast
qed

end
