(* ===== verification/Load_Test.thy ===== *)
theory Load_Test
  imports Load_Worker Load_Sampler Fwd_Config Go_Format
begin

text \<open>
  The load test around its workers, cmd/loadtest/main.go: the chain echo target, forwarder and
  client (\<open>startChain\<close>, \<open>stop\<close>, \<open>waitPortReady\<close>), the result, its percentiles and thresholds, the JSON and
  the text report and \<open>runWithOutput\<close>.  What sockets and clock do is an input.  Floating point quantities are
  exact rational numbers: the percentiles the program asks for are 50, 95 and 99, where the product
  with the number of samples, rounded to \<open>float64\<close>, has the same integer part as the exact one.
\<close>

section \<open>The chain\<close>

datatype chain_err =
    EchoFailed string | UnsupportedProto string | FreePortFailed string | PortNotReady string
  | ServerError string | StopTimeout

text \<open>What is open or running: the echo target's socket, the listener that finds a free port, the
  forwarder's context while it is not cancelled, and the goroutine that runs the forwarder.\<close>

record chain_held =
  h_echo :: bool
  h_port :: bool
  h_live :: bool
  h_server :: bool

definition nothing_held :: chain_held where
  "nothing_held = \<lparr>h_echo = False, h_port = False, h_live = False, h_server = False\<rparr>"

definition closeEcho :: "chain_held \<Rightarrow> chain_held" where
  "closeEcho h = h\<lparr>h_echo := False\<rparr>"

definition chain_cancel :: "chain_held \<Rightarrow> chain_held" where
  "chain_cancel h = h\<lparr>h_live := False\<rparr>"

definition server_ended :: "chain_held \<Rightarrow> chain_held" where
  "server_ended h = h\<lparr>h_server := False\<rparr>"

record chain =
  ch_targetAddr :: string
  ch_listenAddr :: string
  ch_srv :: fwd_Server

definition startEchoTarget :: "string \<Rightarrow> string + string \<Rightarrow> chain_held \<Rightarrow> (chain_err + string) \<times> chain_held" where
  "startEchoTarget proto listen h =
     (if proto = ''tcp'' then
        (case listen of Inl e \<Rightarrow> (Inl (EchoFailed e), h) | Inr addr \<Rightarrow> (Inr addr, h\<lparr>h_echo := True\<rparr>))
      else if proto = ''udp'' then
        (case listen of Inl e \<Rightarrow> (Inl (EchoFailed e), h) | Inr addr \<Rightarrow> (Inr addr, h\<lparr>h_echo := True\<rparr>))
      else (Inl (UnsupportedProto proto), h))"

text \<open>\<open>freePort\<close>: the port of a listener that is closed again.\<close>

definition freePort :: "string + int \<Rightarrow> chain_held \<Rightarrow> (chain_err + int) \<times> chain_held" where
  "freePort listen h =
     (case listen of
        Inl e \<Rightarrow> (Inl (FreePortFailed e), h)
      | Inr port \<Rightarrow> (let h1 = h\<lparr>h_port := True\<rparr> in (Inr port, h1\<lparr>h_port := False\<rparr>)))"

text \<open>\<open>waitPortReady\<close>: the times at which its loop looks at the clock, each with the outcome of the dial.\<close>

fun waitPortReady :: "string \<Rightarrow> string \<Rightarrow> int \<Rightarrow> (int \<times> bool) list \<Rightarrow> chain_err option" where
  "waitPortReady addr network until [] = Some (PortNotReady addr)"
| "waitPortReady addr network until ((now, up) # probes) =
     (if \<not> now < until then Some (PortNotReady addr)
      else if network = ''udp'' then None
      else if up then None
      else waitPortReady addr network until probes)"

definition chain_config :: "load_options \<Rightarrow> string \<Rightarrow> string \<Rightarrow> fwd_Config" where
  "chain_config opt listenAddr targetAddr =
     \<lparr>fc_Listen = listenAddr, fc_Target = targetAddr, fc_Network = l_proto opt, fc_ReuseAddr = True,
      fc_DialTimeout = 0, fc_MaxConns = l_maxConns opt, fc_IdleTimeout = l_idleTimeout opt, fc_Debug = False,
      fc_Quiet = True, fc_Events = None\<rparr>"

text \<open>\<open>startChain\<close>: \<open>ended\<close> tells that the forwarder has already returned when the waiting is over.\<close>

definition startChain ::
  "load_options \<Rightarrow> string + string \<Rightarrow> string + int \<Rightarrow> int \<Rightarrow> (int \<times> bool) list \<Rightarrow> bool \<Rightarrow> chain_held
   \<Rightarrow> (chain_err + chain) \<times> chain_held" where
  "startChain opt echo port start probes ended h0 =
     (case startEchoTarget (l_proto opt) echo h0 of
        (Inl e, h1) \<Rightarrow> (Inl e, h1)
      | (Inr targetAddr, h1) \<Rightarrow>
          (case freePort port h1 of
             (Inl e, h2) \<Rightarrow> (Inl e, closeEcho h2)
           | (Inr p, h2) \<Rightarrow>
               (let listenAddr = ''127.0.0.1:'' @ Itoa p;
                    srv = forward_New start (chain_config opt listenAddr targetAddr);
                    h3 = h2\<lparr>h_live := True, h_server := True\<rparr>;
                    h4 = (if ended then server_ended h3 else h3) in
                case waitPortReady listenAddr (l_proto opt) (start + 3000000000) probes of
                  Some e \<Rightarrow> (Inl e, closeEcho (chain_cancel h4))
                | None \<Rightarrow>
                    (Inr \<lparr>ch_targetAddr = targetAddr, ch_listenAddr = listenAddr, ch_srv = srv\<rparr>, h4))))"

text \<open>\<open>stop\<close>: what the forwarder returns, \<open>None\<close> if it does not return in time and so still runs.\<close>

definition chain_stop :: "string option option \<Rightarrow> chain_held \<Rightarrow> chain_err option \<times> chain_held" where
  "chain_stop srvDone h =
     (let h1 = chain_cancel h in
      case srvDone of
        Some e \<Rightarrow> (map_option ServerError e, closeEcho (server_ended h1))
      | None \<Rightarrow> (Some StopTimeout, closeEcho h1))"

section \<open>The result\<close>

record load_result =
  res_elapsed :: int
  res_requests :: int
  res_bytes :: int
  res_newConns :: int
  res_errors :: int
  res_errDial :: int
  res_errWrite :: int
  res_errRead :: int
  res_errMismat :: int
  res_lat :: "int list"
  res_latMin :: int
  res_latMax :: int

definition make_result :: "int \<Rightarrow> load_stats \<Rightarrow> sampler \<Rightarrow> load_result" where
  "make_result elapsed s sm =
     \<lparr>res_elapsed = elapsed, res_requests = ls_requests s, res_bytes = ls_bytes s, res_newConns = ls_newConns s,
      res_errors = totalErrors s, res_errDial = ls_errDial s, res_errWrite = ls_errWrite s, res_errRead = ls_errRead s,
      res_errMismat = ls_errMismatch s, res_lat = sort (sampler_values sm),
      res_latMin = fst (extrema sm), res_latMax = snd (extrema sm)\<rparr>"

definition percentile :: "int list \<Rightarrow> rat \<Rightarrow> int" where
  "percentile xs p =
     (let n = length xs in
      if n = 0 then 0
      else if p \<le> 0 then xs ! 0
      else if p \<ge> 100 then xs ! (n - 1)
      else
        (let idx = nat \<lfloor>(p / 100) * of_nat n\<rfloor> in
         if idx \<ge> n then xs ! (n - 1) else xs ! idx))"

definition resultErrorRate :: "load_result \<Rightarrow> rat" where
  "resultErrorRate res =
     (let total = res_requests res + res_errors res in
      if total = 0 then 0 else of_int (res_errors res) / of_int total * 100)"

datatype threshold_failure = RateExceeds rat gofloat | NoSamplesForP95 | P95Exceeds int i64

definition checkThresholds :: "load_options \<Rightarrow> load_result \<Rightarrow> threshold_failure list" where
  "checkThresholds opt res =
     (let rate = resultErrorRate res; p95 = percentile (res_lat res) 95 in
      (if l_errorRateSet opt \<and> float_gt rate (l_maxErrorRate opt) then [RateExceeds rate (l_maxErrorRate opt)] else []) @
      (if sint (l_maxP95 opt) > 0 then
         (if length (res_lat res) = 0 then [NoSamplesForP95]
          else if p95 > sint (l_maxP95 opt) then [P95Exceeds p95 (l_maxP95 opt)] else [])
       else []))"

section \<open>The reports\<close>

text \<open>What \<open>runtime\<close> and \<open>os\<close> say of the host; the memory figures are unsigned.\<close>

record hostInfo =
  hi_GOOS :: string
  hi_GOARCH :: string
  hi_NumCPU :: int
  hi_GoVersion :: string
  hi_Hostname :: string
  hi_Alloc :: "64 word"
  hi_Sys :: "64 word"

definition collectHostInfo :: "hostInfo \<Rightarrow> string option \<Rightarrow> hostInfo" where
  "collectHostInfo machine hostname =
     machine\<lparr>hi_Hostname := (case hostname of Some name \<Rightarrow> name | None \<Rightarrow> ''unknown'')\<rparr>"

text \<open>The measured seconds; a run too short to measure counts as a nanosecond.\<close>

definition report_seconds :: "load_result \<Rightarrow> rat" where
  "report_seconds res =
     (let sec = of_int (res_elapsed res) / 1000000000 in if sec \<le> 0 then 1 / 1000000000 else sec)"

definition Microseconds :: "int \<Rightarrow> int" where
  "Microseconds d = (if d < 0 then - (- d div 1000) else d div 1000)"

record json_report =
  js_host :: "string \<times> string \<times> string \<times> int \<times> string"
  js_chain :: string
  js_target :: string
  js_protocol :: string
  js_mode :: string
  js_conns :: int
  js_payload :: int
  js_maxSamples :: int
  js_elapsedMs :: rat
  js_requests :: int
  js_newConns :: int
  js_bytes :: int
  js_requestsPS :: rat
  js_throughput :: rat
  js_sampleCount :: nat
  js_minUs :: int
  js_p50Us :: int
  js_p95Us :: int
  js_p99Us :: int
  js_maxUs :: int
  js_errors :: int
  js_errorRate :: rat
  js_dial :: int
  js_write :: int
  js_read :: int
  js_mismatch :: int
  js_activeAfter :: "int option"
  js_activeZero :: "bool option"
  js_passed :: bool

definition printJSONReport :: "load_options \<Rightarrow> hostInfo \<Rightarrow> load_result \<Rightarrow> bool \<Rightarrow> int \<Rightarrow> bool \<Rightarrow> bool \<Rightarrow> json_report" where
  "printJSONReport opt hi res activeZero activeAfter builtin passed =
     (let sec = report_seconds res in
      \<lparr>js_host = (hi_Hostname hi, hi_GOOS hi, hi_GOARCH hi, hi_NumCPU hi, hi_GoVersion hi),
       js_chain = (if builtin then ''built-in'' else ''external''),
       js_target = (if builtin then ''built-in echo'' else l_external opt),
       js_protocol = l_proto opt, js_mode = l_mode opt, js_conns = l_conns opt, js_payload = l_payload opt,
       js_maxSamples = latencySampleLimit opt,
       js_elapsedMs = of_int (res_elapsed res) / 1000000,
       js_requests = res_requests res, js_newConns = res_newConns res, js_bytes = res_bytes res,
       js_requestsPS = of_int (res_requests res) / sec, js_throughput = of_int (res_bytes res) / sec,
       js_sampleCount = length (res_lat res),
       js_minUs = Microseconds (res_latMin res), js_p50Us = Microseconds (percentile (res_lat res) 50),
       js_p95Us = Microseconds (percentile (res_lat res) 95), js_p99Us = Microseconds (percentile (res_lat res) 99),
       js_maxUs = Microseconds (res_latMax res),
       js_errors = res_errors res, js_errorRate = resultErrorRate res, js_dial = res_errDial res,
       js_write = res_errWrite res, js_read = res_errRead res, js_mismatch = res_errMismat res,
       js_activeAfter = (if builtin then Some activeAfter else None),
       js_activeZero = (if builtin then Some activeZero else None),
       js_passed = passed\<rparr>)"

text \<open>\<open>printReport\<close>: the lines of the text report.\<close>

definition config_block :: "load_options \<Rightarrow> bool \<Rightarrow> string list" where
  "config_block opt builtin =
     [''[ Config ]'',
      ''  chain        : '' @ (if builtin then ''built-in chain (echo <- portmap <- client)'' else ''external''),
      ''  target       : '' @ (if builtin then ''(built-in echo)'' else l_external opt),
      ''  proto        : '' @ l_proto opt, ''  test mode    : '' @ l_mode opt, ''  conns        : '' @ Itoa (l_conns opt)] @
     (if l_requests opt > 0 then [''  requests     : '' @ Itoa (l_requests opt) @ '' successful per conn''] else []) @
     [''  max duration : '' @ Duration_String (sint (l_duration opt)), ''  payload      : '' @ Itoa (l_payload opt) @ '' bytes'',
      ''  warmup       : '' @ Duration_String (sint (l_warmup opt)), ''  max-conns    : '' @ Itoa (l_maxConns opt),
      ''  idle-timeout : '' @ Duration_String (sint (l_idleTimeout opt))]"

definition results_block :: "load_options \<Rightarrow> load_result \<Rightarrow> string list" where
  "results_block opt res =
     (let sec = report_seconds res; bytes = of_int (res_bytes res); mib = bytes / (1024 * 1024) in
      [''[ Results ]'',
       ''  elapsed      : '' @ Duration_String (Duration_Round (res_elapsed res) 1000000),
       ''  requests ok  : '' @ Itoa (res_requests res), ''  new conns    : '' @ Itoa (res_newConns res),
       ''  bytes echoed : '' @ Itoa (res_bytes res) @ '' ('' @ format_fixed 2 mib @ '' MiB)'',
       ''  throughput   : '' @ format_fixed 2 (mib / sec) @ '' MB/s | '' @ format_fixed 3 (bytes * 8 / 1000000000 / sec) @ '' Gbps'',
       ''  req/s        : '' @ format_fixed 2 (of_int (res_requests res) / sec)] @
      (if l_mode opt = ''connrate'' then [''  conns/s      : '' @ format_fixed 2 (of_int (res_newConns res) / sec)] else []))"

definition rtt_text :: "int \<Rightarrow> string" where
  "rtt_text d = Duration_String (Duration_Round d 1000)"

definition latency_block :: "load_result \<Rightarrow> string list" where
  "latency_block res =
     [''[ Latency (RTT) ]''] @
     (if length (res_lat res) = 0 then [''  (no successful samples)'']
      else [''  min          : '' @ rtt_text (res_latMin res), ''  p50          : '' @ rtt_text (percentile (res_lat res) 50),
            ''  p95          : '' @ rtt_text (percentile (res_lat res) 95), ''  p99          : '' @ rtt_text (percentile (res_lat res) 99),
            ''  max          : '' @ rtt_text (res_latMax res)]) @
     [''  samples      : '' @ show_nat (length (res_lat res)) @ ''/'' @ Itoa (res_requests res) @ '' successful RTTs retained'']"

definition reliability_block :: "load_result \<Rightarrow> bool \<Rightarrow> int \<Rightarrow> bool \<Rightarrow> string list" where
  "reliability_block res activeZero activeAfter builtin =
     [''[ Reliability ]'',
      ''  errors       : '' @ Itoa (res_errors res) @ '' (rate '' @ format_fixed 4 (resultErrorRate res) @ ''%)'',
      ''    dial       : '' @ Itoa (res_errDial res), ''    write      : '' @ Itoa (res_errWrite res),
      ''    read/timeout: '' @ Itoa (res_errRead res), ''    mismatch   : '' @ Itoa (res_errMismat res),
      (if builtin then
         (if activeZero then ''  active conns : 0 (returned to zero) OK''
          else ''  active conns : '' @ Itoa activeAfter @ '' (DID NOT return to zero) FAIL'')
       else ''  active conns : n/a (external chain)'')]"

definition printReport :: "load_options \<Rightarrow> hostInfo \<Rightarrow> load_result \<Rightarrow> bool \<Rightarrow> int \<Rightarrow> bool \<Rightarrow> string list" where
  "printReport opt hi res activeZero activeAfter builtin =
     [''==================== portmap loadtest report ===================='', ''[ Host / Runtime ]'',
      ''  hostname     : '' @ hi_Hostname hi, ''  os/arch      : '' @ hi_GOOS hi @ ''/'' @ hi_GOARCH hi,
      ''  num cpu      : '' @ Itoa (hi_NumCPU hi), ''  go version   : '' @ hi_GoVersion hi,
      ''  mem alloc    : '' @ format_fixed 2 (of_int (uint (hi_Alloc hi)) / (1024 * 1024)) @ '' MiB (sys '' @
        format_fixed 2 (of_int (uint (hi_Sys hi)) / (1024 * 1024)) @ '' MiB)''] @
     config_block opt builtin @ results_block opt res @ latency_block res @
     reliability_block res activeZero activeAfter builtin @
     [''================================================================='']"

section \<open>The run\<close>

datatype load_run_err = ChainError chain_err | PrintError string | ThresholdError "threshold_failure list"

text \<open>What a run leaves: the report it printed, as JSON or as text, the error of stopping the forwarder that
  goes to standard error, and what is still held.\<close>

record load_outcome =
  lo_addr :: string
  lo_report :: "json_report option"
  lo_text :: "string list option"
  lo_stderr :: "chain_err option"
  lo_held :: chain_held

text \<open>The address the workers connect to.\<close>

definition load_addr :: "load_options \<Rightarrow> chain_err + chain \<Rightarrow> chain_err + string" where
  "load_addr opt started =
     (if l_external opt \<noteq> [] then Inr (l_external opt)
      else (case started of Inl e \<Rightarrow> Inl e | Inr ch \<Rightarrow> Inr (ch_listenAddr ch)))"

text \<open>\<open>runWithOutput\<close>: \<open>chainStart\<close> is the outcome of \<open>startChain\<close>, \<open>res\<close> the result of the measured
  run, \<open>srvDone\<close> and \<open>active\<close> what the forwarder returns and its gauge after the stop, \<open>printed\<close> the
  outcome of writing the JSON report.\<close>

definition runWithOutput ::
  "load_options \<Rightarrow> hostInfo \<Rightarrow> (chain_err + chain) \<times> chain_held \<Rightarrow> load_result \<Rightarrow> string option option \<Rightarrow> int \<Rightarrow> string option
   \<Rightarrow> load_run_err option \<times> load_outcome" where
  "runWithOutput opt hi chainStart res srvDone active printed =
     (let own = (l_external opt = []); h = (if own then snd chainStart else nothing_held) in
      case load_addr opt (fst chainStart) of
        Inl e \<Rightarrow> (Some (ChainError e), \<lparr>lo_addr = [], lo_report = None, lo_text = None, lo_stderr = None, lo_held = h\<rparr>)
      | Inr addr \<Rightarrow>
          (case (if own then chain_stop srvDone h else (None, h)) of (stopErr, h') \<Rightarrow>
             (let activeAfter = (if own then active else - 1);
                  activeZero = (if own then activeAfter = 0 else True);
                  failures = checkThresholds opt res;
                  thresholdErr = (if failures \<noteq> [] then Some (ThresholdError failures) else None) in
              if l_format opt = ''json'' then
                (case printed of
                   Some e \<Rightarrow> (Some (PrintError e), \<lparr>lo_addr = addr, lo_report = None, lo_text = None, lo_stderr = stopErr, lo_held = h'\<rparr>)
                 | None \<Rightarrow> (thresholdErr,
                     \<lparr>lo_addr = addr,
                      lo_report = Some (printJSONReport opt hi res activeZero activeAfter own (thresholdErr = None)),
                      lo_text = None, lo_stderr = stopErr, lo_held = h'\<rparr>))
              else (thresholdErr,
                \<lparr>lo_addr = addr, lo_report = None, lo_text = Some (printReport opt hi res activeZero activeAfter own),
                 lo_stderr = stopErr, lo_held = h'\<rparr>))))"

section \<open>Percentiles\<close>

definition percentile_index :: "nat \<Rightarrow> rat \<Rightarrow> nat" where
  "percentile_index n p =
     (if p \<le> 0 then 0 else if p \<ge> 100 then n - 1 else min (nat \<lfloor>(p / 100) * of_nat n\<rfloor>) (n - 1))"

lemma percentile_nth:
  assumes "0 < length xs"
  shows "percentile xs p = xs ! percentile_index (length xs) p"
proof -
  obtain n where n: "length xs = n" "0 < n" using assms by simp
  then show ?thesis unfolding percentile_def percentile_index_def n(1) Let_def min_def by auto
qed

lemma percentile_index_less: "0 < n \<Longrightarrow> percentile_index n p < n"
  by (auto simp: percentile_index_def)

lemma percentile_index_mono: "p \<le> q \<Longrightarrow> percentile_index n p \<le> percentile_index n q"
proof -
  assume pq: "p \<le> q"
  then have "(p / 100) * of_nat n \<le> (q / 100) * of_nat n" by (intro mult_right_mono divide_right_mono) simp_all
  then have "nat \<lfloor>(p / 100) * of_nat n\<rfloor> \<le> nat \<lfloor>(q / 100) * of_nat n\<rfloor>" by (intro nat_mono floor_mono)
  then show ?thesis using pq by (auto simp: percentile_index_def min_def)
qed

text \<open>A percentile below a hundred takes \<open>p * n div 100\<close>, whole percents.\<close>

lemma percentile_index_whole:
  assumes "p < 100" "0 < n"
  shows "percentile_index n (of_nat p) = p * n div 100"
proof -
  have "(of_nat p / 100) * of_nat n = (of_nat (p * n) / of_nat 100 :: rat)" by simp
  then have f: "nat \<lfloor>(of_nat p / 100) * of_nat n :: rat\<rfloor> = p * n div 100"
    by (simp only: floor_divide_of_nat_eq nat_int)
  have "p * n \<le> 99 * n" using assms(1) by simp
  then have "p * n div 100 \<le> n - 1" using assms(2) by linarith
  then show ?thesis using f assms by (auto simp: percentile_index_def)
qed

lemma sorted_le_count:
  assumes "sorted xs" "i < length xs"
  shows "xs ! i \<le> m \<longleftrightarrow> i < length (filter (\<lambda>x. x \<le> m) xs)"
proof
  assume "xs ! i \<le> m"
  then have "\<forall>j \<le> i. xs ! j \<le> m" using assms sorted_nth_mono by (metis order_trans)
  then have "{..i} \<subseteq> {j. j < length xs \<and> xs ! j \<le> m}" using assms(2) by auto
  then have "card {..i} \<le> card {j. j < length xs \<and> xs ! j \<le> m}" by (intro card_mono) simp_all
  then show "i < length (filter (\<lambda>x. x \<le> m) xs)" by (simp add: length_filter_conv_card)
next
  assume i: "i < length (filter (\<lambda>x. x \<le> m) xs)"
  show "xs ! i \<le> m"
  proof (rule ccontr)
    assume n: "\<not> xs ! i \<le> m"
    have "{j. j < length xs \<and> xs ! j \<le> m} \<subseteq> {..<i}"
    proof
      fix j assume j: "j \<in> {j. j < length xs \<and> xs ! j \<le> m}"
      then have "\<not> i \<le> j" using sorted_nth_mono [OF assms(1), of i j] n by auto
      then show "j \<in> {..<i}" by simp
    qed
    then have "card {j. j < length xs \<and> xs ! j \<le> m} \<le> card {..<i}" by (intro card_mono) simp_all
    then show False using i by (simp add: length_filter_conv_card)
  qed
qed

lemma percentile_mono:
  assumes "sorted xs" "xs \<noteq> []" "p \<le> q"
  shows "percentile xs p \<le> percentile xs q"
proof -
  have n: "0 < length xs" using assms(2) by simp
  show ?thesis
    unfolding percentile_nth [OF n]
    by (rule sorted_nth_mono [OF assms(1) percentile_index_mono [OF assms(3)] percentile_index_less [OF n]])
qed

lemma percentile_mem:
  assumes "xs \<noteq> []"
  shows "percentile xs p \<in> set xs"
proof -
  have n: "0 < length xs" using assms by simp
  show ?thesis unfolding percentile_nth [OF n] by (rule nth_mem [OF percentile_index_less [OF n]])
qed

text \<open>Percentiles of sorted samples are samples, grow with the percentage, and are the minimum and the
  maximum at 0 and 100.\<close>

theorem percentiles_ordered:
  assumes "sorted xs" "xs \<noteq> []" "p \<le> q"
  shows "percentile xs p \<in> set xs \<and> percentile xs q \<in> set xs \<and>
    Min (set xs) \<le> percentile xs p \<and> percentile xs p \<le> percentile xs q \<and> percentile xs q \<le> Max (set xs) \<and>
    percentile xs 0 = Min (set xs) \<and> percentile xs 100 = Max (set xs)"
proof -
  have n: "0 < length xs" using assms(2) by simp
  note m = percentile_mem [OF assms(2)]
  have z: "percentile xs 0 \<le> x" "x \<le> percentile xs 100" if "x \<in> set xs" for x
  proof -
    note t = that
    obtain i where i: "i < length xs" "x = xs ! i" using t by (auto simp: in_set_conv_nth)
    show "percentile xs 0 \<le> x"
      using sorted_nth_mono [OF assms(1), of 0 i] i by (simp add: percentile_nth [OF n] percentile_index_def)
    show "x \<le> percentile xs 100"
      using sorted_nth_mono [OF assms(1), of i "length xs - 1"] i n by (simp add: percentile_nth [OF n] percentile_index_def)
  qed
  have "percentile xs 0 = Min (set xs)" "percentile xs 100 = Max (set xs)"
    using m z by (intro Min_eqI [symmetric] Max_eqI [symmetric]; simp)+
  then show ?thesis using m percentile_mono [OF assms] z by simp
qed

lemma percentiles_ordered_witness:
  "percentile [3, 5, 9 :: int] 50 \<le> percentile [3, 5, 9] 95 \<and> percentile [3, 5, 9 :: int] 95 = 9"
proof -
  have "percentile [3, 5, 9 :: int] 95 = 9" by code_simp
  then show ?thesis using percentiles_ordered [of "[3, 5, 9]" 50 95] by simp
qed

section \<open>Thresholds\<close>

text \<open>A run passes its thresholds exactly when the errors are within the allowed share of all
  attempts, if a share was set, and more than 95 percent of the samples, rounded down to a whole
  sample, are within the p95 limit, if one was set; in particular a run without samples fails it.\<close>

theorem thresholds_decide:
  assumes "load_options_ok opt" "sorted (res_lat res)" "0 \<le> res_requests res" "0 \<le> res_errors res"
  shows "checkThresholds opt res = [] \<longleftrightarrow>
    (l_errorRateSet opt \<longrightarrow> (\<exists>r. l_maxErrorRate opt = Fin r \<and>
        100 * of_int (res_errors res) \<le> r * of_int (res_requests res + res_errors res))) \<and>
    (l_maxP95 opt \<noteq> 0 \<longrightarrow>
      95 * length (res_lat res) div 100 < length (filter (\<lambda>d. d \<le> sint (l_maxP95 opt)) (res_lat res)))"
proof -
  let ?e = "res_errors res" and ?t = "res_requests res + res_errors res" and ?m = "sint (l_maxP95 opt)"
  have t: "0 < ?t \<or> (?t = 0 \<and> ?e = 0)" using assms(3,4) by linarith
  have rate: "float_gt (resultErrorRate res) (Fin r) \<longleftrightarrow> \<not> 100 * of_int ?e \<le> r * of_int ?t" if "0 \<le> r" for r
  proof (cases "?t = 0")
    case True
    then show ?thesis using t that by (simp add: resultErrorRate_def float_gt_def not_less)
  next
    case False
    then have p: "(0 :: rat) < of_int ?t" using t by simp
    have "float_gt (resultErrorRate res) (Fin r) \<longleftrightarrow> r < 100 * of_int ?e / of_int ?t"
      using False by (simp add: resultErrorRate_def float_gt_def Let_def mult.commute)
    also have "\<dots> \<longleftrightarrow> r * of_int ?t < 100 * of_int ?e" by (rule pos_less_divide_eq [OF p])
    finally show ?thesis by (simp add: not_le)
  qed
  have f: "\<exists>r. l_maxErrorRate opt = Fin r \<and> 0 \<le> r" if "l_errorRateSet opt"
    using assms(1) that by (auto simp: load_options_ok_def)
  have r: "(if l_errorRateSet opt \<and> float_gt (resultErrorRate res) (l_maxErrorRate opt) then [x] else []) = [] \<longleftrightarrow>
      (l_errorRateSet opt \<longrightarrow> (\<exists>r. l_maxErrorRate opt = Fin r \<and> 100 * of_int ?e \<le> r * of_int ?t))" for x :: threshold_failure
    using rate f by auto
  have "0 \<le> ?m" using assms(1) by (simp add: load_options_ok_def)
  moreover have "?m = 0 \<longleftrightarrow> l_maxP95 opt = 0" by (simp add: signed_eq_0_iff)
  ultimately have z: "?m > 0 \<longleftrightarrow> l_maxP95 opt \<noteq> 0" by linarith
  have c: "percentile (res_lat res) 95 \<le> ?m \<longleftrightarrow>
      95 * length (res_lat res) div 100 < length (filter (\<lambda>d. d \<le> ?m) (res_lat res))" if "0 < length (res_lat res)"
  proof -
    have i: "percentile_index (length (res_lat res)) 95 = 95 * length (res_lat res) div 100"
      using percentile_index_whole [of 95 "length (res_lat res)"] that by simp
    show ?thesis
      unfolding percentile_nth [OF that] i
      by (rule sorted_le_count [OF assms(2)]) (use percentile_index_less [OF that, of 95] i in simp)
  qed
  show ?thesis
    unfolding checkThresholds_def Let_def append_is_Nil_conv r
    using c z by (cases "length (res_lat res) = 0") (auto simp: not_less)
qed

definition load_res1 :: load_result where
  "load_res1 = \<lparr>res_elapsed = 2000000000, res_requests = 3, res_bytes = 6, res_newConns = 1, res_errors = 1, res_errDial = 0,
     res_errWrite = 0, res_errRead = 1, res_errMismat = 0, res_lat = [3, 5, 9], res_latMin = 3, res_latMax = 9\<rparr>"

lemma thresholds_decide_witness:
  "checkThresholds (load_defaults\<lparr>l_errorRateSet := True, l_maxErrorRate := Fin 25, l_maxP95 := 9\<rparr>) load_res1 = [] \<and>
   checkThresholds (load_defaults\<lparr>l_maxP95 := 8\<rparr>) load_res1 \<noteq> []"
proof -
  have a: "load_options_ok (load_defaults\<lparr>l_errorRateSet := True, l_maxErrorRate := Fin 25, l_maxP95 := 9\<rparr>)"
    "load_options_ok (load_defaults\<lparr>l_maxP95 := 8\<rparr>)"
    by (simp_all add: load_options_ok_def load_defaults_def defaultMaxLatencySamples_def)
  have b: "sorted (res_lat load_res1)" "0 \<le> res_requests load_res1" "0 \<le> res_errors load_res1"
    by (simp_all add: load_res1_def)
  show ?thesis
    using thresholds_decide [OF a(1) b] thresholds_decide [OF a(2) b] by (simp add: load_res1_def load_defaults_def)
qed

section \<open>A whole run\<close>

text \<open>C22: The result of a measured run over any interleaving of the workers: the bytes are the payload
  times the requests, all round trip times are those of the requests, as many are kept as the limit
  allows, sorted and each of a different request, minimum and maximum are exact over all requests,
  and the reported percentiles lie between them in order.\<close>

theorem load_result_consistent:
  assumes "load_options_ok opt" "run_all opt True envs no_stats = (s, samples, left)"
    and "(pool_step sampler_act)\<^sup>*\<^sup>* (sampler_start (nat (latencySampleLimit opt)) samples) (sm, ws)" "sampler_done (sm, ws)"
    and "\<forall>vs\<in>set samples. \<forall>v\<in>set vs. 0 \<le> v \<and> v \<le> max_int64"
  shows "let res = make_result elapsed s sm; lat = res_lat res; all = sum_list (map mset samples) in
    left = 0 \<and> res_bytes res = l_payload opt * res_requests res \<and> 0 \<le> res_errors res \<and>
    res_requests res = int (size all) \<and>
    (l_requests opt \<noteq> 0 \<longrightarrow> res_requests res \<le> int (length envs) * l_requests opt) \<and>
    int (length lat) = min (res_requests res) (l_maxSamples opt) \<and> sorted lat \<and> mset lat \<subseteq># all \<and>
    (res_requests res \<noteq> 0 \<longrightarrow>
      res_latMin res = Min (set_mset all) \<and> res_latMax res = Max (set_mset all) \<and>
      res_latMin res \<le> percentile lat 50 \<and> percentile lat 50 \<le> percentile lat 95 \<and>
      percentile lat 95 \<le> percentile lat 99 \<and> percentile lat 99 \<le> res_latMax res)"
proof -
  let ?all = "sum_list (map mset samples)" and ?res = "make_result elapsed s sm"
  let ?lat = "res_lat ?res"
  obtain good bad where t: "counted (nat (l_payload opt)) no_stats s (int good) (int bad)" "left = 0"
      "sum_list (map length samples) = good" "l_requests opt \<noteq> 0 \<longrightarrow> int good \<le> int (length envs) * l_requests opt"
    using run_all_totals [OF assms(1,2)] by auto
  have o: "0 < l_payload opt" "0 < l_maxSamples opt" using assms(1) by (simp_all add: load_options_ok_def)
  have c: "ls_requests s = int good" "ls_bytes s = l_payload opt * int good" "totalErrors s = int bad"
    using t(1) o(1) by (simp_all add: counted_def no_stats_def totalErrors_def)
  have sz: "size ?all = good" unfolding t(3) [symmetric] by (induction samples) simp_all
  have d: "sampler_good sm" "sampler_loose sm = {}" "sm_limit sm = nat (l_maxSamples opt)" "mset (sm_order sm) = ?all"
    using done_state [OF assms(3,4)] o(2) by (simp_all add: latencySampleLimit_def)
  have len: "length (sm_order sm) = good" using sz d(4) by (metis size_mset)
  have set_all: "set (sm_order sm) = set_mset ?all" by (metis d(4) set_mset_mset)
  moreover have "set_mset ?all = \<Union> (set ` set samples)" by (induction samples) auto
  ultimately have v: "\<forall>v\<in>set (sm_order sm). 0 \<le> v \<and> v \<le> max_int64" using assms(5) by auto
  have lat: "length ?lat = min good (nat (l_maxSamples opt))" "mset ?lat \<subseteq># ?all" "sorted ?lat"
    using count_filled [OF d(1,2)] kept_values [OF d(1)] d(1,3,4) len by (simp_all add: make_result_def sampler_good_def)
  have p: "res_latMin ?res = Min (set_mset ?all) \<and> res_latMax ?res = Max (set_mset ?all) \<and>
      res_latMin ?res \<le> percentile ?lat 50 \<and> percentile ?lat 50 \<le> percentile ?lat 95 \<and>
      percentile ?lat 95 \<le> percentile ?lat 99 \<and> percentile ?lat 99 \<le> res_latMax ?res \<and>
      Min (set_mset ?all) \<le> percentile ?lat 50 \<and> percentile ?lat 99 \<le> Max (set_mset ?all)" if "good \<noteq> 0"
  proof -
    have ne: "sm_order sm \<noteq> []" "?lat \<noteq> []" using that len lat(1) o(2) by (auto simp: min_def split: if_splits)
    note e = extrema_exact [OF d(1,2) v ne(1)]
    have "percentile ?lat q \<in> set_mset ?all" for q
      using percentile_mem [OF ne(2), of q] mset_subset_eqD [OF lat(2)] by simp
    then have "Min (set_mset ?all) \<le> percentile ?lat q" "percentile ?lat q \<le> Max (set_mset ?all)" for q by simp_all
    then show ?thesis using e set_all percentile_mono [OF lat(3) ne(2)] by (simp add: make_result_def)
  qed
  have il: "int (length ?lat) = min (int good) (l_maxSamples opt)" using lat(1) o(2) by linarith
  have res: "res_requests ?res = int good" "res_bytes ?res = l_payload opt * int good" "res_errors ?res = int bad"
    using c by (simp_all add: make_result_def)
  show ?thesis unfolding Let_def res using t(2,4) sz il lat(2,3) p by simp
qed

definition load_opt2 :: load_options where
  "load_opt2 = load_defaults\<lparr>l_payload := 2, l_requests := 1, l_maxSamples := 1\<rparr>"

definition load_envs2 :: "(dial_outcome \<times> load_round list) list" where
  "load_envs2 = map (\<lambda>t. (Dialed, [\<lparr>r_dial = Dialed, r_write = True, r_in = Some [97, 98], r_rtt = t, r_total = t, r_wait = True\<rparr>]))
     [70, 40]"

lemma load_run2:
  "\<exists>s. run_all load_opt2 True load_envs2 no_stats = (s, [[70], [40]], 0) \<and> ls_requests s = 2"
  by (simp add: run_worker_def runTCP_def runTCPStream_def load_opt2_def load_defaults_def load_envs2_def Let_def payload2
      budget_def worker_ops new_worker_def tcpRoundTrip_def ReadFull_def no_stats_def)

lemma load_result_consistent_witness:
  "\<exists>s sm. run_all load_opt2 True load_envs2 no_stats = (s, [[70], [40]], 0) \<and>
     res_requests (make_result 1 s sm) = 2 \<and> length (res_lat (make_result 1 s sm)) = 1 \<and>
     res_latMin (make_result 1 s sm) = 40 \<and> res_latMax (make_result 1 s sm) = 70"
proof -
  obtain s where s: "run_all load_opt2 True load_envs2 no_stats = (s, [[70], [40]], 0)" "ls_requests s = 2"
    using load_run2 by blast
  obtain sm ws where r: "(pool_step sampler_act ^^ 20) (sampler_start 1 [[70], [40]]) (sm, ws)" "sampler_done (sm, ws)"
    using two_adders_reach by blast
  have o: "load_options_ok load_opt2" "nat (latencySampleLimit load_opt2) = 1" "l_maxSamples load_opt2 = 1"
    by (simp_all add: load_options_ok_def load_opt2_def load_defaults_def defaultMaxLatencySamples_def latencySampleLimit_def)
  have c: "(pool_step sampler_act)\<^sup>*\<^sup>* (sampler_start (nat (latencySampleLimit load_opt2)) [[70], [40]]) (sm, ws)"
    using r(1) unfolding o(2) by (rule relpowp_imp_rtranclp)
  have v: "\<forall>vs\<in>set [[70], [40]]. \<forall>v\<in>set vs. 0 \<le> v \<and> v \<le> max_int64" by (simp add: max_int64_def)
  have m: "Min {70, 40 :: int} = 40" "Max {70, 40 :: int} = 70" by simp_all
  have q: "res_requests (make_result 1 s sm) = 2" using s(2) by (simp add: make_result_def)
  show ?thesis
    using load_result_consistent [OF o(1) s(1) c r(2) v, of 1] s(1) q o(3) m
    by (intro exI [of _ s] exI [of _ sm]) (simp add: Let_def insert_commute)
qed

section \<open>Starting, stopping, reporting\<close>

lemmas held_defs = nothing_held_def closeEcho_def chain_cancel_def server_ended_def

lemma chain_start_cases:
  "startChain opt echo port start probes ended nothing_held = (Inl e, h) \<Longrightarrow>
     \<not> h_echo h \<and> \<not> h_port h \<and> \<not> h_live h \<and> (h_server h \<longrightarrow> \<not> ended \<and> (\<exists>a. e = PortNotReady a))"
  "startChain opt echo port start probes ended nothing_held = (Inr ch, h) \<Longrightarrow> \<not> h_port h \<and>
     fc_Listen (fs_cfg (ch_srv ch)) = ch_listenAddr ch \<and> fc_Target (fs_cfg (ch_srv ch)) = ch_targetAddr ch \<and>
     fc_MaxConns (fs_cfg (ch_srv ch)) = l_maxConns opt \<and> fc_IdleTimeout (fs_cfg (ch_srv ch)) = l_idleTimeout opt \<and>
     (l_proto opt = ''tcp'' \<or> l_proto opt = ''udp'') \<and> fc_Network (fs_cfg (ch_srv ch)) = l_proto opt"
proof -
  have w: "waitPortReady addr network until ps = Some e \<Longrightarrow> e = PortNotReady addr" for addr network until ps and e
    by (induction addr network until ps rule: waitPortReady.induct) (auto split: if_splits)
  show "startChain opt echo port start probes ended nothing_held = (Inl e, h) \<Longrightarrow>
     \<not> h_echo h \<and> \<not> h_port h \<and> \<not> h_live h \<and> (h_server h \<longrightarrow> \<not> ended \<and> (\<exists>a. e = PortNotReady a))"
    by (auto simp: startChain_def startEchoTarget_def freePort_def held_defs Let_def
        split: sum.splits option.splits if_splits dest!: w)
  show "startChain opt echo port start probes ended nothing_held = (Inr ch, h) \<Longrightarrow> \<not> h_port h \<and>
     fc_Listen (fs_cfg (ch_srv ch)) = ch_listenAddr ch \<and> fc_Target (fs_cfg (ch_srv ch)) = ch_targetAddr ch \<and>
     fc_MaxConns (fs_cfg (ch_srv ch)) = l_maxConns opt \<and> fc_IdleTimeout (fs_cfg (ch_srv ch)) = l_idleTimeout opt \<and>
     (l_proto opt = ''tcp'' \<or> l_proto opt = ''udp'') \<and> fc_Network (fs_cfg (ch_srv ch)) = l_proto opt"
    by (auto simp: startChain_def startEchoTarget_def freePort_def held_defs forward_New_def chain_config_def Let_def
        TrimSpace_def trim_both_def trim_right_def trim_left_def is_go_space_def
        split: sum.splits option.splits if_splits)
qed

text \<open>C24: Whatever fails, when a run returns the echo target and the port finder are closed and the
  forwarder's context is cancelled; the forwarder itself has returned too, except where the code does
  not wait for it to: when it did not stop in time, which goes to standard error, and when its port
  never became ready, which is the run's error.  Standard error gets what stopping the forwarder gave.
  The run succeeds exactly when the chain started (if it is its own), the thresholds hold and the
  report could be written; the JSON report says whether it passed, and names the forwarder\<open>'s\<close> gauge
  only for its own chain, the text report is printed exactly in the text format and flags a gauge
  that is not zero; the workers connect to the address the forwarder listens on.\<close>

theorem load_run_releases_and_reports:
  "let started = startChain opt echo port start probes ended nothing_held;
       own = (l_external opt = []);
       (err, out) = runWithOutput opt hi started res srvDone active printed in
     \<not> h_echo (lo_held out) \<and> \<not> h_port (lo_held out) \<and> \<not> h_live (lo_held out) \<and>
     (h_server (lo_held out) \<longrightarrow> own \<and>
        (srvDone = None \<and> lo_stderr out = Some StopTimeout \<or> \<not> ended \<and> (\<exists>a. err = Some (ChainError (PortNotReady a))))) \<and>
     lo_stderr out = (if own \<and> (\<exists>ch. fst started = Inr ch)
       then (case srvDone of None \<Rightarrow> Some StopTimeout | Some r \<Rightarrow> map_option ServerError r) else None) \<and>
     (err = None \<longleftrightarrow> (own \<longrightarrow> (\<exists>ch. fst started = Inr ch)) \<and> checkThresholds opt res = [] \<and> (l_format opt = ''json'' \<longrightarrow> printed = None)) \<and>
     (\<forall>rep. lo_report out = Some rep \<longrightarrow>
        l_format opt = ''json'' \<and> (js_passed rep \<longleftrightarrow> err = None) \<and>
        js_activeAfter rep = (if own then Some active else None) \<and> js_activeZero rep = (if own then Some (active = 0) else None)) \<and>
     (lo_text out \<noteq> None \<longleftrightarrow> l_format opt \<noteq> ''json'' \<and> (own \<longrightarrow> (\<exists>ch. fst started = Inr ch))) \<and>
     (\<forall>lines. lo_text out = Some lines \<longrightarrow> lines = printReport opt hi res (own \<longrightarrow> active = 0) (if own then active else - 1) own) \<and>
     (\<forall>ch. own \<and> fst started = Inr ch \<longrightarrow> lo_addr out = fc_Listen (fs_cfg (ch_srv ch)) \<and> fc_Network (fs_cfg (ch_srv ch)) = l_proto opt)"
proof -
  obtain r h where st: "startChain opt echo port start probes ended nothing_held = (r, h)" by (metis surj_pair)
  show ?thesis
  proof (cases "l_external opt = []")
    case False
    then show ?thesis
      by (auto simp: runWithOutput_def load_addr_def printJSONReport_def nothing_held_def Let_def split: option.splits)
  next
    case True
    show ?thesis
    proof (cases r)
      case (Inl e)
      then show ?thesis using True st chain_start_cases(1) [of opt echo port start probes ended e h]
        by (auto simp: runWithOutput_def load_addr_def Let_def)
    next
      case (Inr ch)
      then show ?thesis using True st chain_start_cases(2) [of opt echo port start probes ended ch h]
        by (auto simp: runWithOutput_def load_addr_def chain_stop_def held_defs printJSONReport_def Let_def split: option.splits)
    qed
  qed
qed

definition no_host :: hostInfo where
  "no_host = \<lparr>hi_GOOS = [], hi_GOARCH = [], hi_NumCPU = 1, hi_GoVersion = [], hi_Hostname = [], hi_Alloc = 0, hi_Sys = 0\<rparr>"

lemma load_run_releases_and_reports_witness:
  "let started = startChain load_defaults (Inr ''127.0.0.1:7'') (Inr 4000) 0 [(1, True)] False nothing_held in
     fst (runWithOutput load_defaults no_host started load_res1 (Some None) 0 None) = None \<and>
     lo_addr (snd (runWithOutput load_defaults no_host started load_res1 (Some None) 0 None)) = ''127.0.0.1:4000'' \<and>
     \<not> h_server (lo_held (snd (runWithOutput load_defaults no_host started load_res1 (Some None) 0 None)))"
proof -
  let ?s = "startChain load_defaults (Inr ''127.0.0.1:7'') (Inr 4000) 0 [(1, True)] False nothing_held"
  have "isl (fst ?s) = False \<and> fc_Listen (fs_cfg (ch_srv (projr (fst ?s)))) = ''127.0.0.1:4000''" by code_simp
  then obtain ch where ch: "fst ?s = Inr ch" "fc_Listen (fs_cfg (ch_srv ch)) = ''127.0.0.1:4000''"
    by (cases "fst ?s") auto
  have own: "l_external load_defaults = []" "checkThresholds load_defaults load_res1 = []"
    by (simp_all add: load_defaults_def checkThresholds_def)
  have fmt: "l_format load_defaults \<noteq> ''json''" by (simp add: load_defaults_def)
  show ?thesis
    using load_run_releases_and_reports [where opt = load_defaults and hi = no_host and echo = "Inr ''127.0.0.1:7''" and
        port = "Inr 4000" and start = 0 and probes = "[(1, True)]" and ended = False and res = load_res1 and srvDone = "Some None" and
        active = 0 and printed = None]
    by (simp add: Let_def ch own fmt split: prod.splits)
qed

end
