(* ===== verification/Load_Report.thy ===== *)
theory Load_Report
  imports Load_Test
begin

text \<open>
  The two reports of the load test, \<open>printReport\<close> and \<open>printJSONReport\<close> of cmd/loadtest/main.go, say
  the same: the figures of the text report are read back with Go's own parsers (theories \<open>Go_Format\<close> and
  \<open>Go_Duration\<close>) and compared with the fields of the JSON report of the same run.
\<close>

lemma report_seconds_pos: "1 / 1000000000 \<le> report_seconds res"
proof (cases "res_elapsed res \<le> 0")
  case True
  then have "of_int (res_elapsed res) / 1000000000 \<le> (0 :: rat)" by simp
  then show ?thesis by (simp add: report_seconds_def Let_def)
next
  case False
  then have "1 / 1000000000 \<le> (of_int (res_elapsed res) / 1000000000 :: rat)" by (intro divide_right_mono) simp_all
  then show ?thesis by (simp add: report_seconds_def Let_def)
qed

text \<open>A rate is a figure that can be printed and read back.\<close>

lemma rate_bounds:
  assumes "0 \<le> x" "x < 2 ^ 63" "1 \<le> k"
  shows "0 \<le> of_int x / k / report_seconds res \<and> of_int x / k / report_seconds res \<le> (10 :: rat) ^ 30"
proof -
  note s = report_seconds_pos [of res]
  have "rat_of_int x \<le> rat_of_int (2 ^ 63)" using assms(2) by (simp only: of_int_le_iff)
  then have x: "0 \<le> rat_of_int x" "rat_of_int x \<le> 2 ^ 63" using assms(1) by simp_all
  have "rat_of_int x / k \<le> rat_of_int x" using assms(3) x(1) by (simp add: divide_le_eq mult_le_cancel_left1)
  then have "rat_of_int x / k / report_seconds res \<le> rat_of_int x / (1 / 1000000000)"
    using s x(1) assms(3) by (intro frac_le) auto
  also have "\<dots> \<le> 2 ^ 63 * 1000000000" using x by simp
  also have "\<dots> \<le> (10 :: rat) ^ 30" by simp
  finally show ?thesis using s x(1) assms(3) by simp
qed

lemma rtt_text_close:
  assumes "0 \<le> d" "d < 2 ^ 63"
  shows "\<exists>e. ParseDuration (rtt_text d) = Some e \<and> 1000 * Microseconds d \<le> sint e \<and> sint e \<le> 1000 * Microseconds d + 1000"
proof -
  let ?r = "Duration_Round d 1000"
  define m k where "m = d mod 1000" and "k = d div 1000"
  have mk: "d = 1000 * k + m" "0 \<le> m" "m < 1000" by (simp_all add: m_def k_def)
  have r: "1000 * k \<le> ?r \<and> ?r \<le> 1000 * k + 1000 \<and> ?r < 2 ^ 63"
    using assms mk unfolding Duration_Round_def Let_def m_def [symmetric] by auto
  have "0 \<le> 1000 * k" using assms by (simp add: k_def pos_imp_zdiv_nonneg_iff)
  with r have "sint (of_int ?r :: i64) = ?r" by (intro sint_of_int_i64) auto
  then have "ParseDuration (rtt_text d) = Some (of_int ?r)"
    using ParseDuration_String [of "of_int ?r"] by (simp add: rtt_text_def)
  moreover have "Microseconds d = k" using assms by (simp add: Microseconds_def k_def)
  ultimately show ?thesis using r \<open>sint (of_int ?r :: i64) = ?r\<close> by auto
qed

lemma error_rate_bounds:
  assumes "0 \<le> res_requests res" "0 \<le> res_errors res"
  shows "0 \<le> resultErrorRate res \<and> resultErrorRate res \<le> 100"
proof (cases "res_requests res + res_errors res = 0")
  case False
  then have t: "(0 :: rat) < of_int (res_requests res + res_errors res)" using assms by simp
  define x :: rat where "x = of_int (res_errors res) / of_int (res_requests res + res_errors res)"
  have "0 \<le> x" unfolding x_def using assms by (intro divide_nonneg_nonneg) simp_all
  moreover have "x \<le> 1" unfolding x_def pos_divide_le_eq [OF t] using assms by simp
  moreover have "resultErrorRate res = x * 100" using False by (simp only: resultErrorRate_def Let_def if_False x_def)
  ultimately show ?thesis by simp
qed (simp add: resultErrorRate_def)

text \<open>A line that starts with the label, and what stands behind it up to the tail.\<close>

definition shows_figure :: "string list \<Rightarrow> string \<Rightarrow> string \<Rightarrow> rat \<Rightarrow> rat \<Rightarrow> bool" where
  "shows_figure ls label tail q tolerance \<longleftrightarrow>
     (\<exists>t r. label @ t @ tail \<in> set ls \<and> ParseFloat t = Some (Fin r) \<and> \<bar>r - q\<bar> \<le> tolerance)"

definition shows_duration :: "string list \<Rightarrow> string \<Rightarrow> int \<Rightarrow> bool" where
  "shows_duration ls label us \<longleftrightarrow>
     (\<exists>t d. label @ t \<in> set ls \<and> ParseDuration t = Some d \<and> 1000 * us \<le> sint d \<and> sint d \<le> 1000 * us + 1000)"

lemma shows_figureI:
  assumes "label @ format_fixed d q @ tail \<in> set ls" "0 \<le> q \<and> q \<le> 10 ^ 30" "0 < d"
  shows "shows_figure ls label tail q (1 / (2 * 10 ^ d))"
  using assms format_fixed_reads_back [of q d] unfolding shows_figure_def by blast

lemma shows_durationI:
  assumes "label @ rtt_text d \<in> set ls" "0 \<le> d \<and> d < 2 ^ 63"
  shows "shows_duration ls label (Microseconds d)"
  using assms rtt_text_close [of d] unfolding shows_duration_def by blast

lemmas report_blocks = printReport_def config_block_def results_block_def latency_block_def reliability_block_def Let_def

text \<open>The text report and the JSON report of a run agree: the counts are printed digit for digit, the
  rates are read back to within half a unit of their last printed digit of the JSON figures, every
  round trip time to within a microsecond (the text is rounded where the JSON is cut), and a gauge that
  did not return to zero is flagged in both.\<close>

theorem text_report_agrees_with_json:
  assumes counts: "\<forall>x\<in>{res_requests res, res_bytes res, res_newConns res, res_errors res}. 0 \<le> x \<and> x < 2 ^ 63"
    and times: "\<forall>d\<in>{res_latMin res, res_latMax res} \<union> set (res_lat res). 0 \<le> d \<and> d < 2 ^ 63"
  shows "let js = printJSONReport opt hi res activeZero activeAfter builtin passed;
      ls = printReport opt hi res activeZero activeAfter builtin in
    ''  requests ok  : '' @ Itoa (js_requests js) \<in> set ls \<and> ''  new conns    : '' @ Itoa (js_newConns js) \<in> set ls \<and>
    ''    dial       : '' @ Itoa (js_dial js) \<in> set ls \<and> ''    write      : '' @ Itoa (js_write js) \<in> set ls \<and>
    ''    read/timeout: '' @ Itoa (js_read js) \<in> set ls \<and> ''    mismatch   : '' @ Itoa (js_mismatch js) \<in> set ls \<and>
    shows_figure ls ''  req/s        : '' [] (js_requestsPS js) (1 / 200) \<and>
    (\<exists>tail. shows_figure ls ''  throughput   : '' ('' MB/s'' @ tail) (js_throughput js / (1024 * 1024)) (1 / 200)) \<and>
    shows_figure ls (''  errors       : '' @ Itoa (js_errors js) @ '' (rate '') ''%)'' (js_errorRate js) (1 / 20000) \<and>
    (js_sampleCount js \<noteq> 0 \<longrightarrow>
      shows_duration ls ''  min          : '' (js_minUs js) \<and> shows_duration ls ''  p50          : '' (js_p50Us js) \<and>
      shows_duration ls ''  p95          : '' (js_p95Us js) \<and> shows_duration ls ''  p99          : '' (js_p99Us js) \<and>
      shows_duration ls ''  max          : '' (js_maxUs js)) \<and>
    (js_activeZero js = Some False \<longrightarrow>
      ''  active conns : '' @ Itoa (the (js_activeAfter js)) @ '' (DID NOT return to zero) FAIL'' \<in> set ls)"
proof -
  define ls where "ls = printReport opt hi res activeZero activeAfter builtin"
  have reqs: "shows_figure ls ''  req/s        : '' [] (of_int (res_requests res) / report_seconds res) (1 / (2 * 10 ^ 2))"
    using rate_bounds [of "res_requests res" 1 res] counts
    by (intro shows_figureI) (simp_all add: ls_def report_blocks)
  have thr: "\<exists>tail. shows_figure ls ''  throughput   : '' ('' MB/s'' @ tail)
      (of_int (res_bytes res) / (1024 * 1024) / report_seconds res) (1 / (2 * 10 ^ 2))"
    using rate_bounds [of "res_bytes res" "1024 * 1024" res] counts
    by (intro exI shows_figureI) (simp_all add: ls_def report_blocks)
  have rate: "shows_figure ls (''  errors       : '' @ Itoa (res_errors res) @ '' (rate '') ''%)'' (resultErrorRate res) (1 / (2 * 10 ^ 4))"
    using error_rate_bounds [of res] counts by (intro shows_figureI) (simp_all add: ls_def report_blocks)
  have rtt: "shows_duration ls ''  min          : '' (Microseconds (res_latMin res)) \<and>
      shows_duration ls ''  p50          : '' (Microseconds (percentile (res_lat res) 50)) \<and>
      shows_duration ls ''  p95          : '' (Microseconds (percentile (res_lat res) 95)) \<and>
      shows_duration ls ''  p99          : '' (Microseconds (percentile (res_lat res) 99)) \<and>
      shows_duration ls ''  max          : '' (Microseconds (res_latMax res))" if "res_lat res \<noteq> []"
  proof -
    have "0 \<le> percentile (res_lat res) p \<and> percentile (res_lat res) p < 2 ^ 63" for p
      using percentile_mem [OF that, of p] times by blast
    then show ?thesis using that times by (intro conjI shows_durationI) (simp_all add: ls_def report_blocks)
  qed
  have gauge: "js_activeZero (printJSONReport opt hi res activeZero activeAfter builtin passed) = Some False \<longrightarrow>
      ''  active conns : '' @ Itoa (the (js_activeAfter (printJSONReport opt hi res activeZero activeAfter builtin passed))) @
        '' (DID NOT return to zero) FAIL'' \<in> set ls"
    by (simp add: printJSONReport_def ls_def report_blocks)
  show ?thesis
    using reqs thr rate rtt gauge unfolding ls_def [symmetric] Let_def
    by (simp add: printJSONReport_def Let_def mult.commute) (simp add: ls_def report_blocks)
qed

lemma text_report_agrees_with_json_witness:
  "shows_duration (printReport load_defaults no_host load_res1 True 0 True) ''  p95          : '' 0 \<and>
   shows_figure (printReport load_defaults no_host load_res1 True 0 True) ''  req/s        : '' [] (3 / 2) (1 / 200)"
proof -
  have c: "\<forall>x\<in>{res_requests load_res1, res_bytes load_res1, res_newConns load_res1, res_errors load_res1}. 0 \<le> x \<and> x < 2 ^ 63"
    "\<forall>d\<in>{res_latMin load_res1, res_latMax load_res1} \<union> set (res_lat load_res1). 0 \<le> d \<and> d < 2 ^ 63"
    by (simp_all add: load_res1_def)
  let ?js = "printJSONReport load_defaults no_host load_res1 True 0 True True"
  have "percentile [3, 5, 9 :: int] 95 = 9" by code_simp
  then have js: "js_p95Us ?js = 0" "js_requestsPS ?js = 3 / 2" "js_sampleCount ?js \<noteq> 0"
    by (simp_all add: printJSONReport_def report_seconds_def load_res1_def Microseconds_def)
  have "shows_figure (printReport load_defaults no_host load_res1 True 0 True) ''  req/s        : '' [] (js_requestsPS ?js) (1 / 200)"
    "js_sampleCount ?js \<noteq> 0 \<longrightarrow>
      shows_duration (printReport load_defaults no_host load_res1 True 0 True) ''  p95          : '' (js_p95Us ?js)"
    using text_report_agrees_with_json [OF c, of load_defaults no_host True 0 True True] unfolding Let_def by blast+
  with js(3) show ?thesis by (simp only: js simp_thms)
qed

end
