(* ===== verification/Msg_Text.thy ===== *)
theory Msg_Text
  imports I18n_Model
begin

text \<open>
  What the message tables of internal/i18n are made of: the keys (keys_common.go, keys_forward.go,
  keys_proxy.go), UTF-8 text, and the formatting directives of a message.  Go's string constants are
  UTF-8; the part of a message outside ASCII is written by its code points.
\<close>

section \<open>UTF-8\<close>

definition utf8_rune :: "nat \<Rightarrow> string" where
  "utf8_rune r =
     (if r < 128 then [char_of r]
      else if r < 2048 then [char_of (192 + r div 64), char_of (128 + r mod 64)]
      else if r < 65536 then [char_of (224 + r div 4096), char_of (128 + r div 64 mod 64), char_of (128 + r mod 64)]
      else [char_of (240 + r div 262144), char_of (128 + r div 4096 mod 64), char_of (128 + r div 64 mod 64), char_of (128 + r mod 64)])"

definition utf8 :: "nat list \<Rightarrow> string" where
  "utf8 rs = concat (map utf8_rune rs)"

lemma utf8_rune_high:
  assumes "128 \<le> r" "r < 1114112" "c \<in> set (utf8_rune r)"
  shows "128 \<le> (of_char c :: nat)"
proof -
  have b: "of_char (char_of n :: char) = n" if "n < 256" for n :: nat using that by (simp add: of_char_of)
  have d: "r div 64 < 32" if "r < 2048" using that by (simp add: less_mult_imp_div_less)
  have e: "r div 4096 < 16" if "r < 65536" using that by (simp add: less_mult_imp_div_less)
  have f: "r div 262144 < 8" using assms(2) by (simp add: less_mult_imp_div_less)
  have m: "x mod 64 < 64" for x :: nat by simp
  consider "r < 2048" | "2048 \<le> r" "r < 65536" | "65536 \<le> r" by linarith
  then show ?thesis
  proof cases
    case 1
    then show ?thesis using assms(1,3) d m [of r] by (auto simp: utf8_rune_def b)
  next
    case 2
    then show ?thesis using assms(3) e m [of r] m [of "r div 64"] by (auto simp: utf8_rune_def b)
  next
    case 3
    then show ?thesis using assms(3) f m [of r] m [of "r div 64"] m [of "r div 4096"] by (auto simp: utf8_rune_def b)
  qed
qed

definition runes :: "nat list \<Rightarrow> bool" where
  "runes rs \<longleftrightarrow> (\<forall>r\<in>set rs. 128 \<le> r \<and> r < 1114112)"

lemma runes_simps [simp]: "runes []" "runes (r # rs) \<longleftrightarrow> 128 \<le> r \<and> r < 1114112 \<and> runes rs"
  by (auto simp: runes_def)

lemma utf8_high: "runes rs \<Longrightarrow> c \<in> set (utf8 rs) \<Longrightarrow> 128 \<le> (of_char c :: nat)"
  using utf8_rune_high by (fastforce simp: utf8_def runes_def)

lemma utf8_not_low: "runes rs \<Longrightarrow> (of_char c :: nat) < 128 \<Longrightarrow> c \<notin> set (utf8 rs)"
  using utf8_high [of rs c] by auto

section \<open>Formatting directives\<close>

text \<open>The directives of a format for package \<open>fmt\<close>: the index of the argument and the verb.  Flags,
  width and precision are skipped, \<open>%[n]\<close> sets the argument, \<open>%%\<close> takes none, and an exclamation mark
  stands for a missing verb.\<close>

function (sequential) fmt_scan :: "nat \<Rightarrow> string \<Rightarrow> (nat \<times> char) list"
  and fmt_verb :: "nat \<Rightarrow> string \<Rightarrow> (nat \<times> char) list"
  and fmt_index :: "nat \<Rightarrow> string \<Rightarrow> (nat \<times> char) list" where
  "fmt_scan i [] = []"
| "fmt_scan i (c # cs) = (if c = CHR ''%'' then fmt_verb i cs else fmt_scan i cs)"
| "fmt_verb i [] = [(i, CHR ''!'')]"
| "fmt_verb i (c # cs) =
     (if c = CHR ''%'' then fmt_scan i cs
      else if c = CHR ''['' then fmt_index 0 cs
      else if c \<in> set ''+-# .0123456789'' then fmt_verb i cs
      else (i, c) # fmt_scan (Suc i) cs)"
| "fmt_index n [] = [(n - 1, CHR ''!'')]"
| "fmt_index n (c # cs) =
     (if c = CHR '']'' then fmt_verb (n - 1) cs else fmt_index (n * 10 + (of_char c - 48)) cs)"
  by pat_completeness auto
termination
  by (relation "measure (\<lambda>x. case x of Inl (_, s) \<Rightarrow> length s | Inr (Inl (_, s)) \<Rightarrow> length s | Inr (Inr (_, s)) \<Rightarrow> length s)") auto

definition directives :: "string \<Rightarrow> (nat \<times> char) list" where
  "directives m = fmt_scan 0 m"

lemma fmt_scan_plain: "CHR ''%'' \<notin> set p \<Longrightarrow> fmt_scan i (p @ s) = fmt_scan i s"
  by (induction p) auto

lemma fmt_scan_utf8 [simp]:
  assumes "runes rs"
  shows "fmt_scan i (utf8 rs @ s) = fmt_scan i s" "fmt_scan i (utf8 rs) = []"
proof -
  have "CHR ''%'' \<notin> set (utf8 rs)" by (rule utf8_not_low [OF assms]) simp
  then show "fmt_scan i (utf8 rs @ s) = fmt_scan i s" "fmt_scan i (utf8 rs) = []"
    using fmt_scan_plain [of "utf8 rs" i s] fmt_scan_plain [of "utf8 rs" i "[]"] by simp_all
qed

section \<open>Text in a script\<close>

definition markup_char :: "char \<Rightarrow> bool" where
  "markup_char c \<longleftrightarrow> c = CHR ''<'' \<or> c = CHR ''>'' \<or> c = CHR 0x22 \<or> c = CHR 0x27"

text \<open>What may stand in a string of the script as it is, and is not changed by escaping.\<close>

definition script_plain :: "string \<Rightarrow> bool" where
  "script_plain s \<longleftrightarrow> list_all (\<lambda>c. \<not> markup_char c \<and> c \<noteq> CHR ''&'' \<and> c \<noteq> CHR 0x5C \<and> c \<noteq> CHR 0x0A \<and> c \<noteq> CHR 0x0D) s"

lemma script_plain_utf8 [simp]:
  assumes "runes rs"
  shows "script_plain (utf8 rs)" "script_plain (utf8 rs @ s) = script_plain s"
proof -
  have n: "c \<notin> set (utf8 rs)" if "(of_char c :: nat) < 128" for c by (rule utf8_not_low [OF assms that])
  have "\<forall>c\<in>set (utf8 rs). \<not> markup_char c \<and> c \<noteq> CHR ''&'' \<and> c \<noteq> CHR 0x5C \<and> c \<noteq> CHR 0x0A \<and> c \<noteq> CHR 0x0D"
    using n [of "CHR ''<''"] n [of "CHR ''>''"] n [of "CHR 0x22"] n [of "CHR 0x27"] n [of "CHR ''&''"] n [of "CHR 0x5C"]
      n [of "CHR 0x0A"] n [of "CHR 0x0D"] by (auto simp: markup_char_def)
  then show "script_plain (utf8 rs)" "script_plain (utf8 rs @ s) = script_plain s"
    by (simp_all add: script_plain_def list_all_iff) blast
qed

lemma script_plain_simps:
  "script_plain []"
  "script_plain (c # s) \<longleftrightarrow> \<not> markup_char c \<and> c \<noteq> CHR ''&'' \<and> c \<noteq> CHR 0x5C \<and> c \<noteq> CHR 0x0A \<and> c \<noteq> CHR 0x0D \<and> script_plain s"
  by (simp_all add: script_plain_def)

text \<open>The two messages that the page puts into its script.\<close>

definition page_message :: "string \<times> string \<Rightarrow> bool" where
  "page_message km \<longleftrightarrow> (fst km = ''web.count-unit'' \<or> fst km = ''web.empty'' \<longrightarrow> script_plain (snd km))"

section \<open>The keys and the arguments of their messages\<close>

definition keys_common :: "string list" where
  "keys_common =
     [''usage.title'',
      ''usage.line'',
      ''version.line'',
      ''usage.subcommands'',
      ''err.unknown-sub'',
      ''flag.version'',
      ''flag.config'',
      ''flag.lang'',
      ''flag.stats-addr'',
      ''flag.stats-allow-public'',
      ''log.stats-http-started'',
      ''log.stats-http-stopped'',
      ''err.stats-http-serve'',
      ''err.stats-http-public'',
      ''flag.web-addr'',
      ''flag.web-allow-public'',
      ''flag.web-log-max'',
      ''log.web-started'',
      ''log.web-stopped'',
      ''err.web-serve'',
      ''err.web-public'',
      ''web.title'',
      ''web.perf-section'',
      ''web.logs-section'',
      ''web.active-conns'',
      ''web.total-conns'',
      ''web.rejected-conns'',
      ''web.dial-errors'',
      ''web.up-bytes'',
      ''web.down-bytes'',
      ''web.uptime'',
      ''web.col-time'',
      ''web.col-kind'',
      ''web.col-proto'',
      ''web.col-client'',
      ''web.col-target'',
      ''web.col-up'',
      ''web.col-down'',
      ''web.col-duration'',
      ''web.btn-refresh'',
      ''web.auto-refresh'',
      ''web.count-unit'',
      ''web.empty'',
      ''err.config-read'',
      ''err.config-parse'',
      ''err.config-dial'',
      ''err.config-idle'',
      ''err.config-handshake'',
      ''err.config-keepalive'',
      ''err.config-section-empty'',
      ''log.forward-starting-instances'',
      ''log.proxy-starting-instances'',
      ''log.instance-starting'',
      ''err.instance-failed'',
      ''err.duplicate-listen'',
      ''err.conflicting-multi-option'',
      ''err.multi-forward-mode'',
      ''log.multi-ignore-flags'']"

definition keys_forward :: "string list" where
  "keys_forward =
     [''flag.listen-port'',
      ''flag.listen-host'',
      ''flag.target'',
      ''flag.mode'',
      ''flag.proto'',
      ''flag.reuseaddr'',
      ''flag.sudo'',
      ''flag.dial-timeout'',
      ''flag.max-conns'',
      ''flag.idle-timeout'',
      ''flag.log-level'',
      ''flag.quiet'',
      ''err.listen-port'',
      ''err.target-empty'',
      ''err.proto'',
      ''err.idle-neg'',
      ''err.maxconns-neg'',
      ''err.dial-neg'',
      ''err.log-level'',
      ''err.mode'',
      ''err.serve-exit'',
      ''err.socat-failed'',
      ''log.effective-config'',
      ''log.socat-ignore'',
      ''log.socat-exec'',
      ''log.status'',
      ''log.status-full'',
      ''err.unsupported-net'',
      ''err.forward-self-target'',
      ''fwd.tcp-listening'',
      ''fwd.dial-failed'',
      ''fwd.conn-open'',
      ''fwd.conn-close'',
      ''fwd.pipe-error'',
      ''fwd.udp-listening'',
      ''fwd.udp-limit'',
      ''fwd.udp-dial-failed'',
      ''fwd.udp-write-target'',
      ''fwd.udp-session-open'',
      ''fwd.udp-session-close'',
      ''fwd.udp-write-client'',
      ''err.socat-proto'',
      ''err.socat-port'',
      ''err.socat-target'',
      ''err.socat-not-found'',
      ''err.socat-invalid-str'']"

definition keys_proxy :: "string list" where
  "keys_proxy =
     [''proxy.usage.title'',
      ''proxy.usage.line'',
      ''flag.proxy-addr'',
      ''flag.proxy-dial-timeout'',
      ''flag.proxy-max-conns'',
      ''flag.proxy-handshake-timeout'',
      ''flag.proxy-idle-timeout'',
      ''flag.proxy-allow-public'',
      ''flag.proxy-upstream'',
      ''flag.proxy-upstream-identity'',
      ''flag.proxy-upstream-known-hosts'',
      ''flag.proxy-upstream-insecure'',
      ''flag.proxy-upstream-agent'',
      ''flag.proxy-upstream-agent-socket'',
      ''flag.proxy-upstream-keepalive'',
      ''flag.proxy-upstream-keepalive-max-failures'',
      ''proxy.started'',
      ''proxy.accept-failed'',
      ''proxy.detect-failed'',
      ''proxy.socks5-failed'',
      ''proxy.http-failed'',
      ''proxy.socks5-relay'',
      ''proxy.http-connect'',
      ''proxy.http-plain'',
      ''proxy.shutting-down'',
      ''proxy.shutdown-failed'',
      ''proxy.conn-limit'',
      ''proxy.upstream-enabled'',
      ''proxy.upstream-insecure'',
      ''proxy.upstream-ssh-connect'',
      ''proxy.upstream-ssh-reconnect'',
      ''proxy.upstream-ssh-agent'',
      ''proxy.upstream-ssh-agent-skip-key'',
      ''proxy.upstream-ssh-keepalive-fail'',
      ''proxy.upstream-ssh-backoff'',
      ''err.proxy-exit'',
      ''err.proxy-handshake-neg'',
      ''err.proxy-public-listen'',
      ''err.proxy-self-target'',
      ''err.proxy-socks-read-nmethods'',
      ''err.proxy-socks-read-methods'',
      ''err.proxy-socks-no-auth'',
      ''err.proxy-socks-reply-auth'',
      ''err.proxy-socks-read-header'',
      ''err.proxy-socks-bad-version'',
      ''err.proxy-socks-parse-addr'',
      ''err.proxy-socks-read-port'',
      ''err.proxy-socks-bad-command'',
      ''err.proxy-socks-dial'',
      ''err.proxy-socks-reply-success'',
      ''err.proxy-socks-bad-addr-type'',
      ''err.proxy-http-parse-request'',
      ''err.proxy-http-connect-dial'',
      ''err.proxy-http-connect-reply'',
      ''err.proxy-http-dial'',
      ''err.proxy-http-forward'',
      ''err.proxy-http-relay-resp'',
      ''err.proxy-http-upgrade-unsupported'',
      ''err.proxy-upstream-scheme'',
      ''err.proxy-upstream-parse'',
      ''err.proxy-upstream-empty-host'',
      ''err.proxy-upstream-socks5'',
      ''err.proxy-upstream-http-connect'',
      ''err.proxy-upstream-http-status'',
      ''err.proxy-upstream-ssh-no-auth'',
      ''err.proxy-upstream-ssh-identity'',
      ''err.proxy-upstream-ssh-parse-key'',
      ''err.proxy-upstream-ssh-agent'',
      ''err.proxy-upstream-ssh-passphrase-missing'',
      ''prompt.proxy-upstream-identity-passphrase'',
      ''prompt.proxy-upstream-password'',
      ''err.proxy-upstream-ssh-known-hosts'',
      ''err.proxy-upstream-ssh-dial'',
      ''err.proxy-upstream-ssh-channel'',
      ''err.proxy-upstream-closed'']"

text \<open>For every key, in the order of the tables, the directives its message has in every language.\<close>

definition message_args_main :: "(string \<times> (nat \<times> char) list) list" where
  "message_args_main =
     [(''usage.title'', []),
      (''usage.line'', [(0, CHR ''s'')]),
      (''version.line'', [(0, CHR ''s''), (1, CHR ''s''), (2, CHR ''s'')]),
      (''flag.listen-port'', []),
      (''flag.listen-host'', []),
      (''flag.target'', []),
      (''flag.mode'', []),
      (''flag.proto'', []),
      (''flag.reuseaddr'', []),
      (''flag.sudo'', []),
      (''flag.dial-timeout'', []),
      (''flag.max-conns'', []),
      (''flag.idle-timeout'', []),
      (''flag.log-level'', []),
      (''flag.quiet'', []),
      (''flag.version'', []),
      (''flag.config'', []),
      (''flag.lang'', [(0, CHR ''s'')]),
      (''flag.stats-addr'', []),
      (''flag.stats-allow-public'', []),
      (''err.listen-port'', [(0, CHR ''d'')]),
      (''err.target-empty'', []),
      (''err.proto'', [(0, CHR ''q'')]),
      (''err.idle-neg'', [(0, CHR ''s'')]),
      (''err.maxconns-neg'', [(0, CHR ''d'')]),
      (''err.dial-neg'', [(0, CHR ''s'')]),
      (''err.log-level'', [(0, CHR ''q'')]),
      (''err.mode'', [(0, CHR ''q'')]),
      (''err.serve-exit'', [(0, CHR ''w'')]),
      (''err.socat-failed'', [(0, CHR ''w'')]),
      (''log.effective-config'', [(0, CHR ''s'')]),
      (''log.socat-ignore'', [(0, CHR ''s'')]),
      (''log.socat-exec'', [(0, CHR ''s'')]),
      (''log.status'', [(0, CHR ''d''), (1, CHR ''d'')]),
      (''log.status-full'', [(0, CHR ''d''), (1, CHR ''d''), (2, CHR ''d''), (3, CHR ''d''), (4, CHR ''d''), (5, CHR ''d''), (6, CHR ''s'')]),
      (''log.stats-http-started'', [(0, CHR ''s'')]),
      (''log.stats-http-stopped'', []),
      (''err.stats-http-serve'', [(0, CHR ''w'')]),
      (''err.stats-http-public'', [(0, CHR ''s'')]),
      (''flag.web-addr'', []),
      (''flag.web-allow-public'', []),
      (''flag.web-log-max'', []),
      (''log.web-started'', [(0, CHR ''s'')]),
      (''log.web-stopped'', []),
      (''err.web-serve'', [(0, CHR ''v'')]),
      (''err.web-public'', [(0, CHR ''s'')]),
      (''web.title'', []),
      (''web.perf-section'', []),
      (''web.logs-section'', []),
      (''web.active-conns'', []),
      (''web.total-conns'', []),
      (''web.rejected-conns'', []),
      (''web.dial-errors'', []),
      (''web.up-bytes'', []),
      (''web.down-bytes'', []),
      (''web.uptime'', []),
      (''web.col-time'', []),
      (''web.col-kind'', []),
      (''web.col-proto'', []),
      (''web.col-client'', []),
      (''web.col-target'', []),
      (''web.col-up'', []),
      (''web.col-down'', []),
      (''web.col-duration'', []),
      (''web.btn-refresh'', []),
      (''web.auto-refresh'', []),
      (''web.count-unit'', []),
      (''web.empty'', []),
      (''err.config-read'', [(0, CHR ''w'')]),
      (''err.config-parse'', [(0, CHR ''w'')]),
      (''err.config-dial'', [(0, CHR ''w'')]),
      (''err.config-idle'', [(0, CHR ''w'')]),
      (''err.config-handshake'', [(0, CHR ''w'')]),
      (''err.config-keepalive'', [(0, CHR ''w'')]),
      (''err.config-section-empty'', [(0, CHR ''s'')]),
      (''log.forward-starting-instances'', [(0, CHR ''d'')]),
      (''log.proxy-starting-instances'', [(0, CHR ''d'')]),
      (''log.instance-starting'', [(0, CHR ''d''), (1, CHR ''s'')]),
      (''err.instance-failed'', [(0, CHR ''s''), (1, CHR ''w'')]),
      (''err.duplicate-listen'', [(0, CHR ''s'')]),
      (''err.conflicting-multi-option'', [(0, CHR ''s''), (1, CHR ''v''), (2, CHR ''v'')]),
      (''err.multi-forward-mode'', [(0, CHR ''q'')]),
      (''log.multi-ignore-flags'', [(0, CHR ''s'')]),
      (''err.unsupported-net'', [(0, CHR ''q'')]),
      (''err.forward-self-target'', [(0, CHR ''s'')]),
      (''fwd.tcp-listening'', [(0, CHR ''s''), (1, CHR ''s''), (2, CHR ''v''), (3, CHR ''d''), (4, CHR ''s'')]),
      (''fwd.dial-failed'', [(0, CHR ''s''), (1, CHR ''v'')]),
      (''fwd.conn-open'', [(0, CHR ''d''), (1, CHR ''s''), (2, CHR ''s''), (3, CHR ''d'')]),
      (''fwd.conn-close'', [(0, CHR ''d''), (1, CHR ''s''), (2, CHR ''s''), (3, CHR ''d''), (4, CHR ''d''), (5, CHR ''s'')]),
      (''fwd.pipe-error'', [(0, CHR ''d''), (1, CHR ''s''), (2, CHR ''v'')]),
      (''fwd.udp-listening'', [(0, CHR ''s''), (1, CHR ''s''), (2, CHR ''v''), (3, CHR ''d''), (4, CHR ''s'')]),
      (''fwd.udp-limit'', [(0, CHR ''s'')]),
      (''fwd.udp-dial-failed'', [(0, CHR ''s''), (1, CHR ''v'')]),
      (''fwd.udp-write-target'', [(0, CHR ''v'')]),
      (''fwd.udp-session-open'', [(0, CHR ''d''), (1, CHR ''s''), (2, CHR ''s''), (3, CHR ''d'')]),
      (''fwd.udp-session-close'', [(0, CHR ''d''), (1, CHR ''s'')]),
      (''fwd.udp-write-client'', [(0, CHR ''v'')]),
      (''err.socat-proto'', [(0, CHR ''q'')]),
      (''err.socat-port'', [(0, CHR ''d'')]),
      (''err.socat-target'', []),
      (''err.socat-not-found'', [(0, CHR ''q''), (1, CHR ''w'')]),
      (''err.socat-invalid-str'', []),
      (''usage.subcommands'', []),
      (''err.unknown-sub'', [(0, CHR ''q'')])]"

definition message_args_proxy :: "(string \<times> (nat \<times> char) list) list" where
  "message_args_proxy =
     [(''proxy.usage.title'', []),
      (''proxy.usage.line'', [(0, CHR ''s'')]),
      (''flag.proxy-addr'', []),
      (''flag.proxy-dial-timeout'', []),
      (''flag.proxy-max-conns'', []),
      (''flag.proxy-handshake-timeout'', []),
      (''flag.proxy-idle-timeout'', []),
      (''flag.proxy-allow-public'', []),
      (''flag.proxy-upstream'', []),
      (''flag.proxy-upstream-identity'', []),
      (''flag.proxy-upstream-known-hosts'', []),
      (''flag.proxy-upstream-insecure'', []),
      (''flag.proxy-upstream-agent'', []),
      (''flag.proxy-upstream-agent-socket'', []),
      (''flag.proxy-upstream-keepalive'', []),
      (''flag.proxy-upstream-keepalive-max-failures'', []),
      (''proxy.started'', [(0, CHR ''s'')]),
      (''proxy.accept-failed'', [(0, CHR ''v'')]),
      (''proxy.detect-failed'', [(0, CHR ''s''), (1, CHR ''v'')]),
      (''proxy.socks5-failed'', [(0, CHR ''s''), (1, CHR ''v'')]),
      (''proxy.http-failed'', [(0, CHR ''s''), (1, CHR ''v'')]),
      (''proxy.socks5-relay'', [(0, CHR ''s''), (1, CHR ''s'')]),
      (''proxy.http-connect'', [(0, CHR ''s''), (1, CHR ''s'')]),
      (''proxy.http-plain'', [(0, CHR ''s''), (1, CHR ''s''), (2, CHR ''s'')]),
      (''proxy.shutting-down'', []),
      (''proxy.shutdown-failed'', [(0, CHR ''v'')]),
      (''proxy.conn-limit'', [(0, CHR ''s''), (1, CHR ''d'')]),
      (''proxy.upstream-enabled'', [(0, CHR ''s''), (1, CHR ''s'')]),
      (''proxy.upstream-insecure'', []),
      (''proxy.upstream-ssh-connect'', [(0, CHR ''s'')]),
      (''proxy.upstream-ssh-reconnect'', [(0, CHR ''s'')]),
      (''proxy.upstream-ssh-agent'', [(0, CHR ''s'')]),
      (''proxy.upstream-ssh-agent-skip-key'', [(0, CHR ''s'')]),
      (''proxy.upstream-ssh-keepalive-fail'', [(1, CHR ''d''), (2, CHR ''d''), (0, CHR ''s'')]),
      (''proxy.upstream-ssh-backoff'', [(0, CHR ''s'')]),
      (''err.proxy-exit'', [(0, CHR ''w'')]),
      (''err.proxy-handshake-neg'', [(0, CHR ''s'')]),
      (''err.proxy-public-listen'', [(0, CHR ''s'')]),
      (''err.proxy-self-target'', [(0, CHR ''s'')]),
      (''err.proxy-socks-read-nmethods'', [(0, CHR ''w'')]),
      (''err.proxy-socks-read-methods'', [(0, CHR ''w'')]),
      (''err.proxy-socks-no-auth'', []),
      (''err.proxy-socks-reply-auth'', [(0, CHR ''w'')]),
      (''err.proxy-socks-read-header'', [(0, CHR ''w'')]),
      (''err.proxy-socks-bad-version'', [(0, CHR ''d'')]),
      (''err.proxy-socks-parse-addr'', [(0, CHR ''w'')]),
      (''err.proxy-socks-read-port'', [(0, CHR ''w'')]),
      (''err.proxy-socks-bad-command'', [(0, CHR ''d'')]),
      (''err.proxy-socks-dial'', [(0, CHR ''s''), (1, CHR ''w'')]),
      (''err.proxy-socks-reply-success'', [(0, CHR ''w'')]),
      (''err.proxy-socks-bad-addr-type'', [(0, CHR ''d'')]),
      (''err.proxy-http-parse-request'', [(0, CHR ''w'')]),
      (''err.proxy-http-connect-dial'', [(0, CHR ''s''), (1, CHR ''w'')]),
      (''err.proxy-http-connect-reply'', [(0, CHR ''w'')]),
      (''err.proxy-http-dial'', [(0, CHR ''s''), (1, CHR ''w'')]),
      (''err.proxy-http-forward'', [(0, CHR ''s''), (1, CHR ''w'')]),
      (''err.proxy-http-relay-resp'', [(0, CHR ''w'')]),
      (''err.proxy-http-upgrade-unsupported'', []),
      (''err.proxy-upstream-scheme'', [(0, CHR ''q'')]),
      (''err.proxy-upstream-parse'', [(0, CHR ''w'')]),
      (''err.proxy-upstream-empty-host'', []),
      (''err.proxy-upstream-socks5'', [(0, CHR ''w'')]),
      (''err.proxy-upstream-http-connect'', [(0, CHR ''s''), (1, CHR ''w'')]),
      (''err.proxy-upstream-http-status'', [(0, CHR ''s''), (1, CHR ''s'')]),
      (''err.proxy-upstream-ssh-no-auth'', []),
      (''err.proxy-upstream-ssh-identity'', [(0, CHR ''s''), (1, CHR ''w'')]),
      (''err.proxy-upstream-ssh-parse-key'', [(0, CHR ''w'')]),
      (''err.proxy-upstream-ssh-agent'', [(0, CHR ''s''), (1, CHR ''w'')]),
      (''err.proxy-upstream-ssh-passphrase-missing'', []),
      (''prompt.proxy-upstream-identity-passphrase'', [(0, CHR ''s'')]),
      (''prompt.proxy-upstream-password'', [(0, CHR ''s'')]),
      (''err.proxy-upstream-ssh-known-hosts'', [(0, CHR ''s''), (1, CHR ''w'')]),
      (''err.proxy-upstream-ssh-dial'', [(0, CHR ''s''), (1, CHR ''w'')]),
      (''err.proxy-upstream-ssh-channel'', [(0, CHR ''s''), (1, CHR ''w'')]),
      (''err.proxy-upstream-closed'', [])]"

definition message_args :: "(string \<times> (nat \<times> char) list) list" where
  "message_args = message_args_main @ message_args_proxy"

end
