(* ===== verification/I18n_Messages.thy ===== *)
theory I18n_Messages
  imports Msg_EN Msg_ZH Msg_JA Msg_KO Msg_FR Msg_DE
begin

text \<open>
  The table \<open>messages\<close> of internal/i18n/keys_common.go over the six languages, and what the program
  relies on: every language has a message for every key, so that the fallbacks of \<open>lookup\<close> are never
  taken, and the messages of a key take the same arguments in the same order.
\<close>

definition message_table :: "Lang \<Rightarrow> (string \<times> string) list" where
  "message_table l =
     (case l of English \<Rightarrow> messagesEN | Chinese \<Rightarrow> messagesZH | Japanese \<Rightarrow> messagesJA | Korean \<Rightarrow> messagesKO
      | French \<Rightarrow> messagesFR | German \<Rightarrow> messagesDE)"

definition messages :: message_tables where
  "messages l = Some (map_of (message_table l))"

definition message_keys :: "string list" where
  "message_keys = keys_common @ keys_forward @ keys_proxy"

section \<open>Facts\<close>

lemma table_args: "map (\<lambda>(k, m). (k, directives m)) (message_table l) = message_args"
  by (cases l)
    (simp_all add: message_table_def message_args_def messagesEN_def messagesZH_def messagesJA_def messagesKO_def
      messagesFR_def messagesDE_def messages_EN_main_ok messages_EN_proxy_ok messages_ZH_main_ok messages_ZH_proxy_ok
      messages_JA_main_ok messages_JA_proxy_ok messages_KO_main_ok messages_KO_proxy_ok messages_FR_main_ok
      messages_FR_proxy_ok messages_DE_main_ok messages_DE_proxy_ok)

lemma table_directives: "map_option directives (map_of (message_table l) key) = map_of message_args key"
  unfolding table_args [of l, symmetric] by (simp add: map_of_map)

lemma table_page_messages: "list_all page_message (message_table l)"
  by (cases l)
    (simp_all add: message_table_def messagesEN_def messagesZH_def messagesJA_def messagesKO_def messagesFR_def
      messagesDE_def messages_EN_page messages_ZH_page messages_JA_page messages_KO_page messages_FR_page messages_DE_page)

text \<open>The keys are told apart by a hash.\<close>

definition key_hash :: "string \<Rightarrow> nat" where
  "key_hash k = foldl (\<lambda>a c. (a * 7 + of_char c) mod 65521) 0 k"

lemma key_char_codes:
  "of_char CHR ''-'' = (45 :: nat)"
  "of_char CHR ''.'' = (46 :: nat)"
  "of_char CHR ''5'' = (53 :: nat)"
  "of_char CHR ''a'' = (97 :: nat)"
  "of_char CHR ''b'' = (98 :: nat)"
  "of_char CHR ''c'' = (99 :: nat)"
  "of_char CHR ''d'' = (100 :: nat)"
  "of_char CHR ''e'' = (101 :: nat)"
  "of_char CHR ''f'' = (102 :: nat)"
  "of_char CHR ''g'' = (103 :: nat)"
  "of_char CHR ''h'' = (104 :: nat)"
  "of_char CHR ''i'' = (105 :: nat)"
  "of_char CHR ''j'' = (106 :: nat)"
  "of_char CHR ''k'' = (107 :: nat)"
  "of_char CHR ''l'' = (108 :: nat)"
  "of_char CHR ''m'' = (109 :: nat)"
  "of_char CHR ''n'' = (110 :: nat)"
  "of_char CHR ''o'' = (111 :: nat)"
  "of_char CHR ''p'' = (112 :: nat)"
  "of_char CHR ''q'' = (113 :: nat)"
  "of_char CHR ''r'' = (114 :: nat)"
  "of_char CHR ''s'' = (115 :: nat)"
  "of_char CHR ''t'' = (116 :: nat)"
  "of_char CHR ''u'' = (117 :: nat)"
  "of_char CHR ''v'' = (118 :: nat)"
  "of_char CHR ''w'' = (119 :: nat)"
  "of_char CHR ''x'' = (120 :: nat)"
  "of_char CHR ''y'' = (121 :: nat)"
  by simp_all

lemma keys_hashed:
  "map key_hash message_keys =
     [42721, 31376, 13049, 40315, 53727, 46994, 55683, 50322, 25787, 63969, 61225, 28436, 29347, 56531, 57070, 5647, 11461, 36464, 3675, 40756, 5352, 16386, 16651, 24298, 51481, 3920, 17393, 41421, 35611, 11570, 17284, 45058, 41977, 47119, 28731, 29077, 34345, 39943, 27176, 23091, 57324, 25909, 47144, 19002, 62358, 14404, 15944, 21847, 55588, 45258, 46490, 33532, 64925, 58592, 41287, 34947, 52948, 17192, 57733, 54996, 47110, 51279, 40335, 24919, 53641, 18792, 40823, 44437, 23874, 43371, 27164, 65389, 36947, 47422, 34312, 19058, 13890, 50795, 18251, 51740, 60542, 49606, 8403, 47407, 52675, 56263, 25712, 63990, 64198, 34564, 15827, 63422, 8425, 11309, 25591, 43506, 65288, 34332, 43160, 28218, 50690, 27812, 31671, 37497, 12124, 27005, 29523, 49917, 43015, 13786, 10041, 18116, 26078, 14769, 2413, 23730, 11837, 62740, 61624, 22496, 30583, 31126, 20222, 34133, 11759, 44496, 42985, 57125, 26830, 45830, 23048, 8920, 60582, 33296, 56534, 58212, 51902, 16758, 46532, 27545, 47993, 25853, 4300, 60616, 50802, 52879, 59320, 47479, 15278, 49527, 19030, 30217, 23147, 19597, 42361, 11492, 2993, 54049, 20934, 31828, 20223, 48846, 19567, 4832, 38555, 46952, 63339, 33188, 9861, 18808, 61888, 54638, 36640, 21564, 30297, 11849, 18246, 37360, 37378]"
  by (simp add: message_keys_def keys_common_def keys_forward_def keys_proxy_def key_hash_def key_char_codes del: of_char_Char)

lemma keys_distinct: "distinct message_keys"
proof -
  have "distinct (map key_hash message_keys)" unfolding keys_hashed by simp
  then show ?thesis unfolding distinct_map by (rule conjunct1)
qed

text \<open>The tables list the keys in another order.\<close>

definition table_order :: "nat list" where
  "table_order =
     [0, 1, 2, 58, 59, 60, 61, 62, 63, 64, 65, 66, 67, 68, 69, 5, 6, 7, 8, 9, 70, 71, 72, 73, 74, 75, 76, 77, 78, 79, 80, 81, 82, 83, 84, 10, 11, 12, 13, 14, 15, 16, 17, 18, 19, 20, 21, 22, 23, 24, 25, 26, 27, 28, 29, 30, 31, 32, 33, 34, 35, 36, 37, 38, 39, 40, 41, 42, 43, 44, 45, 46, 47, 48, 49, 50, 51, 52, 53, 54, 55, 56, 57, 85, 86, 87, 88, 89, 90, 91, 92, 93, 94, 95, 96, 97, 98, 99, 100, 101, 102, 103, 3, 4, 104, 105, 106, 107, 108, 109, 110, 111, 112, 113, 114, 115, 116, 117, 118, 119, 120, 121, 122, 123, 124, 125, 126, 127, 128, 129, 130, 131, 132, 133, 134, 135, 136, 137, 138, 139, 140, 141, 142, 143, 144, 145, 146, 147, 148, 149, 150, 151, 152, 153, 154, 155, 156, 157, 158, 159, 160, 161, 162, 163, 164, 165, 166, 167, 168, 169, 170, 171, 172, 173, 174, 175, 176, 177, 178]"

lemma keys_ordered: "map fst message_args = map (\<lambda>i. message_keys ! i) table_order"
  by (simp add: message_args_def message_args_main_def message_args_proxy_def table_order_def message_keys_def
      keys_common_def keys_forward_def keys_proxy_def)

lemma table_order_sorted: "sort table_order = [0..<179]"
  by (simp add: table_order_def upt_rec)

lemma length_keys: "length message_keys = 179"
  using keys_hashed [THEN arg_cong [of _ _ length]] by simp

lemma keys_args: "set (map fst message_args) = set message_keys"
proof -
  have "set table_order = {..<length message_keys}"
    using table_order_sorted [THEN arg_cong [of _ _ set]] by (simp add: length_keys atLeast0LessThan)
  then show ?thesis unfolding keys_ordered set_map by (metis set_conv_nth image_Collect lessThan_iff set_map lessThan_def)
qed

lemma message_found:
  assumes "key \<in> set message_keys"
  shows "\<exists>m. map_of (message_table l) key = Some m"
proof -
  have "map_of message_args key \<noteq> None" using assms keys_args by (simp add: map_of_eq_None_iff)
  then show ?thesis using table_directives [of l key] by auto
qed

text \<open>C40: The keys are different, every language has a message for exactly these keys, so \<open>T\<close> never falls
  back for one of them, and in all languages the message of a key has the formatting directives of
  the English one, in the same order.\<close>

theorem messages_complete_and_alike:
  "distinct message_keys \<and>
   (\<forall>l. \<exists>table. messages l = Some table \<and> dom table = set message_keys) \<and>
   (\<forall>l sprintf args. \<forall>key\<in>set message_keys.
      \<exists>table m. messages l = Some table \<and> table key = Some m \<and> message_lookup messages l key = m \<and>
        T messages sprintf l key args = (if args = [] then m else sprintf m args)) \<and>
   (\<forall>l. \<forall>key. directives (message_lookup messages l key) = directives (message_lookup messages English key))"
proof (intro conjI allI ballI)
  show "distinct message_keys" by (rule keys_distinct)
next
  fix l
  have "map fst (message_table l) = map fst message_args"
    unfolding table_args [of l, symmetric] by (simp add: comp_def case_prod_beta)
  then have "dom (map_of (message_table l)) = set message_keys"
    by (metis dom_map_of_conv_image_fst keys_args set_map)
  then show "\<exists>table. messages l = Some table \<and> dom table = set message_keys" by (simp add: messages_def)
next
  fix l and sprintf :: "string \<Rightarrow> 'a list \<Rightarrow> string" and args key
  assume "key \<in> set message_keys"
  then obtain m where "map_of (message_table l) key = Some m" using message_found by blast
  then show "\<exists>table m. messages l = Some table \<and> table key = Some m \<and> message_lookup messages l key = m \<and>
      T messages sprintf l key args = (if args = [] then m else sprintf m args)"
    by (auto simp: messages_def message_lookup_def T_def)
next
  fix l key
  show "directives (message_lookup messages l key) = directives (message_lookup messages English key)"
  proof (cases "map_of message_args key")
    case None
    then have "map_of (message_table k) key = None" for k using table_directives [of k key] by simp
    then show ?thesis by (simp add: message_lookup_def messages_def)
  next
    case (Some d)
    then have e: "\<exists>m. map_of (message_table k) key = Some m \<and> directives m = d" for k
      using table_directives [of k key] by auto
    obtain m where m: "map_of (message_table l) key = Some m" "directives m = d" using e [of l] by blast
    obtain m' where m': "map_of (message_table English) key = Some m'" "directives m' = d" using e [of English] by blast
    show ?thesis using m m' by (simp add: message_lookup_def messages_def)
  qed
qed

lemma messages_complete_and_alike_witness:
  "''err.proto'' \<in> set message_keys \<and> message_lookup messages French ''err.proto'' \<noteq> ''err.proto'' \<and>
   directives (message_lookup messages French ''err.proto'') = [(0, CHR ''q'')]"
proof -
  have k: "''err.proto'' \<in> set message_keys" by (simp add: message_keys_def keys_forward_def)
  have e: "directives (message_lookup messages English ''err.proto'') = [(0, CHR ''q'')]"
    by (simp add: message_lookup_def messages_def message_table_def messagesEN_def messages_EN_main_def directives_def)
  have f: "directives (message_lookup messages French ''err.proto'') = [(0, CHR ''q'')]"
    using messages_complete_and_alike [THEN conjunct2, THEN conjunct2, THEN conjunct2, rule_format, of French "''err.proto''"] e
    by simp
  obtain m where "message_lookup messages French ''err.proto'' = m"
    using messages_complete_and_alike [THEN conjunct2, THEN conjunct2, THEN conjunct1, rule_format, OF k, of French] by blast
  have "directives ''err.proto'' = []" by (simp add: directives_def)
  then have "message_lookup messages French ''err.proto'' \<noteq> ''err.proto''" using f by auto
  then show ?thesis using k f by simp
qed

end
