(* ===== verification/Web_Page.thy ===== *)
theory Web_Page
  imports I18n_Messages
begin

text \<open>
  The page of the web panel, internal/web/web.go: \<open>html.EscapeString\<close>, the template
  \<open>indexHTMLTemplate\<close> with its 22 holes (markup in \<open>index_page_markup\<close>, script in
  \<open>index_page_script\<close>) and \<open>renderIndexHTML\<close>.
\<close>

section \<open>Escaping\<close>

definition escape_char :: "char \<Rightarrow> string" where
  "escape_char c =
     (if c = CHR ''&'' then ''&amp;''
      else if c = CHR 0x27 then ''&#39;''
      else if c = CHR ''<'' then ''&lt;''
      else if c = CHR ''>'' then ''&gt;''
      else if c = CHR 0x22 then ''&#34;''
      else [c])"

definition EscapeString :: "string \<Rightarrow> string" where
  "EscapeString s = concat (map escape_char s)"

section \<open>The template\<close>

text \<open>Text, and the holes \<open>%[n]s\<close>; a doubled percent sign is one in the text.\<close>

datatype page_piece = Lit string | Hole nat

definition index_page_markup :: "page_piece list" where
  "index_page_markup =
     [Lit (''<!DOCTYPE html>'' @ [CHR 0x0A]),
      Lit (''<html lang='' @ [CHR 0x22] @ ''zh-CN'' @ [CHR 0x22] @ ''>'' @ [CHR 0x0A]),
      Lit (''<head>'' @ [CHR 0x0A]),
      Lit (''  <meta charset='' @ [CHR 0x22] @ ''UTF-8'' @ [CHR 0x22] @ ''>'' @ [CHR 0x0A]),
      Lit (''  <meta name='' @ [CHR 0x22] @ ''viewport'' @ [CHR 0x22] @ '' content='' @ [CHR 0x22] @ ''width=device-width, initial-scale=1'' @ [CHR 0x22] @ ''>'' @ [CHR 0x0A]),
      Lit (''  <title>''), Hole 1, Lit (''</title>'' @ [CHR 0x0A]),
      Lit (''  <style>'' @ [CHR 0x0A]),
      Lit (''    * { box-sizing: border-box; }'' @ [CHR 0x0A]),
      Lit (''    body { font-family: ui-monospace, '' @ [CHR 0x22] @ ''Cascadia Code'' @ [CHR 0x22] @ '', '' @ [CHR 0x22] @ ''SF Mono'' @ [CHR 0x22] @ '', Monaco, monospace; margin: 0; background: #0d1117; color: #c9d1d9; min-height: 100vh; }'' @ [CHR 0x0A]),
      Lit (''    .header { padding: 12px 20px; background: #161b22; border-bottom: 1px solid #21262d; display: flex; align-items: center; justify-content: space-between; flex-wrap: wrap; gap: 12px; }'' @ [CHR 0x0A]),
      Lit (''    h1 { margin: 0; font-size: 1.25rem; font-weight: 600; }'' @ [CHR 0x0A]),
      Lit (''    h2 { margin: 0 0 12px; font-size: 1rem; font-weight: 600; color: #8b949e; }'' @ [CHR 0x0A]),
      Lit (''    .toolbar { display: flex; gap: 12px; align-items: center; flex-wrap: wrap; }'' @ [CHR 0x0A]),
      Lit (''    label { display: flex; align-items: center; gap: 6px; cursor: pointer; font-size: 13px; }'' @ [CHR 0x0A]),
      Lit (''    input[type='' @ [CHR 0x22] @ ''checkbox'' @ [CHR 0x22] @ ''] { accent-color: #58a6ff; }'' @ [CHR 0x0A]),
      Lit (''    .btn { padding: 6px 12px; font-size: 13px; border: 1px solid #30363d; background: #21262d; color: #c9d1d9; border-radius: 6px; cursor: pointer; font-family: inherit; }'' @ [CHR 0x0A]),
      Lit (''    .btn:hover { background: #30363d; border-color: #8b949e; }'' @ [CHR 0x0A]),
      Lit (''    .count { color: #8b949e; font-size: 13px; }'' @ [CHR 0x0A]),
      Lit (''    .section { margin: 12px; padding: 16px; background: #161b22; border: 1px solid #21262d; border-radius: 8px; }'' @ [CHR 0x0A]),
      Lit (''    .cards { display: grid; grid-template-columns: repeat(auto-fill, minmax(160px, 1fr)); gap: 12px; }'' @ [CHR 0x0A]),
      Lit (''    .card { padding: 12px 14px; background: #0d1117; border: 1px solid #21262d; border-radius: 6px; }'' @ [CHR 0x0A]),
      Lit (''    .card .label { color: #8b949e; font-size: 12px; margin-bottom: 6px; }'' @ [CHR 0x0A]),
      Lit (''    .card .value { font-size: 1.4rem; font-weight: 600; color: #58a6ff; word-break: break-all; }'' @ [CHR 0x0A]),
      Lit (''    table { width: 100%; border-collapse: collapse; font-size: 13px; }'' @ [CHR 0x0A]),
      Lit (''    th, td { padding: 6px 8px; text-align: left; border-bottom: 1px solid #21262d; white-space: nowrap; }'' @ [CHR 0x0A]),
      Lit (''    th { color: #8b949e; font-weight: 600; position: sticky; top: 0; background: #161b22; }'' @ [CHR 0x0A]),
      Lit (''    td { word-break: break-all; }'' @ [CHR 0x0A]),
      Lit (''    tr:nth-child(even) td { background: rgba(255,255,255,0.02); }'' @ [CHR 0x0A]),
      Lit (''    .table-wrap { max-height: calc(100vh - 360px); overflow: auto; }'' @ [CHR 0x0A]),
      Lit (''    .empty { color: #8b949e; padding: 12px 8px; }'' @ [CHR 0x0A]),
      Lit (''    .err { color: #f85149; padding: 12px 8px; }'' @ [CHR 0x0A]),
      Lit (''    .kind-open { color: #7ee787; }'' @ [CHR 0x0A]),
      Lit (''    .kind-close { color: #8b949e; }'' @ [CHR 0x0A]),
      Lit (''    .kind-reject { color: #d29922; }'' @ [CHR 0x0A]),
      Lit (''    .kind-dial-error { color: #f85149; }'' @ [CHR 0x0A]),
      Lit (''  </style>'' @ [CHR 0x0A]),
      Lit (''</head>'' @ [CHR 0x0A]),
      Lit (''<body>'' @ [CHR 0x0A]),
      Lit (''  <div class='' @ [CHR 0x22] @ ''header'' @ [CHR 0x22] @ ''>'' @ [CHR 0x0A]),
      Lit (''    <h1>''), Hole 1, Lit (''</h1>'' @ [CHR 0x0A]),
      Lit (''    <div class='' @ [CHR 0x22] @ ''toolbar'' @ [CHR 0x22] @ ''>'' @ [CHR 0x0A]),
      Lit (''      <label><input type='' @ [CHR 0x22] @ ''checkbox'' @ [CHR 0x22] @ '' id='' @ [CHR 0x22] @ ''autoRefresh'' @ [CHR 0x22] @ '' checked> <span>''), Hole 2, Lit (''</span></label>'' @ [CHR 0x0A]),
      Lit (''      <button type='' @ [CHR 0x22] @ ''button'' @ [CHR 0x22] @ '' class='' @ [CHR 0x22] @ ''btn'' @ [CHR 0x22] @ '' id='' @ [CHR 0x22] @ ''btnRefresh'' @ [CHR 0x22] @ ''>''), Hole 3, Lit (''</button>'' @ [CHR 0x0A]),
      Lit (''      <span class='' @ [CHR 0x22] @ ''count'' @ [CHR 0x22] @ '' id='' @ [CHR 0x22] @ ''count'' @ [CHR 0x22] @ ''></span>'' @ [CHR 0x0A]),
      Lit (''    </div>'' @ [CHR 0x0A]),
      Lit (''  </div>'' @ [CHR 0x0A]),
      Lit ([CHR 0x0A]),
      Lit (''  <div class='' @ [CHR 0x22] @ ''section'' @ [CHR 0x22] @ ''>'' @ [CHR 0x0A]),
      Lit (''    <h2>''), Hole 4, Lit (''</h2>'' @ [CHR 0x0A]),
      Lit (''    <div class='' @ [CHR 0x22] @ ''cards'' @ [CHR 0x22] @ ''>'' @ [CHR 0x0A]),
      Lit (''      <div class='' @ [CHR 0x22] @ ''card'' @ [CHR 0x22] @ ''><div class='' @ [CHR 0x22] @ ''label'' @ [CHR 0x22] @ ''>''), Hole 5, Lit (''</div><div class='' @ [CHR 0x22] @ ''value'' @ [CHR 0x22] @ '' id='' @ [CHR 0x22] @ ''s-active'' @ [CHR 0x22] @ ''>-</div></div>'' @ [CHR 0x0A]),
      Lit (''      <div class='' @ [CHR 0x22] @ ''card'' @ [CHR 0x22] @ ''><div class='' @ [CHR 0x22] @ ''label'' @ [CHR 0x22] @ ''>''), Hole 6, Lit (''</div><div class='' @ [CHR 0x22] @ ''value'' @ [CHR 0x22] @ '' id='' @ [CHR 0x22] @ ''s-total'' @ [CHR 0x22] @ ''>-</div></div>'' @ [CHR 0x0A]),
      Lit (''      <div class='' @ [CHR 0x22] @ ''card'' @ [CHR 0x22] @ ''><div class='' @ [CHR 0x22] @ ''label'' @ [CHR 0x22] @ ''>''), Hole 7, Lit (''</div><div class='' @ [CHR 0x22] @ ''value'' @ [CHR 0x22] @ '' id='' @ [CHR 0x22] @ ''s-rejected'' @ [CHR 0x22] @ ''>-</div></div>'' @ [CHR 0x0A]),
      Lit (''      <div class='' @ [CHR 0x22] @ ''card'' @ [CHR 0x22] @ ''><div class='' @ [CHR 0x22] @ ''label'' @ [CHR 0x22] @ ''>''), Hole 8, Lit (''</div><div class='' @ [CHR 0x22] @ ''value'' @ [CHR 0x22] @ '' id='' @ [CHR 0x22] @ ''s-dialerr'' @ [CHR 0x22] @ ''>-</div></div>'' @ [CHR 0x0A]),
      Lit (''      <div class='' @ [CHR 0x22] @ ''card'' @ [CHR 0x22] @ ''><div class='' @ [CHR 0x22] @ ''label'' @ [CHR 0x22] @ ''>''), Hole 9, Lit (''</div><div class='' @ [CHR 0x22] @ ''value'' @ [CHR 0x22] @ '' id='' @ [CHR 0x22] @ ''s-up'' @ [CHR 0x22] @ ''>-</div></div>'' @ [CHR 0x0A]),
      Lit (''      <div class='' @ [CHR 0x22] @ ''card'' @ [CHR 0x22] @ ''><div class='' @ [CHR 0x22] @ ''label'' @ [CHR 0x22] @ ''>''), Hole 10, Lit (''</div><div class='' @ [CHR 0x22] @ ''value'' @ [CHR 0x22] @ '' id='' @ [CHR 0x22] @ ''s-down'' @ [CHR 0x22] @ ''>-</div></div>'' @ [CHR 0x0A]),
      Lit (''      <div class='' @ [CHR 0x22] @ ''card'' @ [CHR 0x22] @ ''><div class='' @ [CHR 0x22] @ ''label'' @ [CHR 0x22] @ ''>''), Hole 11, Lit (''</div><div class='' @ [CHR 0x22] @ ''value'' @ [CHR 0x22] @ '' id='' @ [CHR 0x22] @ ''s-uptime'' @ [CHR 0x22] @ ''>-</div></div>'' @ [CHR 0x0A]),
      Lit (''    </div>'' @ [CHR 0x0A]),
      Lit (''  </div>'' @ [CHR 0x0A]),
      Lit ([CHR 0x0A]),
      Lit (''  <div class='' @ [CHR 0x22] @ ''section'' @ [CHR 0x22] @ ''>'' @ [CHR 0x0A]),
      Lit (''    <h2>''), Hole 12, Lit (''</h2>'' @ [CHR 0x0A]),
      Lit (''    <div class='' @ [CHR 0x22] @ ''table-wrap'' @ [CHR 0x22] @ ''>'' @ [CHR 0x0A]),
      Lit (''      <table>'' @ [CHR 0x0A]),
      Lit (''        <thead>'' @ [CHR 0x0A]),
      Lit (''          <tr>'' @ [CHR 0x0A]),
      Lit (''            <th>''), Hole 13, Lit (''</th><th>''), Hole 14, Lit (''</th><th>''), Hole 15, Lit (''</th><th>''), Hole 16, Lit (''</th>'' @ [CHR 0x0A]),
      Lit (''            <th>''), Hole 17, Lit (''</th><th>''), Hole 18, Lit (''</th><th>''), Hole 19, Lit (''</th><th>''), Hole 20, Lit (''</th>'' @ [CHR 0x0A]),
      Lit (''          </tr>'' @ [CHR 0x0A]),
      Lit (''        </thead>'' @ [CHR 0x0A]),
      Lit (''        <tbody id='' @ [CHR 0x22] @ ''logBody'' @ [CHR 0x22] @ ''></tbody>'' @ [CHR 0x0A]),
      Lit (''      </table>'' @ [CHR 0x0A]),
      Lit (''      <div class='' @ [CHR 0x22] @ ''empty'' @ [CHR 0x22] @ '' id='' @ [CHR 0x22] @ ''logEmpty'' @ [CHR 0x22] @ '' style='' @ [CHR 0x22] @ ''display:none'' @ [CHR 0x22] @ ''>''), Hole 21, Lit (''</div>'' @ [CHR 0x0A]),
      Lit (''    </div>'' @ [CHR 0x0A]),
      Lit (''  </div>'' @ [CHR 0x0A]),
      Lit ([CHR 0x0A])]"

definition index_page_script :: "page_piece list" where
  "index_page_script =
     [Lit (''  <script>'' @ [CHR 0x0A]),
      Lit (''    var COUNT_UNIT = '' @ [CHR 0x22]), Hole 22, Lit ([CHR 0x22] @ '';'' @ [CHR 0x0A]),
      Lit (''    var EMPTY_TEXT = '' @ [CHR 0x22]), Hole 21, Lit ([CHR 0x22] @ '';'' @ [CHR 0x0A]),
      Lit (''    var body = document.getElementById('' @ [CHR 0x27] @ ''logBody'' @ [CHR 0x27] @ '');'' @ [CHR 0x0A]),
      Lit (''    var emptyEl = document.getElementById('' @ [CHR 0x27] @ ''logEmpty'' @ [CHR 0x27] @ '');'' @ [CHR 0x0A]),
      Lit (''    var countEl = document.getElementById('' @ [CHR 0x27] @ ''count'' @ [CHR 0x27] @ '');'' @ [CHR 0x0A]),
      Lit (''    var autoRefresh = document.getElementById('' @ [CHR 0x27] @ ''autoRefresh'' @ [CHR 0x27] @ '');'' @ [CHR 0x0A]),
      Lit (''    var timer = null;'' @ [CHR 0x0A]),
      Lit ([CHR 0x0A]),
      Lit (''    function escapeHtml(s) {'' @ [CHR 0x0A]),
      Lit (''      var div = document.createElement('' @ [CHR 0x27] @ ''div'' @ [CHR 0x27] @ '');'' @ [CHR 0x0A]),
      Lit (''      div.textContent = (s == null ? '' @ [CHR 0x27, CHR 0x27] @ '' : String(s));'' @ [CHR 0x0A]),
      Lit (''      return div.innerHTML;'' @ [CHR 0x0A]),
      Lit (''    }'' @ [CHR 0x0A]),
      Lit ([CHR 0x0A]),
      Lit (''    function fmtBytes(n) {'' @ [CHR 0x0A]),
      Lit (''      n = Number(n) || 0;'' @ [CHR 0x0A]),
      Lit (''      var units = ['' @ [CHR 0x27] @ ''B'' @ [CHR 0x27] @ '', '' @ [CHR 0x27] @ ''KB'' @ [CHR 0x27] @ '', '' @ [CHR 0x27] @ ''MB'' @ [CHR 0x27] @ '', '' @ [CHR 0x27] @ ''GB'' @ [CHR 0x27] @ '', '' @ [CHR 0x27] @ ''TB'' @ [CHR 0x27] @ '', '' @ [CHR 0x27] @ ''PB'' @ [CHR 0x27] @ ''];'' @ [CHR 0x0A]),
      Lit (''      var i = 0;'' @ [CHR 0x0A]),
      Lit (''      while (n >= 1024 && i < units.length - 1) { n /= 1024; i++; }'' @ [CHR 0x0A]),
      Lit (''      return (i === 0 ? n : n.toFixed(2)) + '' @ [CHR 0x27] @ '' '' @ [CHR 0x27] @ '' + units[i];'' @ [CHR 0x0A]),
      Lit (''    }'' @ [CHR 0x0A]),
      Lit ([CHR 0x0A]),
      Lit (''    function fmtUptime(sec) {'' @ [CHR 0x0A]),
      Lit (''      sec = Math.floor(Number(sec) || 0);'' @ [CHR 0x0A]),
      Lit (''      var d = Math.floor(sec / 86400); sec -= d * 86400;'' @ [CHR 0x0A]),
      Lit (''      var h = Math.floor(sec / 3600); sec -= h * 3600;'' @ [CHR 0x0A]),
      Lit (''      var m = Math.floor(sec / 60); sec -= m * 60;'' @ [CHR 0x0A]),
      Lit (''      var parts = [];'' @ [CHR 0x0A]),
      Lit (''      if (d) parts.push(d + '' @ [CHR 0x27] @ ''d'' @ [CHR 0x27] @ '');'' @ [CHR 0x0A]),
      Lit (''      if (h || d) parts.push(h + '' @ [CHR 0x27] @ ''h'' @ [CHR 0x27] @ '');'' @ [CHR 0x0A]),
      Lit (''      if (m || h || d) parts.push(m + '' @ [CHR 0x27] @ ''m'' @ [CHR 0x27] @ '');'' @ [CHR 0x0A]),
      Lit (''      parts.push(sec + '' @ [CHR 0x27] @ ''s'' @ [CHR 0x27] @ '');'' @ [CHR 0x0A]),
      Lit (''      return parts.join('' @ [CHR 0x27] @ '' '' @ [CHR 0x27] @ '');'' @ [CHR 0x0A]),
      Lit (''    }'' @ [CHR 0x0A]),
      Lit ([CHR 0x0A]),
      Lit (''    function loadStats() {'' @ [CHR 0x0A]),
      Lit (''      fetch('' @ [CHR 0x27] @ ''/api/stats'' @ [CHR 0x27] @ '').then(function(r) {'' @ [CHR 0x0A]),
      Lit (''        if (!r.ok) throw new Error(r.status);'' @ [CHR 0x0A]),
      Lit (''        return r.json();'' @ [CHR 0x0A]),
      Lit (''      }).then(function(s) {'' @ [CHR 0x0A]),
      Lit (''        document.getElementById('' @ [CHR 0x27] @ ''s-active'' @ [CHR 0x27] @ '').textContent = s.active_conns;'' @ [CHR 0x0A]),
      Lit (''        document.getElementById('' @ [CHR 0x27] @ ''s-total'' @ [CHR 0x27] @ '').textContent = s.total_conns;'' @ [CHR 0x0A]),
      Lit (''        document.getElementById('' @ [CHR 0x27] @ ''s-rejected'' @ [CHR 0x27] @ '').textContent = s.rejected_conns;'' @ [CHR 0x0A]),
      Lit (''        document.getElementById('' @ [CHR 0x27] @ ''s-dialerr'' @ [CHR 0x27] @ '').textContent = s.dial_errors;'' @ [CHR 0x0A]),
      Lit (''        document.getElementById('' @ [CHR 0x27] @ ''s-up'' @ [CHR 0x27] @ '').textContent = fmtBytes(s.up_bytes);'' @ [CHR 0x0A]),
      Lit (''        document.getElementById('' @ [CHR 0x27] @ ''s-down'' @ [CHR 0x27] @ '').textContent = fmtBytes(s.down_bytes);'' @ [CHR 0x0A]),
      Lit (''        document.getElementById('' @ [CHR 0x27] @ ''s-uptime'' @ [CHR 0x27] @ '').textContent = fmtUptime(s.uptime_seconds);'' @ [CHR 0x0A]),
      Lit (''      }).catch(function() {});'' @ [CHR 0x0A]),
      Lit (''    }'' @ [CHR 0x0A]),
      Lit ([CHR 0x0A]),
      Lit (''    function loadLogs() {'' @ [CHR 0x0A]),
      Lit (''      fetch('' @ [CHR 0x27] @ ''/api/logs'' @ [CHR 0x27] @ '').then(function(r) {'' @ [CHR 0x0A]),
      Lit (''        if (!r.ok) throw new Error(r.status);'' @ [CHR 0x0A]),
      Lit (''        return r.json();'' @ [CHR 0x0A]),
      Lit (''      }).then(function(entries) {'' @ [CHR 0x0A]),
      Lit (''        countEl.textContent = entries.length + '' @ [CHR 0x27] @ '' '' @ [CHR 0x27] @ '' + COUNT_UNIT;'' @ [CHR 0x0A]),
      Lit (''        if (!entries.length) {'' @ [CHR 0x0A]),
      Lit (''          body.innerHTML = '' @ [CHR 0x27, CHR 0x27] @ '';'' @ [CHR 0x0A]),
      Lit (''          emptyEl.style.display = '' @ [CHR 0x27, CHR 0x27] @ '';'' @ [CHR 0x0A]),
      Lit (''          emptyEl.textContent = EMPTY_TEXT;'' @ [CHR 0x0A]),
      Lit (''          return;'' @ [CHR 0x0A]),
      Lit (''        }'' @ [CHR 0x0A]),
      Lit (''        emptyEl.style.display = '' @ [CHR 0x27] @ ''none'' @ [CHR 0x27] @ '';'' @ [CHR 0x0A]),
      Lit (''        var rows = [];'' @ [CHR 0x0A]),
      Lit (''        for (var i = entries.length - 1; i >= 0; i--) {'' @ [CHR 0x0A]),
      Lit (''          var e = entries[i];'' @ [CHR 0x0A]),
      Lit (''          var kind = e.kind || '' @ [CHR 0x27, CHR 0x27] @ '';'' @ [CHR 0x0A]),
      Lit (''          rows.push('' @ [CHR 0x0A]),
      Lit (''            '' @ [CHR 0x27] @ ''<tr>'' @ [CHR 0x27] @ '' +'' @ [CHR 0x0A]),
      Lit (''            '' @ [CHR 0x27] @ ''<td>'' @ [CHR 0x27] @ '' + escapeHtml(e.time) + '' @ [CHR 0x27] @ ''</td>'' @ [CHR 0x27] @ '' +'' @ [CHR 0x0A]),
      Lit (''            '' @ [CHR 0x27] @ ''<td class='' @ [CHR 0x22] @ ''kind-'' @ [CHR 0x27] @ '' + escapeHtml(kind) + '' @ [CHR 0x27, CHR 0x22] @ ''>'' @ [CHR 0x27] @ '' + escapeHtml(kind) + '' @ [CHR 0x27] @ ''</td>'' @ [CHR 0x27] @ '' +'' @ [CHR 0x0A]),
      Lit (''            '' @ [CHR 0x27] @ ''<td>'' @ [CHR 0x27] @ '' + escapeHtml(e.proto) + '' @ [CHR 0x27] @ ''</td>'' @ [CHR 0x27] @ '' +'' @ [CHR 0x0A]),
      Lit (''            '' @ [CHR 0x27] @ ''<td>'' @ [CHR 0x27] @ '' + escapeHtml(e.client) + '' @ [CHR 0x27] @ ''</td>'' @ [CHR 0x27] @ '' +'' @ [CHR 0x0A]),
      Lit (''            '' @ [CHR 0x27] @ ''<td>'' @ [CHR 0x27] @ '' + escapeHtml(e.target) + '' @ [CHR 0x27] @ ''</td>'' @ [CHR 0x27] @ '' +'' @ [CHR 0x0A]),
      Lit (''            '' @ [CHR 0x27] @ ''<td>'' @ [CHR 0x27] @ '' + fmtBytes(e.up_bytes) + '' @ [CHR 0x27] @ ''</td>'' @ [CHR 0x27] @ '' +'' @ [CHR 0x0A]),
      Lit (''            '' @ [CHR 0x27] @ ''<td>'' @ [CHR 0x27] @ '' + fmtBytes(e.down_bytes) + '' @ [CHR 0x27] @ ''</td>'' @ [CHR 0x27] @ '' +'' @ [CHR 0x0A]),
      Lit (''            '' @ [CHR 0x27] @ ''<td>'' @ [CHR 0x27] @ '' + (Number(e.duration_ms) || 0) + '' @ [CHR 0x27] @ '' ms</td>'' @ [CHR 0x27] @ '' +'' @ [CHR 0x0A]),
      Lit (''            '' @ [CHR 0x27] @ ''</tr>'' @ [CHR 0x27, CHR 0x0A]),
      Lit (''          );'' @ [CHR 0x0A]),
      Lit (''        }'' @ [CHR 0x0A]),
      Lit (''        body.innerHTML = rows.join('' @ [CHR 0x27, CHR 0x27] @ '');'' @ [CHR 0x0A]),
      Lit (''      }).catch(function() {'' @ [CHR 0x0A]),
      Lit (''        countEl.textContent = '' @ [CHR 0x27] @ utf8 [0x2014] @ [CHR 0x27] @ '';'' @ [CHR 0x0A]),
      Lit (''      });'' @ [CHR 0x0A]),
      Lit (''    }'' @ [CHR 0x0A]),
      Lit ([CHR 0x0A]),
      Lit (''    function load() { loadStats(); loadLogs(); }'' @ [CHR 0x0A]),
      Lit ([CHR 0x0A]),
      Lit (''    function schedule() {'' @ [CHR 0x0A]),
      Lit (''      if (timer) clearInterval(timer);'' @ [CHR 0x0A]),
      Lit (''      if (autoRefresh.checked) timer = setInterval(load, 2000);'' @ [CHR 0x0A]),
      Lit (''    }'' @ [CHR 0x0A]),
      Lit ([CHR 0x0A]),
      Lit (''    autoRefresh.addEventListener('' @ [CHR 0x27] @ ''change'' @ [CHR 0x27] @ '', schedule);'' @ [CHR 0x0A]),
      Lit (''    document.getElementById('' @ [CHR 0x27] @ ''btnRefresh'' @ [CHR 0x27] @ '').addEventListener('' @ [CHR 0x27] @ ''click'' @ [CHR 0x27] @ '', function() { load(); });'' @ [CHR 0x0A]),
      Lit (''    load();'' @ [CHR 0x0A]),
      Lit (''    schedule();'' @ [CHR 0x0A]),
      Lit (''  </script>'' @ [CHR 0x0A]),
      Lit (''</body>'' @ [CHR 0x0A]),
      Lit (''</html>'' @ [CHR 0x0A])]"

definition indexHTMLTemplate :: "page_piece list" where
  "indexHTMLTemplate = index_page_markup @ index_page_script"

definition fill_piece :: "string list \<Rightarrow> page_piece \<Rightarrow> string" where
  "fill_piece args p = (case p of Lit s \<Rightarrow> s | Hole n \<Rightarrow> args ! (n - 1))"

definition fill_page :: "string list \<Rightarrow> page_piece list \<Rightarrow> string" where
  "fill_page args ps = concat (map (fill_piece args) ps)"

definition index_keys :: "string list" where
  "index_keys =
     [''web.title'', ''web.auto-refresh'', ''web.btn-refresh'', ''web.perf-section'', ''web.active-conns'', ''web.total-conns'', ''web.rejected-conns'', ''web.dial-errors'', ''web.up-bytes'', ''web.down-bytes'', ''web.uptime'', ''web.logs-section'', ''web.col-time'', ''web.col-kind'', ''web.col-proto'', ''web.col-client'', ''web.col-target'', ''web.col-up'', ''web.col-down'', ''web.col-duration'', ''web.empty'', ''web.count-unit'']"

definition renderIndexHTML :: "(string \<Rightarrow> string) \<Rightarrow> string" where
  "renderIndexHTML tr = fill_page (map (\<lambda>key. EscapeString (tr key)) index_keys) indexHTMLTemplate"

section \<open>Facts\<close>

lemma escape_no_markup: "filter markup_char (EscapeString s) = []"
  by (induction s) (auto simp: EscapeString_def escape_char_def markup_char_def)

definition piece_hole :: "page_piece \<Rightarrow> nat list" where
  "piece_hole p = (case p of Lit s \<Rightarrow> [] | Hole n \<Rightarrow> [n])"

definition page_holes :: "page_piece list \<Rightarrow> nat list" where
  "page_holes ps = concat (map piece_hole ps)"

lemma piece_hole_simps [simp]: "piece_hole (Lit s) = []" "piece_hole (Hole n) = [n]"
  by (simp_all add: piece_hole_def)

lemma markup_holes: "page_holes index_page_markup = [1, 1, 2, 3, 4, 5, 6, 7, 8, 9, 10, 11, 12, 13, 14, 15, 16, 17, 18, 19, 20, 21]"
  unfolding page_holes_def index_page_markup_def by simp

lemma script_holes: "page_holes index_page_script = [22, 21]"
  unfolding page_holes_def index_page_script_def by simp

lemma fill_markup:
  assumes "\<forall>n\<in>set (page_holes ps). 1 \<le> n \<and> n \<le> length args" "\<forall>a\<in>set args. filter markup_char a = []"
  shows "filter markup_char (fill_page args ps) = filter markup_char (fill_page (replicate (length args) []) ps)"
  using assms(1)
proof (induction ps)
  case (Cons p ps)
  have "filter markup_char (fill_piece args p) = filter markup_char (fill_piece (replicate (length args) []) p)"
  proof (cases p)
    case (Hole n)
    then have "n - 1 < length args" using Cons.prems by (auto simp: page_holes_def)
    then show ?thesis using Hole assms(2) by (simp add: fill_piece_def)
  qed (simp add: fill_piece_def)
  moreover have "\<forall>n\<in>set (page_holes ps). 1 \<le> n \<and> n \<le> length args" using Cons.prems by (simp add: page_holes_def)
  ultimately show ?case using Cons.IH by (simp add: fill_page_def)
qed (simp add: fill_page_def)

lemma page_holes_append: "page_holes (ps @ qs) = page_holes ps @ page_holes qs"
  by (simp add: page_holes_def)

lemma template_holes: "\<forall>n\<in>set (page_holes indexHTMLTemplate). 1 \<le> n \<and> n \<le> 22"
  unfolding indexHTMLTemplate_def page_holes_append markup_holes script_holes by simp

text \<open>The browser reads the escaped text back.\<close>

fun html_unescape :: "string \<Rightarrow> string" where
  "html_unescape [] = []"
| "html_unescape (c # cs) =
     (if take 4 cs = ''amp;'' \<and> c = CHR ''&'' then CHR ''&'' # html_unescape (drop 4 cs)
      else if take 4 cs = ''#39;'' \<and> c = CHR ''&'' then CHR 0x27 # html_unescape (drop 4 cs)
      else if take 3 cs = ''lt;'' \<and> c = CHR ''&'' then CHR ''<'' # html_unescape (drop 3 cs)
      else if take 3 cs = ''gt;'' \<and> c = CHR ''&'' then CHR ''>'' # html_unescape (drop 3 cs)
      else if take 4 cs = ''#34;'' \<and> c = CHR ''&'' then CHR 0x22 # html_unescape (drop 4 cs)
      else c # html_unescape cs)"

lemma unescape_escape: "html_unescape (EscapeString s) = s"
proof (induction s)
  case (Cons c s)
  have "html_unescape (escape_char c @ t) = c # html_unescape t" for t
    by (auto simp: escape_char_def)
  then show ?case using Cons by (simp add: EscapeString_def)
qed (simp add: EscapeString_def)

lemma script_plain_escape: "script_plain s \<Longrightarrow> EscapeString s = s"
  by (induction s) (auto simp: script_plain_def EscapeString_def escape_char_def markup_char_def)

lemma script_messages:
  assumes "key = ''web.count-unit'' \<or> key = ''web.empty''"
  shows "script_plain (message_lookup messages l key)"
proof -
  have "key \<in> set message_keys" using assms by (elim disjE) (simp_all add: message_keys_def keys_common_def)
  then obtain m where m: "map_of (message_table l) key = Some m" using message_found by blast
  then have "(key, m) \<in> set (message_table l)" by (rule map_of_SomeD)
  then have "page_message (key, m)" using table_page_messages [of l] by (simp only: list_all_iff)
  then show ?thesis using assms m by (simp add: page_message_def message_lookup_def messages_def)
qed

text \<open>C37: No message text can change the structure of the page: the quotes and angle brackets of the page
  are those of the template, whatever is filled in, and the browser reads every escaped message back
  as it is.  The two messages that go into the script, where nothing is read back, are the same
  escaped and unescaped in all six languages and cannot end the string they stand in.\<close>

theorem web_page_keeps_its_structure:
  "filter markup_char (renderIndexHTML tr) = filter markup_char (fill_page (replicate 22 []) indexHTMLTemplate) \<and>
   (\<forall>s. html_unescape (EscapeString s) = s) \<and>
   page_holes index_page_script = [22, 21] \<and>
   (\<forall>l. let unit = message_lookup messages l (index_keys ! 21); empty = message_lookup messages l (index_keys ! 20) in
      EscapeString unit = unit \<and> script_plain unit \<and> EscapeString empty = empty \<and> script_plain empty)"
proof -
  have l: "length (map (\<lambda>key. EscapeString (tr key)) index_keys) = 22" by (simp add: index_keys_def)
  have k: "index_keys ! 21 = ''web.count-unit''" "index_keys ! 20 = ''web.empty''" by (simp_all add: index_keys_def)
  have "filter markup_char (renderIndexHTML tr) = filter markup_char (fill_page (replicate 22 []) indexHTMLTemplate)"
    unfolding renderIndexHTML_def
    by (rule fill_markup [of _ "map (\<lambda>key. EscapeString (tr key)) index_keys", unfolded l, OF template_holes])
      (simp add: escape_no_markup)
  moreover have "script_plain (message_lookup messages m (index_keys ! 21))" "script_plain (message_lookup messages m (index_keys ! 20))" for m
    unfolding k by (rule script_messages, simp)+
  ultimately show ?thesis by (simp add: Let_def unescape_escape script_holes script_plain_escape)
qed

end
