(* ===== verification/Web_Model.thy ===== *)
theory Web_Model
  imports Web_Page Stats_Model Complex_Main
begin

text \<open>
  The two optional HTTP servers: the web panel, internal/web/web.go (\<open>Handler\<close>, \<open>handleIndex\<close>,
  \<open>handleStats\<close>, \<open>handleLogs\<close>), and the handlers of the statistics endpoint, internal/stats/http.go.
  A request is its cleaned path, as \<open>http.ServeMux\<close> dispatches it; a JSON document is a value of
  \<open>json\<close>, its printing being the standard library's.  The second part is the life of such a server
  in \<open>ListenAndServe\<close>: the goroutine that shuts it down and the one that serves.
\<close>

section \<open>Handlers\<close>

datatype json = JInt int | JRat rat | JStr string | JObj "(string \<times> json) list" | JArr "json list"

datatype response = NotFound | HTMLPage string | JSONDoc json | PlainText string

text \<open>The JSON fields of \<open>Snapshot\<close> (stats.go) and of \<open>Event\<close> (events.go).\<close>

definition snapshot_fields :: "Snapshot \<Rightarrow> (string \<times> json) list" where
  "snapshot_fields snap =
     [(''active_conns'', JInt (sint (ActiveConns snap))), (''total_conns'', JInt (sint (TotalConns snap))),
      (''rejected_conns'', JInt (sint (RejectedConns snap))), (''dial_errors'', JInt (sint (DialErrors snap))),
      (''up_bytes'', JInt (sint (UpBytes snap))), (''down_bytes'', JInt (sint (DownBytes snap))),
      (''uptime_ns'', JInt (Uptime snap))]"

definition event_fields :: "Event \<Rightarrow> (string \<times> json) list" where
  "event_fields e =
     [(''time'', JStr (evTime e)), (''kind'', JStr (evKind e)), (''proto'', JStr (evProto e)),
      (''client'', JStr (evClient e)), (''target'', JStr (evTarget e)), (''up_bytes'', JInt (sint (evUpBytes e))),
      (''down_bytes'', JInt (sint (evDownBytes e))), (''duration_ms'', JInt (evDurationMs e)),
      (''conn_id'', JInt (sint (evConnID e)))]"

definition stats_json :: "Snapshot option list \<Rightarrow> json" where
  "stats_json providers =
     (let snap = Aggregate providers in
      JObj (snapshot_fields snap @ [(''uptime_seconds'', JRat (of_int (Uptime snap) / 1000000000))]))"

definition stats_handleStats :: "Snapshot option list \<Rightarrow> response" where
  "stats_handleStats providers = JSONDoc (stats_json providers)"

definition stats_Handler :: "Snapshot option list \<Rightarrow> string \<Rightarrow> response" where
  "stats_Handler providers path =
     (if path = ''/stats'' then stats_handleStats providers
      else if path = ''/metrics'' then PlainText (handleMetrics providers)
      else NotFound)"

record web_server =
  ws_Providers :: "Snapshot option list"
  ws_Events :: "EventLog option"

definition handleIndex :: "(string \<Rightarrow> string) \<Rightarrow> string \<Rightarrow> response" where
  "handleIndex tr path = (if path \<noteq> ''/'' then NotFound else HTMLPage (renderIndexHTML tr))"

definition web_handleStats :: "web_server \<Rightarrow> response" where
  "web_handleStats s = JSONDoc (stats_json (ws_Providers s))"

text \<open>\<open>None\<close> would be the dereference of a nil log.\<close>

definition handleLogs :: "web_server \<Rightarrow> response option" where
  "handleLogs s =
     (case (if ws_Events s \<noteq> None then EventLog_Snapshot (ws_Events s) else Some []) of
        None \<Rightarrow> None
      | Some events \<Rightarrow> Some (JSONDoc (JArr (map (\<lambda>e. JObj (event_fields e)) events))))"

definition web_Handler :: "(string \<Rightarrow> string) \<Rightarrow> web_server \<Rightarrow> string \<Rightarrow> response option" where
  "web_Handler tr s path =
     (if path = ''/api/stats'' then Some (web_handleStats s)
      else if path = ''/api/logs'' then handleLogs s
      else Some (handleIndex tr path))"

section \<open>Serving\<close>

text \<open>The copies of \<open>isLoopbackHost\<close> and \<open>ListenAndServe\<close> in web.go; the result of the second names the
  path taken, its messages apart.\<close>

definition web_isLoopbackHost :: "net_env \<Rightarrow> string \<Rightarrow> bool" where
  "web_isLoopbackHost env addr =
     (case SplitHostPort addr of
        Inl _ \<Rightarrow> False
      | Inr (host, _) \<Rightarrow>
          if host = [] then False
          else (case ParseIP host of
                  None \<Rightarrow>
                    (case LookupIP env host of
                       None \<Rightarrow> False
                     | Some ips \<Rightarrow> if ips = [] then False else list_all IsLoopback ips)
                | Some ip \<Rightarrow> IsLoopback ip))"

definition web_ListenAndServe ::
    "net_env \<Rightarrow> string \<Rightarrow> bool \<Rightarrow> (string + unit) \<Rightarrow> serve_outcome \<Rightarrow> endpoint_result" where
  "web_ListenAndServe env Addr AllowPublic listen serve =
     (if Addr = [] then EndpointOff
      else if \<not> AllowPublic \<and> \<not> web_isLoopbackHost env Addr then EndpointPublic Addr
      else (case listen of
              Inl err \<Rightarrow> EndpointListenError err
            | Inr _ \<Rightarrow> (case serve of
                  ErrServerClosed \<Rightarrow> EndpointStopped
                | ServeOtherError err \<Rightarrow> EndpointServeError err
                | ServeNil \<Rightarrow> EndpointNil)))"

lemma web_copies_agree: "web_isLoopbackHost = isLoopbackHost" "web_ListenAndServe = endpoint_ListenAndServe"
  by (simp_all add: web_isLoopbackHost_def isLoopbackHost_def web_ListenAndServe_def endpoint_ListenAndServe_def fun_eq_iff)

text \<open>\<open>ListenAndServe\<close> after the listen call, with package \<open>net/http\<close> as documented: \<open>Serve\<close> accepts
  until \<open>Shutdown\<close> is called and then returns at once, or fails; \<open>Shutdown\<close> waits for the active requests
  or for its context.\<close>

datatype shut_stage = ShutWaitCtx | ShutWaitIdle | ShutDone

record http_life =
  hl_ctx :: bool
  hl_open :: bool
  hl_active :: nat
  hl_shut :: shut_stage
  hl_returned :: bool
  hl_failed :: bool

definition http_start :: http_life where
  "http_start = \<lparr>hl_ctx = False, hl_open = True, hl_active = 0, hl_shut = ShutWaitCtx, hl_returned = False, hl_failed = False\<rparr>"

inductive http_step :: "http_life \<Rightarrow> http_life \<Rightarrow> bool" where
  hs_accept: "hl_open s \<Longrightarrow> http_step s (s\<lparr>hl_active := hl_active s + 1\<rparr>)"
| hs_finish: "hl_active s > 0 \<Longrightarrow> http_step s (s\<lparr>hl_active := hl_active s - 1\<rparr>)"
| hs_cancel: "\<not> hl_ctx s \<Longrightarrow> http_step s (s\<lparr>hl_ctx := True\<rparr>)"
| hs_shutdown: "hl_ctx s \<Longrightarrow> hl_shut s = ShutWaitCtx \<Longrightarrow> http_step s (s\<lparr>hl_shut := ShutWaitIdle, hl_open := False\<rparr>)"
| hs_drained: "hl_shut s = ShutWaitIdle \<Longrightarrow> hl_active s = 0 \<Longrightarrow> http_step s (s\<lparr>hl_shut := ShutDone\<rparr>)"
| hs_timeout: "hl_shut s = ShutWaitIdle \<Longrightarrow> http_step s (s\<lparr>hl_shut := ShutDone\<rparr>)"
| hs_error: "hl_open s \<Longrightarrow> \<not> hl_returned s \<Longrightarrow> http_step s (s\<lparr>hl_open := False, hl_returned := True, hl_failed := True\<rparr>)"
| hs_return: "hl_shut s \<noteq> ShutWaitCtx \<Longrightarrow> \<not> hl_returned s \<Longrightarrow> http_step s (s\<lparr>hl_returned := True\<rparr>)"

inductive_cases http_stepE [step_elims]: "http_step s t"

definition http_inv :: "http_life \<Rightarrow> bool" where
  "http_inv s \<longleftrightarrow> (hl_open s \<longleftrightarrow> hl_shut s = ShutWaitCtx \<and> \<not> hl_failed s) \<and>
     (hl_shut s \<noteq> ShutWaitCtx \<longrightarrow> hl_ctx s) \<and> (hl_returned s \<longrightarrow> \<not> hl_open s) \<and> (hl_failed s \<longrightarrow> hl_returned s)"

interpretation http_sys: invariant_system "\<lambda>s. s = http_start" http_step http_inv
proof unfold_locales
  fix s t assume "http_inv s" "http_step s t"
  then show "http_inv t" by (elim http_stepE) (auto simp: http_inv_def)
qed (simp add: http_inv_def http_start_def)

text \<open>Once \<open>ListenAndServe\<close> is back no new request is served, and it comes back only after the
  cancellation or a failure of \<open>Serve\<close>; but it does not wait for \<open>Shutdown\<close>: it can be back while
  requests are still being answered.\<close>

theorem http_shutdown_not_awaited:
  assumes "reach (\<lambda>s. s = http_start) http_step s" "hl_returned s"
  shows "\<not> hl_open s \<and> (hl_ctx s \<or> hl_failed s) \<and>
    (\<forall>t. http_step s t \<longrightarrow> hl_active t \<le> hl_active s \<and> hl_returned t) \<and>
    (\<exists>u. reach (\<lambda>s. s = http_start) http_step u \<and> hl_returned u \<and> \<not> hl_failed u \<and> hl_active u = n \<and> hl_shut u = ShutWaitIdle)"
proof -
  have i: "http_inv s" by (rule http_sys.inv_reach [OF assms(1)])
  have o: "\<not> hl_open s" "hl_ctx s \<or> hl_failed s" using i assms(2) by (auto simp: http_inv_def)
  have "hl_active t \<le> hl_active s \<and> hl_returned t" if "http_step s t" for t
    using that o(1) assms(2) by (elim http_stepE) auto
  moreover have "reach (\<lambda>s. s = http_start) http_step (http_start\<lparr>hl_active := n\<rparr>)"
  proof (induction n)
    case 0
    show ?case by (rule reach_init) (simp add: http_start_def)
  next
    case (Suc n)
    show ?case using reach_step [OF Suc hs_accept] by (simp add: http_start_def)
  qed
  note r0 = this
  have r1: "reach (\<lambda>s. s = http_start) http_step (http_start\<lparr>hl_active := n, hl_ctx := True\<rparr>)"
    using reach_step [OF r0 hs_cancel] by (simp add: http_start_def)
  have r2: "reach (\<lambda>s. s = http_start) http_step (http_start\<lparr>hl_active := n, hl_ctx := True, hl_shut := ShutWaitIdle, hl_open := False\<rparr>)"
    using reach_step [OF r1 hs_shutdown] by (simp add: http_start_def)
  have r3: "reach (\<lambda>s. s = http_start) http_step
      (http_start\<lparr>hl_active := n, hl_ctx := True, hl_shut := ShutWaitIdle, hl_open := False, hl_returned := True\<rparr>)"
    using reach_step [OF r2 hs_return] by (simp add: http_start_def)
  ultimately show ?thesis using o r3
    by (intro conjI allI impI exI [of _ "http_start\<lparr>hl_active := n, hl_ctx := True, hl_shut := ShutWaitIdle, hl_open := False, hl_returned := True\<rparr>"])
      (auto simp: http_start_def)
qed

lemma http_shutdown_not_awaited_witness:
  "\<exists>u. reach (\<lambda>s. s = http_start) http_step u \<and> hl_returned u \<and> hl_active u = 2 \<and> hl_shut u = ShutWaitIdle"
proof -
  have f: "http_step http_start (http_start\<lparr>hl_open := False, hl_returned := True, hl_failed := True\<rparr>)"
    by (rule hs_error) (simp_all add: http_start_def)
  have r: "reach (\<lambda>s. s = http_start) http_step (http_start\<lparr>hl_open := False, hl_returned := True, hl_failed := True\<rparr>)"
    by (rule reach_step [where step = http_step, OF _ f]) (rule reach_init, simp)
  show ?thesis using http_shutdown_not_awaited [OF r, of 2] by auto
qed

text \<open>The web panel serves its page at the root only, at \<open>/api/stats\<close> the very document the statistics
  endpoint serves at \<open>/stats\<close>, with the uptime in nanoseconds and in seconds, at \<open>/api/logs\<close> one entry
  per logged event and none without a log (a nil log is never dereferenced), and nothing elsewhere.\<close>

theorem web_endpoints_report_what_was_counted:
  "(web_Handler tr s path = Some (HTMLPage page) \<longleftrightarrow> path = ''/'' \<and> page = renderIndexHTML tr) \<and>
   web_Handler tr s ''/api/stats'' = Some (stats_Handler (ws_Providers s) ''/stats'') \<and>
   (\<exists>d. web_Handler tr s ''/api/logs'' = Some (JSONDoc (JArr d)) \<and>
      length d = (case ws_Events s of None \<Rightarrow> 0 | Some l \<Rightarrow> length (log_entries l))) \<and>
   (path \<notin> {''/'', ''/api/stats'', ''/api/logs''} \<longrightarrow> web_Handler tr s path = Some NotFound) \<and>
   (\<exists>fs. stats_json (ws_Providers s) = JObj fs \<and> distinct (map fst fs) \<and>
      map_of fs ''uptime_ns'' = Some (JInt (Uptime (Aggregate (ws_Providers s)))) \<and>
      map_of fs ''uptime_seconds'' = Some (JRat (of_int (Uptime (Aggregate (ws_Providers s))) / 1000000000)))"
  by (auto simp: web_Handler_def handleIndex_def web_handleStats_def stats_Handler_def stats_handleStats_def handleLogs_def
      EventLog_Snapshot_def stats_json_def Let_def snapshot_fields_def split: option.splits)

lemma web_endpoints_report_what_was_counted_witness:
  "web_Handler (\<lambda>k. k) \<lparr>ws_Providers = [], ws_Events = None\<rparr> ''/favicon.ico'' = Some NotFound \<and>
   web_Handler (\<lambda>k. k) \<lparr>ws_Providers = [], ws_Events = None\<rparr> ''/api/logs'' = Some (JSONDoc (JArr []))"
  using web_endpoints_report_what_was_counted [of "\<lambda>k. k" "\<lparr>ws_Providers = [], ws_Events = None\<rparr>" "''/favicon.ico''"] by auto

end
