(* ===== verification/Status_Signal.thy ===== *)
theory Status_Signal
  imports I18n_Messages Stats_Model Go_Duration
begin

text \<open>
  The status line on SIGUSR1, signals_unix.go: \<open>watchStatusSignal\<close> keeps one signal pending in a
  channel of one place (further ones are dropped by \<open>os/signal\<close>) and prints a snapshot for it, until
  the context is cancelled.  The arguments of the message are checked against its directives.
\<close>

section \<open>The line\<close>

datatype log_arg = ArgInt int | ArgString string

definition status_args :: "Snapshot \<Rightarrow> log_arg list" where
  "status_args snap =
     [ArgInt (sint (ActiveConns snap)), ArgInt (sint (TotalConns snap)), ArgInt (sint (RejectedConns snap)),
      ArgInt (sint (DialErrors snap)), ArgInt (sint (UpBytes snap)), ArgInt (sint (DownBytes snap)),
      ArgString (Duration_String (Duration_Round (Uptime snap) 1000000000))]"

text \<open>What package \<open>fmt\<close> accepts without an error mark: a verb for every argument, of its kind.\<close>

fun verb_fits :: "char \<Rightarrow> log_arg \<Rightarrow> bool" where
  "verb_fits c (ArgInt i) = (c \<in> set ''dv'')"
| "verb_fits c (ArgString s) = (c \<in> set ''sqv'')"

definition format_fits :: "string \<Rightarrow> log_arg list \<Rightarrow> bool" where
  "format_fits f args \<longleftrightarrow>
     map fst (directives f) = [0..<length args] \<and> list_all2 verb_fits (map snd (directives f)) args"

section \<open>The watcher\<close>

text \<open>\<open>w_signals\<close> counts the signals delivered to the process while it is watched.\<close>

record watcher =
  wt_ctx :: bool
  wt_pending :: bool
  wt_stopped :: bool
  wt_lines :: "Snapshot list"
  wt_signals :: nat

definition watch_start :: watcher where
  "watch_start = \<lparr>wt_ctx = False, wt_pending = False, wt_stopped = False, wt_lines = [], wt_signals = 0\<rparr>"

inductive watch_step :: "watcher \<Rightarrow> watcher \<Rightarrow> bool" where
  wt_signal: "\<not> wt_stopped w \<Longrightarrow> watch_step w (w\<lparr>wt_pending := True, wt_signals := wt_signals w + 1\<rparr>)"
| wt_cancel: "watch_step w (w\<lparr>wt_ctx := True\<rparr>)"
| wt_print: "\<not> wt_stopped w \<Longrightarrow> wt_pending w \<Longrightarrow> watch_step w (w\<lparr>wt_pending := False, wt_lines := wt_lines w @ [snap]\<rparr>)"
| wt_stop: "\<not> wt_stopped w \<Longrightarrow> wt_ctx w \<Longrightarrow> watch_step w (w\<lparr>wt_stopped := True\<rparr>)"

inductive_cases watch_stepE [step_elims]: "watch_step w w'"

definition watch_inv :: "watcher \<Rightarrow> bool" where
  "watch_inv w \<longleftrightarrow> length (wt_lines w) + of_bool (wt_pending w) \<le> wt_signals w \<and>
     (wt_signals w > 0 \<longrightarrow> wt_pending w \<or> wt_lines w \<noteq> []) \<and> (wt_stopped w \<longrightarrow> wt_ctx w)"

interpretation watch_sys: invariant_system "\<lambda>w. w = watch_start" watch_step watch_inv
proof unfold_locales
  fix w w' assume "watch_inv w" "watch_step w w'"
  then show "watch_inv w'" by (elim watch_stepE) (auto simp: watch_inv_def split: if_splits)
qed (simp add: watch_inv_def watch_start_def)

lemma status_directives:
  "directives (message_lookup messages l ''log.status-full'') =
     map (\<lambda>i. (i, if i < 6 then CHR ''d'' else CHR ''s'')) [0..<7]"
proof -
  have k: "''log.status-full'' \<in> set message_keys" by (simp add: message_keys_def keys_forward_def keys_common_def)
  have "map_of message_args ''log.status-full'' = Some (map (\<lambda>i. (i, if i < 6 then CHR ''d'' else CHR ''s'')) [0..<7])"
    by (simp add: message_args_def message_args_main_def upt_rec)
  then have d: "map_option directives (map_of (message_table l) ''log.status-full'') =
      Some (map (\<lambda>i. (i, if i < 6 then CHR ''d'' else CHR ''s'')) [0..<7])"
    by (simp only: table_directives)
  then obtain m where "map_of (message_table l) ''log.status-full'' = Some m"
      "directives m = map (\<lambda>i. (i, if i < 6 then CHR ''d'' else CHR ''s'')) [0..<7]" by blast
  then show ?thesis by (simp add: message_lookup_def messages_def)
qed

text \<open>At most one line is printed for a signal, and after a signal a line has been printed or can
  still be, unless the watcher was stopped by the cancellation, after which nothing is printed; in
  every language the arguments of the line fit the directives of its message, and the printed uptime
  is within half a second.\<close>

theorem status_signal_prints_well_formed_lines:
  assumes "reach (\<lambda>w. w = watch_start) watch_step w"
  shows "length (wt_lines w) \<le> wt_signals w \<and>
    (0 < wt_signals w \<and> \<not> wt_stopped w \<longrightarrow> wt_lines w \<noteq> [] \<or> (\<exists>w'. watch_step w w' \<and> wt_lines w' \<noteq> [])) \<and>
    (wt_stopped w \<longrightarrow> wt_ctx w \<and> (\<forall>w'. watch_step w w' \<longrightarrow> wt_lines w' = wt_lines w)) \<and>
    (\<forall>l snap. format_fits (message_lookup messages l ''log.status-full'') (status_args snap)) \<and>
    \<bar>Duration_Round (sint (d :: i64)) 1000000000 - sint d\<bar> \<le> 500000000"
proof -
  have i: "watch_inv w" by (rule watch_sys.inv_reach [OF assms])
  have p: "\<exists>w'. watch_step w w' \<and> wt_lines w' \<noteq> []" if "wt_pending w" "\<not> wt_stopped w"
    using wt_print [OF that(2,1)] by fastforce
  have s: "wt_lines w' = wt_lines w" if "wt_stopped w" "watch_step w w'" for w'
    using that(2,1) by (elim watch_stepE) auto
  have f: "format_fits (message_lookup messages l ''log.status-full'') (status_args snap)" for l snap
    unfolding format_fits_def status_directives by (simp add: status_args_def upt_rec)
  have r: "\<bar>Duration_Round (sint d) 1000000000 - sint d\<bar> \<le> 500000000"
    using Duration_Round_close [of 1000000000 "sint d"] sint_i64_range [of d] by simp
  show ?thesis using i p s f r by (auto simp: watch_inv_def)
qed

lemma status_signal_prints_well_formed_lines_witness:
  "format_fits (message_lookup messages Japanese ''log.status-full'') (status_args zeroSnapshot) \<and>
   \<bar>Duration_Round 1500000000 1000000000 - 1500000000\<bar> \<le> 500000000"
  using status_signal_prints_well_formed_lines [OF reach_init [of "\<lambda>w. w = watch_start" watch_start watch_step], of 1500000000]
  by simp

end
