(* ===== verification/Spec2Isabelle.thy ===== *)
theory Spec2Isabelle
  imports Stats_Model Self_Target Idle_Model Relay_Model Forward_Model Udp_Model Proxy_Server Socks5_Model Http_Proxy
    I18n_Model Go_Flags Config_Model Socat_Model Upstream_Config Ssh_Model Ssh_Probe
    Http_Trailer Cli_Summary Cli_Servers Load_Report Web_Model Status_Signal
begin

text \<open>
  portmap is a port forwarder for TCP and UDP and a proxy that speaks SOCKS5 and HTTP on one port,
  written in Go.  The library models its code under src/ by shallow embedding: the pure functions
  are HOL functions, a handler is a function of the state and of what the environment answers, and
  goroutines that share state are step relations with one action for each atomic operation or
  locked section.

  \<^bold>\<open>How the program works.\<close>  main.go parses the command line and an optional YAML file
  (config.go) into options of one or several instances, and starts for each a forwarder
  (internal/forward) or a proxy (internal/proxy), with the statistics endpoint (internal/stats) and
  the web panel (internal/web) beside them; it waits for all of them and returns the first error.
  A forwarder accepts connections or datagrams, takes a slot of a semaphore, dials the target and
  relays (internal/netutil) until both directions have ended; it refuses a target that is its own
  listener.  The proxy sniffs the first byte, reads a SOCKS5 request or HTTP requests, dials directly
  or through an upstream (SOCKS5, HTTP CONNECT or SSH) and relays.  Counters and a bounded log of
  events feed the endpoints.  internal/i18n holds the texts, internal/socat the fallback that runs
  the program socat, cmd/loadtest a tool that loads a forwarder.

  \<^bold>\<open>Theories and sources.\<close>

  \<^item> \<open>PM_Prelude\<close>: strings as Go uses them, \<open>net.JoinHostPort\<close> and \<open>SplitHostPort\<close>, reachability, and
    the contracts \<open>invariant_system\<close> (an invariant kept by every step) and \<open>ranked_system\<close> (runs of
    bounded length).  \<open>Thread_Pool\<close>: pools of goroutines over a shared state, with the contracts
    \<open>pool_invariant\<close>, \<open>pool_resources\<close> (nothing gets lost) and \<open>pool_rank\<close> (everything ends).
  \<^item> \<open>Net_IP\<close>: \<open>net.IP\<close>, the loopback guard, local addresses.  \<open>Self_Target\<close>: forward/selftarget.go.
  \<^item> \<open>Stats_Model\<close>: stats/stats.go, events.go, http.go.  \<open>Web_Page\<close>, \<open>Web_Model\<close>: web/web.go with its
    page, the JSON documents of both endpoints and the life of their HTTP servers.
  \<^item> \<open>Idle_Model\<close>: netutil/tcp_idle.go and \<open>IdleConn\<close>.  \<open>Relay_Model\<close>: the relays of netutil.go.
  \<^item> \<open>Sem_Model\<close>, \<open>Fwd_Config\<close>, \<open>Forward_Model\<close>, \<open>Udp_Model\<close>: the semaphore, the configuration and the two
    servers of forward.go and udp.go; listener, handlers and sessions with their clean-up actions.
  \<^item> \<open>Proxy_Server\<close>: proxy/server.go, the life of the server with \<open>Close\<close> and \<open>Shutdown\<close> running beside
    its handlers.  \<open>Socks5_Model\<close>: socks5.go.  \<open>Http_Proxy\<close>: http.go;
    \<open>Http_Trailer\<close>: its trailers, as maps shared by reference with \<open>net/http\<close>.
  \<^item> \<open>Upstream_Config\<close>, \<open>Upstream_Dial\<close>, \<open>Ssh_Auth\<close>, \<open>Ssh_Model\<close>, \<open>Ssh_Probe\<close>: upstream.go and dialer.go: the parsing of
    the upstream URL, the dialers and the race of a dial with its context, authentication and agent,
    and the SSH client shared by all dials (handshake, supervision, reconnection, \<open>Close\<close>), and the
    race inside one health probe.
  \<^item> \<open>I18n_Model\<close>: i18n.go.  \<open>Msg_Text\<close>, \<open>Msg_EN\<close> to \<open>Msg_DE\<close>, \<open>I18n_Messages\<close>: the keys and the six tables of
    messages.  \<open>Status_Signal\<close>: signals_unix.go.
  \<^item> \<open>Go_Flags\<close>: package \<open>flag\<close>, numbers and durations.  \<open>Go_Duration\<close>, \<open>Go_Format\<close>: how
    durations and figures are printed, and that Go's parsers read them back.  \<open>Config_Model\<close>: config.go.  \<open>Socat_Model\<close>:
    socat.go.  \<open>Cli_Options\<close>, \<open>Cli_Model\<close>, \<open>Cli_Props\<close>, \<open>Cli_Multi\<close>: the options and the choice of what to run
    in main.go.  \<open>Cli_Run\<close>: the goroutines of several instances and of a proxy with its endpoints.
    \<open>Cli_Servers\<close>: the configuration of every server a command line starts.  \<open>Cli_Summary\<close>: the line of
    the effective configuration.
  \<^item> \<open>Load_Options\<close>, \<open>Load_Worker\<close>, \<open>Load_Sampler\<close>, \<open>Load_Test\<close>, \<open>Load_Report\<close>: cmd/loadtest/main.go: options and exit codes,
    the loops of the workers, the lock-free sampler, and chain, result, thresholds and
    the two reports.

  Definitions have the names of the code where Isabelle allows them; a record has the fields of the
  struct, with a prefix.  A function that returns \<open>(T, error)\<close> returns \<open>error + T\<close>, with a constructor of
  an error type for each error of the source; \<open>None\<close> stands for Go's nil where a pointer or an error
  is optional.  \<open>int64\<close> and durations are 64-bit words where arithmetic can wrap and integers where
  values are only compared and added within range.

  \<^bold>\<open>What is shown.\<close>  For every component its functional behaviour on all paths, errors included, and
  for the concurrent ones an invariant over all reachable states and that they end:

  \<^item> forwarders: the limit of connections holds, every slot, session and connection is given back on
    every path, a server returns only after its handlers, and it can always drain;
  \<^item> proxy: no connection escapes \<open>Close\<close>, \<open>Shutdown\<close> spares the relays, request heads are framed
    exactly however the bytes arrive, headers and trailers are filtered, SOCKS requests are read as encoded and every error is answered;
  \<^item> upstreams: a tunnel is transparent, dials leak nothing, the SSH dialer has one handshake and one
    supervisor at a time, caches no client after \<open>Close\<close> and all its goroutines end;
  \<^item> command line: which source an option comes from, that several instances are valid and listen on
    different addresses, that admin settings must agree, that groups of servers always return, that the line of
    the effective configuration is read back to the options in force;
  \<^item> endpoints: loopback unless allowed, the documents report what was counted, no text can change the
    structure of the page; every language has every message with the same arguments;
  \<^item> load test: the sampler is a sequential reservoir for every interleaving and takes a bounded number
    of steps, every round is counted once, the reported figures are consistent with the requests and the same in both
    reports.

  Where the code does something else than its comments say, the theorem states what the code does
  (\<open>unknown_word_starts_default_forwarder\<close>, \<open>forward_validators_agree_up_to_mode\<close>,
  \<open>connect_half_close_depends_on_chunks\<close>, \<open>http_shutdown_not_awaited\<close>).

  \<^bold>\<open>Bounds.\<close>  Loops are structural over what the environment delivers (chunks, packets, rounds, probes)
  or have a measure; only \<open>run_handler\<close> counts the actions it may take, and 12 are enough for every way
  through the handler (\<open>handler_accounting_on_every_path\<close>).  The number of
  actions a run can take is proved: a connection handler of a forwarder at most 12 actions, a group
  of \<open>n\<close> instances \<open>4n + 10\<close>, a proxy with its endpoints 14, a dial racing its context 6, a call of the
  SSH agent 6, after \<open>Close\<close> 14 for each goroutine of the SSH dialer and two for each of its clock's
  ticks, and \<open>15 + 6w\<close> for each duration added to the sampler by one of \<open>w\<close> workers.

  \<^bold>\<open>Parameters.\<close>  The resolver and the interfaces (\<open>net_env\<close>), YAML and URL parsing, the environment, the
  terminal and files, the SSH handshake and key parsers of golang.org/x/crypto, the SOCKS5 client of
  golang.org/x/net, the message parsing of net/http, and the scheduling and outcome of every system call.
  Helpers that consult Unicode tables (\<open>strings.TrimSpace\<close>, \<open>ToLower\<close>) are modelled on ASCII, where
  the program uses them.  \<open>float64\<close> values are exact rational numbers; the fraction of a duration is
  computed exactly where Go rounds.  Sequence numbers of samples are natural numbers.

  \<^bold>\<open>Not modelled.\<close>  Log lines and their levels beyond the texts of the messages, the JavaScript of the
  web page, which is text here, the printing of JSON, the message parsing and serialising of net/http
  (its treatment of trailers apart), the \<open>sudo\<close> and process handling of socat beyond its arguments and
  its cancellation, and platforms other than Unix.  The call sites of the messages are not listed: only
  those of the status line and of the effective configuration are checked against what is printed.
\<close>

end
